(* ===== verification/Prelude.thy ===== *)
theory Prelude
  imports Main "HOL-Library.Sublist"
begin

text \<open>
  Shared by every component: the state-and-error monad the Go functions are written in, its
  pre/postcondition calculus, and the generic lemmas on lists and prefixes.

  A Go function that reads or mutates a state of type \<open>'s\<close> and returns \<open>(T, error)\<close> is a
  function \<open>'s \<Rightarrow> ('e + 'a) \<times> 's\<close>: \<open>Inl e\<close> is the early return with a non-nil error,
  \<open>Inr x\<close> the return with a nil error, and the second component is the state left behind in
  either case (an error does not undo what was already done).
\<close>

section \<open>The state-and-error monad\<close>

type_synonym ('s, 'e, 'a) io = "'s \<Rightarrow> ('e + 'a) \<times> 's"

definition ret :: "'a \<Rightarrow> ('s, 'e, 'a) io" where
  "ret x s = (Inr x, s)"

definition fail :: "'e \<Rightarrow> ('s, 'e, 'a) io" where
  "fail e s = (Inl e, s)"

text \<open>\<open>x, err := m(); if err != nil { return err }; k(x)\<close>\<close>

definition bindE :: "('s, 'e, 'a) io \<Rightarrow> ('a \<Rightarrow> ('s, 'e, 'b) io) \<Rightarrow> ('s, 'e, 'b) io" where
  "bindE m k s = (case m s of (Inl e, t) \<Rightarrow> (Inl e, t) | (Inr x, t) \<Rightarrow> k x t)"

text \<open>\<open>x, err := m(); k(x, err)\<close>: the caller looks at the error itself.\<close>

definition attempt :: "('s, 'e, 'a) io \<Rightarrow> ('e + 'a \<Rightarrow> ('s, 'e, 'b) io) \<Rightarrow> ('s, 'e, 'b) io" where
  "attempt m k s = (case m s of (r, t) \<Rightarrow> k r t)"

definition getS :: "('s \<Rightarrow> 'a) \<Rightarrow> ('s, 'e, 'a) io" where
  "getS f s = (Inr (f s), s)"

definition modifyS :: "('s \<Rightarrow> 's) \<Rightarrow> ('s, 'e, unit) io" where
  "modifyS f s = (Inr (), f s)"

text \<open>A pure step that may fail.\<close>

definition liftE :: "'e + 'a \<Rightarrow> ('s, 'e, 'a) io" where
  "liftE r s = (r, s)"

named_theorems io_defs \<open>unfolding of the monad's operations\<close>
named_theorems io_triples \<open>pre/postcondition rules\<close>
named_theorems path_simps \<open>rewriting of lexical path operations on rendered paths\<close>

lemmas [io_defs] = ret_def fail_def bindE_def attempt_def getS_def modifyS_def liftE_def

lemma bindE_ret [simp]: "bindE (ret x) k = k x"
  by (rule ext) (simp add: io_defs)

lemma bindE_fail [simp]: "bindE (fail e) k = fail e"
  by (rule ext) (simp add: io_defs)

lemma bindE_getS [simp]: "bindE (getS f) k s = k (f s) s"
  by (simp add: io_defs)

lemma bindE_Inr_iff:
  "bindE m k s = (Inr y, u) \<longleftrightarrow> (\<exists>x t. m s = (Inr x, t) \<and> k x t = (Inr y, u))"
  by (auto simp: io_defs split: prod.splits sum.splits)

lemma bindE_assoc: "bindE (bindE m k) l = bindE m (\<lambda>x. bindE (k x) l)"
  by (rule ext) (auto simp: io_defs split: prod.splits sum.splits)

section \<open>Triples\<close>

text \<open>
  \<open>triple P m Q E\<close>: from a state satisfying \<open>P\<close>, a successful return satisfies \<open>Q\<close> of the
  value and the final state, an error return satisfies \<open>E\<close> of the final state.
\<close>

definition triple ::
  "('s \<Rightarrow> bool) \<Rightarrow> ('s, 'e, 'a) io \<Rightarrow> ('a \<Rightarrow> 's \<Rightarrow> bool) \<Rightarrow> ('e \<Rightarrow> 's \<Rightarrow> bool) \<Rightarrow> bool" where
  "triple P m Q E \<longleftrightarrow>
     (\<forall>s. P s \<longrightarrow> (case m s of (Inl e, t) \<Rightarrow> E e t | (Inr x, t) \<Rightarrow> Q x t))"

lemma tripleI:
  assumes "\<And>s x t. P s \<Longrightarrow> m s = (Inr x, t) \<Longrightarrow> Q x t"
    and "\<And>s e t. P s \<Longrightarrow> m s = (Inl e, t) \<Longrightarrow> E e t"
  shows "triple P m Q E"
  using assms by (auto simp: triple_def split: prod.splits sum.splits)

lemma tripleD_Inr: "triple P m Q E \<Longrightarrow> P s \<Longrightarrow> m s = (Inr x, t) \<Longrightarrow> Q x t"
  by (fastforce simp: triple_def)

lemma tripleD_Inl: "triple P m Q E \<Longrightarrow> P s \<Longrightarrow> m s = (Inl e, t) \<Longrightarrow> E e t"
  by (fastforce simp: triple_def)

lemma triple_weaken:
  assumes "triple P m Q E" and "\<And>s. P' s \<Longrightarrow> P s"
    and "\<And>x s. Q x s \<Longrightarrow> Q' x s" and "\<And>e s. E e s \<Longrightarrow> E' e s"
  shows "triple P' m Q' E'"
  using assms by (fastforce simp: triple_def split: prod.splits sum.splits)

lemma triple_ret [io_triples]: "triple (Q x) (ret x) Q E"
  by (simp add: triple_def io_defs)

lemma triple_fail [io_triples]: "triple (E e) (fail e) Q E"
  by (simp add: triple_def io_defs)


lemma triple_getS [io_triples]: "triple (\<lambda>s. Q (f s) s) (getS f) Q E"
  by (simp add: triple_def io_defs)

lemma triple_modifyS [io_triples]: "triple (\<lambda>s. Q () (f s)) (modifyS f) Q E"
  by (simp add: triple_def io_defs)

lemma triple_bindE:
  assumes "triple P m R E" and "\<And>x. triple (R x) (k x) Q E"
  shows "triple P (bindE m k) Q E"
  unfolding triple_def
proof (intro allI impI)
  fix s
  assume P: "P s"
  obtain r t where m: "m s = (r, t)" by (cases "m s")
  show "case bindE m k s of (Inl e, t) \<Rightarrow> E e t | (Inr x, t) \<Rightarrow> Q x t"
  proof (cases r)
    case (Inl e)
    then show ?thesis using assms(1) P m by (auto simp: triple_def bindE_def)
  next
    case (Inr x)
    then have "R x t" using assms(1) P m by (auto simp: triple_def)
    then have "case k x t of (Inl e, t) \<Rightarrow> E e t | (Inr x, t) \<Rightarrow> Q x t"
      using assms(2) [of x] by (simp add: triple_def)
    then show ?thesis by (simp add: bindE_def m Inr)
  qed
qed

lemma triple_attempt:
  assumes "triple P m (\<lambda>x. R (Inr x)) (\<lambda>e. R (Inl e))" and "\<And>r. triple (R r) (k r) Q E"
  shows "triple P (attempt m k) Q E"
  unfolding triple_def
proof (intro allI impI)
  fix s
  assume P: "P s"
  obtain r t where m: "m s = (r, t)" by (cases "m s")
  have "R r t" using assms(1) P m by (cases r) (auto simp: triple_def)
  then have "case k r t of (Inl e, t) \<Rightarrow> E e t | (Inr x, t) \<Rightarrow> Q x t"
    using assms(2) [of r] by (simp add: triple_def)
  then show "case attempt m k s of (Inl e, t) \<Rightarrow> E e t | (Inr x, t) \<Rightarrow> Q x t"
    by (simp add: attempt_def m)
qed

text \<open>A step relation that a computation respects whatever it returns.\<close>

definition obeys :: "('s \<Rightarrow> 's \<Rightarrow> bool) \<Rightarrow> ('s, 'e, 'a) io \<Rightarrow> bool" where
  "obeys R m \<longleftrightarrow> (\<forall>s. R s (snd (m s)))"

lemma obeys_bindE:
  assumes "obeys R m" and "\<And>x. obeys R (k x)" and "transp R"
  shows "obeys R (bindE m k)"
  unfolding obeys_def
proof
  fix s
  obtain r t where m: "m s = (r, t)" by (cases "m s")
  have st: "R s t" using assms(1) m by (metis obeys_def snd_conv)
  show "R s (snd (bindE m k s))"
  proof (cases r)
    case (Inl e)
    then show ?thesis using m st by (simp add: bindE_def)
  next
    case (Inr x)
    have "R t (snd (k x t))" using assms(2) by (simp add: obeys_def)
    with st have "R s (snd (k x t))" using assms(3) by (blast dest: transpD)
    then show ?thesis using m Inr by (simp add: bindE_def)
  qed
qed

section \<open>Lists and prefixes\<close>

lemma prefix_iff_take: "prefix xs ys \<longleftrightarrow> take (length xs) ys = xs"
  by (metis append_eq_conv_conj append_take_drop_id prefix_def)

lemma prefix_drop_append: "prefix xs ys \<Longrightarrow> xs @ drop (length xs) ys = ys"
  by (metis append_take_drop_id prefix_iff_take)

lemma butlast_snoc_last: "xs \<noteq> [] \<Longrightarrow> butlast xs @ [last xs] = xs"
  by simp

lemma map_of_filter_key:
  "map_of (filter (\<lambda>kv. P (fst kv)) al) k = (if P k then map_of al k else None)"
  by (induction al) auto

lemma upd_nth: "xs[i := x] ! j = (if j = i \<and> i < length xs then x else xs ! j)"
  by (cases "i < length xs") (auto simp: nth_list_update list_update_beyond)

lemma sum_case_Inr_iff:
  "(case r of Inl e \<Rightarrow> Inl e | Inr x \<Rightarrow> f x) = Inr y \<longleftrightarrow> (\<exists>x. r = Inr x \<and> f x = Inr y)"
  by (cases r) auto

end
