(* ===== verification/GoStrings.thy ===== *)
theory GoStrings
  imports Prelude
begin

text \<open>
  The parts of Go's \<open>strings\<close> and \<open>bytes\<close> packages the program calls. A Go string is a
  sequence of bytes, here a \<^typ>\<open>string\<close> (a list of 8-bit characters). White space is
  \<open>unicode.IsSpace\<close>: its runes are listed by their UTF-8 encodings, so that trimming works on
  the bytes as the library does.
\<close>

section \<open>White space\<close>

definition space_encodings :: "string list" where
  "space_encodings =
     [[CHR 0x09], [CHR 0x0A], [CHR 0x0B], [CHR 0x0C], [CHR 0x0D], [CHR 0x20],
      [CHR 0xC2, CHR 0x85], [CHR 0xC2, CHR 0xA0], [CHR 0xE1, CHR 0x9A, CHR 0x80],
      [CHR 0xE2, CHR 0x80, CHR 0x80], [CHR 0xE2, CHR 0x80, CHR 0x81],
      [CHR 0xE2, CHR 0x80, CHR 0x82], [CHR 0xE2, CHR 0x80, CHR 0x83],
      [CHR 0xE2, CHR 0x80, CHR 0x84], [CHR 0xE2, CHR 0x80, CHR 0x85],
      [CHR 0xE2, CHR 0x80, CHR 0x86], [CHR 0xE2, CHR 0x80, CHR 0x87],
      [CHR 0xE2, CHR 0x80, CHR 0x88], [CHR 0xE2, CHR 0x80, CHR 0x89],
      [CHR 0xE2, CHR 0x80, CHR 0x8A], [CHR 0xE2, CHR 0x80, CHR 0xA8],
      [CHR 0xE2, CHR 0x80, CHR 0xA9], [CHR 0xE2, CHR 0x80, CHR 0xAF],
      [CHR 0xE2, CHR 0x81, CHR 0x9F], [CHR 0xE3, CHR 0x80, CHR 0x80]]"

text \<open>Strip any of the given (non-empty) encodings from the front, repeatedly.\<close>

function strip_front :: "string list \<Rightarrow> string \<Rightarrow> string" where
  "strip_front encs s =
     (case find (\<lambda>e. e \<noteq> [] \<and> prefix e s) encs of
        None \<Rightarrow> s
      | Some e \<Rightarrow> strip_front encs (drop (length e) s))"
  by pat_completeness auto
termination
proof (relation "measure (\<lambda>(encs, s). length s)", goal_cases)
  case 1
  show ?case by simp
next
  case (2 encs s e)
  then have "e \<noteq> []" and "prefix e s" by (auto simp: find_Some_iff)
  then have "0 < length e" and "length e \<le> length s" by (auto dest: prefix_length_le)
  then show ?case by (auto simp del: length_greater_0_conv)
qed

declare strip_front.simps [simp del]

definition TrimLeftSpace :: "string \<Rightarrow> string" where
  "TrimLeftSpace s = strip_front space_encodings s"

definition TrimRightSpace :: "string \<Rightarrow> string" where
  "TrimRightSpace s = rev (strip_front (map rev space_encodings) (rev s))"

definition TrimSpace :: "string \<Rightarrow> string" where
  "TrimSpace s = TrimRightSpace (TrimLeftSpace s)"

text \<open>\<open>strings.TrimSpace(s) == ""\<close>, the test the code writes for ``blank''.\<close>

abbreviation blank :: "string \<Rightarrow> bool" where
  "blank s \<equiv> TrimSpace s = []"

lemma strip_front_set:
  assumes "c \<in> set s" and "\<forall>e \<in> set encs. c \<notin> set e"
  shows "c \<in> set (strip_front encs s)"
  using assms
proof (induction encs s rule: strip_front.induct)
  case (1 encs s)
  show ?case
  proof (cases "find (\<lambda>e. e \<noteq> [] \<and> prefix e s) encs")
    case None
    then show ?thesis using "1.prems" by (simp add: strip_front.simps [of encs s])
  next
    case (Some e)
    then have e: "e \<in> set encs" "prefix e s" by (auto simp: find_Some_iff)
    then have s: "s = e @ drop (length e) s" by (simp add: prefix_drop_append)
    have "c \<notin> set e" using e "1.prems"(2) by blast
    with "1.prems"(1) s have "c \<in> set (drop (length e) s)" by (metis Un_iff set_append)
    then have "c \<in> set (strip_front encs (drop (length e) s))"
      using "1.IH" Some "1.prems"(2) by blast
    then show ?thesis using Some by (simp add: strip_front.simps [of encs s])
  qed
qed

lemma TrimSpace_keeps:
  assumes "c \<in> set s" and "\<forall>e \<in> set space_encodings. c \<notin> set e"
  shows "c \<in> set (TrimSpace s)"
proof -
  have "c \<in> set (TrimLeftSpace s)"
    using assms by (simp add: TrimLeftSpace_def strip_front_set)
  then have "c \<in> set (rev (TrimLeftSpace s))" by simp
  then have "c \<in> set (strip_front (map rev space_encodings) (rev (TrimLeftSpace s)))"
    by (rule strip_front_set) (use assms(2) in auto)
  then show ?thesis by (simp add: TrimSpace_def TrimRightSpace_def)
qed

lemma blank_Nil [simp]: "blank []"
  by (simp add: TrimSpace_def TrimRightSpace_def TrimLeftSpace_def strip_front.simps
      space_encodings_def)

lemma slash_not_blank: "CHR ''/'' \<in> set s \<Longrightarrow> \<not> blank s"
  by (drule TrimSpace_keeps) (auto simp: space_encodings_def)

lemma dot_not_blank: "CHR ''.'' \<in> set s \<Longrightarrow> \<not> blank s"
  by (drule TrimSpace_keeps) (auto simp: space_encodings_def)

section \<open>Splitting and joining\<close>

text \<open>\<open>strings.Split(s, sep)\<close> and \<open>strings.Join(xs, sep)\<close> for a one-byte separator.\<close>

fun split_on :: "char \<Rightarrow> string \<Rightarrow> string list" where
  "split_on c [] = [[]]"
| "split_on c (x # xs) =
     (if x = c then [] # split_on c xs
      else (case split_on c xs of [] \<Rightarrow> [[x]] | y # ys \<Rightarrow> (x # y) # ys))"

fun join_with :: "char \<Rightarrow> string list \<Rightarrow> string" where
  "join_with c [] = []"
| "join_with c [x] = x"
| "join_with c (x # y # ys) = x @ c # join_with c (y # ys)"

lemma split_on_ne [simp]: "split_on c s \<noteq> []"
  by (induction s) (auto split: list.splits)

lemma split_on_parts: "p \<in> set (split_on c s) \<Longrightarrow> c \<notin> set p"
  by (induction s arbitrary: p) (auto split: list.splits if_splits)

lemma split_on_append_sep:
  "split_on c (xs @ c # ys) = split_on c xs @ split_on c ys"
  by (induction xs) (auto split: list.splits)

lemma split_on_single [simp]: "c \<notin> set s \<Longrightarrow> split_on c s = [s]"
  by (induction s) auto

lemma join_split: "join_with c (split_on c s) = s"
proof (induction s)
  case (Cons x xs)
  then show ?case
    by (cases "split_on c xs"; cases "tl (split_on c xs)") auto
qed simp

lemma split_join:
  "xs \<noteq> [] \<Longrightarrow> \<forall>x \<in> set xs. c \<notin> set x \<Longrightarrow> split_on c (join_with c xs) = xs"
  by (induction c xs rule: join_with.induct) (auto simp: split_on_append_sep)

lemma join_with_append:
  "xs \<noteq> [] \<Longrightarrow> ys \<noteq> [] \<Longrightarrow> join_with c (xs @ ys) = join_with c xs @ c # join_with c ys"
proof (induction c xs rule: join_with.induct)
  case (2 c x)
  then show ?case by (cases ys) auto
qed auto

lemma join_with_Cons: "ys \<noteq> [] \<Longrightarrow> join_with c (y # ys) = y @ c # join_with c ys"
  by (cases ys) auto

text \<open>Total length of the parts, each counted with one separator.\<close>

definition slen :: "string list \<Rightarrow> nat" where
  "slen xs = sum_list (map (\<lambda>x. Suc (length x)) xs)"

lemma slen_simps [simp]:
  "slen [] = 0" "slen (x # xs) = Suc (length x) + slen xs" "slen (xs @ ys) = slen xs + slen ys"
  by (auto simp: slen_def)

lemma slen_split: "slen (split_on c s) = Suc (length s)"
  by (induction s) (auto split: list.splits)

lemma length_join: "xs \<noteq> [] \<Longrightarrow> Suc (length (join_with c xs)) = slen xs"
  by (induction c xs rule: join_with.induct) auto

section \<open>Prefixes and case\<close>

definition HasPrefix :: "string \<Rightarrow> string \<Rightarrow> bool" where
  "HasPrefix s p = prefix p s"

definition TrimPrefix :: "string \<Rightarrow> string \<Rightarrow> string" where
  "TrimPrefix s p = (if prefix p s then drop (length p) s else s)"

definition ascii_lower :: "char \<Rightarrow> char" where
  "ascii_lower c = (let n = of_char c :: nat in if 65 \<le> n \<and> n \<le> 90 then char_of (n + 32) else c)"

definition is_ascii :: "string \<Rightarrow> bool" where
  "is_ascii s = list_all (\<lambda>c. (of_char c :: nat) < 128) s"

text \<open>
  \<open>strings.ToLower\<close>: the ASCII fast path, and the Unicode case tables (parameter \<open>ulower\<close>)
  for a string with a byte of 128 or more.
\<close>

definition ToLower :: "(string \<Rightarrow> string) \<Rightarrow> string \<Rightarrow> string" where
  "ToLower ulower s = (if is_ascii s then map ascii_lower s else ulower s)"

end
