(* ===== verification/GoErrors.thy ===== *)
theory GoErrors
  imports Prelude
begin

text \<open>
  Go's \<open>error\<close> values as the program builds and inspects them: sentinels, operating-system
  error numbers, the \<open>*PathError\<close> the \<open>os\<close> package wraps them in, \<open>fmt.Errorf("...: %w", err)\<close>
  and \<open>errors.Join\<close>.
\<close>

datatype errno =
  ENOENT | ENOTDIR | ELOOP | EEXIST | EISDIR | ENOTEMPTY | EINVAL | EACCES | ENOSPC | EIO

datatype goerr =
    ErrMsg string
  | ErrEscapeAttempt
  | ErrNotExist
  | ErrNoEnvKey
  | Errno errno
  | PathErr string string goerr
  | Wrapped string goerr
  | Joined "goerr list"

text \<open>The verb \<open>%q\<close> for a string with nothing to escape.\<close>

definition quoted :: "string \<Rightarrow> string" where
  "quoted s = CHR 0x22 # s @ [CHR 0x22]"

text \<open>
  \<open>errors.Is\<close>: equal to the target, or claimed equal by \<open>syscall.Errno.Is\<close>, or some error
  reached by \<open>Unwrap\<close> is.
\<close>

definition errno_is :: "errno \<Rightarrow> goerr \<Rightarrow> bool" where
  "errno_is n t = (n = ENOENT \<and> t = ErrNotExist)"

fun errors_is :: "goerr \<Rightarrow> goerr \<Rightarrow> bool" where
  "errors_is (PathErr op p e) t = (PathErr op p e = t \<or> errors_is e t)"
| "errors_is (Wrapped m e) t = (Wrapped m e = t \<or> errors_is e t)"
| "errors_is (Joined es) t = (Joined es = t \<or> list_ex (\<lambda>e. errors_is e t) es)"
| "errors_is (Errno n) t = (Errno n = t \<or> errno_is n t)"
| "errors_is e t = (e = t)"

text \<open>\<open>os.IsNotExist\<close> looks through one \<open>*PathError\<close> only, not through \<open>Unwrap\<close>.\<close>

definition underlying :: "goerr \<Rightarrow> goerr" where
  "underlying e = (case e of PathErr op p e' \<Rightarrow> e' | _ \<Rightarrow> e)"

definition is_not_exist :: "goerr \<Rightarrow> bool" where
  "is_not_exist e = (underlying e = ErrNotExist \<or> underlying e = Errno ENOENT)"

lemma errors_is_refl [simp]: "errors_is e e"
  by (cases e) auto

lemma is_not_exist_PathErr [simp]:
  "is_not_exist (PathErr op p (Errno n)) \<longleftrightarrow> n = ENOENT"
  by (simp add: is_not_exist_def underlying_def)

end
