(* ===== verification/GoFilepath.thy ===== *)
theory GoFilepath
  imports GoStrings GoErrors
begin

text \<open>
  Go's \<open>path/filepath\<close> on a Unix host (separator \<open>/\<close>, no volume names), by components: a path
  is split at every slash, \<open>Clean\<close> folds the parts over a stack, and the result is rendered
  back. \<open>acomps\<close> gives the clean components and \<open>abs_path\<close> renders an absolute path; the lemmas
  turn each lexical operation on rendered paths into a list operation.
\<close>

section \<open>The operations\<close>

definition is_abs :: "string \<Rightarrow> bool" where
  "is_abs p = (case p of [] \<Rightarrow> False | c # _ \<Rightarrow> c = CHR ''/'')"

text \<open>The stack is kept reversed; \<open>r\<close> says whether the path is rooted.\<close>

fun clean_comps :: "bool \<Rightarrow> string list \<Rightarrow> string list \<Rightarrow> string list" where
  "clean_comps r st [] = rev st"
| "clean_comps r st (c # cs) =
     (if c = [] \<or> c = ''.'' then clean_comps r st cs
      else if c = ''..'' then
        (case st of
           [] \<Rightarrow> clean_comps r (if r then [] else [''..'']) cs
         | x # st' \<Rightarrow> if x = ''..'' then clean_comps r (''..'' # st) cs
                      else clean_comps r st' cs)
      else clean_comps r (c # st) cs)"

definition acomps :: "string \<Rightarrow> string list" where
  "acomps p = clean_comps (is_abs p) [] (split_on CHR ''/'' p)"

definition abs_path :: "string list \<Rightarrow> string" where
  "abs_path cs = CHR ''/'' # join_with CHR ''/'' cs"

definition Clean :: "string \<Rightarrow> string" where
  "Clean p =
     (if is_abs p then abs_path (acomps p)
      else if acomps p = [] then ''.'' else join_with CHR ''/'' (acomps p))"

definition Join :: "string list \<Rightarrow> string" where
  "Join elems =
     (case dropWhile (\<lambda>e. e = []) elems of
        [] \<Rightarrow> [] | e # es \<Rightarrow> Clean (join_with CHR ''/'' (e # es)))"

text \<open>Everything up to and including the last slash.\<close>

definition dir_part :: "string \<Rightarrow> string" where
  "dir_part p = rev (dropWhile (\<lambda>c. c \<noteq> CHR ''/'') (rev p))"

definition Dir :: "string \<Rightarrow> string" where
  "Dir p = Clean (dir_part p)"

definition Base :: "string \<Rightarrow> string" where
  "Base p =
     (if p = [] then ''.''
      else let q = dropWhile (\<lambda>c. c = CHR ''/'') (rev p)
           in if q = [] then ''/'' else rev (takeWhile (\<lambda>c. c \<noteq> CHR ''/'') q))"

fun strip_common :: "string list \<Rightarrow> string list \<Rightarrow> string list \<times> string list" where
  "strip_common (x # xs) (y # ys) = (if x = y then strip_common xs ys else (x # xs, y # ys))"
| "strip_common xs ys = (xs, ys)"

definition Rel :: "string \<Rightarrow> string \<Rightarrow> goerr + string" where
  "Rel basepath targpath =
     (let b = Clean basepath; t = Clean targpath;
          err = ErrMsg (''Rel: can't make '' @ targpath @ '' relative to '' @ basepath)
      in if t = b then Inr ''.''
         else if is_abs b \<noteq> is_abs t then Inl err
         else case strip_common (acomps b) (acomps t) of (bs, ts) \<Rightarrow>
           if bs \<noteq> [] \<and> hd bs = ''..'' then Inl err
           else Inr (join_with CHR ''/'' (replicate (length bs) ''..'' @ ts)))"

section \<open>Names and rendered paths\<close>

text \<open>A name a directory can hold.\<close>

definition name_ok :: "string \<Rightarrow> bool" where
  "name_ok c \<longleftrightarrow> c \<noteq> [] \<and> CHR ''/'' \<notin> set c \<and> c \<noteq> ''.'' \<and> c \<noteq> ''..''"

abbreviation names_ok :: "string list \<Rightarrow> bool" where
  "names_ok cs \<equiv> list_all name_ok cs"

lemma names_ok_no_slash: "names_ok cs \<Longrightarrow> \<forall>x \<in> set cs. CHR ''/'' \<notin> set x"
  by (simp add: list_all_iff name_ok_def)

lemma is_abs_Cons [simp]: "is_abs (c # p) = (c = CHR ''/'')"
  by (simp add: is_abs_def)

lemma is_abs_Nil [simp]: "\<not> is_abs []"
  by (simp add: is_abs_def)

lemma is_abs_abs_path [simp]: "is_abs (abs_path cs)"
  by (simp add: abs_path_def)

lemma abs_path_ne [simp]: "abs_path cs \<noteq> []" "[] \<noteq> abs_path cs"
  by (auto simp: abs_path_def)

lemma abs_path_not_blank [simp]: "\<not> blank (abs_path cs)"
  by (rule slash_not_blank) (simp add: abs_path_def)

lemma abs_path_not_dot [simp]: "abs_path cs \<noteq> ''.''" "abs_path cs \<noteq> ''..''"
  by (auto simp: abs_path_def)

lemma clean_comps_ok [simp]: "names_ok cs \<Longrightarrow> clean_comps r st cs = rev st @ cs"
  by (induction cs arbitrary: st) (auto simp: name_ok_def)

lemma clean_comps_append:
  "clean_comps r st (xs @ ys) = clean_comps r (rev (clean_comps r st xs)) ys"
  by (induction r st xs rule: clean_comps.induct) (auto split: list.splits)

lemma clean_comps_names_ok:
  "names_ok st \<Longrightarrow> \<forall>c \<in> set cs. CHR ''/'' \<notin> set c \<Longrightarrow> names_ok (clean_comps True st cs)"
  by (induction True st cs rule: clean_comps.induct) (auto simp: name_ok_def split: list.splits)

lemma acomps_names_ok: "is_abs p \<Longrightarrow> names_ok (acomps p)"
  by (auto simp: acomps_def intro!: clean_comps_names_ok dest: split_on_parts)

lemma split_abs_path:
  "names_ok cs \<Longrightarrow> split_on CHR ''/'' (abs_path cs) = [] # (if cs = [] then [[]] else cs)"
proof -
  assume "names_ok cs"
  then have "\<forall>x \<in> set cs. CHR ''/'' \<notin> set x" by (auto simp: name_ok_def list_all_iff)
  then show ?thesis by (simp add: abs_path_def split_join)
qed

lemma acomps_abs_path [simp]: "names_ok cs \<Longrightarrow> acomps (abs_path cs) = cs"
  by (simp add: acomps_def split_abs_path)

lemma Clean_abs: "is_abs p \<Longrightarrow> Clean p = abs_path (acomps p)"
  by (simp add: Clean_def)

lemma Clean_abs_path [simp]: "names_ok cs \<Longrightarrow> Clean (abs_path cs) = abs_path cs"
  by (simp add: Clean_def)

definition plain_part :: "string \<Rightarrow> bool" where
  "plain_part c \<longleftrightarrow> c \<noteq> [] \<and> CHR ''/'' \<notin> set c"

lemma clean_comps_plain:
  "list_all plain_part st \<Longrightarrow> list_all (\<lambda>c. CHR ''/'' \<notin> set c) cs \<Longrightarrow>
   list_all plain_part (clean_comps r st cs)"
proof (induction cs arbitrary: st)
  case (Cons c cs)
  have dd: "plain_part ''..''" by (simp add: plain_part_def)
  have c: "c = [] \<or> plain_part c" using Cons.prems by (auto simp: plain_part_def)
  show ?case using Cons c dd by (cases st) auto
qed (simp add: list_all_iff)

lemma acomps_plain: "list_all plain_part (acomps p)"
  unfolding acomps_def
  by (rule clean_comps_plain) (auto simp: list_all_iff dest: split_on_parts)

lemma not_abs_join_plain: "list_all plain_part cs \<Longrightarrow> \<not> is_abs (join_with CHR ''/'' cs)"
proof (cases cs)
  case (Cons x xs)
  moreover assume "list_all plain_part cs"
  ultimately show ?thesis by (cases x; cases xs) (auto simp: plain_part_def)
qed simp

lemma is_abs_Clean [simp]: "is_abs (Clean p) = is_abs p"
  by (simp add: Clean_def not_abs_join_plain acomps_plain)

lemma abs_path_inj: "names_ok a \<Longrightarrow> names_ok b \<Longrightarrow> abs_path a = abs_path b \<longleftrightarrow> a = b"
  by (metis acomps_abs_path)

text \<open>A clean absolute path is exactly a rendered list of names.\<close>

definition clean_abs :: "string \<Rightarrow> bool" where
  "clean_abs p \<longleftrightarrow> is_abs p \<and> Clean p = p"

lemma clean_absE:
  assumes "clean_abs p"
  obtains cs where "names_ok cs" "p = abs_path cs" "acomps p = cs"
  using assms by (metis Clean_abs acomps_abs_path acomps_names_ok clean_abs_def)

lemma clean_abs_abs_path [simp]: "names_ok cs \<Longrightarrow> clean_abs (abs_path cs)"
  by (simp add: clean_abs_def)

lemma clean_abs_Clean: "is_abs p \<Longrightarrow> clean_abs (Clean p)"
  by (simp add: Clean_abs acomps_names_ok)

lemma clean_abs_root [simp]: "clean_abs ''/''"
  using clean_abs_abs_path [of "[]"] by (simp add: abs_path_def)

lemma abs_path_Nil: "abs_path [] = ''/''"
  by (simp add: abs_path_def)

section \<open>Join, Dir, Base\<close>

lemma Join_pair:
  assumes "is_abs a"
  shows "Join [a, q] = abs_path (clean_comps True (rev (acomps a)) (split_on CHR ''/'' q))"
proof -
  from assms have a: "a \<noteq> []" by auto
  have abs: "is_abs (a @ CHR ''/'' # q)" using assms by (cases a) auto
  have "Join [a, q] = Clean (a @ CHR ''/'' # q)" using a by (simp add: Join_def)
  also have "\<dots> = abs_path (acomps (a @ CHR ''/'' # q))" using abs by (rule Clean_abs)
  also have "acomps (a @ CHR ''/'' # q) =
      clean_comps True (rev (acomps a)) (split_on CHR ''/'' q)"
    using assms abs by (simp add: acomps_def split_on_append_sep clean_comps_append)
  finally show ?thesis .
qed

lemma Join_abs_abs:
  "names_ok a \<Longrightarrow> names_ok b \<Longrightarrow> Join [abs_path a, abs_path b] = abs_path (a @ b)"
  by (simp add: Join_pair split_abs_path)

lemma Join_abs_name:
  "names_ok a \<Longrightarrow> name_ok c \<Longrightarrow> Join [abs_path a, c] = abs_path (a @ [c])"
proof -
  assume a: "names_ok a" and c: "name_ok c"
  from c have s: "split_on CHR ''/'' c = [c]" by (auto simp: name_ok_def)
  have "clean_comps True (rev a) [c] = a @ [c]" using c by (subst clean_comps_ok) auto
  with a s show ?thesis by (simp add: Join_pair del: clean_comps.simps)
qed

lemma Join_clean_abs: "is_abs a \<Longrightarrow> clean_abs (Join [a, q])"
  by (subst Join_pair)
    (auto intro!: clean_abs_abs_path clean_comps_names_ok
       simp: acomps_names_ok dest: split_on_parts)

lemma dir_part_snoc:
  "CHR ''/'' \<notin> set c \<Longrightarrow> dir_part (p @ CHR ''/'' # c) = p @ ''/''"
proof -
  assume "CHR ''/'' \<notin> set c"
  then have "dropWhile (\<lambda>x. x \<noteq> CHR ''/'') (rev c @ CHR ''/'' # rev p) = CHR ''/'' # rev p"
    by (subst dropWhile_append2) auto
  then show ?thesis by (simp add: dir_part_def)
qed

lemma abs_path_snoc: "cs \<noteq> [] \<Longrightarrow> abs_path (cs @ [c]) = abs_path cs @ CHR ''/'' # c"
  by (simp add: abs_path_def join_with_append)

lemma Dir_abs_path: "names_ok (cs @ [c]) \<Longrightarrow> Dir (abs_path (cs @ [c])) = abs_path cs"
proof (cases "cs = []")
  case True
  moreover assume "names_ok (cs @ [c])"
  ultimately have "dir_part (abs_path [c]) = ''/''"
    using dir_part_snoc [of c "[]"] by (auto simp: abs_path_def name_ok_def)
  then show ?thesis using True Clean_abs_path [of "[]"] by (simp add: Dir_def abs_path_def)
next
  case False
  assume ok: "names_ok (cs @ [c])"
  then have "dir_part (abs_path (cs @ [c])) = abs_path cs @ ''/''"
    using False by (auto simp: abs_path_snoc name_ok_def intro!: dir_part_snoc)
  moreover have "Clean (abs_path cs @ ''/'') = abs_path cs"
  proof -
    have abs: "is_abs (abs_path cs @ ''/'')" by (simp add: abs_path_def)
    have "acomps (abs_path cs @ ''/'') = cs"
      using ok abs by (simp add: acomps_def split_on_append_sep clean_comps_append split_abs_path)
    then show ?thesis using abs by (simp add: Clean_abs)
  qed
  ultimately show ?thesis by (simp add: Dir_def)
qed

lemma Dir_root [simp]: "Dir ''/'' = ''/''"
  by (simp add: Dir_def dir_part_def Clean_def acomps_def abs_path_def)

lemma Base_abs_path:
  assumes "names_ok (cs @ [c])"
  shows "Base (abs_path (cs @ [c])) = c"
proof -
  from assms have c: "c \<noteq> []" "CHR ''/'' \<notin> set c" by (auto simp: name_ok_def)
  obtain p where p: "abs_path (cs @ [c]) = p @ CHR ''/'' # c"
    by (cases "cs = []") (auto simp: abs_path_snoc, auto simp: abs_path_def)
  have dw: "dropWhile (\<lambda>x. x = CHR ''/'') (rev c @ CHR ''/'' # rev p) = rev c @ CHR ''/'' # rev p"
  proof (cases "rev c")
    case (Cons x xs)
    then have "x \<in> set c" by (metis list.set_intros(1) set_rev)
    with c Cons show ?thesis by auto
  qed (use c in auto)
  have tw: "takeWhile (\<lambda>x. x \<noteq> CHR ''/'') (rev c @ CHR ''/'' # rev p) = rev c"
    using c by (subst takeWhile_append2) auto
  show ?thesis using p dw tw by (simp add: Base_def Let_def)
qed

lemma Base_root [simp]: "Base ''/'' = ''/''"
  by (simp add: Base_def)

section \<open>Rel on absolute paths\<close>

lemma strip_common_prefix [simp]: "strip_common a (a @ b) = ([], b)"
  by (induction a) auto

lemma strip_common_eq:
  "strip_common a b = (bs, ts) \<Longrightarrow> \<exists>p. a = p @ bs \<and> b = p @ ts \<and> (bs = [] \<or> ts = [] \<or> hd bs \<noteq> hd ts)"
proof (induction a b arbitrary: bs ts rule: strip_common.induct)
  case (1 x xs y ys)
  show ?case
  proof (cases "x = y")
    case True
    then obtain p where "xs = p @ bs \<and> ys = p @ ts \<and> (bs = [] \<or> ts = [] \<or> hd bs \<noteq> hd ts)"
      using "1.IH" "1.prems" by auto
    then show ?thesis using True by (intro exI [of _ "x # p"]) auto
  next
    case False
    then show ?thesis using "1.prems" by (intro exI [of _ "[]"]) auto
  qed
qed auto

lemma Rel_abs:
  assumes a: "names_ok a" and b: "names_ok b" and s: "strip_common a b = (bs, ts)"
  shows "Rel (abs_path a) (abs_path b) =
    Inr (if a = b then ''.'' else join_with CHR ''/'' (replicate (length bs) ''..'' @ ts))"
proof -
  obtain p where p: "a = p @ bs" using strip_common_eq [OF s] by blast
  have "\<not> (bs \<noteq> [] \<and> hd bs = ''..'')"
    using a p by (cases bs) (auto simp: name_ok_def)
  then show ?thesis using a b s by (auto simp: Rel_def Let_def abs_path_inj)
qed

lemma Rel_below:
  assumes "names_ok (a @ b)"
  shows "Rel (abs_path a) (abs_path (a @ b)) = Inr (if b = [] then ''.'' else join_with CHR ''/'' b)"
  using assms by (subst Rel_abs [where bs = "[]" and ts = b]) auto

lemma join_dotdot:
  "join_with CHR ''/'' (replicate (Suc n) ''..'' @ ts) =
     ''..'' @ (if n = 0 \<and> ts = [] then [] else CHR ''/'' # join_with CHR ''/'' (replicate n ''..'' @ ts))"
  by (cases "replicate n ''..'' @ ts") auto

text \<open>Outside the base the relative path starts with \<open>..\<close>.\<close>

lemma Rel_outside:
  assumes a: "names_ok a" and b: "names_ok b" and np: "\<not> prefix a b"
  shows "\<exists>r. Rel (abs_path a) (abs_path b) = Inr (''..'' @ r)"
proof -
  obtain bs ts where s: "strip_common a b = (bs, ts)" by (cases "strip_common a b")
  obtain p where p: "a = p @ bs" "b = p @ ts" using strip_common_eq [OF s] by blast
  with np obtain n where n: "length bs = Suc n" by (cases bs) auto
  from np have "a \<noteq> b" by auto
  then show ?thesis using Rel_abs [OF a b s] n by (auto simp: join_dotdot simp del: replicate.simps)
qed

section \<open>Clean is idempotent\<close>

text \<open>The clean components of a relative path: some \<open>..\<close>, then names.\<close>

fun rel_form :: "string list \<Rightarrow> bool" where
  "rel_form [] = True"
| "rel_form (c # cs) = (if c = ''..'' then rel_form cs else names_ok (c # cs))"

lemma not_name_ok [simp]: "\<not> name_ok ''..''" "\<not> name_ok ''.''" "\<not> name_ok []"
  by (simp_all add: name_ok_def)

lemma rel_form_names: "names_ok cs \<Longrightarrow> rel_form cs"
  by (cases cs) auto

lemma rel_form_snoc:
  "rel_form cs \<Longrightarrow> name_ok c \<Longrightarrow> rel_form (cs @ [c])"
  by (induction cs) (auto simp: name_ok_def)

lemma rel_form_snoc_dd:
  "rel_form (cs @ [''..'']) \<Longrightarrow> rel_form (cs @ [''..'', ''..''])"
  by (induction cs) (auto simp: name_ok_def split: if_splits)

lemma rel_form_butlast: "rel_form (cs @ [c]) \<Longrightarrow> rel_form cs"
  by (induction cs) (auto split: if_splits)

lemma clean_comps_rel_form:
  "rel_form (rev st) \<Longrightarrow> \<forall>c \<in> set cs. CHR ''/'' \<notin> set c \<Longrightarrow> rel_form (clean_comps False st cs)"
proof (induction cs arbitrary: st)
  case (Cons c cs)
  have IH: "rel_form (rev st') \<Longrightarrow> rel_form (clean_comps False st' cs)" for st'
    using Cons by simp
  consider "c = [] \<or> c = ''.''" | "c = ''..''" | "name_ok c"
    using Cons.prems(2) by (auto simp: name_ok_def)
  then show ?case
  proof cases
    case 1
    then show ?thesis using IH Cons.prems(1) by auto
  next
    case 2
    show ?thesis
    proof (cases st)
      case Nil
      then show ?thesis using 2 IH [of "[''..'']"] by simp
    next
      case st: (Cons x st')
      show ?thesis
      proof (cases "x = ''..''")
        case True
        then have "rel_form (rev (''..'' # st))"
          using st Cons.prems(1) rel_form_snoc_dd by simp
        then show ?thesis using 2 st True IH [of "''..'' # st"] by simp
      next
        case False
        then have "rel_form (rev st')" using st Cons.prems(1) rel_form_butlast by simp
        then show ?thesis using 2 st False IH [of st'] by simp
      qed
    qed
  next
    case 3
    then have "rel_form (rev (c # st))" using Cons.prems(1) rel_form_snoc by simp
    then show ?thesis using 3 IH [of "c # st"] by (auto simp: name_ok_def)
  qed
qed simp

lemma clean_comps_of_rel_form:
  "rel_form cs \<Longrightarrow> list_all (\<lambda>c. c = ''..'') st \<Longrightarrow> clean_comps False st cs = rev st @ cs"
proof (induction cs arbitrary: st)
  case (Cons c cs)
  show ?case
  proof (cases "c = ''..''")
    case True
    have "clean_comps False (''..'' # st) cs = rev (''..'' # st) @ cs"
      using Cons True by (intro Cons.IH) auto
    then show ?thesis using True Cons.prems(2) by (cases st) auto
  next
    case False
    then show ?thesis using Cons.prems(1) clean_comps_ok by (metis rel_form.simps(2))
  qed
qed simp

lemma acomps_rel: "\<not> is_abs p \<Longrightarrow> rel_form (acomps p)"
  unfolding acomps_def by simp (rule clean_comps_rel_form, auto dest: split_on_parts)

lemma Clean_Clean [simp]: "Clean (Clean p) = Clean p"
proof (cases "is_abs p")
  case True
  then show ?thesis by (simp add: Clean_abs acomps_names_ok)
next
  case False
  show ?thesis
  proof (cases "acomps p = []")
    case True
    then show ?thesis using False by (simp add: Clean_def acomps_def)
  next
    case ne: False
    let ?q = "join_with CHR ''/'' (acomps p)"
    have q: "\<not> is_abs ?q" by (simp add: not_abs_join_plain acomps_plain)
    have "\<forall>c \<in> set (acomps p). CHR ''/'' \<notin> set c"
      using acomps_plain [of p] by (auto simp: list_all_iff plain_part_def)
    then have "split_on CHR ''/'' ?q = acomps p" using ne by (simp add: split_join)
    then have "acomps ?q = acomps p"
      using q False clean_comps_of_rel_form [of "acomps p" "[]"]
      by (simp add: acomps_def [of ?q] acomps_rel)
    then show ?thesis using False ne q by (simp add: Clean_def)
  qed
qed

lemma Clean_ne [simp]: "Clean p \<noteq> []"
proof (cases "is_abs p \<or> acomps p = []")
  case False
  then obtain c cs where "acomps p = c # cs" "c \<noteq> []"
    using acomps_plain [of p] by (cases "acomps p") (auto simp: plain_part_def)
  then show ?thesis by (cases cs) (auto simp: Clean_def)
qed (auto simp: Clean_def)

section \<open>Climbing with Dir stops\<close>

lemma slen_clean_comps: "slen (clean_comps r st cs) \<le> slen st + slen cs"
proof (induction cs arbitrary: st)
  case Nil
  have "slen (rev st) = slen st" by (induction st) auto
  then show ?case by simp
next
  case (Cons c cs)
  consider "c = [] \<or> c = ''.''" | "c = ''..''" | "c \<noteq> []" "c \<noteq> ''.''" "c \<noteq> ''..''" by blast
  then show ?case
  proof cases
    case 1
    then show ?thesis using Cons [of st] by auto
  next
    case 2
    then show ?thesis
      using Cons [of "[]"] Cons [of "[''..'']"] Cons [of "''..'' # st"] Cons [of "tl st"]
      by (cases st) auto
  next
    case 3
    then show ?thesis using Cons [of "c # st"] by auto
  qed
qed

lemma length_Clean_trailing:
  assumes "s = t @ ''/''" and "t \<noteq> []"
  shows "Clean s = ''.'' \<or> length (Clean s) < length s"
proof -
  let ?cs = "acomps s"
  have "clean_comps (is_abs s) [] (split_on CHR ''/'' s) =
      clean_comps (is_abs s) [] (split_on CHR ''/'' t)"
    using assms(1) split_on_append_sep [of "CHR ''/''" t "[]"]
    by (simp add: clean_comps_append)
  then have le: "slen ?cs \<le> slen (split_on CHR ''/'' t)"
    using slen_clean_comps [of "is_abs s" "[]"] by (simp add: acomps_def)
  show ?thesis
  proof (cases "?cs = []")
    case True
    then show ?thesis using assms by (auto simp: Clean_def abs_path_def)
  next
    case ne: False
    then have len: "Suc (length (join_with CHR ''/'' ?cs)) = slen ?cs" by (rule length_join)
    show ?thesis
    proof (cases "is_abs s")
      case False
      then show ?thesis using ne len le assms by (simp add: Clean_def slen_split)
    next
      case True
      then obtain t' where t: "t = CHR ''/'' # t'" using assms by (cases t) auto
      have "clean_comps True [] (split_on CHR ''/'' t) = clean_comps True [] (split_on CHR ''/'' t')"
        using t by simp
      then have "slen ?cs \<le> slen (split_on CHR ''/'' t')"
        using True slen_clean_comps [of True "[]" "split_on CHR ''/'' t'"]
          \<open>clean_comps (is_abs s) [] (split_on CHR ''/'' s) =
             clean_comps (is_abs s) [] (split_on CHR ''/'' t)\<close>
        by (simp add: acomps_def)
      then show ?thesis using True ne len t assms(1) by (simp add: Clean_def abs_path_def slen_split)
    qed
  qed
qed

lemma dir_part_cases:
  obtains "dir_part p = []" | t r where "dir_part p = t @ ''/''" "p = t @ CHR ''/'' # r"
proof (cases "dropWhile (\<lambda>c. c \<noteq> CHR ''/'') (rev p)")
  case (Cons x xs)
  then have x: "x = CHR ''/''" by (metis (full_types) dropWhile_eq_Cons_conv)
  have "rev p = takeWhile (\<lambda>c. c \<noteq> CHR ''/'') (rev p) @ x # xs"
    using Cons by (metis takeWhile_dropWhile_id)
  then have "p = rev xs @ CHR ''/'' # rev (takeWhile (\<lambda>c. c \<noteq> CHR ''/'') (rev p))"
    using x by (metis append.assoc append_Cons append_Nil rev.simps(2) rev_append rev_rev_ident)
  moreover have "dir_part p = rev xs @ ''/''" using Cons x by (simp add: dir_part_def)
  ultimately show ?thesis using that(2) by blast
qed (use that(1) in \<open>simp add: dir_part_def\<close>)

text \<open>A measure that strictly drops at every step \<open>p = filepath.Dir(p)\<close> until the fixed point.\<close>

definition climb_measure :: "string \<Rightarrow> nat" where
  "climb_measure p = (if p = ''.'' then 0 else Suc (length p))"

lemma Dir_decreases: "Dir p \<noteq> p \<Longrightarrow> climb_measure (Dir p) < climb_measure p"
proof (cases p rule: dir_part_cases)
  case 1
  assume ne: "Dir p \<noteq> p"
  have "Dir p = ''.''" using 1 by (simp add: Dir_def Clean_def acomps_def)
  then show ?thesis using ne by (simp add: climb_measure_def)
next
  case (2 t r)
  assume ne: "Dir p \<noteq> p"
  show ?thesis
  proof (cases "t = []")
    case True
    then have "Dir p = ''/''" using 2 by (simp add: Dir_def Clean_def acomps_def abs_path_def)
    moreover have "p \<noteq> ''.''" using 2 True by simp
    moreover have "r \<noteq> []" using ne 2 True calculation by auto
    ultimately show ?thesis using 2 True by (simp add: climb_measure_def)
  next
    case False
    have "p \<noteq> ''.''" using 2 False by (cases t) auto
    moreover have "Dir p = ''.'' \<or> length (Dir p) < length p"
      using length_Clean_trailing [OF 2(1) False] 2 by (auto simp: Dir_def)
    ultimately show ?thesis by (auto simp: climb_measure_def)
  qed
qed

end
