(* ===== verification/Jail.thy ===== *)
theory Jail
  imports GoFilepath
begin

text \<open>
  \<open>src/toolkit/jail\<close>: the lexical jail functions (\<open>path.go\<close>, \<open>jail.go\<close>) and the contract of the
  \<open>Jailed\<close> interface, which \<open>OsFS\<close>, \<open>TestEnv\<close> and \<open>OsEnv\<close> implement and \<open>Runtime\<close> relies on.
\<close>

section \<open>The functions of path.go\<close>

definition CleanJail :: "string \<Rightarrow> string" where
  "CleanJail jail = (if blank jail then [] else Clean jail)"

definition RemoveJailPrefix :: "string \<Rightarrow> string \<Rightarrow> string" where
  "RemoveJailPrefix jailPath path =
     (let j = Clean jailPath; p = Clean path
      in if j = [] then p
         else case Rel j p of
                Inl _ \<Rightarrow> p
              | Inr rel \<Rightarrow> Join [''/'', rel])"

definition IsInJail :: "string \<Rightarrow> string \<Rightarrow> bool" where
  "IsInJail jailPath rel =
     (let j = Clean jailPath
      in if j = [] \<or> jailPath = [] then True
         else let p = Clean rel
              in if \<not> is_abs p then True
                 else case Rel j p of
                        Inl _ \<Rightarrow> False
                      | Inr relPath \<Rightarrow> \<not> HasPrefix relPath ''..'')"

definition EnsureInJail :: "string \<Rightarrow> string \<Rightarrow> string" where
  "EnsureInJail jailPath p =
     (if jailPath = [] then p
      else let j = Clean jailPath
           in if p = [] \<or> p = ''/'' then j
              else let pp = Clean p
                   in if IsInJail j pp then pp
                      else if \<not> is_abs pp then Join [j, pp]
                      else Join [j, pp])"

text \<open>\<open>filepath.FromSlash\<close> is the identity where the separator is the slash.\<close>

definition FromSlash :: "string \<Rightarrow> string" where
  "FromSlash p = p"

definition EnsureInJailFor :: "string \<Rightarrow> string \<Rightarrow> string" where
  "EnsureInJailFor jailPath p =
     (let j = FromSlash jailPath; pp = FromSlash p in EnsureInJail j pp)"

text \<open>\<open>IsJailed(j Jailed)\<close>: a nil interface value is \<open>None\<close>; \<open>get\<close> is its \<open>GetJail\<close>.\<close>

definition IsJailed :: "('j \<Rightarrow> string) \<Rightarrow> 'j option \<Rightarrow> bool" where
  "IsJailed get j = (case j of None \<Rightarrow> False | Some x \<Rightarrow> \<not> blank (get x))"

section \<open>On rendered paths\<close>

lemma CleanJail_abs_path [simp]: "names_ok j \<Longrightarrow> CleanJail (abs_path j) = abs_path j"
  by (simp add: CleanJail_def)

lemma CleanJail_Nil [simp]: "CleanJail [] = []"
  by (simp add: CleanJail_def)

lemma Clean_not_blank: "\<not> blank p \<Longrightarrow> Clean p = q \<Longrightarrow> q \<noteq> []"
  by auto

lemma prefix_dd_iff: "prefix ''..'' (''..'' @ r)"
  by simp

text \<open>
  The first component below the jail decides: the test on the string \<open>relPath\<close> sees only its
  first two bytes, so a name that merely begins with two dots counts as an escape.
\<close>

definition dotdot_head :: "string list \<Rightarrow> bool" where
  "dotdot_head cs = (case cs of [] \<Rightarrow> False | c # _ \<Rightarrow> prefix ''..'' c)"

lemma prefix_dd_join:
  assumes "names_ok r" and "r \<noteq> []"
  shows "prefix ''..'' (join_with CHR ''/'' r) \<longleftrightarrow> dotdot_head r"
proof -
  obtain c cs where r: "r = c # cs" using assms(2) by (cases r) auto
  have c: "name_ok c" using assms(1) r by simp
  show ?thesis
  proof (cases cs)
    case Nil
    then show ?thesis by (simp add: r dotdot_head_def)
  next
    case (Cons d ds)
    have "prefix ''..'' (c @ CHR ''/'' # xs) \<longleftrightarrow> prefix ''..'' c" for xs
      using c by (cases c; cases "tl c") (auto simp: name_ok_def)
    then show ?thesis by (simp add: r dotdot_head_def Cons)
  qed
qed

lemma IsInJail_abs_path:
  assumes j: "names_ok j" and p: "names_ok p"
  shows "IsInJail (abs_path j) (abs_path p) \<longleftrightarrow>
    prefix j p \<and> \<not> dotdot_head (drop (length j) p)"
proof (cases "prefix j p")
  case True
  then obtain r where r: "p = j @ r" by (auto simp: prefix_def)
  have "IsInJail (abs_path j) (abs_path p) \<longleftrightarrow>
      \<not> prefix ''..'' (if r = [] then ''.'' else join_with CHR ''/'' r)"
    using Rel_below [of j r] p r j by (simp add: IsInJail_def HasPrefix_def)
  also have "\<dots> \<longleftrightarrow> \<not> dotdot_head r"
    using p r prefix_dd_join [of r] by (auto simp: dotdot_head_def)
  finally show ?thesis using True r by simp
next
  case False
  then obtain r where "Rel (abs_path j) (abs_path p) = Inr (''..'' @ r)"
    using Rel_outside [OF j p] by blast
  then show ?thesis using False j p by (simp add: IsInJail_def HasPrefix_def)
qed

lemma IsInJail_prefix:
  assumes "names_ok j" and "names_ok p" and "IsInJail (abs_path j) (abs_path p)"
  shows "prefix j p"
  using assms by (simp add: IsInJail_abs_path)

lemma RemoveJailPrefix_below:
  assumes "names_ok (j @ r)"
  shows "RemoveJailPrefix (abs_path j) (abs_path (j @ r)) = abs_path r"
proof -
  have j: "names_ok j" and r: "names_ok r" using assms by auto
  have "Join [''/'', if r = [] then ''.'' else join_with CHR ''/'' r] = abs_path r"
  proof (cases "r = []")
    case True
    then show ?thesis using Join_pair [of "''/''" "''.''"] by (simp add: acomps_def)
  next
    case False
    have "split_on CHR ''/'' (join_with CHR ''/'' r) = r"
      using False r by (intro split_join) (auto simp: list_all_iff name_ok_def)
    then show ?thesis using False r Join_pair [of "''/''"] by (simp add: acomps_def)
  qed
  then show ?thesis using Rel_below [OF assms] j assms by (simp add: RemoveJailPrefix_def)
qed

lemma clean_comps_dds: "clean_comps True [] (replicate n ''..'' @ ts) = clean_comps True [] ts"
  by (induction n) auto

lemma blank_abs: "is_abs j \<Longrightarrow> \<not> blank j"
  by (rule slash_not_blank) (cases j, auto)

lemma RemoveJailPrefix_abs_path:
  assumes j: "names_ok j" and p: "names_ok p"
  shows "RemoveJailPrefix (abs_path j) (abs_path p) = abs_path (snd (strip_common j p))"
proof -
  obtain bs ts where s: "strip_common j p = (bs, ts)" by (cases "strip_common j p")
  show ?thesis
  proof (cases "bs = []")
    case True
    then have "p = j @ ts" using strip_common_eq [OF s] by auto
    then show ?thesis using RemoveJailPrefix_below p s by simp
  next
    case False
    have ts: "names_ok ts" using strip_common_eq [OF s] p by auto
    have ne: "j \<noteq> p"
    proof
      assume "j = p"
      then have "strip_common j p = ([], [])" using strip_common_prefix [of j "[]"] by simp
      with s False show False by simp
    qed
    let ?xs = "replicate (length bs) ''..'' @ ts"
    have "\<forall>x \<in> set (replicate n ''..''). CHR ''/'' \<notin> set x" for n by (induction n) simp_all
    then have "\<forall>x \<in> set ?xs. CHR ''/'' \<notin> set x"
      using names_ok_no_slash [OF ts] by (metis UnE set_append)
    then have "split_on CHR ''/'' (join_with CHR ''/'' ?xs) = ?xs"
      using False by (intro split_join) auto
    then have "Join [''/'', join_with CHR ''/'' ?xs] = abs_path ts"
      using Join_pair [of "''/''" "join_with CHR ''/'' ?xs"] ts
      by (simp add: acomps_def clean_comps_dds)
    then show ?thesis using Rel_abs [OF j p s] j p s ne by (simp add: RemoveJailPrefix_def)
  qed
qed

section \<open>The Jailed contract\<close>

text \<open>
  What \<open>Runtime\<close> relies on when it keeps one jail in two components: setting the jail to a value
  that is already clean (empty, or a non-blank cleaned path) is read back as it is.
\<close>

definition jail_value :: "string \<Rightarrow> bool" where
  "jail_value j \<longleftrightarrow> CleanJail j = j"

lemma CleanJail_idem [simp]:
  assumes "\<not> blank (Clean j)" shows "jail_value (CleanJail j)"
  using assms by (simp add: jail_value_def CleanJail_def)

locale jailed =
  fixes get_jail :: "'j \<Rightarrow> string"
    and set_jail :: "string \<Rightarrow> 'j \<Rightarrow> 'j"
  assumes get_set: "get_jail (set_jail j x) = CleanJail j"
begin

lemma get_set_clean: "jail_value j \<Longrightarrow> get_jail (set_jail j x) = j"
  by (simp add: get_set jail_value_def)

lemma set_set: "get_jail (set_jail j (set_jail k x)) = get_jail (set_jail j x)"
  by (simp add: get_set)

lemma unjailed_blank: "blank j \<Longrightarrow> \<not> IsJailed get_jail (Some (set_jail j x))"
  by (simp add: IsJailed_def get_set CleanJail_def)

lemma jailed_abs: "is_abs j \<Longrightarrow> IsJailed get_jail (Some (set_jail j x))"
  by (simp add: IsJailed_def get_set CleanJail_def Clean_abs blank_abs)

end

end
