(* ===== verification/HostOS.thy ===== *)
theory HostOS
  imports GoFilepath "HOL-Library.Word"
begin

unbundle bit_operations_syntax

text \<open>
  The operating system under the file-system component: Go's \<open>os\<close> package and
  \<open>filepath.EvalSymlinks\<close> over a host file tree.

  The tree is a finite map from canonical component lists to inodes. \<open>resolve\<close> is the kernel's
  path walk: it follows symbolic links (at most 40, then ELOOP), steps back on \<open>..\<close> and gives
  the canonical location a path names; no link target is empty (the call that makes one refuses it). \<open>walk\<close> is Go's \<open>EvalSymlinks\<close> (at most 255 links). System
  calls change the tree at the location their path resolves to. There are no hard links and no
  mount points, the process may search every directory, and the model is sequential: nothing
  else changes the tree between two calls. Faults of data and entry calls (a full disk, an I/O
  error, a refused rename, after a given number of bytes for a write) are injected by the field
  \<open>faults\<close>.
\<close>

section \<open>The host\<close>

datatype kind = KDir | KFile string | KLink string

record inode =
  kind :: kind
  mode :: "32 word"
  owner :: "int \<times> int"
  times :: "int \<times> int"

type_synonym tree = "(string list \<times> inode) list"

datatype syscall = SysOpen | SysWrite | SysClose | SysChmod | SysRename | SysMkdir | SysUnlink | SysSeek

record world =
  nodes :: tree
  proc_wd :: "string option"
  umask :: "32 word"
  faults :: "syscall \<Rightarrow> string \<Rightarrow> (errno \<times> nat) option"
  randoms :: "nat \<Rightarrow> string"
  rand_pos :: nat

abbreviation node :: "tree \<Rightarrow> string list \<Rightarrow> inode option" where
  "node t cs \<equiv> map_of t cs"

definition is_dir_at :: "tree \<Rightarrow> string list \<Rightarrow> bool" where
  "is_dir_at t cs = (case node t cs of None \<Rightarrow> False | Some n \<Rightarrow> kind n = KDir)"

definition put :: "string list \<Rightarrow> inode \<Rightarrow> tree \<Rightarrow> tree" where
  "put cs n t = (cs, n) # filter (\<lambda>kv. fst kv \<noteq> cs) t"

definition del_tree :: "string list \<Rightarrow> tree \<Rightarrow> tree" where
  "del_tree cs t = filter (\<lambda>kv. \<not> prefix cs (fst kv)) t"

definition move_tree :: "string list \<Rightarrow> string list \<Rightarrow> tree \<Rightarrow> tree" where
  "move_tree src dst t =
     map (\<lambda>kv. (dst @ drop (length src) (fst kv), snd kv)) (filter (\<lambda>kv. prefix src (fst kv)) t) @
     filter (\<lambda>kv. \<not> prefix src (fst kv) \<and> \<not> prefix dst (fst kv)) t"

text \<open>Names of the entries of a directory.\<close>

definition children :: "tree \<Rightarrow> string list \<Rightarrow> string list" where
  "children t cs =
     remdups (map (\<lambda>kv. last (fst kv)) (filter (\<lambda>kv. fst kv \<noteq> [] \<and> butlast (fst kv) = cs) t))"

section \<open>The kernel's path walk\<close>

function resolve ::
  "tree \<Rightarrow> nat \<Rightarrow> bool \<Rightarrow> string list \<Rightarrow> string list \<Rightarrow> errno + string list" where
  "resolve t n follow d [] = Inr d"
| "resolve t n follow d (c # cs) =
     (if c = [] \<or> c = ''.'' then resolve t n follow d cs
      else if c = ''..'' then resolve t n follow (butlast d) cs
      else case node t (d @ [c]) of
             None \<Rightarrow> if cs = [] then Inr (d @ [c]) else Inl ENOENT
           | Some i \<Rightarrow>
               (case kind i of
                  KDir \<Rightarrow> resolve t n follow (d @ [c]) cs
                | KFile _ \<Rightarrow> if cs = [] then Inr (d @ [c]) else Inl ENOTDIR
                | KLink l \<Rightarrow>
                    if cs = [] \<and> \<not> follow then Inr (d @ [c])
                    else if n = 0 then Inl ELOOP
                    else resolve t (n - 1) follow (if is_abs l then [] else d)
                           (split_on CHR ''/'' l @ cs)))"
  by pat_completeness auto
termination
  by (relation "measures [\<lambda>(t, n, f, d, cs). n, \<lambda>(t, n, f, d, cs). length cs]") auto

definition max_links :: nat where
  "max_links = 40"

text \<open>A relative path starts at the process working directory.\<close>

definition start_dir :: "world \<Rightarrow> string \<Rightarrow> errno + string list" where
  "start_dir w p =
     (if p = [] then Inl ENOENT
      else if is_abs p then Inr []
      else case proc_wd w of None \<Rightarrow> Inl ENOENT | Some d \<Rightarrow> Inr (acomps d))"

definition klookup :: "world \<Rightarrow> bool \<Rightarrow> string \<Rightarrow> errno + string list" where
  "klookup w follow p =
     (case start_dir w p of
        Inl e \<Rightarrow> Inl e
      | Inr d \<Rightarrow> resolve (nodes w) max_links follow d (split_on CHR ''/'' p))"

definition kstat :: "world \<Rightarrow> bool \<Rightarrow> string \<Rightarrow> errno + inode" where
  "kstat w follow p =
     (case klookup w follow p of
        Inl e \<Rightarrow> Inl e
      | Inr cs \<Rightarrow> (case node (nodes w) cs of None \<Rightarrow> Inl ENOENT | Some i \<Rightarrow> Inr i))"

section \<open>Go's EvalSymlinks\<close>

text \<open>
  \<open>walkSymlinks\<close>: \<open>d\<close> is the part already walked, \<open>cs\<close> what is left of the path, \<open>n\<close> how many
  more links may be followed. A relative path stays relative (\<open>r\<close> is False) until an absolute
  link is met.
\<close>

definition walk_lstat :: "world \<Rightarrow> bool \<Rightarrow> string list \<Rightarrow> errno + inode" where
  "walk_lstat w r d =
     (case (if r then Inr [] else
              case proc_wd w of None \<Rightarrow> Inl ENOENT | Some b \<Rightarrow> Inr (acomps b)) of
        Inl e \<Rightarrow> Inl e
      | Inr b \<Rightarrow>
          (case resolve (nodes w) max_links False b d of
             Inl e \<Rightarrow> Inl e
           | Inr cs \<Rightarrow> (case node (nodes w) cs of None \<Rightarrow> Inl ENOENT | Some i \<Rightarrow> Inr i)))"

definition walk_up :: "bool \<Rightarrow> string list \<Rightarrow> string list" where
  "walk_up r d = (if r then butlast d else if d = [] \<or> last d = ''..'' then d @ [''..''] else butlast d)"

function walk ::
  "world \<Rightarrow> nat \<Rightarrow> bool \<Rightarrow> string list \<Rightarrow> string list \<Rightarrow> errno + bool \<times> string list" where
  "walk w n r d [] = Inr (r, d)"
| "walk w n r d (c # cs) =
     (if c = [] \<or> c = ''.'' then walk w n r d cs
      else if c = ''..'' then walk w n r (walk_up r d) cs
      else case walk_lstat w r (d @ [c]) of
             Inl e \<Rightarrow> Inl e
           | Inr i \<Rightarrow>
               (case kind i of
                  KDir \<Rightarrow> walk w n r (d @ [c]) cs
                | KFile _ \<Rightarrow> if cs = [] then Inr (r, d @ [c]) else Inl ENOTDIR
                | KLink l \<Rightarrow>
                    if n = 0 then Inl ELOOP
                    else if is_abs l then walk w (n - 1) True [] (split_on CHR ''/'' l @ cs)
                    else walk w (n - 1) r d (split_on CHR ''/'' l @ cs)))"
  by pat_completeness auto
termination
  by (relation "measures [\<lambda>(w, n, r, d, cs). n, \<lambda>(w, n, r, d, cs). length cs]") auto

definition max_eval_links :: nat where
  "max_eval_links = 255"

definition EvalSymlinks :: "world \<Rightarrow> string \<Rightarrow> goerr + string" where
  "EvalSymlinks w p =
     (case walk w max_eval_links (is_abs p) [] (split_on CHR ''/'' p) of
        Inl e \<Rightarrow> Inl (PathErr ''lstat'' p (Errno e))
      | Inr (r, d) \<Rightarrow>
          Inr (if r then abs_path d else if d = [] then ''.'' else join_with CHR ''/'' d))"

section \<open>Calls that only read\<close>

definition patherr :: "string \<Rightarrow> string \<Rightarrow> errno + 'a \<Rightarrow> goerr + 'a" where
  "patherr op p r = (case r of Inl e \<Rightarrow> Inl (PathErr op p (Errno e)) | Inr x \<Rightarrow> Inr x)"

definition os_Getwd :: "world \<Rightarrow> goerr + string" where
  "os_Getwd w = (case proc_wd w of None \<Rightarrow> Inl (Errno ENOENT) | Some d \<Rightarrow> Inr d)"

definition os_Lstat :: "string \<Rightarrow> world \<Rightarrow> goerr + inode" where
  "os_Lstat p w = patherr ''lstat'' p (kstat w False p)"

definition os_Stat :: "string \<Rightarrow> world \<Rightarrow> goerr + inode" where
  "os_Stat p w = patherr ''stat'' p (kstat w True p)"

definition os_ReadFile :: "string \<Rightarrow> world \<Rightarrow> goerr + string" where
  "os_ReadFile p w =
     patherr ''open'' p
       (case kstat w True p of
          Inl e \<Rightarrow> Inl e
        | Inr i \<Rightarrow> (case kind i of KFile b \<Rightarrow> Inr b | KDir \<Rightarrow> Inl EISDIR | KLink _ \<Rightarrow> Inl ELOOP))"

text \<open>Entries in file-name order; string order is the order of the bytes.\<close>

fun bytes_le :: "string \<Rightarrow> string \<Rightarrow> bool" where
  "bytes_le [] ys = True"
| "bytes_le (x # xs) [] = False"
| "bytes_le (x # xs) (y # ys) =
     (let a = of_char x :: nat; b = of_char y in a < b \<or> (a = b \<and> bytes_le xs ys))"

fun insert_by :: "('a \<Rightarrow> 'a \<Rightarrow> bool) \<Rightarrow> 'a \<Rightarrow> 'a list \<Rightarrow> 'a list" where
  "insert_by le x [] = [x]"
| "insert_by le x (y # ys) = (if le x y then x # y # ys else y # insert_by le x ys)"

definition sort_strings :: "string list \<Rightarrow> string list" where
  "sort_strings xs = foldr (insert_by bytes_le) xs []"

definition os_ReadDir :: "string \<Rightarrow> world \<Rightarrow> goerr + string list" where
  "os_ReadDir p w =
     patherr ''open'' p
       (case klookup w True p of
          Inl e \<Rightarrow> Inl e
        | Inr cs \<Rightarrow>
            (case node (nodes w) cs of
               None \<Rightarrow> Inl ENOENT
             | Some i \<Rightarrow> if kind i = KDir then Inr (sort_strings (children (nodes w) cs)) else Inl ENOTDIR))"

section \<open>Calls that change the tree\<close>

text \<open>An injected fault of a call, before it does anything.\<close>

definition faulty :: "syscall \<Rightarrow> string \<Rightarrow> world \<Rightarrow> errno option" where
  "faulty c p w = map_option fst (faults w c p)"

definition new_inode :: "world \<Rightarrow> kind \<Rightarrow> 32 word \<Rightarrow> inode" where
  "new_inode w k perm = \<lparr>kind = k, mode = perm AND NOT (umask w), owner = (0, 0), times = (0, 0)\<rparr>"

definition put_w :: "string list \<Rightarrow> inode \<Rightarrow> world \<Rightarrow> world" where
  "put_w cs i w = w\<lparr>nodes := put cs i (nodes w)\<rparr>"

type_synonym 'a os = "world \<Rightarrow> (goerr + 'a) \<times> world"

definition os_Mkdir :: "string \<Rightarrow> 32 word \<Rightarrow> unit os" where
  "os_Mkdir p perm w =
     (let err = (\<lambda>e. (Inl (PathErr ''mkdir'' p (Errno e)), w))
      in case faulty SysMkdir p w of Some e \<Rightarrow> err e | None \<Rightarrow>
         (case klookup w False p of
            Inl e \<Rightarrow> err e
          | Inr cs \<Rightarrow>
              if cs = [] \<or> node (nodes w) cs \<noteq> None then err EEXIST
              else (Inr (), put_w cs (new_inode w KDir perm) w)))"

function os_MkdirAll :: "string \<Rightarrow> 32 word \<Rightarrow> unit os" where
  "os_MkdirAll p perm w =
     (case os_Stat p w of
        Inr i \<Rightarrow> (if kind i = KDir then (Inr (), w)
                  else (Inl (PathErr ''mkdir'' p (Errno ENOTDIR)), w))
      | Inl _ \<Rightarrow>
          (case (if Dir p = p then (Inr (), w) else os_MkdirAll (Dir p) perm w) of
             (Inl e, w1) \<Rightarrow> (Inl e, w1)
           | (Inr _, w1) \<Rightarrow>
               (case os_Mkdir p perm w1 of
                  (Inr _, w2) \<Rightarrow> (Inr (), w2)
                | (Inl e, w2) \<Rightarrow>
                    (case os_Lstat p w2 of
                       Inr i \<Rightarrow> if kind i = KDir then (Inr (), w2) else (Inl e, w2)
                     | Inl _ \<Rightarrow> (Inl e, w2)))))"
  by pat_completeness auto
termination
  by (relation "measure (\<lambda>(p, perm, w). climb_measure p)") (auto intro: Dir_decreases)

declare os_MkdirAll.simps [simp del]

definition k_unlink :: "string \<Rightarrow> world \<Rightarrow> errno + world" where
  "k_unlink p w =
     (case faulty SysUnlink p w of Some e \<Rightarrow> Inl e | None \<Rightarrow>
        (case klookup w False p of
           Inl e \<Rightarrow> Inl e
         | Inr cs \<Rightarrow>
             (case node (nodes w) cs of
                None \<Rightarrow> Inl ENOENT
              | Some i \<Rightarrow> if kind i = KDir then Inl EISDIR
                          else Inr (w\<lparr>nodes := del_tree cs (nodes w)\<rparr>))))"

definition k_rmdir :: "string \<Rightarrow> world \<Rightarrow> errno + world" where
  "k_rmdir p w =
     (case faulty SysUnlink p w of Some e \<Rightarrow> Inl e | None \<Rightarrow>
        (case klookup w False p of
           Inl e \<Rightarrow> Inl e
         | Inr cs \<Rightarrow>
             (case node (nodes w) cs of
                None \<Rightarrow> Inl ENOENT
              | Some i \<Rightarrow>
                  if kind i \<noteq> KDir then Inl ENOTDIR
                  else if cs = [] then Inl EINVAL
                  else if children (nodes w) cs \<noteq> [] then Inl ENOTEMPTY
                  else Inr (w\<lparr>nodes := del_tree cs (nodes w)\<rparr>))))"

definition os_Remove :: "string \<Rightarrow> unit os" where
  "os_Remove p w =
     (case k_unlink p w of
        Inr w1 \<Rightarrow> (Inr (), w1)
      | Inl e \<Rightarrow>
          (case k_rmdir p w of
             Inr w1 \<Rightarrow> (Inr (), w1)
           | Inl e1 \<Rightarrow> (Inl (PathErr ''remove'' p (Errno (if e1 \<noteq> ENOTDIR then e1 else e))), w)))"

definition os_RemoveAll :: "string \<Rightarrow> unit os" where
  "os_RemoveAll p w =
     (if p = [] then (Inr (), w)
      else if Base p = ''.'' then (Inl (PathErr ''RemoveAll'' p (Errno EINVAL)), w)
      else case faulty SysUnlink p w of
             Some e \<Rightarrow> (Inl (PathErr ''unlinkat'' p (Errno e)), w)
           | None \<Rightarrow>
               (case klookup w False p of
                  Inl e \<Rightarrow> if e = ENOENT then (Inr (), w)
                           else (Inl (PathErr ''unlinkat'' p (Errno e)), w)
                | Inr cs \<Rightarrow>
                    if cs = [] then
                      (Inl (PathErr ''unlinkat'' p (Errno EINVAL)),
                       w\<lparr>nodes := filter (\<lambda>kv. fst kv = []) (nodes w)\<rparr>)
                    else (Inr (), w\<lparr>nodes := del_tree cs (nodes w)\<rparr>)))"

text \<open>\<open>*LinkError\<close> is rendered by the path error of the old name.\<close>

definition k_rename :: "string \<Rightarrow> string \<Rightarrow> world \<Rightarrow> errno + world" where
  "k_rename old new w =
     (case faulty SysRename old w of Some e \<Rightarrow> Inl e | None \<Rightarrow>
        (case (klookup w False old, klookup w False new) of
           (Inl e, _) \<Rightarrow> Inl e
         | (_, Inl e) \<Rightarrow> Inl e
         | (Inr a, Inr b) \<Rightarrow>
             (case node (nodes w) a of
                None \<Rightarrow> Inl ENOENT
              | Some i \<Rightarrow>
                  if a = b then Inr w
                  else if prefix a b \<or> a = [] \<or> b = [] then Inl EINVAL
                  else
                    (case node (nodes w) b of
                       None \<Rightarrow> Inr (w\<lparr>nodes := move_tree a b (nodes w)\<rparr>)
                     | Some j \<Rightarrow>
                         if kind j = KDir \<and> kind i \<noteq> KDir then Inl EISDIR
                         else if kind j \<noteq> KDir \<and> kind i = KDir then Inl ENOTDIR
                         else if kind j = KDir \<and> children (nodes w) b \<noteq> [] then Inl ENOTEMPTY
                         else Inr (w\<lparr>nodes := move_tree a b (nodes w)\<rparr>)))))"

definition os_Rename :: "string \<Rightarrow> string \<Rightarrow> unit os" where
  "os_Rename old new w =
     (let err = (\<lambda>e. (Inl (PathErr ''rename'' old (Errno e)), w));
          go = (case k_rename old new w of Inl e \<Rightarrow> err e | Inr w1 \<Rightarrow> (Inr (), w1))
      in case kstat w False new of
           Inl _ \<Rightarrow> go
         | Inr fi \<Rightarrow>
             if kind fi \<noteq> KDir then go
             else (case klookup w False old of
                     Inl e \<Rightarrow> err e
                   | Inr a \<Rightarrow>
                       if node (nodes w) a = None then err ENOENT
                       else if new = old \<or> klookup w False new \<noteq> Inr a then err EEXIST
                       else go))"

definition os_Symlink :: "string \<Rightarrow> string \<Rightarrow> unit os" where
  "os_Symlink old new w =
     (let err = (\<lambda>e. (Inl (PathErr ''symlink'' new (Errno e)), w))
      in if old = [] then err ENOENT
         else case klookup w False new of
                Inl e \<Rightarrow> err e
              | Inr cs \<Rightarrow>
                  if cs = [] \<or> node (nodes w) cs \<noteq> None then err EEXIST
                  else (Inr (), put_w cs (new_inode w (KLink old) 0x1FF) w))"

text \<open>Attribute changes at the location a path resolves to.\<close>

definition set_attr :: "string \<Rightarrow> bool \<Rightarrow> (inode \<Rightarrow> inode) \<Rightarrow> string \<Rightarrow> unit os" where
  "set_attr op follow f p w =
     (case klookup w follow p of
        Inl e \<Rightarrow> (Inl (PathErr op p (Errno e)), w)
      | Inr cs \<Rightarrow>
          (case node (nodes w) cs of
             None \<Rightarrow> (Inl (PathErr op p (Errno ENOENT)), w)
           | Some i \<Rightarrow> (Inr (), put_w cs (f i) w)))"

definition os_Chmod :: "string \<Rightarrow> 32 word \<Rightarrow> unit os" where
  "os_Chmod p m w =
     (case faulty SysChmod p w of
        Some e \<Rightarrow> (Inl (PathErr ''chmod'' p (Errno e)), w)
      | None \<Rightarrow> set_attr ''chmod'' True (\<lambda>i. i\<lparr>mode := m\<rparr>) p w)"

definition os_Chown :: "string \<Rightarrow> int \<Rightarrow> int \<Rightarrow> unit os" where
  "os_Chown p uid gid = set_attr ''chown'' True (\<lambda>i. i\<lparr>owner := (uid, gid)\<rparr>) p"

definition os_Lchown :: "string \<Rightarrow> int \<Rightarrow> int \<Rightarrow> unit os" where
  "os_Lchown p uid gid = set_attr ''lchown'' False (\<lambda>i. i\<lparr>owner := (uid, gid)\<rparr>) p"

definition os_Chtimes :: "string \<Rightarrow> int \<Rightarrow> int \<Rightarrow> unit os" where
  "os_Chtimes p at mt = set_attr ''chtimes'' True (\<lambda>i. i\<lparr>times := (at, mt)\<rparr>) p"

section \<open>Open files\<close>

record oflags =
  o_write :: bool
  o_append :: bool
  o_create :: bool
  o_excl :: bool
  o_trunc :: bool

text \<open>
  An open file: the location of its inode and the next offset. A handle is only used while no
  call renames the file, so the location identifies the inode.
\<close>

record handle =
  h_loc :: "string list"
  h_name :: string
  h_off :: nat
  h_append :: bool

definition k_open :: "string \<Rightarrow> oflags \<Rightarrow> 32 word \<Rightarrow> world \<Rightarrow> errno + handle \<times> world" where
  "k_open p fl perm w =
     (case faulty SysOpen p w of Some e \<Rightarrow> Inl e | None \<Rightarrow>
        (case klookup w (\<not> (o_create fl \<and> o_excl fl)) p of
           Inl e \<Rightarrow> Inl e
         | Inr cs \<Rightarrow>
             (let h = \<lparr>h_loc = cs, h_name = p, h_off = 0, h_append = o_append fl\<rparr>
              in case node (nodes w) cs of
                   None \<Rightarrow>
                     if o_create fl \<and> cs \<noteq> [] then Inr (h, put_w cs (new_inode w (KFile []) perm) w)
                     else Inl ENOENT
                 | Some i \<Rightarrow>
                     if o_create fl \<and> o_excl fl then Inl EEXIST
                     else (case kind i of
                             KDir \<Rightarrow> if o_write fl \<or> o_create fl then Inl EISDIR else Inr (h, w)
                           | KLink _ \<Rightarrow> Inl ELOOP
                           | KFile _ \<Rightarrow>
                               Inr (h, if o_trunc fl then put_w cs (i\<lparr>kind := KFile []\<rparr>) w else w)))))"

definition os_OpenFile :: "string \<Rightarrow> oflags \<Rightarrow> 32 word \<Rightarrow> handle os" where
  "os_OpenFile p fl perm w =
     (case k_open p fl perm w of
        Inl e \<Rightarrow> (Inl (PathErr ''open'' p (Errno e)), w)
      | Inr (h, w1) \<Rightarrow> (Inr h, w1))"

text \<open>Overwrite from an offset; a gap would be filled with zero bytes.\<close>

definition write_at :: "string \<Rightarrow> nat \<Rightarrow> string \<Rightarrow> string" where
  "write_at b off d =
     take off b @ replicate (off - length b) (CHR 0x00) @ d @ drop (off + length d) b"

definition os_Write :: "handle \<Rightarrow> string \<Rightarrow> nat os" where
  "os_Write h d w =
     (case node (nodes w) (h_loc h) of
        None \<Rightarrow> (Inl (PathErr ''write'' (h_name h) (Errno EIO)), w)
      | Some i \<Rightarrow>
          (case kind i of
             KFile b \<Rightarrow>
               (let off = (if h_append h then length b else h_off h);
                    upd = (\<lambda>x. put_w (h_loc h) (i\<lparr>kind := KFile (write_at b off x)\<rparr>) w)
                in case faults w SysWrite (h_name h) of
                     Some (e, k) \<Rightarrow> (Inl (PathErr ''write'' (h_name h) (Errno e)), upd (take k d))
                   | None \<Rightarrow> (Inr (length d), upd d))
           | _ \<Rightarrow> (Inl (PathErr ''write'' (h_name h) (Errno EIO)), w)))"

definition os_Close :: "handle \<Rightarrow> unit os" where
  "os_Close h w =
     (case faulty SysClose (h_name h) w of
        Some e \<Rightarrow> (Inl (PathErr ''close'' (h_name h) (Errno e)), w)
      | None \<Rightarrow> (Inr (), w))"

definition wr_create_trunc :: oflags where
  "wr_create_trunc = \<lparr>o_write = True, o_append = False, o_create = True, o_excl = False, o_trunc = True\<rparr>"

definition wr_append_create :: oflags where
  "wr_append_create = \<lparr>o_write = True, o_append = True, o_create = True, o_excl = False, o_trunc = False\<rparr>"

definition wr_create_excl :: oflags where
  "wr_create_excl = \<lparr>o_write = True, o_append = False, o_create = True, o_excl = True, o_trunc = False\<rparr>"

text \<open>\<open>os.WriteFile\<close>: open, write, close; a write error wins over the close error.\<close>

definition os_WriteFile :: "string \<Rightarrow> string \<Rightarrow> 32 word \<Rightarrow> unit os" where
  "os_WriteFile p d perm =
     bindE (os_OpenFile p wr_create_trunc perm)
       (\<lambda>h. attempt (os_Write h d)
         (\<lambda>r. attempt (os_Close h)
           (\<lambda>r1. case r of Inl e \<Rightarrow> fail e | Inr _ \<Rightarrow> liftE r1)))"

end
