(* ===== verification/OsFS.thy ===== *)
theory OsFS
  imports Jail HostOS
begin

text \<open>
  \<open>src/toolkit/filesystem\<close>: \<open>OsFS\<close> (\<open>os_fs.go\<close>) and \<open>atomicWriteFile\<close> (\<open>filesystem.go\<close>). A
  method runs on the pair of the struct's fields and the host; the mutex is dropped, every
  method running to completion before the next.
\<close>

record osfs =
  fs_jail :: string
  fs_wd :: string

type_synonym 'a fsio = "(osfs \<times> world, goerr, 'a) io"

text \<open>A call into the operating system, from a method.\<close>

definition os_call :: "'a os \<Rightarrow> 'a fsio" where
  "os_call m s = (case m (snd s) of (r, w) \<Rightarrow> (r, (fst s, w)))"

definition os_query :: "(world \<Rightarrow> goerr + 'a) \<Rightarrow> 'a fsio" where
  "os_query q s = (q (snd s), s)"

section \<open>State: jail and working directory\<close>

definition ensureInitializedLocked :: "unit fsio" where
  "ensureInitializedLocked s =
     (let (fs, w) = s
      in if \<not> blank (fs_wd fs) then (Inr (), s)
         else if \<not> blank (fs_jail fs) then (Inr (), (fs\<lparr>fs_wd := ''/''\<rparr>, w))
         else case os_Getwd w of
                Inl e \<Rightarrow> (Inl e, s)
              | Inr cwd \<Rightarrow> (Inr (), (fs\<lparr>fs_wd := Clean cwd\<rparr>, w)))"

definition OsFS_GetJail :: "osfs \<Rightarrow> string" where
  "OsFS_GetJail fs = fs_jail fs"

definition OsFS_SetJail :: "string \<Rightarrow> osfs \<Rightarrow> osfs" where
  "OsFS_SetJail jailPath fs =
     (if blank jailPath then fs\<lparr>fs_jail := []\<rparr> else fs\<lparr>fs_jail := Clean jailPath\<rparr>)"

text \<open>One of the providers of the jail contract.\<close>

interpretation osfs_jail: jailed OsFS_GetJail OsFS_SetJail
  by unfold_locales (simp add: OsFS_GetJail_def OsFS_SetJail_def CleanJail_def)

definition OsFS_Getwd :: "string fsio" where
  "OsFS_Getwd = bindE ensureInitializedLocked (\<lambda>_. getS (\<lambda>s. fs_wd (fst s)))"

section \<open>Resolving a path\<close>

text \<open>\<open>fmt.Errorf("resolve path outside jail %s: %w", p, jail.ErrEscapeAttempt)\<close>\<close>

definition escape_err :: "string \<Rightarrow> goerr" where
  "escape_err p = Wrapped (''resolve path outside jail '' @ p) ErrEscapeAttempt"

text \<open>The jail in canonical form, or as it is stored when \<open>EvalSymlinks\<close> fails.\<close>

definition canonical_jail :: "string \<Rightarrow> world \<Rightarrow> string" where
  "canonical_jail jailPath w =
     (case EvalSymlinks w jailPath of Inr evaledJail \<Rightarrow> evaledJail | Inl _ \<Rightarrow> jailPath)"

definition resolveVirtual :: "string \<Rightarrow> bool \<Rightarrow> string fsio" where
  "resolveVirtual path0 followSymlinks =
     bindE ensureInitializedLocked (\<lambda>_ s.
       (let (fs, w) = s;
            wd = (if fs_wd fs = [] then ''/'' else fs_wd fs);
            jailPath = fs_jail fs;
            path1 = (if blank path0 \<or> path0 = ''.'' then wd else path0);
            path = (if \<not> is_abs path1 then Join [wd, path1] else path1);
            virtual = Clean path
        in if jailPath = [] then
             (if \<not> followSymlinks then (Inr virtual, s)
              else case EvalSymlinks w virtual of
                     Inl e \<Rightarrow> (Inl e, s)
                   | Inr resolved \<Rightarrow> (Inr (Clean resolved), s))
           else
             (let host = Clean (Join [jailPath, virtual])
              in if \<not> IsInJail jailPath host then (Inl (escape_err host), s)
                 else if \<not> followSymlinks then (Inr virtual, s)
                 else case EvalSymlinks w host of
                        Inl e \<Rightarrow> (Inl e, s)
                      | Inr resolvedHost \<Rightarrow>
                          (let canonicalJail = canonical_jail jailPath w
                           in if \<not> IsInJail canonicalJail resolvedHost
                              then (Inl (escape_err resolvedHost), s)
                              else (Inr (Clean (RemoveJailPrefix canonicalJail resolvedHost)), s)))))"

definition hostPath :: "osfs \<Rightarrow> string \<Rightarrow> string" where
  "hostPath fs path =
     (if OsFS_GetJail fs = [] then Clean path else Clean (Join [OsFS_GetJail fs, path]))"

definition resolveHost :: "string \<Rightarrow> bool \<Rightarrow> string fsio" where
  "resolveHost path followSymlinks =
     bindE (resolveVirtual path followSymlinks) (\<lambda>resolved. getS (\<lambda>s. hostPath (fst s) resolved))"

text \<open>
  The loop of \<open>resolveHostForCreate\<close>: climb from \<open>cur\<close> to the longest ancestor that exists,
  collecting the missing base names in front of \<open>missing\<close>.
\<close>

function climb :: "world \<Rightarrow> string \<Rightarrow> string list \<Rightarrow> goerr + string \<times> string list" where
  "climb w cur missing =
     (case os_Lstat cur w of
        Inr _ \<Rightarrow> Inr (cur, missing)
      | Inl err \<Rightarrow>
          if \<not> is_not_exist err then Inl err
          else (let next = Dir cur
                in if next = cur then Inr (cur, missing)
                   else climb w next (Base cur # missing)))"
  by pat_completeness auto
termination
  by (relation "measure (\<lambda>(w, cur, missing). climb_measure cur)") (auto intro: Dir_decreases)

declare climb.simps [simp del]

definition resolveHostForCreate :: "string \<Rightarrow> string fsio" where
  "resolveHostForCreate path =
     bindE (resolveVirtual path False) (\<lambda>resolved s.
       (let (fs, w) = s;
            host = hostPath fs resolved;
            jailPath = OsFS_GetJail fs
        in if blank jailPath then (Inr host, s)
           else
             (let canonicalJail = canonical_jail jailPath w
              in if Clean host = Clean jailPath then (Inr host, s)
                 else
                   (let parent = Dir host;
                        base = Base host
                    in case climb w parent [base] of
                         Inl err \<Rightarrow> (Inl err, s)
                       | Inr (cur, missing) \<Rightarrow>
                           (let canonicalAncestor =
                                  (case EvalSymlinks w cur of Inr evaled \<Rightarrow> evaled | Inl _ \<Rightarrow> cur)
                            in if \<not> IsInJail canonicalJail canonicalAncestor
                               then (Inl (escape_err canonicalAncestor), s)
                               else (Inr (Clean (foldl (\<lambda>out seg. Join [out, seg])
                                                   canonicalAncestor missing)), s))))))"

definition resolveHostForOpen :: "string \<Rightarrow> string fsio" where
  "resolveHostForOpen path =
     bindE (resolveHostForCreate path) (\<lambda>host s.
       (let (fs, w) = s;
            jailPath = OsFS_GetJail fs
        in if blank jailPath then (Inr host, s)
           else case os_Lstat host w of
                  Inl statErr \<Rightarrow> (Inr host, s)
                | Inr info \<Rightarrow>
                    (case kind info of
                       KLink _ \<Rightarrow>
                         (let canonicalJail = canonical_jail jailPath w
                          in case EvalSymlinks w host of
                               Inl err \<Rightarrow> (Inl err, s)
                             | Inr resolvedHost \<Rightarrow>
                                 if \<not> IsInJail canonicalJail resolvedHost
                                 then (Inl (escape_err resolvedHost), s)
                                 else (Inr resolvedHost, s))
                     | _ \<Rightarrow> (Inr host, s))))"

section \<open>Construction and the working directory\<close>

definition NewOsFS :: "string \<Rightarrow> string \<Rightarrow> world \<Rightarrow> goerr + osfs" where
  "NewOsFS jailPath wd w =
     (let fs = OsFS_SetJail jailPath \<lparr>fs_jail = [], fs_wd = []\<rparr>;
          initialWd = TrimSpace wd;
          first = (if initialWd \<noteq> [] then Inr initialWd
                   else if blank (OsFS_GetJail fs) then os_Getwd w
                   else Inr ''/'')
      in case first of
           Inl e \<Rightarrow> Inl e
         | Inr d \<Rightarrow>
             (case resolveVirtual d False (fs, w) of
                (Inl e, _) \<Rightarrow> Inl e
              | (Inr resolvedWd, (fs1, _)) \<Rightarrow> Inr (fs1\<lparr>fs_wd := resolvedWd\<rparr>)))"

definition OsFS_Setwd :: "string \<Rightarrow> unit fsio" where
  "OsFS_Setwd path =
     bindE (resolveVirtual path False) (\<lambda>resolved s.
       (let (fs, w) = s;
            host = hostPath fs resolved;
            done = (Inr (), (fs\<lparr>fs_wd := resolved\<rparr>, w))
        in case os_Stat host w of
             Inl err \<Rightarrow> if \<not> is_not_exist err then (Inl err, s) else done
           | Inr info \<Rightarrow>
               if kind info \<noteq> KDir
               then (Inl (ErrMsg (''setwd '' @ quoted path @ '': not a directory'')), s)
               else done))"

definition OsFS_ResolvePath :: "string \<Rightarrow> bool \<Rightarrow> string fsio" where
  "OsFS_ResolvePath path followSymlinks = resolveVirtual path followSymlinks"

section \<open>File operations\<close>

definition OsFS_ReadFile :: "string \<Rightarrow> string fsio" where
  "OsFS_ReadFile path = bindE (resolveHost path True) (\<lambda>host. os_query (os_ReadFile host))"

definition OsFS_WriteFile :: "string \<Rightarrow> string \<Rightarrow> 32 word \<Rightarrow> unit fsio" where
  "OsFS_WriteFile path data perm =
     bindE (resolveHostForOpen path) (\<lambda>host. os_call (os_WriteFile host data perm))"

definition OsFS_Mkdir :: "string \<Rightarrow> 32 word \<Rightarrow> bool \<Rightarrow> unit fsio" where
  "OsFS_Mkdir path perm all =
     bindE (resolveHostForCreate path) (\<lambda>host.
       if all then os_call (os_MkdirAll host perm) else os_call (os_Mkdir host perm))"

definition OsFS_Remove :: "string \<Rightarrow> bool \<Rightarrow> unit fsio" where
  "OsFS_Remove path all =
     bindE (resolveHostForCreate path) (\<lambda>host.
       if all then os_call (os_RemoveAll host) else os_call (os_Remove host))"

definition OsFS_Rename :: "string \<Rightarrow> string \<Rightarrow> unit fsio" where
  "OsFS_Rename src dst =
     bindE (resolveHostForCreate src) (\<lambda>srcHost.
       bindE (resolveHostForCreate dst) (\<lambda>dstHost. os_call (os_Rename srcHost dstHost)))"

definition OsFS_Stat :: "string \<Rightarrow> bool \<Rightarrow> inode fsio" where
  "OsFS_Stat path followSymlinks =
     (if followSymlinks
      then bindE (resolveHost path True) (\<lambda>host. os_query (os_Stat host))
      else bindE (resolveHostForCreate path) (\<lambda>host. os_query (os_Lstat host)))"

definition OsFS_ReadDir :: "string \<Rightarrow> string list fsio" where
  "OsFS_ReadDir path = bindE (resolveHost path True) (\<lambda>host. os_query (os_ReadDir host))"

definition OsFS_Symlink :: "string \<Rightarrow> string \<Rightarrow> unit fsio" where
  "OsFS_Symlink oldname newname =
     bindE (resolveHost oldname False) (\<lambda>oldHost.
       bindE (resolveHostForCreate newname) (\<lambda>newHost. os_call (os_Symlink oldHost newHost)))"

text \<open>The deferred \<open>f.Close()\<close> runs whatever the write returned; its error is dropped.\<close>

definition OsFS_AppendFile :: "string \<Rightarrow> string \<Rightarrow> 32 word \<Rightarrow> unit fsio" where
  "OsFS_AppendFile path data perm =
     bindE (resolveHostForOpen path) (\<lambda>host.
       bindE (os_call (os_OpenFile host wr_append_create perm)) (\<lambda>f.
         attempt (os_call (os_Write f data)) (\<lambda>r.
           attempt (os_call (os_Close f)) (\<lambda>_.
             case r of Inl err \<Rightarrow> fail err | Inr _ \<Rightarrow> ret ()))))"

definition OsFS_OpenFile :: "string \<Rightarrow> oflags \<Rightarrow> 32 word \<Rightarrow> handle fsio" where
  "OsFS_OpenFile path flag perm =
     bindE (resolveHostForOpen path) (\<lambda>host. os_call (os_OpenFile host flag perm))"

definition OsFS_Chmod :: "string \<Rightarrow> 32 word \<Rightarrow> unit fsio" where
  "OsFS_Chmod path m = bindE (resolveHost path True) (\<lambda>host. os_call (os_Chmod host m))"

definition OsFS_Chown :: "string \<Rightarrow> int \<Rightarrow> int \<Rightarrow> unit fsio" where
  "OsFS_Chown path uid gid = bindE (resolveHost path True) (\<lambda>host. os_call (os_Chown host uid gid))"

definition OsFS_Lchown :: "string \<Rightarrow> int \<Rightarrow> int \<Rightarrow> unit fsio" where
  "OsFS_Lchown path uid gid = bindE (resolveHostForCreate path) (\<lambda>host. os_call (os_Lchown host uid gid))"

definition OsFS_Chtimes :: "string \<Rightarrow> int \<Rightarrow> int \<Rightarrow> unit fsio" where
  "OsFS_Chtimes path atime mtime =
     bindE (resolveHost path True) (\<lambda>host. os_call (os_Chtimes host atime mtime))"

definition OsFS_Rel :: "string \<Rightarrow> string \<Rightarrow> string fsio" where
  "OsFS_Rel basePath targetPath =
     bindE (resolveVirtual basePath False) (\<lambda>baseResolved.
       bindE (resolveVirtual targetPath False) (\<lambda>targetResolved.
         liftE (Rel baseResolved targetResolved)))"

section \<open>atomicWriteFile\<close>

text \<open>
  \<open>os.CreateTemp(dir, pre + "*")\<close> for a non-empty directory: the star is replaced by successive random
  strings until an exclusive create succeeds, at most 10000 times. A pattern that contains a separator
  is refused.
\<close>

definition joinPath :: "string \<Rightarrow> string \<Rightarrow> string" where
  "joinPath dir name = (if dir \<noteq> [] \<and> last dir = CHR ''/'' then dir @ name else dir @ CHR ''/'' # name)"

fun create_temp :: "nat \<Rightarrow> string \<Rightarrow> handle os" where
  "create_temp 0 pre w = (Inl (PathErr ''createtemp'' (pre @ ''*'') (Errno EEXIST)), w)"
| "create_temp (Suc n) pre w =
     (let name = pre @ randoms w (rand_pos w);
          w1 = w\<lparr>rand_pos := Suc (rand_pos w)\<rparr>
      in case k_open name wr_create_excl 0x180 w1 of
           Inr (h, w2) \<Rightarrow> (Inr h, w2)
         | Inl e \<Rightarrow> if e = EEXIST then create_temp n pre w1
                    else (Inl (PathErr ''open'' name (Errno e)), w1))"

definition os_CreateTemp :: "string \<Rightarrow> string \<Rightarrow> handle os" where
  "os_CreateTemp dir pre =
     (if CHR ''/'' \<in> set pre
      then (\<lambda>w. (Inl (PathErr ''createtemp'' (pre @ ''*'') (ErrMsg ''pattern contains path separator'')), w))
      else create_temp 10000 (joinPath dir pre))"

lemma joinPath_abs:
  assumes "names_ok D"
  shows "joinPath (abs_path D) pre @ x = abs_path (D @ [pre @ x])"
proof (cases "D = []")
  case False
  then obtain E c where D: "D = E @ [c]" by (metis rev_exhaust)
  then have c: "c \<noteq> []" "CHR ''/'' \<notin> set c" using assms by (auto simp: name_ok_def)
  then have "last c \<noteq> CHR ''/''" by (metis last_in_set)
  with c(1) have "last (abs_path D) \<noteq> CHR ''/''" unfolding D
    by (cases "E = []") (simp_all add: abs_path_snoc, simp add: abs_path_def)
  then show ?thesis using False by (simp add: joinPath_def abs_path_snoc)
qed (simp add: joinPath_def abs_path_def)

text \<open>
  Each step of \<open>atomicWriteFile\<close> after the temporary file exists; \<open>defer os.Remove(tmpName)\<close> runs
  on every return from there, and its error is dropped.
\<close>

definition atomic_body :: "string \<Rightarrow> string \<Rightarrow> 32 word \<Rightarrow> handle \<Rightarrow> unit os" where
  "atomic_body path data perm tmpFile =
     attempt (os_Write tmpFile data) (\<lambda>r.
       case r of
         Inl err \<Rightarrow>
           attempt (os_Close tmpFile) (\<lambda>_.
             fail (Wrapped (''atomic write: write temp file '' @ quoted (h_name tmpFile)) err))
       | Inr _ \<Rightarrow>
           attempt (os_Close tmpFile) (\<lambda>r1.
             case r1 of
               Inl err \<Rightarrow> fail (Wrapped (''atomic write: close temp file '' @ quoted (h_name tmpFile)) err)
             | Inr _ \<Rightarrow>
                 attempt (os_Chmod (h_name tmpFile) perm) (\<lambda>_.
                   attempt (os_Rename (h_name tmpFile) path) (\<lambda>r2.
                     case r2 of
                       Inl err \<Rightarrow>
                         fail (Wrapped (''atomic write: rename '' @ quoted (h_name tmpFile) @ '' -> '' @ quoted path) err)
                     | Inr _ \<Rightarrow> ret ()))))"

definition atomicWriteFile :: "string \<Rightarrow> string \<Rightarrow> 32 word \<Rightarrow> unit os" where
  "atomicWriteFile path data perm =
     (let dir = Dir path
      in attempt (os_MkdirAll dir 0x1ED) (\<lambda>r.
           case r of
             Inl err \<Rightarrow> fail (Wrapped (''atomic write: mkdirall '' @ quoted dir) err)
           | Inr _ \<Rightarrow>
               attempt (os_CreateTemp dir (''.tmp-'' @ Base path @ ''.'')) (\<lambda>rt.
                 case rt of
                   Inl err \<Rightarrow> fail (Wrapped ''atomic write: create temp file'' err)
                 | Inr tmpFile \<Rightarrow>
                     attempt (atomic_body path data perm tmpFile) (\<lambda>res.
                       attempt (os_Remove (h_name tmpFile)) (\<lambda>_. liftE res)))))"

definition OsFS_AtomicWriteFile :: "string \<Rightarrow> string \<Rightarrow> 32 word \<Rightarrow> unit fsio" where
  "OsFS_AtomicWriteFile path data perm =
     bindE (resolveHostForOpen path) (\<lambda>host. os_call (atomicWriteFile host data perm))"

end
