(* ===== verification/HostFacts.thy ===== *)
theory HostFacts
  imports HostOS
begin

text \<open>
  Facts about the host: lookups after a change of the tree, the shape of what the path walk
  returns, and the two lemmas that connect the kernel's walk with \<open>EvalSymlinks\<close>: a successful
  walk through a path goes through the directory \<open>EvalSymlinks\<close> computes for its front part
  (\<open>resolve_split\<close>), and conversely (\<open>resolve_forward\<close>).
\<close>

section \<open>Lookups after a change\<close>

lemma node_put [simp]: "node (put cs i t) ds = (if ds = cs then Some i else node t ds)"
  using map_of_filter_key [where P = "\<lambda>k. k \<noteq> cs" and k = ds and al = t] by (simp add: put_def)

lemma node_del_tree [simp]: "node (del_tree cs t) ds = (if prefix cs ds then None else node t ds)"
  by (simp add: del_tree_def map_of_filter_key [where P = "\<lambda>k. \<not> prefix cs k"])

lemma map_of_relocate:
  "\<forall>kv \<in> set al. prefix a (fst kv) \<Longrightarrow>
   map_of (map (\<lambda>kv. (b @ drop (length a) (fst kv), snd kv)) al) ds =
     (if prefix b ds then map_of al (a @ drop (length b) ds) else None)"
proof (induction al)
  case (Cons kv al)
  obtain k v where kv: "kv = (k, v)" by (cases kv)
  then obtain r where k: "k = a @ r" using Cons.prems by (auto simp: prefix_def)
  show ?case using Cons kv k by (auto simp: prefix_def)
qed auto

lemma node_move_tree:
  "node (move_tree a b t) ds =
     (if prefix b ds \<and> node t (a @ drop (length b) ds) \<noteq> None
      then node t (a @ drop (length b) ds)
      else if prefix a ds \<or> prefix b ds then None else node t ds)"
proof -
  let ?l = "map (\<lambda>kv. (b @ drop (length a) (fst kv), snd kv)) (filter (\<lambda>kv. prefix a (fst kv)) t)"
  have l: "map_of ?l ds = (if prefix b ds then node t (a @ drop (length b) ds) else None)"
    by (subst map_of_relocate) (auto simp: map_of_filter_key [where P = "prefix a"])
  have r: "map_of (filter (\<lambda>kv. \<not> prefix a (fst kv) \<and> \<not> prefix b (fst kv)) t) ds =
      (if prefix a ds \<or> prefix b ds then None else node t ds)"
    using map_of_filter_key [where P = "\<lambda>k. \<not> prefix a k \<and> \<not> prefix b k" and k = ds and al = t]
    by auto
  show ?thesis unfolding move_tree_def map_of_append map_add_def l r by auto
qed

lemma nodes_put_w [simp]: "nodes (put_w cs i w) = put cs i (nodes w)"
  by (simp add: put_w_def)

section \<open>Well-formed trees\<close>

text \<open>The root is a directory and every other inode sits in a directory.\<close>

definition tree_ok :: "tree \<Rightarrow> bool" where
  "tree_ok t \<longleftrightarrow> is_dir_at t [] \<and> (\<forall>cs. cs \<noteq> [] \<longrightarrow> node t cs \<noteq> None \<longrightarrow> is_dir_at t (butlast cs))"

lemma is_dir_at_iff: "is_dir_at t cs \<longleftrightarrow> (\<exists>i. node t cs = Some i \<and> kind i = KDir)"
  by (auto simp: is_dir_at_def split: option.splits)

lemma is_dir_atI: "node t cs = Some i \<Longrightarrow> kind i = KDir \<Longrightarrow> is_dir_at t cs"
  by (simp add: is_dir_at_def)

lemma tree_ok_root: "tree_ok t \<Longrightarrow> is_dir_at t []"
  by (simp add: tree_ok_def)

lemma tree_ok_parent: "tree_ok t \<Longrightarrow> node t (cs @ [c]) = Some i \<Longrightarrow> is_dir_at t cs"
  by (auto simp: tree_ok_def dest: spec [of _ "cs @ [c]"])

lemma tree_ok_butlast: "tree_ok t \<Longrightarrow> is_dir_at t cs \<Longrightarrow> is_dir_at t (butlast cs)"
  by (cases cs rule: rev_cases) (auto simp: is_dir_at_iff [of t "_ @ _"] dest: tree_ok_parent)

lemma tree_ok_prefix: "tree_ok t \<Longrightarrow> is_dir_at t (ds @ es) \<Longrightarrow> is_dir_at t ds"
proof (induction es rule: rev_induct)
  case (snoc e es)
  then have "is_dir_at t (butlast (ds @ es @ [e]))" by (intro tree_ok_butlast)
  then show ?case using snoc by (simp add: butlast_append)
qed simp

lemma tree_ok_below: "tree_ok t \<Longrightarrow> node t ds = None \<Longrightarrow> node t (ds @ es) = None"
proof (induction es rule: rev_induct)
  case (snoc e es)
  then have "node t (ds @ es) = None" by simp
  then show ?case
    using snoc.prems(1) tree_ok_parent [of t "ds @ es" e] by (cases "node t (ds @ es @ [e])") (auto simp: is_dir_at_def)
qed simp

section \<open>What the walk returns\<close>

text \<open>The location a walk ends at: names only, in an existing directory.\<close>

definition located :: "tree \<Rightarrow> string list \<Rightarrow> bool" where
  "located t q \<longleftrightarrow> names_ok q \<and> (q \<noteq> [] \<longrightarrow> is_dir_at t (butlast q))"

abbreviation no_slash :: "string list \<Rightarrow> bool" where
  "no_slash cs \<equiv> list_all (\<lambda>c. CHR ''/'' \<notin> set c) cs"

lemma no_slash_split: "no_slash (split_on CHR ''/'' p)"
  by (auto simp: list_all_iff dest: split_on_parts)

lemma names_ok_no_slashes: "names_ok cs \<Longrightarrow> no_slash cs"
  by (simp add: list_all_iff name_ok_def)

lemma name_ok_cases:
  assumes "CHR ''/'' \<notin> set c"
  obtains "c = [] \<or> c = ''.''" | "c = ''..''" | "name_ok c"
  using assms by (auto simp: name_ok_def)

lemma located_dir: "located t q \<Longrightarrow> tree_ok t \<Longrightarrow> names_ok q"
  by (simp add: located_def)

lemma located_snoc: "located t d \<Longrightarrow> is_dir_at t d \<Longrightarrow> name_ok c \<Longrightarrow> located t (d @ [c])"
  by (simp add: located_def)

lemma located_butlast:
  "tree_ok t \<Longrightarrow> located t d \<Longrightarrow> is_dir_at t d \<Longrightarrow> located t (butlast d) \<and> is_dir_at t (butlast d)"
  using tree_ok_butlast [of t d] tree_ok_butlast [of t "butlast d"]
  by (auto simp: located_def list_all_iff dest: in_set_butlastD)

lemma located_Nil [simp]: "located t []"
  by (simp add: located_def)

lemma is_dir_at_kind: "is_dir_at t d \<Longrightarrow> node t d = Some i \<Longrightarrow> kind i = KDir"
  by (simp add: is_dir_at_def)

lemma resolve_located:
  "resolve t n f d cs = Inr q \<Longrightarrow> tree_ok t \<Longrightarrow> located t d \<Longrightarrow> is_dir_at t d \<Longrightarrow> no_slash cs \<Longrightarrow>
    located t q \<and> (f \<longrightarrow> (\<forall>i l. node t q = Some i \<longrightarrow> kind i \<noteq> KLink l))"
proof (induction t n f d cs rule: resolve.induct)
  case (1 t n f d)
  then show ?case by (auto simp: is_dir_at_def split: option.splits)
next
  case (2 t n f d c cs)
  from "2.prems" have c: "CHR ''/'' \<notin> set c" and cs: "no_slash cs" by auto
  from c show ?case
  proof (cases rule: name_ok_cases)
    case 1
    then show ?thesis using "2.IH"(1) "2.prems" cs by simp
  next
    case 2
    have "located t (butlast d)" "is_dir_at t (butlast d)"
      using located_butlast "2.prems" by auto
    then show ?thesis using 2 "2.IH"(2) "2.prems" cs by simp
  next
    case 3
    then have nc: "\<not> (c = [] \<or> c = ''.'')" "c \<noteq> ''..''" by auto
    have l: "located t (d @ [c])" using "2.prems" 3 by (intro located_snoc)
    show ?thesis
    proof (cases "node t (d @ [c])")
      case None
      then show ?thesis using "2.prems" nc l by (auto split: if_splits)
    next
      case (Some i)
      show ?thesis
      proof (cases "kind i")
        case KDir
        then have "is_dir_at t (d @ [c])" using Some by (rule_tac is_dir_atI)
        then show ?thesis using "2.IH"(3) [OF nc Some KDir] "2.prems" nc Some KDir l cs by simp
      next
        case (KFile b)
        then show ?thesis using "2.prems" nc Some l by (auto split: if_splits)
      next
        case (KLink l')
        have "located t (if is_abs l' then [] else d)" "is_dir_at t (if is_abs l' then [] else d)"
          using "2.prems" tree_ok_root by auto
        moreover have "no_slash (split_on CHR ''/'' l' @ cs)" using cs no_slash_split by simp
        ultimately show ?thesis
          using "2.IH"(4) [OF nc Some KLink] "2.prems" nc Some KLink l
          by (auto split: if_splits)
      qed
    qed
  qed
qed

lemma resolve_on_dir:
  "is_dir_at t (d @ cs) \<Longrightarrow> tree_ok t \<Longrightarrow> names_ok cs \<Longrightarrow>
   resolve t n f d (cs @ r) = resolve t n f (d @ cs) r"
proof (induction cs arbitrary: d)
  case (Cons c cs)
  have c: "\<not> (c = [] \<or> c = ''.'')" "c \<noteq> ''..''" using Cons.prems by (auto simp: name_ok_def)
  have "is_dir_at t ((d @ [c]) @ cs)" using Cons.prems by simp
  then have "is_dir_at t (d @ [c])" using Cons.prems(2) by (rule_tac tree_ok_prefix)
  then obtain i where "node t (d @ [c]) = Some i" "kind i = KDir" by (auto simp: is_dir_at_iff)
  then show ?case using c Cons.IH [of "d @ [c]"] Cons.prems by simp
qed simp

lemma walk_lstat_dir:
  assumes "tree_ok (nodes w)" and "is_dir_at (nodes w) d" and "names_ok d" and "name_ok c"
  shows "walk_lstat w True (d @ [c]) =
    (case node (nodes w) (d @ [c]) of None \<Rightarrow> Inl ENOENT | Some i \<Rightarrow> Inr i)"
proof -
  have c: "\<not> (c = [] \<or> c = ''.'')" "c \<noteq> ''..''" using assms(4) by (auto simp: name_ok_def)
  have "resolve (nodes w) max_links False [] (d @ [c]) = resolve (nodes w) max_links False d [c]"
    using resolve_on_dir [of "nodes w" "[]" d] assms by simp
  also have "\<dots> = Inr (d @ [c])" using c by (auto split: option.splits kind.splits)
  finally show ?thesis by (simp add: walk_lstat_def)
qed

section \<open>EvalSymlinks and the kernel agree\<close>

text \<open>Where a kernel walk continues once it has reached what \<open>EvalSymlinks\<close> computed.\<close>

definition go_on :: "tree \<Rightarrow> nat \<Rightarrow> bool \<Rightarrow> string list \<Rightarrow> string list \<Rightarrow> errno + string list" where
  "go_on t m f q rest =
     (if is_dir_at t q then resolve t m f q rest
      else if rest = [] then Inr q else Inl ENOTDIR)"

text \<open>What \<open>EvalSymlinks\<close> returns for an absolute path.\<close>

definition canonical :: "tree \<Rightarrow> string list \<Rightarrow> bool" where
  "canonical t q \<longleftrightarrow> located t q \<and> (\<exists>i. node t q = Some i \<and> (\<forall>l. kind i \<noteq> KLink l))"

lemma canonical_dir: "located t d \<Longrightarrow> is_dir_at t d \<Longrightarrow> canonical t d"
  by (auto simp: canonical_def is_dir_at_iff)

lemma resolve_forward:
  "walk w n r d cs = Inr (r', q) \<Longrightarrow> r \<Longrightarrow> tree_ok (nodes w) \<Longrightarrow> located (nodes w) d \<Longrightarrow>
   is_dir_at (nodes w) d \<Longrightarrow> no_slash cs \<Longrightarrow>
   r' \<and> canonical (nodes w) q \<and>
   (\<forall>m f rest. rest \<noteq> [] \<or> f \<longrightarrow>
      resolve (nodes w) m f d (cs @ rest) = Inl ELOOP \<or>
      (\<exists>m'. resolve (nodes w) m f d (cs @ rest) = go_on (nodes w) m' f q rest))"
proof (induction w n r d cs rule: walk.induct)
  case (1 w n r d)
  then show ?case by (auto simp: canonical_dir go_on_def)
next
  case (2 w n r d c cs)
  from "2.prems" have c: "CHR ''/'' \<notin> set c" and cs: "no_slash cs" by auto
  from c show ?case
  proof (cases rule: name_ok_cases)
    case 1
    then show ?thesis using "2.IH"(1) "2.prems" cs by simp
  next
    case 2
    have "located (nodes w) (butlast d)" "is_dir_at (nodes w) (butlast d)"
      using located_butlast "2.prems" by auto
    moreover have "walk_up r d = butlast d" using "2.prems"(2) by (simp add: walk_up_def)
    ultimately show ?thesis using 2 "2.IH"(2) "2.prems" cs by simp
  next
    case 3
    then have nc: "\<not> (c = [] \<or> c = ''.'')" "c \<noteq> ''..''" by auto
    have loc: "located (nodes w) (d @ [c])" using "2.prems" 3 by (intro located_snoc)
    have ls: "walk_lstat w r (d @ [c]) =
        (case node (nodes w) (d @ [c]) of None \<Rightarrow> Inl ENOENT | Some i \<Rightarrow> Inr i)"
      using walk_lstat_dir "2.prems" 3 by (simp add: located_def)
    then obtain i where i: "node (nodes w) (d @ [c]) = Some i"
      using "2.prems"(1) nc by (auto split: option.splits)
    then have ls: "walk_lstat w r (d @ [c]) = Inr i" using ls by simp
    show ?thesis
    proof (cases "kind i")
      case KDir
      then have "is_dir_at (nodes w) (d @ [c])" using i by (rule_tac is_dir_atI)
      then show ?thesis using "2.IH"(3) [OF nc ls KDir] "2.prems" nc i ls KDir loc cs by simp
    next
      case (KFile b)
      then have q: "cs = []" "q = d @ [c]" "r'"
        using "2.prems"(1,2) nc i ls by (auto split: if_splits)
      have "\<not> is_dir_at (nodes w) (d @ [c])" using i KFile by (simp add: is_dir_at_def)
      then show ?thesis using q i KFile loc nc
        by (auto simp: canonical_def go_on_def)
    next
      case (KLink l)
      let ?cs = "split_on CHR ''/'' l @ cs"
      have n: "n \<noteq> 0" using "2.prems"(1) nc i ls KLink by (auto split: if_splits)
      have ns: "no_slash ?cs" using cs no_slash_split by simp
      let ?d = "if is_abs l then [] else d"
      have wk: "walk w (n - 1) (if is_abs l then True else r) ?d ?cs = Inr (r', q)"
        using "2.prems"(1) nc i ls KLink n by (auto split: if_splits)
      have rs: "resolve (nodes w) m f d ((c # cs) @ rest) = (if m = 0 then Inl ELOOP
          else resolve (nodes w) (m - 1) f ?d (?cs @ rest))" if "rest \<noteq> [] \<or> f" for m f rest
        using nc i KLink that by auto
      have d: "located (nodes w) ?d" "is_dir_at (nodes w) ?d" using "2.prems" tree_ok_root by auto
      have "r' \<and> canonical (nodes w) q \<and>
        (\<forall>m f rest. rest \<noteq> [] \<or> f \<longrightarrow> resolve (nodes w) m f ?d (?cs @ rest) = Inl ELOOP \<or>
          (\<exists>m'. resolve (nodes w) m f ?d (?cs @ rest) = go_on (nodes w) m' f q rest))"
      proof (cases "is_abs l")
        case True
        then show ?thesis
          using "2.IH"(4) [OF nc ls KLink n True] wk d ns "2.prems"(3) by simp
      next
        case False
        then show ?thesis
          using "2.IH"(5) [OF nc ls KLink n False] wk d ns "2.prems"(2,3) by simp
      qed
      then show ?thesis using rs by (metis (no_types))
    qed
  qed
qed

lemma resolve_split:
  "resolve (nodes w) m f d (cs @ rest) = Inr p \<Longrightarrow> rest \<noteq> [] \<Longrightarrow> m \<le> n \<Longrightarrow> tree_ok (nodes w) \<Longrightarrow>
   located (nodes w) d \<Longrightarrow> is_dir_at (nodes w) d \<Longrightarrow> no_slash cs \<Longrightarrow>
   \<exists>q m'. walk w n True d cs = Inr (True, q) \<and> is_dir_at (nodes w) q \<and> located (nodes w) q \<and>
     m' \<le> m \<and> resolve (nodes w) m' f q rest = Inr p"
proof (induction "(m, cs)" arbitrary: m n d cs
    rule: wf_induct_rule [OF wf_measures [of "[fst, length \<circ> snd]"]])
  case (1 m cs)
  have IH: "\<And>m' cs' n d. (m' < m \<or> m' = m \<and> length cs' < length cs) \<Longrightarrow>
      resolve (nodes w) m' f d (cs' @ rest) = Inr p \<Longrightarrow> m' \<le> n \<Longrightarrow>
      located (nodes w) d \<Longrightarrow> is_dir_at (nodes w) d \<Longrightarrow> no_slash cs' \<Longrightarrow>
      \<exists>q m''. walk w n True d cs' = Inr (True, q) \<and> is_dir_at (nodes w) q \<and> located (nodes w) q \<and>
        m'' \<le> m' \<and> resolve (nodes w) m'' f q rest = Inr p"
    using "1.hyps" "1.prems"(2,4) by auto
  show ?case
  proof (cases cs)
    case Nil
    then show ?thesis using "1.prems" by auto
  next
    case (Cons c cs')
    then have c: "CHR ''/'' \<notin> set c" and cs: "no_slash cs'" using "1.prems" by auto
    have len: "length cs' < length cs" using Cons by simp
    from c show ?thesis
    proof (cases rule: name_ok_cases)
      case 1
      then show ?thesis using IH [of m cs' d n] "1.prems" cs Cons by auto
    next
      case 2
      have "located (nodes w) (butlast d)" "is_dir_at (nodes w) (butlast d)"
        using located_butlast "1.prems" by auto
      then show ?thesis using 2 IH [of m cs' "butlast d" n] "1.prems" cs Cons
        by (simp add: walk_up_def)
    next
      case 3
      then have nc: "\<not> (c = [] \<or> c = ''.'')" "c \<noteq> ''..''" by auto
      have loc: "located (nodes w) (d @ [c])" using "1.prems" 3 by (intro located_snoc)
      have ne: "cs' @ rest \<noteq> []" using "1.prems"(2) by simp
      obtain i where i: "node (nodes w) (d @ [c]) = Some i"
        using "1.prems"(1) nc ne Cons by (auto split: option.splits)
      have ls: "walk_lstat w True (d @ [c]) = Inr i"
        using walk_lstat_dir [of w d c] "1.prems" 3 i by (simp add: located_def)
      show ?thesis
      proof (cases "kind i")
        case KDir
        then have "is_dir_at (nodes w) (d @ [c])" using i by (rule_tac is_dir_atI)
        then show ?thesis using IH [of m cs' "d @ [c]" n] "1.prems" nc i ls KDir loc cs Cons by simp
      next
        case (KFile b)
        then show ?thesis using "1.prems"(1) nc i ne Cons by (auto split: if_splits)
      next
        case (KLink l)
        let ?cs = "split_on CHR ''/'' l @ cs'"
        let ?d = "if is_abs l then [] else d"
        have m: "m \<noteq> 0" and rs: "resolve (nodes w) (m - 1) f ?d (?cs @ rest) = Inr p"
          using "1.prems"(1) nc i ne KLink Cons by (auto split: if_splits)
        have d: "located (nodes w) ?d" "is_dir_at (nodes w) ?d" using "1.prems" tree_ok_root by auto
        have ns: "no_slash ?cs" using cs no_slash_split by simp
        have "m - 1 < m" "m - 1 \<le> n - 1" using m "1.prems"(3) by auto
        then obtain q m'' where *: "walk w (n - 1) True ?d ?cs = Inr (True, q)"
            "is_dir_at (nodes w) q" "located (nodes w) q" "m'' \<le> m - 1"
            "resolve (nodes w) m'' f q rest = Inr p"
          using IH [OF _ rs _ d ns, of "n - 1"] by blast
        moreover have "walk w n True d cs = Inr (True, q)"
          using *(1) nc ls KLink Cons m "1.prems"(3) by (cases "is_abs l") auto
        ultimately show ?thesis by (metis diff_le_self le_trans)
      qed
    qed
  qed
qed

lemma walk_complete:
  "resolve (nodes w) m True d cs = Inr p \<Longrightarrow> node (nodes w) p = Some i \<Longrightarrow> m \<le> n \<Longrightarrow>
   tree_ok (nodes w) \<Longrightarrow> located (nodes w) d \<Longrightarrow> is_dir_at (nodes w) d \<Longrightarrow> no_slash cs \<Longrightarrow>
   walk w n True d cs = Inr (True, p)"
proof (induction "(m, cs)" arbitrary: m n d cs
    rule: wf_induct_rule [OF wf_measures [of "[fst, length \<circ> snd]"]])
  case (1 m cs)
  have IH: "\<And>m' cs' n d. (m' < m \<or> m' = m \<and> length cs' < length cs) \<Longrightarrow>
      resolve (nodes w) m' True d cs' = Inr p \<Longrightarrow> m' \<le> n \<Longrightarrow>
      located (nodes w) d \<Longrightarrow> is_dir_at (nodes w) d \<Longrightarrow> no_slash cs' \<Longrightarrow>
      walk w n True d cs' = Inr (True, p)"
    using "1.hyps" "1.prems"(2,4) by auto
  show ?case
  proof (cases cs)
    case Nil
    then show ?thesis using "1.prems" by auto
  next
    case (Cons c cs')
    then have c: "CHR ''/'' \<notin> set c" and cs: "no_slash cs'" using "1.prems" by auto
    from c show ?thesis
    proof (cases rule: name_ok_cases)
      case 1
      then show ?thesis using IH [of m cs' d n] "1.prems" cs Cons by auto
    next
      case 2
      have "located (nodes w) (butlast d)" "is_dir_at (nodes w) (butlast d)"
        using located_butlast "1.prems" by auto
      then show ?thesis using 2 IH [of m cs' "butlast d" n] "1.prems" cs Cons
        by (simp add: walk_up_def)
    next
      case 3
      then have nc: "\<not> (c = [] \<or> c = ''.'')" "c \<noteq> ''..''" by auto
      have loc: "located (nodes w) (d @ [c])" using "1.prems" 3 by (intro located_snoc)
      obtain j where i: "node (nodes w) (d @ [c]) = Some j"
        using "1.prems"(1,2) nc Cons by (auto split: option.splits if_splits)
      have ls: "walk_lstat w True (d @ [c]) = Inr j"
        using walk_lstat_dir [of w d c] "1.prems" 3 i by (simp add: located_def)
      show ?thesis
      proof (cases "kind j")
        case KDir
        then have "is_dir_at (nodes w) (d @ [c])" using i by (rule_tac is_dir_atI)
        then show ?thesis using IH [of m cs' "d @ [c]" n] "1.prems" nc i ls KDir loc cs Cons by simp
      next
        case (KFile b)
        then show ?thesis using "1.prems"(1) nc i ls Cons by (auto split: if_splits)
      next
        case (KLink l)
        let ?cs = "split_on CHR ''/'' l @ cs'"
        let ?d = "if is_abs l then [] else d"
        have m: "m \<noteq> 0" and rs: "resolve (nodes w) (m - 1) True ?d ?cs = Inr p"
          using "1.prems"(1) nc i KLink Cons by (auto split: if_splits)
        have d: "located (nodes w) ?d" "is_dir_at (nodes w) ?d" using "1.prems" tree_ok_root by auto
        have ns: "no_slash ?cs" using cs no_slash_split by simp
        have "m - 1 < m" "m - 1 \<le> n - 1" using m "1.prems"(3) by auto
        then have "walk w (n - 1) True ?d ?cs = Inr (True, p)"
          using IH [OF _ rs _ d ns, of "n - 1"] by blast
        then show ?thesis
          using nc ls KLink Cons m "1.prems"(3) by (cases "is_abs l") auto
      qed
    qed
  qed
qed

text \<open>A canonical location is its own canonical form.\<close>

lemma resolve_canonical:
  assumes "tree_ok t" and "canonical t (d @ cs)" and "is_dir_at t d"
  shows "resolve t m f d cs = Inr (d @ cs)"
proof (cases cs rule: rev_cases)
  case (snoc ds c)
  have loc: "located t ((d @ ds) @ [c])" using assms(2) snoc by (simp add: canonical_def)
  then have dir: "is_dir_at t (d @ ds)" and c: "name_ok c" and ds: "names_ok ds"
    by (auto simp: located_def butlast_append)
  have nc: "\<not> (c = [] \<or> c = ''.'')" "c \<noteq> ''..''" using c by auto
  have "resolve t m f d cs = resolve t m f (d @ ds) [c]"
    using resolve_on_dir [OF dir assms(1) ds, of m f "[c]"] snoc by simp
  also have "\<dots> = Inr (d @ cs)"
    using assms(2) snoc nc by (auto simp: canonical_def split: kind.splits)
  finally show ?thesis .
qed simp

lemma walk_canonical:
  assumes "tree_ok (nodes w)" and "canonical (nodes w) cs"
  shows "walk w n True [] cs = Inr (True, cs)"
proof -
  obtain i where i: "node (nodes w) cs = Some i" using assms(2) by (auto simp: canonical_def)
  have "resolve (nodes w) 0 True [] cs = Inr cs"
    using resolve_canonical [of "nodes w" "[]" cs 0 True] assms tree_ok_root by simp
  then show ?thesis
    using walk_complete [of w 0 "[]" cs cs i n] i assms tree_ok_root
    by (simp add: canonical_def located_def names_ok_no_slashes)
qed

end
