(* ===== verification/HostChange.thy ===== *)
theory HostChange
  imports HostFacts
begin

text \<open>
  What each system call may change. A call is \<open>confined\<close> to \<open>J\<close> when everything that is not below
  \<open>J\<close> is as it was and the tree is still well formed; \<open>keeps_dir\<close> adds that \<open>J\<close> is still a directory.
\<close>

section \<open>Confinement\<close>

definition confined :: "string list \<Rightarrow> world \<Rightarrow> world \<Rightarrow> bool" where
  "confined J w w' \<longleftrightarrow>
     (\<forall>cs. \<not> prefix J cs \<longrightarrow> node (nodes w') cs = node (nodes w) cs) \<and> tree_ok (nodes w') \<and>
     randoms w' = randoms w"

definition keeps_dir :: "string list \<Rightarrow> world \<Rightarrow> world \<Rightarrow> bool" where
  "keeps_dir J w w' \<longleftrightarrow> (is_dir_at (nodes w) J \<longrightarrow> is_dir_at (nodes w') J)"

abbreviation safe :: "string list \<Rightarrow> world \<Rightarrow> world \<Rightarrow> bool" where
  "safe J w w' \<equiv> confined J w w' \<and> keeps_dir J w w'"

definition below :: "string list \<Rightarrow> world \<Rightarrow> bool \<Rightarrow> string \<Rightarrow> bool" where
  "below J w follow p \<longleftrightarrow> (\<forall>q. klookup w follow p = Inr q \<longrightarrow> prefix J q)"

lemma confined_refl [simp]: "confined J w w \<longleftrightarrow> tree_ok (nodes w)"
  by (simp add: confined_def)

lemma keeps_dir_refl [simp]: "keeps_dir J w w"
  by (simp add: keeps_dir_def)

lemma confined_tree: "confined J w w' \<Longrightarrow> tree_ok (nodes w')"
  by (simp add: confined_def)

lemma confined_trans: "confined J w w1 \<Longrightarrow> confined J w1 w2 \<Longrightarrow> confined J w w2"
  by (simp add: confined_def)

lemma keeps_dir_trans: "keeps_dir J w w1 \<Longrightarrow> keeps_dir J w1 w2 \<Longrightarrow> keeps_dir J w w2"
  by (simp add: keeps_dir_def)

lemma safe_trans: "safe J w w1 \<Longrightarrow> safe J w1 w2 \<Longrightarrow> safe J w w2"
  using confined_trans keeps_dir_trans by blast

lemma klookup_located:
  assumes "klookup w f p = Inr q" and "is_abs p" and "tree_ok (nodes w)"
  shows "located (nodes w) q"
proof -
  have "p \<noteq> []" using assms(2) by auto
  then have "resolve (nodes w) max_links f [] (split_on CHR ''/'' p) = Inr q"
    using assms by (simp add: klookup_def start_dir_def)
  then show ?thesis
    using resolve_located assms(3) tree_ok_root no_slash_split located_Nil by blast
qed

lemma safe_put:
  assumes "tree_ok (nodes w)" and "located (nodes w) loc" and J: "prefix J loc"
    and k: "case node (nodes w) loc of None \<Rightarrow> loc \<noteq> [] | Some j \<Rightarrow> (kind j = KDir \<longleftrightarrow> kind i = KDir)"
  shows "safe J w (put_w loc i w)"
proof -
  let ?t = "put loc i (nodes w)"
  have dirs: "is_dir_at (nodes w) cs \<Longrightarrow> is_dir_at ?t cs" for cs
    using k by (auto simp: is_dir_at_def split: option.splits)
  have "tree_ok ?t"
    unfolding tree_ok_def
  proof (intro conjI allI impI)
    show "is_dir_at ?t []" using dirs tree_ok_root assms(1) by blast
  next
    fix cs
    assume "cs \<noteq> []" "node ?t cs \<noteq> None"
    then have "is_dir_at (nodes w) (butlast cs)"
      using assms(1,2) by (auto simp: tree_ok_def located_def split: if_splits)
    then show "is_dir_at ?t (butlast cs)" by (rule dirs)
  qed
  moreover have "randoms (put_w loc i w) = randoms w" by (simp add: put_w_def)
  ultimately show ?thesis using J dirs by (auto simp: confined_def keeps_dir_def)
qed

lemma safe_put_new:
  "tree_ok (nodes w) \<Longrightarrow> located (nodes w) loc \<Longrightarrow> prefix J loc \<Longrightarrow> node (nodes w) loc = None \<Longrightarrow>
   safe J w (put_w loc i w)"
  using safe_put [of w loc J i] tree_ok_root [of "nodes w"] by (cases "loc = []") (auto simp: is_dir_at_iff)

lemma safe_put_old:
  "tree_ok (nodes w) \<Longrightarrow> located (nodes w) loc \<Longrightarrow> prefix J loc \<Longrightarrow> node (nodes w) loc = Some j \<Longrightarrow>
   (kind j = KDir \<longleftrightarrow> kind i = KDir) \<Longrightarrow> safe J w (put_w loc i w)"
  using safe_put [of w loc J i] by simp

lemma confined_del:
  assumes "tree_ok (nodes w)" and J: "prefix J loc" and "loc \<noteq> []"
  shows "confined J w (w\<lparr>nodes := del_tree loc (nodes w)\<rparr>)"
proof -
  let ?t = "del_tree loc (nodes w)"
  have "tree_ok ?t"
    unfolding tree_ok_def
  proof (intro conjI allI impI)
    show "is_dir_at ?t []"
      using assms(1,3) tree_ok_root [of "nodes w"] by (auto simp: is_dir_at_iff)
  next
    fix cs
    assume cs: "cs \<noteq> []" "node ?t cs \<noteq> None"
    then have "is_dir_at (nodes w) (butlast cs)" "\<not> prefix loc cs"
      using assms(1) by (auto simp: tree_ok_def split: if_splits)
    moreover have "prefix (butlast cs) cs" by (rule prefixeq_butlast)
    ultimately show "is_dir_at ?t (butlast cs)"
      by (auto simp: is_dir_at_iff intro: prefix_order.trans)
  qed
  then show ?thesis using J by (auto simp: confined_def intro: prefix_order.trans)
qed

lemma keeps_dir_del:
  "prefix J loc \<Longrightarrow> loc \<noteq> J \<Longrightarrow> keeps_dir J w (w\<lparr>nodes := del_tree loc (nodes w)\<rparr>)"
  by (auto simp: keeps_dir_def is_dir_at_iff dest: prefix_order.antisym)

text \<open>\<open>a\<close> takes the place of \<open>b\<close>, of which no entry is left.\<close>

lemma move_dirs:
  "is_dir_at t ds \<Longrightarrow> \<not> prefix a ds \<Longrightarrow> \<not> prefix b ds \<Longrightarrow> is_dir_at (move_tree a b t) ds"
  "is_dir_at t (a @ es) \<Longrightarrow> is_dir_at (move_tree a b t) (b @ es)"
  by (auto simp: is_dir_at_iff node_move_tree)

lemma tree_ok_move:
  assumes ok: "tree_ok t" and lb: "located t b" and nab: "\<not> prefix a b" and ne: "a \<noteq> []" "b \<noteq> []"
  shows "tree_ok (move_tree a b t)"
  unfolding tree_ok_def
proof (intro conjI allI impI)
  show "is_dir_at (move_tree a b t) []" using move_dirs(1) tree_ok_root [OF ok] ne by auto
next
  fix cs
  assume cs: "cs \<noteq> []" "node (move_tree a b t) cs \<noteq> None"
  show "is_dir_at (move_tree a b t) (butlast cs)"
  proof (cases "prefix b cs")
    case True
    then obtain es where es: "cs = b @ es" by (auto simp: prefix_def)
    show ?thesis
    proof (cases es rule: rev_cases)
      case Nil
      have "is_dir_at t (butlast b)" using lb ne by (simp add: located_def)
      moreover have "\<not> prefix a (butlast b)" using nab prefixeq_butlast prefix_order.trans by blast
      moreover have "\<not> prefix b (butlast b)"
        using ne(2) prefix_length_le [of b "butlast b"] by (cases b rule: rev_cases) auto
      ultimately show ?thesis using es Nil move_dirs(1) by simp
    next
      case (snoc fs f)
      have "node t (a @ es) \<noteq> None" using cs(2) es by (auto simp: node_move_tree split: if_splits)
      then have "is_dir_at t (a @ fs)" using ok snoc tree_ok_parent [of t "a @ fs" f] by auto
      then show ?thesis using move_dirs(2) es snoc by (simp add: butlast_append)
    qed
  next
    case False
    then have na: "\<not> prefix a cs" and n: "node t cs \<noteq> None"
      using cs(2) by (auto simp: node_move_tree split: if_splits)
    have "is_dir_at t (butlast cs)" using ok n cs(1) by (auto simp: tree_ok_def)
    moreover have "\<not> prefix a (butlast cs)" "\<not> prefix b (butlast cs)"
      using na False prefixeq_butlast prefix_order.trans by blast+
    ultimately show ?thesis by (rule move_dirs(1))
  qed
qed

lemma keeps_dir_move:
  assumes pa: "prefix J a" and pb: "prefix J b" and nab: "\<not> prefix a b"
    and i: "node (nodes w) a = Some i" and empty: "\<And>es. es \<noteq> [] \<Longrightarrow> node (nodes w) (b @ es) = None"
  shows "keeps_dir J w (w\<lparr>nodes := move_tree a b (nodes w)\<rparr>)"
proof -
  have "a \<noteq> J" using nab pb by blast
  show ?thesis
  proof (cases "b = J")
    case True
    obtain es where es: "a = b @ es" "es \<noteq> []" using pa True \<open>a \<noteq> J\<close> by (auto simp: prefix_def)
    then have "node (nodes w) a = None" using empty by simp
    then show ?thesis using i by simp
  next
    case False
    then have "\<not> prefix b J" "\<not> prefix a J" using pa pb \<open>a \<noteq> J\<close> prefix_order.antisym by blast+
    then show ?thesis using move_dirs(1) by (simp add: keeps_dir_def)
  qed
qed

lemma safe_move:
  assumes "tree_ok (nodes w)" and "located (nodes w) b"
    and J: "prefix J a" "prefix J b" and nab: "\<not> prefix a b" and "a \<noteq> []" "b \<noteq> []"
    and "node (nodes w) a = Some i" and "\<And>es. es \<noteq> [] \<Longrightarrow> node (nodes w) (b @ es) = None"
  shows "safe J w (w\<lparr>nodes := move_tree a b (nodes w)\<rparr>)"
  using tree_ok_move [OF assms(1,2) nab] keeps_dir_move [OF J nab] assms
  by (auto simp: confined_def node_move_tree intro: prefix_order.trans)


section \<open>The calls\<close>

lemma children_Nil:
  assumes "children t b = []" and "tree_ok t" and "es \<noteq> []"
  shows "node t (b @ es) = None"
proof -
  obtain e es' where es: "es = e # es'" using assms(3) by (cases es) auto
  have "node t (b @ [e]) = None"
  proof (rule ccontr)
    assume "node t (b @ [e]) \<noteq> None"
    then obtain i where "(b @ [e], i) \<in> set t" by (auto dest: map_of_SomeD)
    then have "e \<in> set (children t b)" by (force simp: children_def)
    then show False using assms(1) by simp
  qed
  then have "node t ((b @ [e]) @ es') = None" using assms(2) by (rule_tac tree_ok_below)
  then show ?thesis using es by simp
qed

lemma file_no_children:
  assumes "node t b = Some j" and "kind j \<noteq> KDir" and "tree_ok t" and "es \<noteq> []"
  shows "node t (b @ es) = None"
proof -
  obtain e es' where es: "es = e # es'" using assms(4) by (cases es) auto
  have "node t (b @ [e]) = None"
    using assms(1-3) tree_ok_parent [of t b e] by (cases "node t (b @ [e])") (auto simp: is_dir_at_def)
  then have "node t ((b @ [e]) @ es') = None" using assms(3) by (rule_tac tree_ok_below)
  then show ?thesis using es by simp
qed

lemma below_prefix: "below J w f p \<Longrightarrow> klookup w f p = Inr q \<Longrightarrow> prefix J q"
  by (simp add: below_def)

lemma safe_Mkdir:
  assumes "os_Mkdir p perm w = (r, w')" and "tree_ok (nodes w)" and "is_abs p" and "below J w False p"
  shows "safe J w w'"
proof (cases "w' = w")
  case False
  then obtain cs where "klookup w False p = Inr cs" "node (nodes w) cs = None"
      "w' = put_w cs (new_inode w KDir perm) w"
    using assms(1) by (auto simp: os_Mkdir_def Let_def split: option.splits sum.splits if_splits)
  then show ?thesis
    using safe_put_new assms(2) klookup_located [OF _ assms(3,2)] below_prefix [OF assms(4)] by simp
qed (use assms(2) in simp)

lemma safe_Symlink:
  assumes "os_Symlink old p w = (r, w')" and "tree_ok (nodes w)" and "is_abs p" and "below J w False p"
  shows "safe J w w'"
proof (cases "w' = w")
  case False
  then obtain cs where "klookup w False p = Inr cs" "node (nodes w) cs = None"
      "w' = put_w cs (new_inode w (KLink old) 0x1FF) w"
    using assms(1) by (auto simp: os_Symlink_def Let_def split: sum.splits if_splits)
  then show ?thesis
    using safe_put_new assms(2) klookup_located [OF _ assms(3,2)] below_prefix [OF assms(4)] by simp
qed (use assms(2) in simp)

lemma safe_set_attr:
  assumes "set_attr op f g p w = (r, w')" and "tree_ok (nodes w)" and "is_abs p" and "below J w f p"
    and "\<And>i. kind (g i) = kind i"
  shows "safe J w w'"
proof (cases "w' = w")
  case False
  then obtain cs i where "klookup w f p = Inr cs" "node (nodes w) cs = Some i" "w' = put_w cs (g i) w"
    using assms(1) by (auto simp: set_attr_def split: option.splits sum.splits)
  then show ?thesis
    using safe_put_old [of w cs J i "g i"] assms(2,5) klookup_located [OF _ assms(3,2)]
      below_prefix [OF assms(4)] by simp
qed (use assms(2) in simp)

lemma safe_Chmod:
  assumes "os_Chmod p m w = (r, w')" and "tree_ok (nodes w)" and "is_abs p" and "below J w True p"
  shows "safe J w w'"
  using assms(1) safe_set_attr [OF _ assms(2-4)] assms(2)
  by (auto simp: os_Chmod_def split: option.splits)

lemma safe_Chown:
  "os_Chown p u g w = (r, w') \<Longrightarrow> tree_ok (nodes w) \<Longrightarrow> is_abs p \<Longrightarrow> below J w True p \<Longrightarrow> safe J w w'"
  unfolding os_Chown_def by (erule safe_set_attr) auto

lemma safe_Lchown:
  "os_Lchown p u g w = (r, w') \<Longrightarrow> tree_ok (nodes w) \<Longrightarrow> is_abs p \<Longrightarrow> below J w False p \<Longrightarrow> safe J w w'"
  unfolding os_Lchown_def by (erule safe_set_attr) auto

lemma safe_Chtimes:
  "os_Chtimes p a m w = (r, w') \<Longrightarrow> tree_ok (nodes w) \<Longrightarrow> is_abs p \<Longrightarrow> below J w True p \<Longrightarrow> safe J w w'"
  unfolding os_Chtimes_def by (erule safe_set_attr) auto

lemma safe_unlink:
  assumes "k_unlink p w = Inr w'" and "tree_ok (nodes w)" and "is_abs p" and "below J w False p"
  shows "safe J w w'"
proof -
  obtain cs i where cs: "klookup w False p = Inr cs" "node (nodes w) cs = Some i" "kind i \<noteq> KDir"
      "w' = w\<lparr>nodes := del_tree cs (nodes w)\<rparr>"
    using assms(1) by (auto simp: k_unlink_def split: option.splits sum.splits if_splits)
  have "cs \<noteq> []" using cs tree_ok_root [OF assms(2)] is_dir_at_kind by auto
  moreover have J: "prefix J cs" using cs below_prefix assms(4) by blast
  moreover have "keeps_dir J w w'"
  proof (cases "cs = J")
    case True
    then show ?thesis using cs by (auto simp: keeps_dir_def is_dir_at_iff)
  next
    case False
    then show ?thesis using keeps_dir_del [OF J] cs(4) by simp
  qed
  ultimately show ?thesis using confined_del assms(2) cs(4) by blast
qed

lemma confined_rmdir:
  assumes "k_rmdir p w = Inr w'" and "tree_ok (nodes w)" and "below J w False p"
  shows "confined J w w'" and "klookup w False p \<noteq> Inr J \<Longrightarrow> keeps_dir J w w'"
proof -
  obtain cs where cs: "klookup w False p = Inr cs" "cs \<noteq> []" "w' = w\<lparr>nodes := del_tree cs (nodes w)\<rparr>"
    using assms(1) by (auto simp: k_rmdir_def split: option.splits sum.splits if_splits)
  have J: "prefix J cs" using cs below_prefix assms(3) by blast
  show "confined J w w'" using confined_del assms(2) J cs by blast
  show "klookup w False p \<noteq> Inr J \<Longrightarrow> keeps_dir J w w'" using keeps_dir_del [OF J] cs by auto
qed

lemma confined_Remove:
  assumes "os_Remove p w = (r, w')" and "tree_ok (nodes w)" and "is_abs p" and "below J w False p"
  shows "confined J w w'" and "klookup w False p \<noteq> Inr J \<Longrightarrow> keeps_dir J w w'"
proof -
  consider "w' = w" | "k_unlink p w = Inr w'" | "k_rmdir p w = Inr w'"
    using assms(1) by (auto simp: os_Remove_def split: sum.splits)
  then have "confined J w w' \<and> (klookup w False p \<noteq> Inr J \<longrightarrow> keeps_dir J w w')"
    by cases (use safe_unlink confined_rmdir assms(2-4) in auto)
  then show "confined J w w'" "klookup w False p \<noteq> Inr J \<Longrightarrow> keeps_dir J w w'" by auto
qed

lemma node_filter_root: "node (filter (\<lambda>kv. fst kv = []) t) cs = (if cs = [] then node t [] else None)"
  using map_of_filter_key [where P = "\<lambda>k. k = []" and al = t and k = cs] by simp

lemma confined_RemoveAll:
  assumes "os_RemoveAll p w = (r, w')" and "tree_ok (nodes w)" and "is_abs p" and "below J w False p"
  shows "confined J w w'" and "klookup w False p \<noteq> Inr J \<Longrightarrow> keeps_dir J w w'"
proof -
  define R where "R = (\<lambda>w'. w' = w \<or>
    (klookup w False p = Inr [] \<and> w' = w\<lparr>nodes := filter (\<lambda>kv. fst kv = []) (nodes w)\<rparr>) \<or>
    (\<exists>cs. klookup w False p = Inr cs \<and> cs \<noteq> [] \<and> w' = w\<lparr>nodes := del_tree cs (nodes w)\<rparr>))"
  have "R (snd (os_RemoveAll p w))"
    unfolding os_RemoveAll_def by (auto simp: R_def split: option.split sum.split)
  then have "R w'" using assms(1) by simp
  then consider "w' = w"
    | "klookup w False p = Inr []" "w' = w\<lparr>nodes := filter (\<lambda>kv. fst kv = []) (nodes w)\<rparr>"
    | cs where "klookup w False p = Inr cs" "cs \<noteq> []" "w' = w\<lparr>nodes := del_tree cs (nodes w)\<rparr>"
    unfolding R_def by blast
  then have "confined J w w' \<and> (klookup w False p \<noteq> Inr J \<longrightarrow> keeps_dir J w w')"
  proof cases
    case 2
    then have "J = []" using below_prefix [OF assms(4)] by auto
    then show ?thesis
      using 2 tree_ok_root [OF assms(2)]
      by (simp add: confined_def tree_ok_def is_dir_at_iff node_filter_root)
  next
    case (3 cs)
    then have J: "prefix J cs" using below_prefix assms(4) by blast
    then show ?thesis using 3 confined_del [OF assms(2) J] keeps_dir_del [OF J] by auto
  qed (use assms(2) in simp)
  then show "confined J w w'" "klookup w False p \<noteq> Inr J \<Longrightarrow> keeps_dir J w w'" by auto
qed

lemma safe_k_rename:
  assumes "k_rename old new w = Inr w'" and "tree_ok (nodes w)" and "is_abs new"
    and "below J w False old" and "below J w False new"
  shows "safe J w w'"
proof (cases "w' = w")
  case False
  then obtain a b i where ab: "klookup w False old = Inr a" "klookup w False new = Inr b"
      "node (nodes w) a = Some i" "\<not> prefix a b" "a \<noteq> []" "b \<noteq> []"
      "w' = w\<lparr>nodes := move_tree a b (nodes w)\<rparr>"
    and b: "case node (nodes w) b of None \<Rightarrow> True
      | Some j \<Rightarrow> (kind j = KDir \<longrightarrow> kind i = KDir \<and> children (nodes w) b = [])"
    using assms(1) by (auto simp: k_rename_def split: option.splits sum.splits if_splits)
  have "node (nodes w) (b @ es) = None" if "es \<noteq> []" for es
  proof (cases "node (nodes w) b")
    case None
    then show ?thesis using tree_ok_below assms(2) by blast
  next
    case (Some j)
    then show ?thesis
      using b children_Nil [OF _ assms(2) that] file_no_children [OF Some _ assms(2) that]
      by (cases "kind j = KDir") auto
  qed
  then show ?thesis
    using safe_move [OF assms(2), of b J a i] ab b klookup_located [OF ab(2) assms(3,2)]
      below_prefix [OF assms(4) ab(1)] below_prefix [OF assms(5) ab(2)]
    by (auto split: option.splits)
qed (use assms(2) in simp)

lemma safe_Rename:
  assumes "os_Rename old new w = (r, w')" and "tree_ok (nodes w)" and "is_abs new"
    and "below J w False old" and "below J w False new"
  shows "safe J w w'"
proof -
  have "w' = w \<or> k_rename old new w = Inr w'"
    using assms(1) by (auto simp: os_Rename_def Let_def split: sum.splits if_splits)
  then show ?thesis using safe_k_rename assms(2-5) by auto
qed

text \<open>Open files: the handle stays on a regular file below \<open>J\<close>.\<close>

definition handle_in :: "string list \<Rightarrow> world \<Rightarrow> handle \<Rightarrow> bool" where
  "handle_in J w h \<longleftrightarrow>
     (\<exists>i b. node (nodes w) (h_loc h) = Some i \<and> kind i = KFile b) \<and> prefix J (h_loc h) \<and>
     located (nodes w) (h_loc h)"

lemma safe_open:
  assumes "k_open p fl perm w = Inr (h, w')" and "tree_ok (nodes w)" and "is_abs p"
    and "below J w (\<not> (o_create fl \<and> o_excl fl)) p"
  shows "safe J w w'" and "o_write fl \<Longrightarrow> handle_in J w' h" and "h_name h = p"
    and "klookup w (\<not> (o_create fl \<and> o_excl fl)) p = Inr (h_loc h)"
proof -
  obtain cs where cs: "klookup w (\<not> (o_create fl \<and> o_excl fl)) p = Inr cs" "h_loc h = cs" "h_name h = p"
    and w': "case node (nodes w) cs of
        None \<Rightarrow> w' = put_w cs (new_inode w (KFile []) perm) w
      | Some i \<Rightarrow> (kind i = KDir \<and> \<not> o_write fl \<and> w' = w) \<or>
          (\<exists>b. kind i = KFile b \<and> (w' = w \<or> w' = put_w cs (i\<lparr>kind := KFile []\<rparr>) w))"
    using assms(1)
    by (auto simp: k_open_def Let_def split: option.splits sum.splits if_splits kind.splits)
  have l: "located (nodes w) cs" using klookup_located [OF cs(1) assms(3,2)] .
  have J: "prefix J cs" using below_prefix assms(4) cs(1) by blast
  have "safe J w w' \<and> (o_write fl \<longrightarrow> handle_in J w' h)"
  proof (cases "node (nodes w) cs")
    case None
    then have s: "safe J w w'" using w' safe_put_new [OF assms(2) l J] by simp
    have "cs \<noteq> []" using None tree_ok_root [OF assms(2)] by (auto simp: is_dir_at_iff)
    then have "located (nodes w') cs"
      using l w' None by (simp add: located_def is_dir_at_iff)
        (metis (no_types) None option.distinct(1))
    then show ?thesis using s None w' cs J by (simp add: handle_in_def new_inode_def)
  next
    case (Some i)
    have u: "located (nodes (put_w cs (i\<lparr>kind := KFile b\<rparr>) w)) cs" if "kind i = KFile b'" for b b'
      using l Some that by (auto simp: located_def is_dir_at_iff)
    show ?thesis
    proof (cases "w' = w")
      case True
      then show ?thesis using w' Some l J cs assms(2) by (auto simp: handle_in_def)
    next
      case False
      then obtain b where b: "kind i = KFile b" "w' = put_w cs (i\<lparr>kind := KFile []\<rparr>) w"
        using w' Some by auto
      then show ?thesis using safe_put_old [OF assms(2) l J Some] u J cs by (auto simp: handle_in_def)
    qed
  qed
  then show "safe J w w'" "o_write fl \<Longrightarrow> handle_in J w' h" by auto
  show "h_name h = p" "klookup w (\<not> (o_create fl \<and> o_excl fl)) p = Inr (h_loc h)" using cs by auto
qed

lemma safe_OpenFile:
  assumes "os_OpenFile p fl perm w = (r, w')" and "tree_ok (nodes w)" and "is_abs p"
    and "below J w (\<not> (o_create fl \<and> o_excl fl)) p"
  shows "safe J w w' \<and> (\<forall>h. r = Inr h \<longrightarrow> (o_write fl \<longrightarrow> handle_in J w' h) \<and> h_name h = p)"
  using assms(1,2) safe_open [OF _ assms(2-4)]
  by (auto simp: os_OpenFile_def split: sum.splits)

lemma safe_Write:
  assumes "os_Write h d w = (r, w')" and "tree_ok (nodes w)" and "handle_in J w h"
  shows "safe J w w' \<and> handle_in J w' h"
proof -
  obtain i b where i: "node (nodes w) (h_loc h) = Some i" "kind i = KFile b"
    and J: "prefix J (h_loc h)" and l: "located (nodes w) (h_loc h)"
    using assms(3) by (auto simp: handle_in_def)
  obtain c where w': "w' = put_w (h_loc h) (i\<lparr>kind := KFile c\<rparr>) w"
    using assms(1) i by (auto simp: os_Write_def Let_def split: option.splits)
  have "located (nodes w') (h_loc h)" using l w' i by (auto simp: located_def is_dir_at_iff)
  then show ?thesis using w' safe_put_old [OF assms(2) l J i(1)] i(2) J by (simp add: handle_in_def)
qed

lemma Close_same: "os_Close h w = (r, w') \<Longrightarrow> w' = w"
  by (auto simp: os_Close_def split: option.splits)

lemma safe_WriteFile:
  assumes "os_WriteFile p d perm w = (r, w')" and "tree_ok (nodes w)" and "is_abs p"
    and "below J w True p"
  shows "safe J w w'"
proof -
  obtain ro w1 where o: "os_OpenFile p wr_create_trunc perm w = (ro, w1)" by (metis prod.exhaust)
  have s1: "safe J w w1 \<and> (\<forall>h. ro = Inr h \<longrightarrow> handle_in J w1 h)"
    using safe_OpenFile [OF o assms(2,3)] assms(4) by (simp add: wr_create_trunc_def)
  show ?thesis
  proof (cases ro)
    case (Inl e)
    then show ?thesis using assms(1) o s1 by (auto simp: os_WriteFile_def bindE_def)
  next
    case (Inr h)
    obtain rw w2 where w: "os_Write h d w1 = (rw, w2)" by (metis prod.exhaust)
    have "safe J w1 w2" using safe_Write [OF w] s1 Inr confined_tree by blast
    moreover have "w' = w2"
      using assms(1) o Inr w Close_same
      by (auto simp: os_WriteFile_def bindE_def attempt_def fail_def liftE_def
          split: sum.splits prod.splits)
    ultimately show ?thesis using s1 safe_trans by blast
  qed
qed

end
