(* ===== verification/OsFS_Lookup.thy ===== *)
theory OsFS_Lookup
  imports OsFS HostChange
begin

text \<open>
  What the resolvers of \<open>OsFS\<close> return when a jail is set: every host path they hand to the
  operating system resolves, if at all, to a location below the jail's canonical location.
\<close>

section \<open>Rendered host paths\<close>

lemma klookup_abs_path:
  "names_ok cs \<Longrightarrow> klookup w f (abs_path cs) = resolve (nodes w) max_links f [] cs"
  by (auto simp: klookup_def start_dir_def split_abs_path)

lemma EvalSymlinks_abs_path:
  "names_ok cs \<Longrightarrow> EvalSymlinks w (abs_path cs) =
     (case walk w max_eval_links True [] cs of
        Inl e \<Rightarrow> Inl (PathErr ''lstat'' (abs_path cs) (Errno e))
      | Inr (r, d) \<Rightarrow> Inr (if r then abs_path d else if d = [] then ''.'' else join_with CHR ''/'' d))"
  by (auto simp: EvalSymlinks_def split_abs_path)

lemma links_le: "max_links \<le> max_eval_links"
  by (simp add: max_links_def max_eval_links_def)

lemma EvalSymlinks_canonical:
  assumes "tree_ok (nodes w)" and "names_ok cs" and "EvalSymlinks w (abs_path cs) = Inr q"
  obtains R where "q = abs_path R" "canonical (nodes w) R" "walk w max_eval_links True [] cs = Inr (True, R)"
proof -
  obtain r d where wk: "walk w max_eval_links True [] cs = Inr (r, d)"
    using assms(2,3) by (auto simp: EvalSymlinks_abs_path split: sum.splits)
  then have "r \<and> canonical (nodes w) d"
    using resolve_forward [OF wk] assms(1,2) tree_ok_root names_ok_no_slashes by simp
  then show ?thesis using that [of d] wk assms(2,3) by (auto simp: EvalSymlinks_abs_path)
qed

lemma canonical_names_ok: "canonical t R \<Longrightarrow> names_ok R"
  by (simp add: canonical_def located_def)

lemma canonical_is_dir_butlast: "canonical t R \<Longrightarrow> R \<noteq> [] \<Longrightarrow> is_dir_at t (butlast R)"
  by (simp add: canonical_def located_def)

text \<open>Following makes no difference unless the last component is a link.\<close>

lemma resolve_follow:
  "resolve t n False d cs = r \<Longrightarrow>
   (case r of Inl e \<Rightarrow> True | Inr q \<Rightarrow> \<forall>i l. node t q = Some i \<longrightarrow> kind i \<noteq> KLink l) \<Longrightarrow>
   resolve t n True d cs = r"
proof (induction t n False d cs rule: resolve.induct)
  case (2 t n d c cs)
  show ?case
  proof (cases "node t (d @ [c])")
    case None
    then show ?thesis using 2 by auto
  next
    case (Some i)
    show ?thesis
    proof (cases "kind i")
      case (KLink l)
      show ?thesis
      proof (cases "cs = [] \<and> c \<noteq> [] \<and> c \<noteq> ''.'' \<and> c \<noteq> ''..''")
        case True
        then show ?thesis using "2.prems" Some KLink by auto
      next
        case False
        consider "c = [] \<or> c = ''.''" | "c = ''..''" | "\<not> (c = [] \<or> c = ''.'')" "c \<noteq> ''..''" "cs \<noteq> []"
          using False by blast
        then show ?thesis
        proof cases
          case 3
          then show ?thesis
            using "2.hyps"(4) [OF 3(1,2) Some KLink] "2.prems" Some KLink by (auto split: if_splits)
        qed (use "2.hyps"(1,2) "2.prems" in auto)
      qed
    qed (use 2 Some in auto)
  qed
qed auto

section \<open>A usable jail\<close>

text \<open>
  The jail is a clean absolute path whose last component is not a symbolic link (its parents may
  contain links, as \<open>/var\<close> does on macOS) and which names a directory, at the location \<open>J\<close>.
\<close>

definition jail_at :: "string list \<Rightarrow> osfs \<Rightarrow> world \<Rightarrow> bool" where
  "jail_at J fs w \<longleftrightarrow>
     tree_ok (nodes w) \<and> clean_abs (fs_jail fs) \<and> is_dir_at (nodes w) J \<and>
     klookup w False (fs_jail fs) = Inr J"

lemma jail_atE:
  assumes "jail_at J fs w"
  obtains jc where "fs_jail fs = abs_path jc" "names_ok jc" "tree_ok (nodes w)"
    "is_dir_at (nodes w) J" "names_ok J" "canonical (nodes w) J"
    "resolve (nodes w) max_links False [] jc = Inr J"
    "walk w max_eval_links True [] jc = Inr (True, J)"
    "canonical_jail (fs_jail fs) w = abs_path J"
proof -
  from assms obtain jc where jc: "fs_jail fs = abs_path jc" "names_ok jc"
    by (auto simp: jail_at_def elim: clean_absE)
  have ok: "tree_ok (nodes w)" and dir: "is_dir_at (nodes w) J" using assms by (auto simp: jail_at_def)
  have r: "resolve (nodes w) max_links False [] jc = Inr J"
    using assms jc by (simp add: jail_at_def klookup_abs_path)
  have "located (nodes w) J"
    using resolve_located [OF r ok] tree_ok_root [OF ok] jc by (simp add: names_ok_no_slashes)
  then have can: "canonical (nodes w) J" using dir by (rule canonical_dir)
  obtain i where i: "node (nodes w) J = Some i" "kind i = KDir" using dir by (auto simp: is_dir_at_iff)
  have "resolve (nodes w) max_links True [] jc = Inr J" using resolve_follow [OF r] i by simp
  then have wk: "walk w max_eval_links True [] jc = Inr (True, J)"
    using walk_complete [OF _ i(1) links_le ok] tree_ok_root [OF ok] jc
    by (simp add: names_ok_no_slashes)
  then have "canonical_jail (fs_jail fs) w = abs_path J"
    using jc by (simp add: canonical_jail_def EvalSymlinks_abs_path)
  then show ?thesis using that jc ok dir can r wk canonical_names_ok by blast
qed

section \<open>resolveVirtual\<close>

lemma ensure_init_frame:
  "ensureInitializedLocked (fs, w) = (r, (fs', w')) \<Longrightarrow> w' = w \<and> fs_jail fs' = fs_jail fs"
  by (auto simp: ensureInitializedLocked_def Let_def split: if_splits sum.splits)

lemma resolveVirtual_frame:
  "resolveVirtual p f (fs, w) = (r, (fs', w')) \<Longrightarrow> w' = w \<and> fs_jail fs' = fs_jail fs"
  by (auto simp: resolveVirtual_def bindE_def Let_def
      split: prod.splits sum.splits if_splits dest: ensure_init_frame)

text \<open>The two forms with a jail, in one equation.\<close>

definition virtual_path :: "osfs \<Rightarrow> string \<Rightarrow> string" where
  "virtual_path fs p =
     (let wd = (if fs_wd fs = [] then ''/'' else fs_wd fs);
          p1 = (if blank p \<or> p = ''.'' then wd else p)
      in Clean (if is_abs p1 then p1 else Join [wd, p1]))"

definition jail_check :: "string \<Rightarrow> world \<Rightarrow> bool \<Rightarrow> string \<Rightarrow> goerr + string" where
  "jail_check j w f virtual =
     (let host = Clean (Join [j, virtual])
      in if \<not> IsInJail j host then Inl (escape_err host)
         else if \<not> f then Inr virtual
         else case EvalSymlinks w host of
                Inl e \<Rightarrow> Inl e
              | Inr rh \<Rightarrow>
                  (if \<not> IsInJail (canonical_jail j w) rh then Inl (escape_err rh)
                   else Inr (Clean (RemoveJailPrefix (canonical_jail j w) rh))))"

lemma resolveVirtual_jailed:
  assumes "fs_jail fs \<noteq> []" and "ensureInitializedLocked (fs, w) = (Inr (), (fs1, w))"
  shows "resolveVirtual p f (fs, w) =
    (jail_check (fs_jail fs) w f (virtual_path fs1 p), (fs1, w))"
proof -
  have j: "fs_jail fs1 = fs_jail fs" using ensure_init_frame [OF assms(2)] by simp
  show ?thesis
    using assms(1)
    by (cases f) (simp_all add: resolveVirtual_def bindE_def assms(2) Let_def j virtual_path_def
        jail_check_def split: sum.split)
qed

lemma ensure_init_cases:
  obtains e where "ensureInitializedLocked (fs, w) = (Inl e, (fs, w))"
  | fs1 where "ensureInitializedLocked (fs, w) = (Inr (), (fs1, w))" "fs_jail fs1 = fs_jail fs"
proof -
  obtain r fs1 w1 where e: "ensureInitializedLocked (fs, w) = (r, (fs1, w1))"
    by (metis prod.exhaust)
  have "(\<exists>e. r = Inl e \<and> fs1 = fs) \<or> r = Inr ()"
    using e by (auto simp: ensureInitializedLocked_def Let_def split: if_splits sum.splits)
  then show ?thesis using that ensure_init_frame [OF e] e by auto
qed

lemma resolveVirtual_jailedE:
  assumes "resolveVirtual p f (fs, w) = (Inr v, (fs', w'))" and "fs_jail fs \<noteq> []"
  obtains "ensureInitializedLocked (fs, w) = (Inr (), (fs', w))" "w' = w" "fs_jail fs' = fs_jail fs"
    "jail_check (fs_jail fs) w f (virtual_path fs' p) = Inr v"
proof (cases rule: ensure_init_cases [of fs w])
  case (1 e)
  then show ?thesis using assms(1) by (simp add: resolveVirtual_def bindE_def)
next
  case (2 fs1)
  then have e: "fs1 = fs'" "w' = w" "jail_check (fs_jail fs) w f (virtual_path fs1 p) = Inr v"
    using assms(1) by (auto simp: resolveVirtual_jailed [OF assms(2) 2(1)])
  then show ?thesis using that 2 by auto
qed

text \<open>The lexical check: the host path is the jail followed by names.\<close>

lemma resolveVirtual_lexical:
  assumes "resolveVirtual p False (fs, w) = (Inr v, (fs', w'))"
    and "fs_jail fs = abs_path jc" and "names_ok jc"
  obtains r where "hostPath fs' v = abs_path (jc @ r)" "names_ok r"
proof -
  have ne: "fs_jail fs \<noteq> []" using assms(2) by simp
  note rv = resolveVirtual_jailedE [OF assms(1) ne]
  have j: "fs_jail fs' = abs_path jc" using rv assms(2) by metis
  have "clean_abs (Join [abs_path jc, v])" by (rule Join_clean_abs) simp
  then obtain hc where hc: "names_ok hc" "Join [abs_path jc, v] = abs_path hc"
    by (auto elim: clean_absE)
  have "IsInJail (abs_path jc) (abs_path hc)"
    using hc assms(2) by (rule_tac rv) (auto simp: jail_check_def Let_def split: if_splits)
  then have "prefix jc hc" using IsInJail_prefix assms(3) hc(1) by blast
  then obtain r where "hc = jc @ r" by (auto simp: prefix_def)
  then show ?thesis using that [of r] j hc by (simp add: hostPath_def OsFS_GetJail_def)
qed

text \<open>With the links followed: the host path resolves below the jail's location or not at all.\<close>

lemma jail_then_canonical:
  assumes "jail_at J fs w" and jc: "fs_jail fs = abs_path jc" "names_ok jc"
    and R: "canonical (nodes w) (J @ r)"
    and q: "klookup w f (abs_path (jc @ r)) = Inr q"
  shows "q = J @ r"
proof -
  obtain jc' where j: "names_ok jc'" "fs_jail fs = abs_path jc'" "tree_ok (nodes w)"
      "is_dir_at (nodes w) J" "resolve (nodes w) max_links False [] jc' = Inr J"
      "walk w max_eval_links True [] jc' = Inr (True, J)"
    using assms(1) by (elim jail_atE)
  have "jc' = jc" using j jc abs_path_inj by simp
  note j = j [unfolded this]
  have ok: "names_ok (jc @ r)" using jc canonical_names_ok [OF R] by simp
  have res: "resolve (nodes w) max_links f [] (jc @ r) = Inr q"
    using q ok by (simp add: klookup_abs_path)
  show ?thesis
  proof (cases "r = []")
    case True
    obtain i where "node (nodes w) J = Some i" "kind i = KDir" using j(4) by (auto simp: is_dir_at_iff)
    then have "resolve (nodes w) max_links True [] jc = Inr J" using resolve_follow [OF j(5)] by simp
    then show ?thesis using res True j(5) by (cases f) auto
  next
    case False
    have "resolve (nodes w) max_links f [] (jc @ r) = Inl ELOOP \<or>
        (\<exists>m'. resolve (nodes w) max_links f [] (jc @ r) = go_on (nodes w) m' f J r)"
      using resolve_forward [OF j(6)] False j(3) tree_ok_root [OF j(3)] jc(2)
      by (simp add: names_ok_no_slashes)
    then obtain m' where "go_on (nodes w) m' f J r = Inr q" using res by auto
    then show ?thesis
      using resolve_canonical [OF j(3) R j(4)] j(4) by (simp add: go_on_def)
  qed
qed

lemma resolveVirtual_follow:
  assumes jail: "jail_at J fs w"
    and rv: "resolveVirtual p True (fs, w) = (Inr v, (fs', w'))"
  obtains jc r where "fs_jail fs = abs_path jc" "names_ok jc" "names_ok r"
    "v = abs_path r" "canonical (nodes w) (J @ r)" "hostPath fs' v = abs_path (jc @ r)"
proof -
  obtain jc where j: "fs_jail fs = abs_path jc" "names_ok jc" "tree_ok (nodes w)"
      "names_ok J" "canonical_jail (fs_jail fs) w = abs_path J"
    using jail by (elim jail_atE)
  have ne: "fs_jail fs \<noteq> []" using j by simp
  note rv = resolveVirtual_jailedE [OF rv ne]
  have j': "fs_jail fs' = abs_path jc" using rv j by metis
  have ex: "\<exists>u rh. EvalSymlinks w (Clean (Join [abs_path jc, u])) = Inr rh \<and>
      IsInJail (abs_path J) rh \<and> v = Clean (RemoveJailPrefix (abs_path J) rh)"
    using j by (rule_tac rv) (auto simp: jail_check_def Let_def split: if_splits sum.splits)
  then obtain u rh where e: "EvalSymlinks w (Clean (Join [abs_path jc, u])) = Inr rh"
      and inj: "IsInJail (abs_path J) rh" and v: "v = Clean (RemoveJailPrefix (abs_path J) rh)"
    by blast
  have "clean_abs (Join [abs_path jc, u])" by (rule Join_clean_abs) simp
  then obtain hc where hc: "names_ok hc" "Join [abs_path jc, u] = abs_path hc"
    by (auto elim: clean_absE)
  then have "EvalSymlinks w (abs_path hc) = Inr rh" using e by simp
  then obtain R where R: "rh = abs_path R" "canonical (nodes w) R"
    by (rule EvalSymlinks_canonical [OF j(3) hc(1)])
  have "prefix J R" using IsInJail_prefix [OF j(4) canonical_names_ok [OF R(2)]] inj R(1) by simp
  then obtain r where r: "R = J @ r" by (auto simp: prefix_def)
  have ok: "names_ok (J @ r)" using canonical_names_ok [OF R(2)] r by simp
  then have "v = abs_path r" using v R(1) r RemoveJailPrefix_below by simp
  moreover have "hostPath fs' (abs_path r) = abs_path (jc @ r)"
    using j' j(2) ok by (simp add: hostPath_def OsFS_GetJail_def Join_abs_abs)
  ultimately show ?thesis using that j ok R r by auto
qed

lemma resolveHost_frame:
  "resolveHost p f (fs, w) = (r, (fs', w')) \<Longrightarrow> w' = w \<and> fs_jail fs' = fs_jail fs"
  by (auto simp: resolveHost_def bindE_def getS_def split: prod.splits sum.splits
      dest: resolveVirtual_frame)

lemma resolveHost_follow_below:
  assumes "jail_at J fs w" and "resolveHost p True (fs, w) = (Inr host, (fs', w'))"
  shows "below J w f host"
proof -
  obtain v where rv: "resolveVirtual p True (fs, w) = (Inr v, (fs', w'))" "host = hostPath fs' v"
    using assms(2) by (auto simp: resolveHost_def bindE_Inr_iff getS_def)
  obtain jc r where "fs_jail fs = abs_path jc" "names_ok jc" "canonical (nodes w) (J @ r)"
      "host = abs_path (jc @ r)"
    using resolveVirtual_follow [OF assms(1) rv(1)] rv(2) by metis
  then have "klookup w f host = Inr q \<Longrightarrow> q = J @ r" for q
    using jail_then_canonical [OF assms(1), of jc r f q] by simp
  then show ?thesis by (auto simp: below_def)
qed

end
