(* ===== verification/OsFS_Create.thy ===== *)
theory OsFS_Create
  imports OsFS_Lookup
begin

text \<open>
  What \<open>resolveHostForCreate\<close> and \<open>resolveHostForOpen\<close> return under a jail: the three shapes of a
  host path to create at (\<open>create_host\<close>), the shape of one to open (\<open>open_host\<close>), and that the
  operating system resolves each of them, if at all, below the jail.
\<close>

section \<open>The climb to an existing ancestor\<close>

lemma kstat_root: "tree_ok (nodes w) \<Longrightarrow> \<exists>i. kstat w f (abs_path []) = Inr i"
  using tree_ok_root [of "nodes w"] by (auto simp: kstat_def klookup_abs_path is_dir_at_iff)

lemma os_Lstat_cases:
  "os_Lstat p w = (case kstat w False p of Inl e \<Rightarrow> Inl (PathErr ''lstat'' p (Errno e)) | Inr i \<Rightarrow> Inr i)"
  by (simp add: os_Lstat_def patherr_def)

lemma climb_abs_path:
  "names_ok cs \<Longrightarrow> climb w (abs_path cs) ms = Inr (cur, out) \<Longrightarrow> tree_ok (nodes w) \<Longrightarrow>
   \<exists>as bs. cs = as @ bs \<and> cur = abs_path as \<and> out = bs @ ms \<and> (\<exists>i. kstat w False cur = Inr i) \<and>
     (bs \<noteq> [] \<longrightarrow> kstat w False (abs_path (as @ [hd bs])) = Inl ENOENT)"
proof (induction cs arbitrary: ms rule: rev_induct)
  case Nil
  obtain i where "kstat w False (abs_path []) = Inr i" using kstat_root Nil(3) by blast
  then show ?case using Nil(2) by (auto simp: climb.simps [of w "abs_path []"] os_Lstat_cases)
next
  case (snoc c cs)
  show ?case
  proof (cases "kstat w False (abs_path (cs @ [c]))")
    case (Inr i)
    then show ?thesis
      using snoc.prems by (auto simp: climb.simps [of w "abs_path (cs @ [c])"] os_Lstat_cases)
  next
    case (Inl e)
    have d: "Dir (abs_path (cs @ [c])) = abs_path cs" "Base (abs_path (cs @ [c])) = c"
      using Dir_abs_path Base_abs_path snoc.prems(1) by auto
    have ne: "abs_path cs \<noteq> abs_path (cs @ [c])" using snoc.prems(1) by (simp add: abs_path_inj)
    have e: "e = ENOENT" and "climb w (abs_path cs) (c # ms) = Inr (cur, out)"
      using snoc.prems(2) Inl d ne
      by (simp_all add: climb.simps [of w "abs_path (cs @ [c])"] os_Lstat_cases is_not_exist_def
          underlying_def split: if_splits)
    moreover have "names_ok cs" using snoc.prems(1) by simp
    ultimately obtain as bs where ab: "cs = as @ bs" "cur = abs_path as" "out = bs @ c # ms"
        "\<exists>i. kstat w False cur = Inr i"
        "bs \<noteq> [] \<longrightarrow> kstat w False (abs_path (as @ [hd bs])) = Inl ENOENT"
      using snoc.IH [of "c # ms"] snoc.prems(3) by blast
    have "kstat w False (abs_path (as @ [hd (bs @ [c])])) = Inl ENOENT"
      using ab Inl e by (cases "bs = []") auto
    then show ?thesis using ab by (intro exI [of _ as] exI [of _ "bs @ [c]"]) auto
  qed
qed

lemma foldl_Join:
  "names_ok cs \<Longrightarrow> names_ok ms \<Longrightarrow> foldl (\<lambda>out seg. Join [out, seg]) (abs_path cs) ms = abs_path (cs @ ms)"
proof (induction ms arbitrary: cs)
  case (Cons m ms)
  then show ?case using Cons.IH [of "cs @ [m]"] by (simp add: Join_abs_name)
qed simp

section \<open>A host path to create at\<close>

definition create_host :: "string list \<Rightarrow> osfs \<Rightarrow> world \<Rightarrow> string \<Rightarrow> bool" where
  "create_host J fs w host \<longleftrightarrow>
     host = fs_jail fs \<or>
     (\<exists>R ms. host = abs_path (R @ ms) \<and> names_ok ms \<and> ms \<noteq> [] \<and> canonical (nodes w) R \<and>
        prefix J R \<and> (length ms = 1 \<or> node (nodes w) (R @ [hd ms]) = None)) \<or>
     (\<exists>as ms e i. host = abs_path (as @ ms) \<and> names_ok (as @ ms) \<and> ms \<noteq> [] \<and>
        walk w max_eval_links True [] as = Inl e \<and> kstat w False (abs_path as) = Inr i)"

lemma create_host_abs: "create_host J fs w host \<Longrightarrow> jail_at J fs w \<Longrightarrow> is_abs host"
  by (auto simp: create_host_def jail_at_def clean_abs_def)

text \<open>The first component that does not exist, seen from the canonical ancestor.\<close>

lemma missing_component:
  assumes ok: "tree_ok (nodes w)" and as: "names_ok as" and b: "name_ok b"
    and wk: "walk w max_eval_links True [] as = Inr (True, R)"
    and k: "kstat w False (abs_path (as @ [b])) = Inl ENOENT"
  shows "node (nodes w) (R @ [b]) = None"
proof -
  have nb: "\<not> (b = [] \<or> b = ''.'')" "b \<noteq> ''..''" using b by (auto simp: name_ok_def)
  have n: "names_ok (as @ [b])" using as b by simp
  have "resolve (nodes w) max_links False [] (as @ [b]) = Inl ELOOP \<or>
      (\<exists>m'. resolve (nodes w) max_links False [] (as @ [b]) = go_on (nodes w) m' False R [b])"
    using resolve_forward [OF wk _ ok] tree_ok_root [OF ok] names_ok_no_slashes [OF as] by simp
  then have "\<exists>m'. resolve (nodes w) max_links False [] (as @ [b]) = go_on (nodes w) m' False R [b]"
    using k by (auto simp: kstat_def klookup_abs_path [OF n])
  then obtain m' where m': "kstat w False (abs_path (as @ [b])) =
      (case go_on (nodes w) m' False R [b] of Inl e \<Rightarrow> Inl e
       | Inr cs \<Rightarrow> (case node (nodes w) cs of None \<Rightarrow> Inl ENOENT | Some i \<Rightarrow> Inr i))"
    by (auto simp: kstat_def klookup_abs_path [OF n])
  show ?thesis
    using k [unfolded m'] nb
    by (auto simp: go_on_def split: if_splits option.splits kind.splits)
qed

text \<open>The missing components put back behind the ancestor the climb has found.\<close>

lemma climbed_host:
  assumes ok: "tree_ok (nodes w)" and J: "names_ok J" and n: "names_ok as" "names_ok bs" "name_ok c"
    and st: "kstat w False (abs_path as) = Inr i"
      "bs \<noteq> [] \<longrightarrow> kstat w False (abs_path (as @ [hd bs])) = Inl ENOENT"
    and anc: "anc = (case EvalSymlinks w (abs_path as) of Inr evaled \<Rightarrow> evaled | Inl _ \<Rightarrow> abs_path as)"
    and h: "IsInJail (abs_path J) anc" "host = Clean (foldl (\<lambda>out seg. Join [out, seg]) anc (bs @ [c]))"
  shows "create_host J fs w host"
proof -
  have fj: "names_ok xs \<Longrightarrow> Clean (foldl (\<lambda>out seg. Join [out, seg]) (abs_path xs) (bs @ [c])) =
      abs_path (xs @ bs @ [c])" for xs
    using foldl_Join [of xs "bs @ [c]"] n by (simp del: foldl_append)
  show ?thesis
  proof (cases "walk w max_eval_links True [] as")
    case (Inl e)
    then have "anc = abs_path as" using n by (simp add: anc EvalSymlinks_abs_path)
    then have "host = abs_path (as @ (bs @ [c]))" using h(2) n fj by simp
    then have "\<exists>as ms e i. host = abs_path (as @ ms) \<and> names_ok (as @ ms) \<and> ms \<noteq> [] \<and>
        walk w max_eval_links True [] as = Inl e \<and> kstat w False (abs_path as) = Inr i"
      using n Inl st(1) by (intro exI [of _ as] exI [of _ "bs @ [c]"] exI [of _ e] exI [of _ i]) simp
    then show ?thesis unfolding create_host_def by blast
  next
    case (Inr rR)
    then obtain q where q: "EvalSymlinks w (abs_path as) = Inr q"
      using n by (cases rR) (auto simp: EvalSymlinks_abs_path)
    obtain R where R: "q = abs_path R" "canonical (nodes w) R" "walk w max_eval_links True [] as = Inr (True, R)"
      using EvalSymlinks_canonical [OF ok n(1) q] .
    have a: "anc = abs_path R" using q R by (simp add: anc)
    have nR: "names_ok R" using canonical_names_ok [OF R(2)] .
    have "length (bs @ [c]) = 1 \<or> node (nodes w) (R @ [hd (bs @ [c])]) = None"
    proof (cases "bs = []")
      case False
      then have "name_ok (hd bs)" using n(2) by (cases bs) auto
      then show ?thesis using missing_component [OF ok n(1) _ R(3)] st(2) False by simp
    qed simp
    then have "\<exists>R ms. host = abs_path (R @ ms) \<and> names_ok ms \<and> ms \<noteq> [] \<and> canonical (nodes w) R \<and>
        prefix J R \<and> (length ms = 1 \<or> node (nodes w) (R @ [hd ms]) = None)"
      using IsInJail_prefix [OF J nR] h a nR fj n R(2) by (intro exI [of _ R] exI [of _ "bs @ [c]"]) simp
    then show ?thesis unfolding create_host_def by blast
  qed
qed

lemma resolveHostForCreate_shape:
  assumes jail: "jail_at J fs w"
    and rc: "resolveHostForCreate p (fs, w) = (Inr host, (fs', w'))"
  shows "w' = w \<and> fs_jail fs' = fs_jail fs \<and> create_host J fs w host"
proof -
  obtain jc where j: "fs_jail fs = abs_path jc" "names_ok jc" "tree_ok (nodes w)" "names_ok J"
      "canonical_jail (fs_jail fs) w = abs_path J"
    using jail by (elim jail_atE)
  obtain v fs1 w1 where v: "resolveVirtual p False (fs, w) = (Inr v, (fs1, w1))"
    using rc by (auto simp: resolveHostForCreate_def bindE_Inr_iff)
  have f1: "w1 = w" "fs_jail fs1 = fs_jail fs" using resolveVirtual_frame [OF v] by auto
  obtain r where r: "hostPath fs1 v = abs_path (jc @ r)" "names_ok r"
    using resolveVirtual_lexical [OF v j(1,2)] by blast
  have ok: "names_ok (jc @ r)" using j(2) r(2) by simp
  have jl: "OsFS_GetJail fs1 = abs_path jc" using f1 j(1) by (simp add: OsFS_GetJail_def)
  have cj: "canonical_jail (abs_path jc) w = abs_path J" using j by simp
  show ?thesis
  proof (cases r rule: rev_cases)
    case Nil
    then show ?thesis using rc v r f1 jl j
      by (auto simp: resolveHostForCreate_def bindE_def Let_def create_host_def)
  next
    case (snoc r' c)
    then have d: "Dir (abs_path (jc @ r)) = abs_path (jc @ r')" "Base (abs_path (jc @ r)) = c"
      using Dir_abs_path [of "jc @ r'" c] Base_abs_path [of "jc @ r'" c] ok by auto
    have ne: "abs_path (jc @ r) \<noteq> abs_path jc" using abs_path_inj ok j(2) snoc by simp
    obtain cur out where cl: "climb w (abs_path (jc @ r')) [c] = Inr (cur, out)"
      using rc v r f1 jl ne d ok j(2)
      by (auto simp: resolveHostForCreate_def bindE_def Let_def split: sum.splits)
    have n': "names_ok (jc @ r')" using ok snoc by simp
    obtain as bs i where ab: "jc @ r' = as @ bs" "cur = abs_path as" "out = bs @ [c]"
        "kstat w False (abs_path as) = Inr i"
        "bs \<noteq> [] \<longrightarrow> kstat w False (abs_path (as @ [hd bs])) = Inl ENOENT"
      using climb_abs_path [OF n' cl j(3)] by blast
    have "names_ok (as @ bs)" using n' ab(1) by simp
    then have n: "names_ok as" "names_ok bs" "name_ok c" using ok snoc by auto
    define anc where "anc = (case EvalSymlinks w (abs_path as) of Inr evaled \<Rightarrow> evaled | Inl _ \<Rightarrow> abs_path as)"
    have h: "IsInJail (abs_path J) anc" "host = Clean (foldl (\<lambda>out seg. Join [out, seg]) anc (bs @ [c]))"
      and fr: "w' = w" "fs' = fs1"
      using rc v r f1 jl ne d ok j(2) cl cj ab(2,3)
      by (auto simp: resolveHostForCreate_def bindE_def Let_def anc_def split: if_splits)
    show ?thesis using climbed_host [OF j(3,4) n ab(4,5) anc_def h] fr f1 by simp
  qed
qed

section \<open>Where such a path leads\<close>

lemma jail_lookup:
  assumes "jail_at J fs w"
  shows "klookup w f (fs_jail fs) = Inr J"
proof -
  obtain jc where j: "fs_jail fs = abs_path jc" "names_ok jc" "is_dir_at (nodes w) J"
      "resolve (nodes w) max_links False [] jc = Inr J"
    using assms by (elim jail_atE)
  obtain i where "node (nodes w) J = Some i" "kind i = KDir" using j(3) by (auto simp: is_dir_at_iff)
  then have "resolve (nodes w) max_links True [] jc = Inr J" using resolve_follow [OF j(4)] by simp
  then show ?thesis using j by (cases f) (simp_all add: klookup_abs_path)
qed

text \<open>Below a canonical ancestor: only the last component can be missing.\<close>

lemma canonical_file_lookup:
  assumes ok: "tree_ok (nodes w)" and R: "canonical (nodes w) R" and nd: "\<not> is_dir_at (nodes w) R"
    and ms: "ms \<noteq> []"
  shows "resolve (nodes w) n f [] (R @ ms) = Inl ENOTDIR"
proof -
  have "R \<noteq> []" using nd tree_ok_root [OF ok] by auto
  then obtain R' x where x: "R = R' @ [x]" by (metis rev_exhaust)
  obtain i b where i: "node (nodes w) R = Some i" "kind i = KFile b"
    using R nd by (cases rule: kind.exhaust [of "kind (the (node (nodes w) R))"])
      (auto simp: canonical_def is_dir_at_iff)
  have d: "is_dir_at (nodes w) R'" and nR: "names_ok R'" "name_ok x"
    using R x by (auto simp: canonical_def located_def)
  have nx: "\<not> (x = [] \<or> x = ''.'')" "x \<noteq> ''..''" using nR(2) by (auto simp: name_ok_def)
  have "resolve (nodes w) n f [] (R' @ (x # ms)) = resolve (nodes w) n f R' (x # ms)"
    using resolve_on_dir [of "nodes w" "[]" R'] d ok nR by simp
  also have "\<dots> = Inl ENOTDIR" using nx i x ms by simp
  finally show ?thesis using x by simp
qed

lemma canonical_lookup:
  assumes ok: "tree_ok (nodes w)" and R: "canonical (nodes w) R" and ms: "names_ok ms" "ms \<noteq> []"
    and m: "length ms = 1 \<or> node (nodes w) (R @ [hd ms]) = None"
    and q: "resolve (nodes w) n False [] (R @ ms) = Inr q"
  shows "length ms = 1 \<and> q = R @ ms \<and> is_dir_at (nodes w) R"
proof -
  have d: "is_dir_at (nodes w) R"
    using canonical_file_lookup [OF ok R _ ms(2)] q by fastforce
  obtain c cs where c: "ms = c # cs" using ms(2) by (cases ms) auto
  have nc: "\<not> (c = [] \<or> c = ''.'')" "c \<noteq> ''..''" using ms(1) c by (auto simp: name_ok_def)
  have "resolve (nodes w) n False R ms = Inr q"
    using resolve_on_dir [of "nodes w" "[]" R n False ms] d ok canonical_names_ok [OF R] q by simp
  then show ?thesis using m nc c d by (auto split: option.splits if_splits kind.splits)
qed

lemma dangling_lookup:
  assumes ok: "tree_ok (nodes w)" and as: "names_ok as" and wk: "walk w max_eval_links True [] as = Inl e"
    and ms: "ms \<noteq> []"
  shows "resolve (nodes w) max_links f [] (as @ ms) \<noteq> Inr q"
  using resolve_split [OF _ ms links_le ok, of f "[]" as q] tree_ok_root [OF ok] wk
    names_ok_no_slashes [OF as] by auto

lemma create_host_lookup:
  assumes ch: "create_host J fs w host" and jail: "jail_at J fs w"
    and q: "klookup w False host = Inr q"
  shows "(host = fs_jail fs \<and> q = J) \<or>
    (\<exists>R c. q = R @ [c] \<and> host = abs_path q \<and> prefix J R \<and> canonical (nodes w) R \<and>
       is_dir_at (nodes w) R \<and> name_ok c)"
proof -
  have ok: "tree_ok (nodes w)" using jail by (simp add: jail_at_def)
  from ch consider "host = fs_jail fs"
    | R ms where "host = abs_path (R @ ms)" "names_ok ms" "ms \<noteq> []" "canonical (nodes w) R"
        "prefix J R" "length ms = 1 \<or> node (nodes w) (R @ [hd ms]) = None"
    | as ms e where "host = abs_path (as @ ms)" "names_ok (as @ ms)" "ms \<noteq> []"
        "walk w max_eval_links True [] as = Inl e"
    unfolding create_host_def by blast
  then show ?thesis
  proof cases
    case 1
    then show ?thesis using jail_lookup [OF jail] q by auto
  next
    case (2 R ms)
    have n: "names_ok (R @ ms)" using 2 canonical_names_ok by simp
    have "resolve (nodes w) max_links False [] (R @ ms) = Inr q"
      using q 2(1) klookup_abs_path [OF n] by simp
    then have *: "length ms = 1 \<and> q = R @ ms \<and> is_dir_at (nodes w) R"
      by (rule canonical_lookup [OF ok 2(4,2,3,6)])
    then obtain c where "ms = [c]" by (cases ms) auto
    then show ?thesis using * 2 by auto
  next
    case (3 as ms e)
    then have "resolve (nodes w) max_links False [] (as @ ms) = Inr q"
      using q klookup_abs_path by simp
    then show ?thesis using dangling_lookup [OF ok _ 3(4,3)] 3(2) by simp
  qed
qed

lemma create_host_below:
  assumes "create_host J fs w host" and "jail_at J fs w"
  shows "below J w False host"
  unfolding below_def using create_host_lookup [OF assms] prefix_prefix by fastforce

text \<open>Following the last component, when it is not a link.\<close>

lemma below_follow:
  assumes "below J w False p" and "is_abs p"
    and "\<And>i l. kstat w False p = Inr i \<Longrightarrow> kind i \<noteq> KLink l"
  shows "below J w True p"
proof -
  have p: "klookup w f p = resolve (nodes w) max_links f [] (split_on CHR ''/'' p)" for f
    using assms(2) by (cases p) (simp_all add: klookup_def start_dir_def)
  have "klookup w True p = klookup w False p"
    unfolding p
  proof (rule resolve_follow [OF refl])
    show "case resolve (nodes w) max_links False [] (split_on CHR ''/'' p) of Inl e \<Rightarrow> True
      | Inr q \<Rightarrow> \<forall>i l. node (nodes w) q = Some i \<longrightarrow> kind i \<noteq> KLink l"
      using assms(3) by (auto simp: kstat_def p split: sum.splits)
  qed
  then show ?thesis using assms(1) by (simp add: below_def)
qed

section \<open>A host path to open\<close>

definition open_host :: "string list \<Rightarrow> osfs \<Rightarrow> world \<Rightarrow> string \<Rightarrow> bool" where
  "open_host J fs w host \<longleftrightarrow>
     is_abs host \<and> below J w True host \<and> below J w False host \<and>
     (create_host J fs w host \<or>
      (\<exists>Q. host = abs_path Q \<and> canonical (nodes w) Q \<and> prefix J Q))"

lemma canonical_below:
  assumes "tree_ok (nodes w)" and "canonical (nodes w) Q" and "prefix J Q"
  shows "below J w f (abs_path Q)"
  using resolve_canonical [of "nodes w" "[]" Q max_links f] assms tree_ok_root [OF assms(1)]
    klookup_abs_path [OF canonical_names_ok [OF assms(2)]]
  by (simp add: below_def)

lemma EvalSymlinks_inside:
  assumes jail: "jail_at J fs w" and e: "EvalSymlinks w host = Inr rh" and h: "clean_abs host"
    and i: "IsInJail (abs_path J) rh"
  obtains Q where "rh = abs_path Q" "canonical (nodes w) Q" "prefix J Q"
proof -
  obtain hc where hc: "host = abs_path hc" "names_ok hc" using h by (auto elim: clean_absE)
  have ok: "tree_ok (nodes w)" and nJ: "names_ok J" using jail by (auto elim: jail_atE)
  obtain Q where Q: "rh = abs_path Q" "canonical (nodes w) Q"
    using EvalSymlinks_canonical [OF ok hc(2)] e hc(1) by blast
  then show ?thesis using that IsInJail_prefix [OF nJ canonical_names_ok [OF Q(2)]] i by simp
qed

lemma create_host_clean: "create_host J fs w host \<Longrightarrow> jail_at J fs w \<Longrightarrow> clean_abs host"
  by (auto simp: create_host_def jail_at_def canonical_names_ok)

lemma resolveHostForOpen_shape:
  assumes jail: "jail_at J fs w"
    and ro: "resolveHostForOpen p (fs, w) = (Inr host, (fs', w'))"
  shows "w' = w \<and> fs_jail fs' = fs_jail fs \<and> open_host J fs w host"
proof -
  obtain h0 fs1 w1 where c: "resolveHostForCreate p (fs, w) = (Inr h0, (fs1, w1))"
    using ro by (auto simp: resolveHostForOpen_def bindE_Inr_iff)
  have c': "w1 = w" "fs_jail fs1 = fs_jail fs" and ch: "create_host J fs w h0"
    using resolveHostForCreate_shape [OF jail c] by auto
  have cl: "clean_abs h0" using create_host_clean [OF ch jail] .
  have ok: "tree_ok (nodes w)" using jail by (simp add: jail_at_def)
  have cj: "canonical_jail (fs_jail fs) w = abs_path J" using jail by (elim jail_atE)
  have nb: "\<not> blank (fs_jail fs)" using jail blank_abs by (auto simp: jail_at_def clean_abs_def)
  have bl: "below J w False h0" using create_host_below [OF ch jail] .
  have ab: "is_abs h0" using cl by (simp add: clean_abs_def)
  show ?thesis
  proof (cases "\<exists>i l. kstat w False h0 = Inr i \<and> kind i = KLink l")
    case True
    then obtain i l where i: "os_Lstat h0 w = Inr i" "kind i = KLink l" by (auto simp: os_Lstat_cases)
    then have "EvalSymlinks w h0 = Inr host" "IsInJail (abs_path J) host" and fr: "w' = w" "fs' = fs1"
      using ro c c' nb cj
      by (auto simp: resolveHostForOpen_def bindE_def Let_def OsFS_GetJail_def split: sum.splits if_splits)
    then obtain Q where Q: "host = abs_path Q" "canonical (nodes w) Q" "prefix J Q"
      using EvalSymlinks_inside [OF jail _ cl] by blast
    then show ?thesis
      using fr c' canonical_below [OF ok Q(2,3)] by (auto simp: open_host_def)
  next
    case False
    then have "host = h0" and fr: "w' = w" "fs' = fs1"
      using ro c c' nb
      by (auto simp: resolveHostForOpen_def bindE_def Let_def OsFS_GetJail_def os_Lstat_cases
          split: sum.splits kind.splits)
    moreover have "below J w True h0" using below_follow [OF bl ab] False by blast
    ultimately show ?thesis using ch bl ab c' by (auto simp: open_host_def)
  qed
qed

lemma resolveHostForCreate_frame:
  assumes "resolveHostForCreate p (fs, w) = (r, (fs', w'))"
  shows "w' = w \<and> fs_jail fs' = fs_jail fs"
proof -
  have "w' = w \<and> (\<exists>r1 w1. resolveVirtual p False (fs, w) = (r1, (fs', w1)))"
    using assms resolveVirtual_frame [of p False fs w]
    by (auto simp: resolveHostForCreate_def bindE_def Let_def
        split: prod.splits sum.splits if_splits)
  then show ?thesis using resolveVirtual_frame by blast
qed

lemma resolveHostForOpen_frame:
  assumes "resolveHostForOpen p (fs, w) = (r, (fs', w'))"
  shows "w' = w \<and> fs_jail fs' = fs_jail fs"
proof -
  have "\<exists>r1. resolveHostForCreate p (fs, w) = (r1, (fs', w'))"
    using assms
    by (auto simp: resolveHostForOpen_def bindE_def Let_def
        split: prod.splits sum.splits if_splits kind.splits)
  then show ?thesis using resolveHostForCreate_frame by blast
qed

end
