(* ===== verification/OsFS_Confined.thy ===== *)
theory OsFS_Confined
  imports OsFS_Create
begin

text \<open>
  Confinement of \<open>OsFS\<close>: under a usable jail no operation changes the host outside the jail, and a
  run of operations keeps the jail usable.
\<close>

section \<open>MkdirAll on a host path to create at\<close>

lemma entry_lookup:
  assumes "tree_ok (nodes w)" and "is_dir_at (nodes w) D" and "names_ok (D @ [c])"
  shows "klookup w False (abs_path (D @ [c])) = Inr (D @ [c])"
proof -
  have nc: "\<not> (c = [] \<or> c = ''.'')" "c \<noteq> ''..''" using assms(3) by (auto simp: name_ok_def)
  have "resolve (nodes w) max_links False [] (D @ [c]) = resolve (nodes w) max_links False D [c]"
    using resolve_on_dir [of "nodes w" "[]" D] assms by simp
  also have "\<dots> = Inr (D @ [c])" using nc by (auto split: option.splits kind.splits)
  finally show ?thesis by (simp only: klookup_abs_path [OF assms(3)])
qed

lemma os_Stat_cases:
  "os_Stat p w = (case kstat w True p of Inl e \<Rightarrow> Inl (PathErr ''stat'' p (Errno e)) | Inr i \<Rightarrow> Inr i)"
  by (simp add: os_Stat_def patherr_def)

lemma missing_stat:
  assumes ok: "tree_ok (nodes w)" and R: "canonical (nodes w) R" and ms: "names_ok ms" "ms \<noteq> []"
    and m: "node (nodes w) (R @ [hd ms]) = None"
  shows "kstat w True (abs_path (R @ ms)) \<noteq> Inr i"
proof -
  obtain c cs where c: "ms = c # cs" using ms(2) by (cases ms) auto
  have nc: "\<not> (c = [] \<or> c = ''.'')" "c \<noteq> ''..''" using ms(1) c by (auto simp: name_ok_def)
  have n: "names_ok (R @ ms)" using ms(1) canonical_names_ok [OF R] by simp
  show ?thesis
  proof (cases "is_dir_at (nodes w) R")
    case True
    then have "resolve (nodes w) max_links True [] (R @ ms) = resolve (nodes w) max_links True R ms"
      using resolve_on_dir [of "nodes w" "[]" R] ok canonical_names_ok [OF R] by simp
    then show ?thesis using nc c m
      by (simp add: kstat_def klookup_abs_path [OF n [unfolded c]] del: list_all_append)
  next
    case False
    then show ?thesis
      using canonical_file_lookup [OF ok R False ms(2)] by (simp add: kstat_def klookup_abs_path [OF n])
  qed
qed

text \<open>\<open>Mkdir\<close> of an entry of a directory: afterwards, if it succeeded or the entry is one already, a directory.\<close>

lemma Mkdir_entry:
  assumes mk: "os_Mkdir (abs_path (D @ [c])) perm w = (r, w')"
    and ok: "tree_ok (nodes w)" and dir: "is_dir_at (nodes w) D" and n: "names_ok (D @ [c])"
  shows "prefix J D \<Longrightarrow> safe J w w'"
    "r = Inr () \<or> (\<exists>i. os_Lstat (abs_path (D @ [c])) w' = Inr i \<and> kind i = KDir) \<Longrightarrow> is_dir_at (nodes w') (D @ [c])"
proof -
  let ?p = "abs_path (D @ [c])"
  have kl: "klookup w False ?p = Inr (D @ [c])" using entry_lookup [OF ok dir n] .
  then have "below J w False ?p" if "prefix J D" using that by (auto simp: below_def)
  then show "prefix J D \<Longrightarrow> safe J w w'" using safe_Mkdir [OF mk ok] by simp
  have "w' = w" if "r = Inl e" for e
    using mk that by (auto simp: os_Mkdir_def Let_def split: option.splits sum.splits if_splits)
  moreover have "is_dir_at (nodes w') (D @ [c])" if "r = Inr ()"
    using mk kl that
    by (auto simp: os_Mkdir_def Let_def is_dir_at_iff new_inode_def split: option.splits sum.splits if_splits)
  moreover have "is_dir_at (nodes w) (D @ [c])" if "os_Lstat ?p w = Inr i" "kind i = KDir" for i
    using kl that by (auto simp: os_Lstat_cases kstat_def is_dir_at_iff split: option.splits)
  ultimately show "r = Inr () \<or> (\<exists>i. os_Lstat ?p w' = Inr i \<and> kind i = KDir) \<Longrightarrow> is_dir_at (nodes w') (D @ [c])"
    by (cases r) auto
qed

lemma MkdirAll_create:
  "os_MkdirAll (abs_path (R @ ms)) perm w = (r, w') \<Longrightarrow> tree_ok (nodes w) \<Longrightarrow> canonical (nodes w) R \<Longrightarrow>
   prefix J R \<Longrightarrow> names_ok ms \<Longrightarrow> length ms \<le> 1 \<or> node (nodes w) (R @ [hd ms]) = None \<Longrightarrow>
   safe J w w' \<and>
   (r = Inr () \<longrightarrow> ms = [] \<or> node (nodes w) (R @ [hd ms]) = None \<longrightarrow> is_dir_at (nodes w') (R @ ms))"
proof (induction ms arbitrary: r w' rule: rev_induct)
  case Nil
  have n: "names_ok R" using canonical_names_ok Nil by blast
  obtain i where i: "node (nodes w) R = Some i" using Nil by (auto simp: canonical_def)
  have "kstat w True (abs_path R) = Inr i"
    using i resolve_canonical [of "nodes w" "[]" R max_links True] Nil tree_ok_root n
    by (simp add: kstat_def klookup_abs_path)
  then show ?case using Nil i
    by (auto simp: os_MkdirAll.simps [of "abs_path R"] os_Stat_cases is_dir_at_iff split: if_splits)
next
  case (snoc c ms)
  let ?p = "abs_path (R @ ms @ [c])"
  have n: "names_ok ((R @ ms) @ [c])" using canonical_names_ok snoc.prems by simp
  have d: "Dir ?p = abs_path (R @ ms)" using Dir_abs_path [OF n] by simp
  have ne: "abs_path (R @ ms) \<noteq> ?p" using n abs_path_inj [of "R @ ms" "R @ ms @ [c]"] by simp
  show ?case
  proof (cases "kstat w True ?p")
    case (Inr i)
    then have "w' = w" using snoc.prems
      by (auto simp: os_MkdirAll.simps [of ?p] os_Stat_cases split: if_splits)
    moreover have "node (nodes w) (R @ [hd (ms @ [c])]) \<noteq> None"
      using missing_stat [of w R "ms @ [c]" i] snoc.prems Inr by auto
    ultimately show ?thesis using snoc.prems by auto
  next
    case (Inl e)
    obtain r1 w1 where m: "os_MkdirAll (abs_path (R @ ms)) perm w = (r1, w1)" by (metis prod.exhaust)
    have hdm: "ms = [] \<or> node (nodes w) (R @ [hd ms]) = None" using snoc.prems(6) by (cases ms) auto
    have IH: "safe J w w1" "r1 = Inr () \<longrightarrow> is_dir_at (nodes w1) (R @ ms)"
      using snoc.IH [OF m] snoc.prems hdm by auto
    show ?thesis
    proof (cases r1)
      case (Inl e1)
      then show ?thesis
        using snoc.prems(1) \<open>kstat w True ?p = Inl e\<close> m d ne IH(1)
        by (auto simp: os_MkdirAll.simps [of ?p] os_Stat_cases)
    next
      case (Inr u)
      then have dir: "is_dir_at (nodes w1) (R @ ms)" using IH(2) by simp
      have ok1: "tree_ok (nodes w1)" using IH(1) confined_tree by blast
      obtain r2 w2 where mk: "os_Mkdir ?p perm w1 = (r2, w2)" by (metis prod.exhaust)
      note en = Mkdir_entry [OF _ ok1 dir n, simplified, OF mk]
      have w': "w' = w2" "r = Inr () \<Longrightarrow> r2 = Inr () \<or> (\<exists>i. os_Lstat ?p w2 = Inr i \<and> kind i = KDir)"
        using snoc.prems(1) \<open>kstat w True ?p = Inl e\<close> m d ne Inr mk
        by (auto simp: os_MkdirAll.simps [of ?p] os_Stat_cases split: sum.splits if_splits)
      have "prefix J (R @ ms)" using snoc.prems(4) by simp
      then have "safe J w w2" using en(1) IH(1) safe_trans by blast
      moreover have "is_dir_at (nodes w2) (R @ ms @ [c])" if "r = Inr ()" using en(2) w'(2) [OF that] by blast
      ultimately show ?thesis using w'(1) by blast
    qed
  qed
qed

text \<open>Behind a dangling link nothing is created.\<close>

lemma stat_walk:
  assumes "tree_ok (nodes w)" and "names_ok cs" and "kstat w True (abs_path cs) = Inr i"
  shows "\<exists>p. walk w max_eval_links True [] cs = Inr (True, p)"
proof -
  obtain p where "resolve (nodes w) max_links True [] cs = Inr p" "node (nodes w) p = Some i"
    using assms by (auto simp: kstat_def klookup_abs_path split: sum.splits option.splits)
  then show ?thesis
    using walk_complete [OF _ _ links_le assms(1)] tree_ok_root [OF assms(1)] names_ok_no_slashes [OF assms(2)]
    by fastforce
qed

lemma dangling_parent:
  assumes ok: "tree_ok (nodes w)" and n: "names_ok (as @ [c])"
    and k: "kstat w False (abs_path (as @ [c])) = Inr i"
  shows "\<exists>j. kstat w True (abs_path as) = Inr j \<and> kind j = KDir"
proof -
  obtain q where q: "resolve (nodes w) max_links False [] (as @ [c]) = Inr q"
    using k by (auto simp: kstat_def klookup_abs_path [OF n] split: sum.splits)
  have na: "names_ok as" using n by simp
  have "resolve t m f d (cs @ [c]) = Inr q \<Longrightarrow> is_dir_at t d \<Longrightarrow> tree_ok t \<Longrightarrow>
      \<exists>p. resolve t m True d cs = Inr p \<and> is_dir_at t p" for t m f d cs
  proof (induction t m True d cs rule: resolve.induct)
    case (2 t m d b cs)
    show ?case
    proof (cases "b = [] \<or> b = ''.''")
      case True
      then show ?thesis using "2.hyps"(1) "2.prems" by simp
    next
      case F1: False
      show ?thesis
      proof (cases "b = ''..''")
        case True
        then show ?thesis using "2.hyps"(2) F1 "2.prems" tree_ok_butlast by simp
      next
        case F2: False
        obtain i where i: "node t (d @ [b]) = Some i"
          using "2.prems"(1) F1 F2 by (auto split: option.splits)
        show ?thesis
        proof (cases "kind i")
          case KDir
          then have "is_dir_at t (d @ [b])" using i by (rule_tac is_dir_atI)
          then show ?thesis using "2.hyps"(3) [OF F1 F2 i KDir] "2.prems" F1 F2 i KDir by simp
        next
          case (KFile x)
          then show ?thesis using "2.prems"(1) F1 F2 i by simp
        next
          case (KLink l)
          have "is_dir_at t (if is_abs l then [] else d)" using "2.prems" tree_ok_root by auto
          then show ?thesis
            using "2.hyps"(4) [OF F1 F2 i KLink] "2.prems" F1 F2 i KLink by (auto split: if_splits)
        qed
      qed
    qed
  qed auto
  then obtain p where "resolve (nodes w) max_links True [] as = Inr p" "is_dir_at (nodes w) p"
    using q tree_ok_root [OF ok] ok by blast
  then show ?thesis by (auto simp: kstat_def klookup_abs_path [OF na] is_dir_at_iff)
qed

lemma MkdirAll_dangling:
  "tree_ok (nodes w) \<Longrightarrow> names_ok (as @ ms) \<Longrightarrow> walk w max_eval_links True [] as = Inl e \<Longrightarrow>
   kstat w False (abs_path as) = Inr i \<Longrightarrow> \<exists>e. os_MkdirAll (abs_path (as @ ms)) perm w = (Inl e, w)"
proof (induction ms rule: rev_induct)
  case Nil
  then have na: "names_ok as" by simp
  have ne: "as \<noteq> []" using Nil(3) by auto
  then obtain bs c where as: "as = bs @ [c]" by (metis rev_exhaust)
  obtain j where j: "kstat w True (abs_path bs) = Inr j" "kind j = KDir"
    using dangling_parent [of w bs c i] Nil as by auto
  have d: "Dir (abs_path as) = abs_path bs" using Dir_abs_path na as by simp
  have neq: "abs_path bs \<noteq> abs_path as" using abs_path_inj na as by simp
  have st: "\<exists>e. kstat w True (abs_path as) = Inl e"
    using stat_walk [OF Nil(1) na] Nil(3) by (cases "kstat w True (abs_path as)") auto
  have kd: "kind i \<noteq> KDir"
  proof
    assume "kind i = KDir"
    moreover obtain q where q: "resolve (nodes w) max_links False [] as = Inr q" "node (nodes w) q = Some i"
      using Nil(4) by (auto simp: kstat_def klookup_abs_path [OF na] split: sum.splits option.splits)
    ultimately have "resolve (nodes w) max_links True [] as = Inr q" using resolve_follow [OF q(1)] by simp
    then have "kstat w True (abs_path as) = Inr i" using q(2) by (simp add: kstat_def klookup_abs_path [OF na])
    with st show False by simp
  qed
  have up: "os_MkdirAll (abs_path bs) perm w = (Inr (), w)"
    using j by (simp add: os_MkdirAll.simps [of "abs_path bs"] os_Stat_cases)
  have mk: "\<exists>e. os_Mkdir (abs_path as) perm w = (Inl e, w)"
    using Nil(4) by (auto simp: os_Mkdir_def Let_def kstat_def split: option.splits sum.splits)
  show ?case
    using st mk up d neq kd Nil(4)
    by (auto simp: os_MkdirAll.simps [of "abs_path as"] os_Stat_cases os_Lstat_cases)
next
  case (snoc c ms)
  have n: "names_ok ((as @ ms) @ [c])" "names_ok as" using snoc.prems by simp_all
  have d: "Dir (abs_path (as @ ms @ [c])) = abs_path (as @ ms)" using Dir_abs_path [OF n(1)] by simp
  have ne: "abs_path (as @ ms) \<noteq> abs_path (as @ ms @ [c])"
    using n abs_path_inj [of "as @ ms" "as @ ms @ [c]"] by simp
  have n2: "names_ok (as @ ms @ [c])" using n by simp
  have "kstat w True (abs_path (as @ ms @ [c])) \<noteq> Inr j" for j
    using dangling_lookup [OF snoc.prems(1) n(2) snoc.prems(3), of "ms @ [c]" True]
    by (auto simp: kstat_def klookup_abs_path [OF n2] split: sum.splits)
  then obtain e' where "kstat w True (abs_path (as @ ms @ [c])) = Inl e'"
    by (cases "kstat w True (abs_path (as @ ms @ [c]))") auto
  then show ?case using snoc d ne n
    by (auto simp: os_MkdirAll.simps [of "abs_path (as @ ms @ [c])"] os_Stat_cases)
qed

lemma safe_MkdirAll:
  assumes "os_MkdirAll host perm w = (r, w')" and jail: "jail_at J fs w" and ch: "create_host J fs w host"
  shows "safe J w w'"
proof -
  have ok: "tree_ok (nodes w)" using jail by (simp add: jail_at_def)
  from ch consider "host = fs_jail fs"
    | R ms where "host = abs_path (R @ ms)" "names_ok ms" "ms \<noteq> []" "canonical (nodes w) R"
        "prefix J R" "length ms = 1 \<or> node (nodes w) (R @ [hd ms]) = None"
    | as ms e i where "host = abs_path (as @ ms)" "names_ok (as @ ms)" "ms \<noteq> []"
        "walk w max_eval_links True [] as = Inl e" "kstat w False (abs_path as) = Inr i"
    unfolding create_host_def by blast
  then show ?thesis
  proof cases
    case 1
    obtain i where "kstat w True host = Inr i" "kind i = KDir"
      using jail_lookup [OF jail, of True] 1 jail by (auto simp: kstat_def jail_at_def is_dir_at_iff)
    then have "w' = w" using assms(1) by (simp add: os_MkdirAll.simps [of host] os_Stat_cases)
    then show ?thesis using ok by simp
  next
    case (2 R ms)
    then show ?thesis using MkdirAll_create [of R ms perm w r w' J] assms(1) ok by auto
  next
    case (3 as ms e i)
    then show ?thesis using MkdirAll_dangling [OF ok 3(2,4,5), of perm] assms(1) ok by auto
  qed
qed

section \<open>atomicWriteFile\<close>

lemma confined_below: "confined D w w' \<Longrightarrow> prefix J D \<Longrightarrow> confined J w w'"
  by (auto simp: confined_def intro: prefix_order.trans)

lemma dir_below: "tree_ok t \<Longrightarrow> is_dir_at t D \<Longrightarrow> prefix J D \<Longrightarrow> is_dir_at t J"
  by (auto simp: prefix_def intro: tree_ok_prefix)

lemma safe_below:
  assumes "safe D w w'" and "prefix J D" and "is_dir_at (nodes w) D"
  shows "safe J w w'"
  using assms confined_below dir_below [of "nodes w'" D J]
  by (auto simp: keeps_dir_def confined_def)

lemma safe_dir: "safe D w w' \<Longrightarrow> is_dir_at (nodes w) D \<Longrightarrow> is_dir_at (nodes w') D"
  by (simp add: keeps_dir_def)

lemma below_entry:
  assumes "tree_ok (nodes w)" and "is_dir_at (nodes w) D" and "names_ok (D @ [c])"
  shows "below D w False (abs_path (D @ [c]))"
  using entry_lookup [OF assms] by (simp add: below_def)

lemma below_file:
  assumes "handle_in D w h" and "tree_ok (nodes w)" and "h_name h = abs_path (h_loc h)"
  shows "below D w True (h_name h)"
proof -
  have "canonical (nodes w) (h_loc h)" "prefix D (h_loc h)"
    using assms(1) by (auto simp: handle_in_def canonical_def)
  then show ?thesis using canonical_below assms(2,3) by simp
qed

text \<open>The random part of a temporary name has no separator (Go draws a decimal number).\<close>

definition plain_randoms :: "world \<Rightarrow> bool" where
  "plain_randoms w \<longleftrightarrow> (\<forall>n. CHR ''/'' \<notin> set (randoms w n))"

lemma safe_create_temp:
  "create_temp n (joinPath (abs_path D) pre) w = (r, w') \<Longrightarrow> tree_ok (nodes w) \<Longrightarrow> is_dir_at (nodes w) D \<Longrightarrow>
   names_ok D \<Longrightarrow> plain_randoms w \<Longrightarrow> (\<And>x. CHR ''/'' \<notin> set x \<Longrightarrow> name_ok (pre @ x)) \<Longrightarrow>
   safe D w w' \<and>
   (\<forall>h. r = Inr h \<longrightarrow> handle_in D w' h \<and> h_name h = abs_path (h_loc h) \<and>
      (\<exists>t. h_loc h = D @ [t] \<and> name_ok t))"
proof (induction n arbitrary: w)
  case 0
  then show ?case by auto
next
  case (Suc n)
  define t where "t = pre @ randoms w (rand_pos w)"
  have t: "name_ok t" using Suc.prems(5,6) by (simp add: t_def plain_randoms_def)
  have nt: "names_ok (D @ [t])" using Suc.prems(4) t by simp
  define w1 where "w1 = w\<lparr>rand_pos := Suc (rand_pos w)\<rparr>"
  have n1: "nodes w1 = nodes w" "randoms w1 = randoms w" by (simp_all add: w1_def)
  have s1: "safe D w w1" using Suc.prems(2) n1 by (simp add: confined_def keeps_dir_def)
  have j: "joinPath (abs_path D) pre @ randoms w (rand_pos w) = abs_path (D @ [t])"
    using joinPath_abs [OF Suc.prems(4), of pre] by (simp add: t_def)
  have step: "create_temp (Suc n) (joinPath (abs_path D) pre) w =
      (case k_open (abs_path (D @ [t])) wr_create_excl 0x180 w1 of
         Inr (h, w2) \<Rightarrow> (Inr h, w2)
       | Inl e \<Rightarrow> if e = EEXIST then create_temp n (joinPath (abs_path D) pre) w1
                  else (Inl (PathErr ''open'' (abs_path (D @ [t])) (Errno e)), w1))"
    by (simp only: create_temp.simps Let_def w1_def [symmetric] j)
  show ?case
  proof (cases "k_open (abs_path (D @ [t])) wr_create_excl 0x180 w1")
    case (Inl e)
    show ?thesis
    proof (cases "e = EEXIST")
      case True
      have ct: "create_temp n (joinPath (abs_path D) pre) w1 = (r, w')" using Suc.prems(1) step Inl True by simp
      have pr: "plain_randoms w1" using Suc.prems(5) n1 by (simp add: plain_randoms_def)
      have "safe D w1 w' \<and> (\<forall>h. r = Inr h \<longrightarrow> handle_in D w' h \<and> h_name h = abs_path (h_loc h) \<and>
          (\<exists>t. h_loc h = D @ [t] \<and> name_ok t))"
        by (rule Suc.IH [OF ct _ _ Suc.prems(4) pr]) (use Suc.prems(2,3,6) n1 in auto)
      then show ?thesis using s1 safe_trans by blast
    next
      case False
      then show ?thesis using Suc.prems(1) step Inl s1 by simp
    qed
  next
    case (Inr hw)
    obtain h w2 where hw: "hw = (h, w2)" by (cases hw)
    have k: "k_open (abs_path (D @ [t])) wr_create_excl 0x180 w1 = Inr (h, w2)" using Inr hw by simp
    have ok1: "tree_ok (nodes w1)" and d1: "is_dir_at (nodes w1) D" using Suc.prems(2,3) n1 by auto
    have fl: "(\<not> (o_create wr_create_excl \<and> o_excl wr_create_excl)) = False" "o_write wr_create_excl"
      by (simp_all add: wr_create_excl_def)
    note so = safe_open [OF k ok1, of D, unfolded fl, OF _ below_entry [OF ok1 d1 nt]]
    have "h_loc h = D @ [t]" using so(4) entry_lookup [OF ok1 d1 nt] by simp
    moreover have "r = Inr h" "w' = w2"
      using Suc.prems(1) step Inr hw by (auto simp del: create_temp.simps)
    ultimately show ?thesis
      using so(1,3) so(2) [OF _ fl(2)] safe_trans [OF s1] t by auto
  qed
qed

lemma safe_atomic_body:
  assumes b: "atomic_body host data perm h w = (r, w')" and ok: "tree_ok (nodes w)"
    and dir: "is_dir_at (nodes w) D" and h: "handle_in D w h" "h_name h = abs_path (h_loc h)"
    and loc: "h_loc h = D @ [t]" and n: "names_ok (D @ [t])"
    and host: "host = abs_path (D @ [c])" "names_ok (D @ [c])"
  shows "safe D w w'"
proof -
  obtain r1 w1 where wr: "os_Write h data w = (r1, w1)" by (metis prod.exhaust)
  have s1: "safe D w w1" "handle_in D w1 h" using safe_Write [OF wr ok h(1)] by auto
  have ok1: "tree_ok (nodes w1)" using s1(1) confined_tree by blast
  obtain r2 w2 where cl: "os_Close h w1 = (r2, w2)" by (metis prod.exhaust)
  have w2: "w2 = w1" using Close_same [OF cl] .
  obtain r3 w3 where cm: "os_Chmod (h_name h) perm w1 = (r3, w3)" by (metis prod.exhaust)
  have s3: "safe D w1 w3" using safe_Chmod [OF cm ok1] below_file [OF s1(2) ok1 h(2)] h(2) by simp
  have ok3: "tree_ok (nodes w3)" using s3 confined_tree by blast
  have d3: "is_dir_at (nodes w3) D" using safe_dir [OF s3 safe_dir [OF s1(1) dir]] .
  obtain r4 w4 where rn: "os_Rename (h_name h) host w3 = (r4, w4)" by (metis prod.exhaust)
  have s4: "safe D w3 w4"
    using safe_Rename [OF rn ok3] below_entry [OF ok3 d3] n host h(2) loc by simp
  have "w' = w1 \<or> w' = w4"
    using b wr cl w2 cm rn
    by (auto simp: atomic_body_def attempt_def fail_def ret_def split: sum.splits)
  then show ?thesis using s1(1) safe_trans [OF s1(1) safe_trans [OF s3 s4]] by auto
qed

lemma safe_temp_file:
  assumes a: "attempt (os_CreateTemp (abs_path D) (''.tmp-'' @ c @ ''.'')) (\<lambda>rt.
                 case rt of
                   Inl err \<Rightarrow> fail (Wrapped msg err)
                 | Inr tmpFile \<Rightarrow>
                     attempt (atomic_body (abs_path (D @ [c])) data perm tmpFile) (\<lambda>res.
                       attempt (os_Remove (h_name tmpFile)) (\<lambda>_. liftE res))) w = (r, w')"
    and ok: "tree_ok (nodes w)" and dir: "is_dir_at (nodes w) D"
    and n: "names_ok (D @ [c])" and pr: "plain_randoms w"
  shows "safe D w w'"
proof -
  have nc: "name_ok c" and nD: "names_ok D" using n by auto
  have ns: "CHR ''/'' \<notin> set c" using nc by (simp add: name_ok_def)
  then have np: "CHR ''/'' \<notin> set (''.tmp-'' @ c @ ''.'')" by simp
  have pre: "CHR ''/'' \<notin> set x \<Longrightarrow> name_ok ((''.tmp-'' @ c @ ''.'') @ x)" for x
    using ns by (auto simp: name_ok_def)
  obtain rt w1 where ct: "os_CreateTemp (abs_path D) (''.tmp-'' @ c @ ''.'') w = (rt, w1)" by (metis prod.exhaust)
  have "create_temp 10000 (joinPath (abs_path D) (''.tmp-'' @ c @ ''.'')) w = (rt, w1)"
    using ct np by (simp only: os_CreateTemp_def if_False)
  then have s1: "safe D w w1" and hr: "\<And>h. rt = Inr h \<Longrightarrow> handle_in D w1 h \<and>
      h_name h = abs_path (h_loc h) \<and> (\<exists>t. h_loc h = D @ [t] \<and> name_ok t)"
    using safe_create_temp [OF _ ok dir nD pr pre] by blast+
  show ?thesis
  proof (cases rt)
    case (Inl e)
    then show ?thesis using a ct s1 by (simp add: attempt_def fail_def)
  next
    case (Inr h)
    obtain t where h: "handle_in D w1 h" "h_name h = abs_path (h_loc h)" "h_loc h = D @ [t]" "name_ok t"
      using hr Inr by blast
    have nt: "names_ok (D @ [t])" using nD h(4) by simp
    have ok1: "tree_ok (nodes w1)" using s1 confined_tree by blast
    have d1: "is_dir_at (nodes w1) D" using safe_dir [OF s1 dir] .
    obtain r2 w2 where bd: "atomic_body (abs_path (D @ [c])) data perm h w1 = (r2, w2)"
      by (metis prod.exhaust)
    have s2: "safe D w1 w2" by (rule safe_atomic_body [OF bd ok1 d1 h(1-3) nt refl n])
    have ok2: "tree_ok (nodes w2)" using s2 confined_tree by blast
    have d2: "is_dir_at (nodes w2) D" using safe_dir [OF s2 d1] .
    obtain r3 w3 where rm: "os_Remove (h_name h) w2 = (r3, w3)" by (metis prod.exhaust)
    have nm: "h_name h = abs_path (D @ [t])" using h by simp
    have kl: "klookup w2 False (h_name h) = Inr (D @ [t])" using entry_lookup [OF ok2 d2 nt] nm by simp
    have "safe D w2 w3"
      using confined_Remove [OF rm ok2, of D] kl nm by (simp add: below_def)
    moreover have "w' = w3" using a ct Inr bd rm by (simp add: attempt_def liftE_def)
    ultimately show ?thesis using safe_trans [OF s1 safe_trans [OF s2]] by blast
  qed
qed

text \<open>
  Every shape of an openable path but the jail directory itself: either nothing is done, or the
  parent is a directory below the jail once \<open>MkdirAll\<close> has succeeded.
\<close>

lemma atomic_entry_safe:
  assumes a: "atomicWriteFile host data perm w = (r, w')" and pr: "plain_randoms w"
    and host: "host = abs_path (D @ [c])" "names_ok (D @ [c])" "prefix J D"
    and md: "\<And>r1 w1. os_MkdirAll (abs_path D) 0x1ED w = (r1, w1) \<Longrightarrow>
        safe J w w1 \<and> (r1 = Inr () \<longrightarrow> is_dir_at (nodes w1) D)"
  shows "safe J w w'"
proof -
  obtain r1 w1 where m: "os_MkdirAll (abs_path D) 0x1ED w = (r1, w1)" by (metis prod.exhaust)
  have s1: "safe J w w1" "r1 = Inr () \<longrightarrow> is_dir_at (nodes w1) D" using md [OF m] by auto
  have db: "Dir host = abs_path D" "Base host = c" using host Dir_abs_path Base_abs_path by auto
  show ?thesis
  proof (cases r1)
    case (Inl e)
    then show ?thesis using a m s1 db by (simp add: atomicWriteFile_def Let_def attempt_def fail_def)
  next
    case (Inr u)
    have ok1: "tree_ok (nodes w1)" using s1 confined_tree by blast
    have d1: "is_dir_at (nodes w1) D" using s1(2) Inr by simp
    have pr1: "plain_randoms w1" using pr s1(1) by (simp add: plain_randoms_def confined_def)
    have "safe D w1 w'"
      by (rule safe_temp_file [OF _ ok1 d1 host(2) pr1])
        (use a m Inr db host(1) in \<open>simp add: atomicWriteFile_def Let_def attempt_def [of "os_MkdirAll _ _"]\<close>)
    then show ?thesis using safe_below [OF _ host(3) d1] s1(1) safe_trans by blast
  qed
qed

text \<open>A canonical path of the jail, other than the jail, is an entry of a canonical directory of it.\<close>

lemma canonical_entry:
  assumes ok: "tree_ok (nodes w)" and q: "host = abs_path Q" "canonical (nodes w) Q" "prefix J Q"
    and nj: "klookup w True host \<noteq> Inr J"
  obtains D c where "Q = D @ [c]" "prefix J D" "names_ok (D @ [c])" "canonical (nodes w) D" "is_dir_at (nodes w) D"
proof -
  have "klookup w True host = Inr Q"
    using resolve_canonical [of "nodes w" "[]" Q max_links True] q ok tree_ok_root
      canonical_names_ok [OF q(2)] by (simp add: klookup_abs_path)
  then have "Q \<noteq> J" using nj by auto
  then obtain D c where Q: "Q = D @ [c]" and J: "prefix J D"
    using q(3) by (cases Q rule: rev_cases) auto
  have n: "names_ok (D @ [c])" using canonical_names_ok [OF q(2)] Q by simp
  have d: "is_dir_at (nodes w) D" using canonical_is_dir_butlast [OF q(2)] Q by simp
  have "canonical (nodes w) D"
    using n tree_ok_butlast [OF ok d] by (intro canonical_dir [OF _ d]) (simp add: located_def)
  then show ?thesis using that Q J n d by blast
qed

lemma safe_atomicWriteFile:
  assumes a: "atomicWriteFile host data perm w = (r, w')" and jail: "jail_at J fs w"
    and oh: "open_host J fs w host" and nj: "klookup w True host \<noteq> Inr J" and pr: "plain_randoms w"
  shows "safe J w w'"
proof -
  have ok: "tree_ok (nodes w)" using jail by (simp add: jail_at_def)
  have ne: "host \<noteq> fs_jail fs" using nj jail_lookup [OF jail] by auto
  note fin = atomic_entry_safe [OF a pr]
  from oh ne consider
      R ms where "host = abs_path (R @ ms)" "names_ok ms" "ms \<noteq> []" "canonical (nodes w) R"
        "prefix J R" "length ms = 1 \<or> node (nodes w) (R @ [hd ms]) = None"
    | as ms e i where "host = abs_path (as @ ms)" "names_ok (as @ ms)" "ms \<noteq> []"
        "walk w max_eval_links True [] as = Inl e" "kstat w False (abs_path as) = Inr i"
    | Q where "host = abs_path Q" "canonical (nodes w) Q" "prefix J Q"
    unfolding open_host_def create_host_def by blast
  then show ?thesis
  proof cases
    case (1 R ms)
    obtain ms' c where ms: "ms = ms' @ [c]" using 1(3) by (metis rev_exhaust)
    have hd: "ms' = [] \<or> node (nodes w) (R @ [hd ms']) = None" using 1(6) ms by (cases ms') auto
    show ?thesis
      by (rule fin [of "R @ ms'" c])
        (use 1 ms canonical_names_ok MkdirAll_create [of R ms' "0x1ED" w _ _ J] ok hd in auto)
  next
    case (2 as ms e i)
    obtain ms' c where ms: "ms = ms' @ [c]" using 2(3) by (metis rev_exhaust)
    have n: "names_ok ((as @ ms') @ [c])" using 2(2) ms by simp
    then have "Dir host = abs_path (as @ ms')" using Dir_abs_path [OF n] 2(1) ms by simp
    moreover obtain e' where "os_MkdirAll (abs_path (as @ ms')) 0x1ED w = (Inl e', w)"
      using MkdirAll_dangling [OF ok _ 2(4,5), of ms' "0x1ED"] n by auto
    ultimately show ?thesis using a ok by (simp add: atomicWriteFile_def Let_def attempt_def fail_def)
  next
    case (3 Q)
    obtain D c where D: "Q = D @ [c]" "prefix J D" "names_ok (D @ [c])" "canonical (nodes w) D"
      using canonical_entry [OF ok 3 nj] by metis
    show ?thesis
      by (rule fin [of D c]) (use 3 D MkdirAll_create [of D "[]" "0x1ED" w _ _ J] ok in auto)
  qed
qed

end
