(* ===== verification/OsFS_Ops.thy ===== *)
theory OsFS_Ops
  imports OsFS_Confined
begin

text \<open>
  The operations of \<open>OsFS\<close> as one step function, what a step and a run of steps leave unchanged
  outside the jail, and the state the file system itself keeps.
\<close>

section \<open>Operations\<close>

datatype fsop =
    FGetwd
  | FSetwd string
  | FResolvePath string bool
  | FRel string string
  | FReadFile string
  | FWriteFile string string "32 word"
  | FMkdir string "32 word" bool
  | FRemove string bool
  | FRename string string
  | FStat string bool
  | FReadDir string
  | FSymlink string string
  | FAppendFile string string "32 word"
  | FOpenFile string oflags "32 word"
  | FChmod string "32 word"
  | FChown string int int
  | FLchown string int int
  | FChtimes string int int
  | FAtomicWriteFile string string "32 word"

fun run_op :: "fsop \<Rightarrow> osfs \<times> world \<Rightarrow> osfs \<times> world" where
  "run_op FGetwd s = snd (OsFS_Getwd s)"
| "run_op (FSetwd p) s = snd (OsFS_Setwd p s)"
| "run_op (FResolvePath p f) s = snd (OsFS_ResolvePath p f s)"
| "run_op (FRel b t) s = snd (OsFS_Rel b t s)"
| "run_op (FReadFile p) s = snd (OsFS_ReadFile p s)"
| "run_op (FWriteFile p d m) s = snd (OsFS_WriteFile p d m s)"
| "run_op (FMkdir p m a) s = snd (OsFS_Mkdir p m a s)"
| "run_op (FRemove p a) s = snd (OsFS_Remove p a s)"
| "run_op (FRename a b) s = snd (OsFS_Rename a b s)"
| "run_op (FStat p f) s = snd (OsFS_Stat p f s)"
| "run_op (FReadDir p) s = snd (OsFS_ReadDir p s)"
| "run_op (FSymlink a b) s = snd (OsFS_Symlink a b s)"
| "run_op (FAppendFile p d m) s = snd (OsFS_AppendFile p d m s)"
| "run_op (FOpenFile p fl m) s = snd (OsFS_OpenFile p fl m s)"
| "run_op (FChmod p m) s = snd (OsFS_Chmod p m s)"
| "run_op (FChown p u g) s = snd (OsFS_Chown p u g s)"
| "run_op (FLchown p u g) s = snd (OsFS_Lchown p u g s)"
| "run_op (FChtimes p a m) s = snd (OsFS_Chtimes p a m s)"
| "run_op (FAtomicWriteFile p d m) s = snd (OsFS_AtomicWriteFile p d m s)"

text \<open>
  An operation spares the jail directory itself: it does not remove it, and it is not an atomic
  write onto it (whose temporary file would be a sibling of the jail). An exclusive create is
  asked for together with a create.
\<close>

fun spares_root :: "string list \<Rightarrow> fsop \<Rightarrow> osfs \<times> world \<Rightarrow> bool" where
  "spares_root J (FRemove p a) s =
     (case fst (resolveHostForCreate p s) of Inl _ \<Rightarrow> True
      | Inr host \<Rightarrow> klookup (snd s) False host \<noteq> Inr J)"
| "spares_root J (FAtomicWriteFile p d m) s =
     (case fst (resolveHostForOpen p s) of Inl _ \<Rightarrow> True
      | Inr host \<Rightarrow> klookup (snd s) True host \<noteq> Inr J)"
| "spares_root J _ s = True"

section \<open>One operation\<close>

lemma bind_call:
  assumes "bindE R (\<lambda>h. os_call (m h)) (fs, w) = (r, (fs', w'))"
    and "\<And>r fs' w'. R (fs, w) = (r, (fs', w')) \<Longrightarrow> w' = w \<and> fs_jail fs' = fs_jail fs"
  obtains "w' = w" "fs_jail fs' = fs_jail fs"
  | host where "R (fs, w) = (Inr host, (fs', w))" "m host w = (r, w')" "fs_jail fs' = fs_jail fs"
proof -
  obtain r1 fs1 w1 where R: "R (fs, w) = (r1, (fs1, w1))" by (metis prod.exhaust)
  have f: "w1 = w" "fs_jail fs1 = fs_jail fs" using assms(2) [OF R] by auto
  show ?thesis
  proof (cases r1)
    case (Inl e)
    then show ?thesis using that(1) assms(1) R f by (simp add: bindE_def)
  next
    case (Inr host)
    then have "m host w = (r, w')" "fs1 = fs'"
      using assms(1) R f by (auto simp: bindE_def os_call_def split: prod.splits)
    then show ?thesis using that(2) R f Inr by simp
  qed
qed

lemma bind_query:
  assumes "bindE R (\<lambda>h. os_query (q h)) (fs, w) = (r, (fs', w'))"
    and "\<And>r fs' w'. R (fs, w) = (r, (fs', w')) \<Longrightarrow> w' = w \<and> fs_jail fs' = fs_jail fs"
  shows "w' = w \<and> fs_jail fs' = fs_jail fs"
  using assms by (auto simp: bindE_def os_query_def split: prod.splits sum.splits)

text \<open>The frame of an operation under a jail.\<close>

definition op_frame :: "string list \<Rightarrow> osfs \<times> world \<Rightarrow> osfs \<times> world \<Rightarrow> bool" where
  "op_frame J s s' \<longleftrightarrow> safe J (snd s) (snd s') \<and> fs_jail (fst s') = fs_jail (fst s)"

lemma op_frame_same:
  "jail_at J fs w \<Longrightarrow> w' = w \<and> fs_jail fs' = fs_jail fs \<Longrightarrow> op_frame J (fs, w) (fs', w')"
  by (simp add: op_frame_def jail_at_def)

lemma call_create:
  assumes "bindE (resolveHostForCreate p) (\<lambda>h. os_call (m h)) (fs, w) = (r, (fs', w'))"
    and jail: "jail_at J fs w"
    and m: "\<And>host. create_host J fs w host \<Longrightarrow> fst (resolveHostForCreate p (fs, w)) = Inr host \<Longrightarrow>
      m host w = (r, w') \<Longrightarrow> safe J w w'"
  shows "op_frame J (fs, w) (fs', w')"
  using assms(1) resolveHostForCreate_frame
proof (rule bind_call)
  assume "w' = w" "fs_jail fs' = fs_jail fs"
  then show ?thesis using op_frame_same jail by simp
next
  fix host
  assume h: "resolveHostForCreate p (fs, w) = (Inr host, (fs', w))" "m host w = (r, w')"
    "fs_jail fs' = fs_jail fs"
  then have "safe J w w'" using m [of host] resolveHostForCreate_shape [OF jail h(1)] by simp
  then show ?thesis using h by (simp add: op_frame_def)
qed

lemma call_open:
  assumes "bindE (resolveHostForOpen p) (\<lambda>h. os_call (m h)) (fs, w) = (r, (fs', w'))"
    and jail: "jail_at J fs w"
    and m: "\<And>host. open_host J fs w host \<Longrightarrow> fst (resolveHostForOpen p (fs, w)) = Inr host \<Longrightarrow>
      m host w = (r, w') \<Longrightarrow> safe J w w'"
  shows "op_frame J (fs, w) (fs', w')"
  using assms(1) resolveHostForOpen_frame
proof (rule bind_call)
  assume "w' = w" "fs_jail fs' = fs_jail fs"
  then show ?thesis using op_frame_same jail by simp
next
  fix host
  assume h: "resolveHostForOpen p (fs, w) = (Inr host, (fs', w))" "m host w = (r, w')"
    "fs_jail fs' = fs_jail fs"
  then have "safe J w w'" using m [of host] resolveHostForOpen_shape [OF jail h(1)] by simp
  then show ?thesis using h by (simp add: op_frame_def)
qed

lemma resolveHost_follow_abs:
  assumes "jail_at J fs w" and "resolveHost p f (fs, w) = (Inr host, (fs', w'))"
  shows "is_abs host"
proof -
  obtain v where v: "resolveVirtual p f (fs, w) = (Inr v, (fs', w'))" "host = hostPath fs' v"
    using assms(2) by (auto simp: resolveHost_def bindE_Inr_iff getS_def)
  have "fs_jail fs' = fs_jail fs" using resolveVirtual_frame [OF v(1)] by simp
  moreover have "is_abs (fs_jail fs)" "fs_jail fs \<noteq> []" using assms(1) by (auto simp: jail_at_def clean_abs_def)
  ultimately show ?thesis
    using v Join_clean_abs [of "fs_jail fs" v] by (simp add: hostPath_def OsFS_GetJail_def clean_abs_def)
qed

lemma call_follow:
  assumes "bindE (resolveHost p True) (\<lambda>h. os_call (m h)) (fs, w) = (r, (fs', w'))"
    and jail: "jail_at J fs w"
    and m: "\<And>host. is_abs host \<Longrightarrow> below J w True host \<Longrightarrow> m host w = (r, w') \<Longrightarrow> safe J w w'"
  shows "op_frame J (fs, w) (fs', w')"
  using assms(1) resolveHost_frame
proof (rule bind_call)
  assume "w' = w" "fs_jail fs' = fs_jail fs"
  then show ?thesis using op_frame_same jail by simp
next
  fix host
  assume h: "resolveHost p True (fs, w) = (Inr host, (fs', w))" "m host w = (r, w')"
    "fs_jail fs' = fs_jail fs"
  then have "safe J w w'"
    using m resolveHost_follow_below [OF jail h(1)] resolveHost_follow_abs [OF jail h(1)] by simp
  then show ?thesis using h by (simp add: op_frame_def)
qed

lemma jail_at_frame: "jail_at J fs w \<Longrightarrow> fs_jail fs' = fs_jail fs \<Longrightarrow> jail_at J fs' w"
  by (simp add: jail_at_def)

lemma create_host_frame: "create_host J fs w h \<Longrightarrow> fs_jail fs' = fs_jail fs \<Longrightarrow> create_host J fs' w h"
  by (simp add: create_host_def)

lemma frame_Rename:
  assumes r: "OsFS_Rename src dst (fs, w) = (r, (fs', w'))" and jail: "jail_at J fs w"
  shows "op_frame J (fs, w) (fs', w')"
proof -
  obtain r1 fs1 w1 where c: "resolveHostForCreate src (fs, w) = (r1, (fs1, w1))" by (metis prod.exhaust)
  have f1: "w1 = w" "fs_jail fs1 = fs_jail fs" using resolveHostForCreate_frame [OF c] by auto
  have ok: "tree_ok (nodes w)" using jail by (simp add: jail_at_def)
  show ?thesis
  proof (cases r1)
    case (Inl e)
    then show ?thesis using r c f1 op_frame_same [OF jail] by (simp add: OsFS_Rename_def bindE_def)
  next
    case (Inr sh)
    have c': "resolveHostForCreate src (fs, w) = (Inr sh, (fs1, w))" using c Inr f1 by simp
    have j1: "jail_at J fs1 w" using jail_at_frame jail f1 by blast
    have sb: "below J w False sh"
      using create_host_below [OF _ jail] resolveHostForCreate_shape [OF jail c'] by blast
    have "bindE (resolveHostForCreate dst) (\<lambda>dh. os_call (os_Rename sh dh)) (fs1, w) = (r, (fs', w'))"
      using r c' by (simp add: OsFS_Rename_def bindE_def [of "resolveHostForCreate src"])
    then have "op_frame J (fs1, w) (fs', w')"
      by (rule call_create [OF _ j1])
        (use safe_Rename ok create_host_below [OF _ j1] create_host_abs [OF _ j1] sb in blast)
    then show ?thesis using f1 by (simp add: op_frame_def)
  qed
qed

lemma frame_Symlink:
  assumes r: "OsFS_Symlink old new (fs, w) = (r, (fs', w'))" and jail: "jail_at J fs w"
  shows "op_frame J (fs, w) (fs', w')"
proof -
  obtain r1 fs1 w1 where c: "resolveHost old False (fs, w) = (r1, (fs1, w1))" by (metis prod.exhaust)
  have f1: "w1 = w" "fs_jail fs1 = fs_jail fs" using resolveHost_frame [OF c] by auto
  have ok: "tree_ok (nodes w)" using jail by (simp add: jail_at_def)
  show ?thesis
  proof (cases r1)
    case (Inl e)
    then show ?thesis using r c f1 op_frame_same [OF jail] by (simp add: OsFS_Symlink_def bindE_def)
  next
    case (Inr oh)
    have j1: "jail_at J fs1 w" using jail_at_frame jail f1 by blast
    have "bindE (resolveHostForCreate new) (\<lambda>nh. os_call (os_Symlink oh nh)) (fs1, w) = (r, (fs', w'))"
      using r c f1 Inr by (simp add: OsFS_Symlink_def bindE_def [of "resolveHost old False"])
    then have "op_frame J (fs1, w) (fs', w')"
      by (rule call_create [OF _ j1])
        (use safe_Symlink ok create_host_below [OF _ j1] create_host_abs [OF _ j1] in blast)
    then show ?thesis using f1 by (simp add: op_frame_def)
  qed
qed

definition append_body :: "string \<Rightarrow> string \<Rightarrow> 32 word \<Rightarrow> unit os" where
  "append_body host data perm =
     bindE (os_OpenFile host wr_append_create perm) (\<lambda>f.
       attempt (os_Write f data) (\<lambda>r. attempt (os_Close f) (\<lambda>_.
         case r of Inl err \<Rightarrow> fail err | Inr _ \<Rightarrow> ret ())))"

lemma AppendFile_call:
  "OsFS_AppendFile p data perm = bindE (resolveHostForOpen p) (\<lambda>host. os_call (append_body host data perm))"
proof -
  have "bindE (os_call (os_OpenFile host wr_append_create perm)) (\<lambda>f.
         attempt (os_call (os_Write f data)) (\<lambda>r.
           attempt (os_call (os_Close f)) (\<lambda>_.
             case r of Inl err \<Rightarrow> fail err | Inr _ \<Rightarrow> ret ()))) = os_call (append_body host data perm)"
    for host
    by (rule ext)
      (auto simp: append_body_def bindE_def attempt_def os_call_def fail_def ret_def
        split: prod.splits sum.splits)
  then show ?thesis by (simp add: OsFS_AppendFile_def)
qed

lemma safe_append:
  assumes "append_body p d perm w = (r, w')" and "tree_ok (nodes w)" and "is_abs p" and "below J w True p"
  shows "safe J w w'"
proof -
  obtain ro w1 where o: "os_OpenFile p wr_append_create perm w = (ro, w1)" by (metis prod.exhaust)
  have s1: "safe J w w1 \<and> (\<forall>h. ro = Inr h \<longrightarrow> handle_in J w1 h)"
    using safe_OpenFile [OF o assms(2,3)] assms(4) by (simp add: wr_append_create_def)
  show ?thesis
  proof (cases ro)
    case (Inl e)
    then show ?thesis using assms(1) o s1 by (auto simp: append_body_def bindE_def)
  next
    case (Inr h)
    obtain rw w2 where w: "os_Write h d w1 = (rw, w2)" by (metis prod.exhaust)
    have "safe J w1 w2" using safe_Write [OF w] s1 Inr confined_tree by blast
    moreover have "w' = w2"
      using assms(1) o Inr w Close_same
      by (auto simp: append_body_def bindE_def attempt_def fail_def ret_def
          split: sum.splits prod.splits)
    ultimately show ?thesis using s1 safe_trans by blast
  qed
qed

lemma open_hostD:
  "open_host J fs w h \<Longrightarrow> is_abs h \<and> below J w True h \<and> below J w False h"
  by (simp add: open_host_def)

lemma frame_call:
  "(\<And>r fs' w'. m (fs, w) = (r, (fs', w')) \<Longrightarrow> op_frame J (fs, w) (fs', w')) \<Longrightarrow>
   op_frame J (fs, w) (snd (m (fs, w)))"
  by (metis prod.exhaust snd_conv)

lemma frame_virtual:
  assumes "jail_at J fs w" shows "op_frame J (fs, w) (snd (resolveVirtual p f (fs, w)))"
  by (rule frame_call, rule op_frame_same [OF assms], erule resolveVirtual_frame)

lemma frame_Setwd:
  assumes "jail_at J fs w" shows "op_frame J (fs, w) (snd (OsFS_Setwd p (fs, w)))"
proof (rule frame_call, rule op_frame_same [OF assms])
  fix r fs' w'
  assume "OsFS_Setwd p (fs, w) = (r, (fs', w'))"
  then show "w' = w \<and> fs_jail fs' = fs_jail fs"
    by (auto simp: OsFS_Setwd_def bindE_def Let_def dest!: resolveVirtual_frame
        split: prod.splits sum.splits if_splits)
qed

lemma frame_Getwd:
  assumes "jail_at J fs w" shows "op_frame J (fs, w) (snd (OsFS_Getwd (fs, w)))"
proof (rule frame_call, rule op_frame_same [OF assms])
  fix r fs' w'
  assume "OsFS_Getwd (fs, w) = (r, (fs', w'))"
  then show "w' = w \<and> fs_jail fs' = fs_jail fs"
    by (auto simp: OsFS_Getwd_def bindE_def getS_def dest!: ensure_init_frame
        split: prod.splits sum.splits if_splits)
qed

lemma frame_Rel:
  assumes "jail_at J fs w" shows "op_frame J (fs, w) (snd (OsFS_Rel b t (fs, w)))"
proof (rule frame_call, rule op_frame_same [OF assms])
  fix r fs' w'
  assume "OsFS_Rel b t (fs, w) = (r, (fs', w'))"
  then show "w' = w \<and> fs_jail fs' = fs_jail fs"
    by (auto simp: OsFS_Rel_def bindE_def liftE_def dest!: resolveVirtual_frame
        split: prod.splits sum.splits if_splits)
qed

lemma frame_ReadFile:
  assumes "jail_at J fs w" shows "op_frame J (fs, w) (snd (OsFS_ReadFile p (fs, w)))"
  unfolding OsFS_ReadFile_def
  by (rule frame_call, rule op_frame_same [OF assms], erule bind_query, erule resolveHost_frame)

lemma frame_ReadDir:
  assumes "jail_at J fs w" shows "op_frame J (fs, w) (snd (OsFS_ReadDir p (fs, w)))"
  unfolding OsFS_ReadDir_def
  by (rule frame_call, rule op_frame_same [OF assms], erule bind_query, erule resolveHost_frame)

lemma frame_Stat:
  assumes "jail_at J fs w" shows "op_frame J (fs, w) (snd (OsFS_Stat p f (fs, w)))"
proof (cases f)
  case True
  show ?thesis
    unfolding OsFS_Stat_def if_P [OF True]
    by (rule frame_call, rule op_frame_same [OF assms], erule bind_query, erule resolveHost_frame)
next
  case False
  show ?thesis
    unfolding OsFS_Stat_def if_not_P [OF False]
    by (rule frame_call, rule op_frame_same [OF assms], erule bind_query, erule resolveHostForCreate_frame)
qed

text \<open>Calls on a path resolved for opening, for creating, or with links followed.\<close>

lemma frame_open_ops:
  assumes jail: "jail_at J fs w"
  shows "op_frame J (fs, w) (snd (OsFS_WriteFile p d m (fs, w)))"
    "op_frame J (fs, w) (snd (OsFS_AppendFile p d m (fs, w)))"
    "op_frame J (fs, w) (snd (OsFS_OpenFile p fl m (fs, w)))"
proof -
  have ok: "tree_ok (nodes w)" using jail by (simp add: jail_at_def)
  show "op_frame J (fs, w) (snd (OsFS_WriteFile p d m (fs, w)))"
    unfolding OsFS_WriteFile_def
    by (rule frame_call, erule call_open [OF _ jail], erule safe_WriteFile [OF _ ok]) (auto dest: open_hostD)
  show "op_frame J (fs, w) (snd (OsFS_AppendFile p d m (fs, w)))"
    unfolding AppendFile_call
    by (rule frame_call, erule call_open [OF _ jail], erule safe_append [OF _ ok]) (auto dest: open_hostD)
  show "op_frame J (fs, w) (snd (OsFS_OpenFile p fl m (fs, w)))"
    unfolding OsFS_OpenFile_def
    by (rule frame_call, erule call_open [OF _ jail])
      (use safe_OpenFile [OF _ ok] open_hostD in \<open>metis (full_types)\<close>)
qed

lemma frame_follow_ops:
  assumes jail: "jail_at J fs w"
  shows "op_frame J (fs, w) (snd (OsFS_Chmod p m (fs, w)))"
    "op_frame J (fs, w) (snd (OsFS_Chown p u g (fs, w)))"
    "op_frame J (fs, w) (snd (OsFS_Chtimes p a t (fs, w)))"
proof -
  have ok: "tree_ok (nodes w)" using jail by (simp add: jail_at_def)
  show "op_frame J (fs, w) (snd (OsFS_Chmod p m (fs, w)))"
    unfolding OsFS_Chmod_def
    by (rule frame_call, erule call_follow [OF _ jail], erule safe_Chmod [OF _ ok])
  show "op_frame J (fs, w) (snd (OsFS_Chown p u g (fs, w)))"
    unfolding OsFS_Chown_def
    by (rule frame_call, erule call_follow [OF _ jail], erule safe_Chown [OF _ ok])
  show "op_frame J (fs, w) (snd (OsFS_Chtimes p a t (fs, w)))"
    unfolding OsFS_Chtimes_def
    by (rule frame_call, erule call_follow [OF _ jail], erule safe_Chtimes [OF _ ok])
qed

lemma frame_Lchown:
  assumes jail: "jail_at J fs w" shows "op_frame J (fs, w) (snd (OsFS_Lchown p u g (fs, w)))"
proof -
  have ok: "tree_ok (nodes w)" using jail by (simp add: jail_at_def)
  show ?thesis
    unfolding OsFS_Lchown_def
    by (rule frame_call, erule call_create [OF _ jail], erule safe_Lchown [OF _ ok])
      (auto intro: create_host_below [OF _ jail] create_host_abs [OF _ jail])
qed

lemma frame_Mkdir:
  assumes jail: "jail_at J fs w" shows "op_frame J (fs, w) (snd (OsFS_Mkdir p m a (fs, w)))"
proof (cases a)
  case True
  show ?thesis
    unfolding OsFS_Mkdir_def if_P [OF True]
    by (rule frame_call, erule call_create [OF _ jail], erule safe_MkdirAll [OF _ jail])
next
  case False
  have ok: "tree_ok (nodes w)" using jail by (simp add: jail_at_def)
  show ?thesis
    unfolding OsFS_Mkdir_def if_not_P [OF False]
    by (rule frame_call, erule call_create [OF _ jail], erule safe_Mkdir [OF _ ok])
      (auto intro: create_host_below [OF _ jail] create_host_abs [OF _ jail])
qed

lemma frame_Remove:
  assumes jail: "jail_at J fs w"
    and s: "\<And>host. fst (resolveHostForCreate p (fs, w)) = Inr host \<Longrightarrow> klookup w False host \<noteq> Inr J"
  shows "op_frame J (fs, w) (snd (OsFS_Remove p a (fs, w)))"
proof -
  have ok: "tree_ok (nodes w)" using jail by (simp add: jail_at_def)
  note cb = create_host_below [OF _ jail] and ca = create_host_abs [OF _ jail]
  show ?thesis
  proof (cases a)
    case True
    show ?thesis
      unfolding OsFS_Remove_def if_P [OF True]
      by (rule frame_call, erule call_create [OF _ jail]) (use confined_RemoveAll ok cb ca s in blast)
  next
    case False
    show ?thesis
      unfolding OsFS_Remove_def if_not_P [OF False]
      by (rule frame_call, erule call_create [OF _ jail]) (use confined_Remove ok cb ca s in blast)
  qed
qed

lemma frame_AtomicWriteFile:
  assumes jail: "jail_at J fs w" and pr: "plain_randoms w"
    and s: "\<And>host. fst (resolveHostForOpen p (fs, w)) = Inr host \<Longrightarrow> klookup w True host \<noteq> Inr J"
  shows "op_frame J (fs, w) (snd (OsFS_AtomicWriteFile p d m (fs, w)))"
  unfolding OsFS_AtomicWriteFile_def
  by (rule frame_call, erule call_open [OF _ jail]) (use safe_atomicWriteFile [OF _ jail _ _ pr] s in blast)

lemmas frame_ops = frame_Getwd frame_Setwd frame_Rel frame_ReadFile frame_ReadDir frame_Stat
  frame_open_ops frame_follow_ops frame_Lchown frame_Mkdir

text \<open>Every operation that spares the jail directory.\<close>

lemma op_frame_step:
  assumes jail: "jail_at J fs w" and pr: "plain_randoms w" and sp: "spares_root J op (fs, w)"
  shows "op_frame J (fs, w) (run_op op (fs, w))"
proof (cases op)
  case (FResolvePath p f)
  then show ?thesis using frame_virtual [OF jail] by (simp add: OsFS_ResolvePath_def)
next
  case (FRename a b)
  then show ?thesis using frame_call [OF frame_Rename [OF _ jail]] by simp
next
  case (FSymlink a b)
  then show ?thesis using frame_call [OF frame_Symlink [OF _ jail]] by simp
next
  case (FRemove p a)
  have "klookup w False host \<noteq> Inr J" if "fst (resolveHostForCreate p (fs, w)) = Inr host" for host
    using sp that by (simp add: FRemove)
  then show ?thesis using frame_Remove [OF jail] by (simp add: FRemove)
next
  case (FAtomicWriteFile p d m)
  have "klookup w True host \<noteq> Inr J" if "fst (resolveHostForOpen p (fs, w)) = Inr host" for host
    using sp that by (simp add: FAtomicWriteFile)
  then show ?thesis using frame_AtomicWriteFile [OF jail pr] by (simp add: FAtomicWriteFile)
qed (simp_all add: frame_ops [OF jail])

section \<open>Runs of operations\<close>

text \<open>A jail that is its own canonical form stays usable while it is a directory.\<close>

lemma jail_at_canonical:
  assumes "tree_ok (nodes w)" and "names_ok J" and "is_dir_at (nodes w) J" and "fs_jail fs = abs_path J"
  shows "jail_at J fs w"
proof -
  have "resolve (nodes w) max_links False [] J = Inr J"
    using resolve_on_dir [of "nodes w" "[]" J max_links False "[]"] assms by simp
  then show ?thesis using assms by (simp add: jail_at_def klookup_abs_path)
qed

inductive fs_reach :: "string list \<Rightarrow> osfs \<times> world \<Rightarrow> osfs \<times> world \<Rightarrow> bool" for J where
  fs_refl: "fs_reach J s s"
| fs_step: "fs_reach J s t \<Longrightarrow> spares_root J op t \<Longrightarrow> fs_reach J s (run_op op t)"

inductive_cases fs_reach_cases: "fs_reach J s t"

text \<open>The jail is set to a canonical directory of a well-formed host.\<close>

definition jailed_host :: "string list \<Rightarrow> osfs \<times> world \<Rightarrow> bool" where
  "jailed_host J s \<longleftrightarrow>
     tree_ok (nodes (snd s)) \<and> names_ok J \<and> is_dir_at (nodes (snd s)) J \<and>
     fs_jail (fst s) = abs_path J \<and> plain_randoms (snd s)"

lemma jailed_host_frame:
  assumes "jailed_host J s" and "op_frame J s s'"
  shows "jailed_host J s'"
  using assms by (simp add: jailed_host_def op_frame_def confined_def keeps_dir_def plain_randoms_def)

lemma op_frame_trans: "op_frame J s t \<Longrightarrow> op_frame J t u \<Longrightarrow> op_frame J s u"
  unfolding op_frame_def by (metis safe_trans)

lemma op_frame_jailed:
  assumes "jailed_host J s" and "spares_root J op s"
  shows "op_frame J s (run_op op s)"
proof -
  obtain fs w where s: "s = (fs, w)" by (cases s)
  have "jail_at J fs w" using assms(1) s jail_at_canonical by (simp add: jailed_host_def)
  then show ?thesis using op_frame_step [of J fs w op] assms s by (simp add: jailed_host_def)
qed

lemma fs_reach_frame:
  "fs_reach J s t \<Longrightarrow> jailed_host J s \<Longrightarrow> op_frame J s t \<and> jailed_host J t"
proof (induction rule: fs_reach.induct)
  case (fs_refl s)
  then show ?case by (simp add: op_frame_def jailed_host_def)
next
  case (fs_step s t op)
  then show ?case using op_frame_jailed op_frame_trans jailed_host_frame by blast
qed

end
