(* ===== verification/OsFS_Atomic.thy ===== *)
theory OsFS_Atomic
  imports OsFS_Confined
begin

text \<open>
  \<open>atomicWriteFile\<close> is all or nothing: whatever call fails on the way, the target holds what it
  held before or all of the new data, and the temporary file is gone unless its removal failed.
\<close>

section \<open>Changes at named locations\<close>

definition same_but :: "string list set \<Rightarrow> world \<Rightarrow> world \<Rightarrow> bool" where
  "same_but L w w' \<longleftrightarrow> (\<forall>q. q \<notin> L \<longrightarrow> node (nodes w') q = node (nodes w) q) \<and> faults w' = faults w"

lemma same_but_refl [simp]: "same_but L w w"
  by (simp add: same_but_def)

lemma same_but_trans: "same_but L w w1 \<Longrightarrow> same_but L w1 w2 \<Longrightarrow> same_but L w w2"
  by (simp add: same_but_def)

lemma same_but_put: "same_but {cs} w (put_w cs i w)"
  by (simp add: same_but_def put_w_def)

text \<open>A regular file of the temporary name, and the rest of the tree as it was.\<close>

definition temp_state :: "world \<Rightarrow> string list \<Rightarrow> inode \<Rightarrow> world \<Rightarrow> bool" where
  "temp_state w a i w' \<longleftrightarrow>
     same_but {a} w w' \<and> tree_ok (nodes w') \<and> node (nodes w') a = Some i \<and> (\<exists>b. kind i = KFile b)"

lemma create_temp_state:
  "create_temp n (joinPath (abs_path D) pre) w = (r, w') \<Longrightarrow> tree_ok (nodes w) \<Longrightarrow> is_dir_at (nodes w) D \<Longrightarrow>
   names_ok D \<Longrightarrow> plain_randoms w \<Longrightarrow> (\<And>x. CHR ''/'' \<notin> set x \<Longrightarrow> name_ok (pre @ x)) \<Longrightarrow>
   (case r of
      Inl e \<Rightarrow> nodes w' = nodes w \<and> faults w' = faults w
    | Inr h \<Rightarrow> \<exists>x i. h_loc h = D @ [pre @ x] \<and> h_name h = abs_path (h_loc h) \<and> name_ok (pre @ x) \<and>
        node (nodes w) (h_loc h) = None \<and> temp_state w (h_loc h) i w' \<and> kind i = KFile [] \<and>
        h_off h = 0 \<and> \<not> h_append h)"
proof (induction n arbitrary: w)
  case 0
  then show ?case by auto
next
  case (Suc n)
  define t where "t = pre @ randoms w (rand_pos w)"
  have t: "name_ok t" using Suc.prems(5,6) by (simp add: t_def plain_randoms_def)
  have nt: "names_ok (D @ [t])" using Suc.prems(4) t by simp
  define w1 where "w1 = w\<lparr>rand_pos := Suc (rand_pos w)\<rparr>"
  have n1: "nodes w1 = nodes w" "randoms w1 = randoms w" "faults w1 = faults w" by (simp_all add: w1_def)
  have j: "joinPath (abs_path D) pre @ randoms w (rand_pos w) = abs_path (D @ [t])"
    using joinPath_abs [OF Suc.prems(4), of pre] by (simp add: t_def)
  have step: "create_temp (Suc n) (joinPath (abs_path D) pre) w =
      (case k_open (abs_path (D @ [t])) wr_create_excl 0x180 w1 of
         Inr (h, w2) \<Rightarrow> (Inr h, w2)
       | Inl e \<Rightarrow> if e = EEXIST then create_temp n (joinPath (abs_path D) pre) w1
                  else (Inl (PathErr ''open'' (abs_path (D @ [t])) (Errno e)), w1))"
    by (simp only: create_temp.simps Let_def w1_def [symmetric] j)
  have ok1: "tree_ok (nodes w1)" and d1: "is_dir_at (nodes w1) D" using Suc.prems(2,3) n1 by auto
  show ?case
  proof (cases "k_open (abs_path (D @ [t])) wr_create_excl 0x180 w1")
    case (Inl e)
    show ?thesis
    proof (cases "e = EEXIST")
      case True
      have ct: "create_temp n (joinPath (abs_path D) pre) w1 = (r, w')" using Suc.prems(1) step Inl True by simp
      have pr: "plain_randoms w1" using Suc.prems(5) n1 by (simp add: plain_randoms_def)
      note IH = Suc.IH [OF ct ok1 d1 Suc.prems(4) pr Suc.prems(6)]
      then show ?thesis using n1
        by (auto simp: temp_state_def same_but_def split: sum.splits)
    next
      case False
      then show ?thesis using Suc.prems(1) step Inl n1 by (auto simp del: create_temp.simps)
    qed
  next
    case (Inr hw)
    obtain h w2 where hw: "hw = (h, w2)" by (cases hw)
    have k: "k_open (abs_path (D @ [t])) wr_create_excl 0x180 w1 = Inr (h, w2)" using Inr hw by simp
    have kl: "klookup w1 False (abs_path (D @ [t])) = Inr (D @ [t])" using entry_lookup [OF ok1 d1 nt] .
    have h: "h_loc h = D @ [t]" "h_name h = abs_path (D @ [t])" "node (nodes w1) (D @ [t]) = None"
        "w2 = put_w (D @ [t]) (new_inode w1 (KFile []) 0x180) w1" "h_off h = 0" "\<not> h_append h"
      using k kl by (auto simp: k_open_def wr_create_excl_def Let_def split: option.splits if_splits)
    have J: "located (nodes w1) (D @ [t])" using Suc.prems(4) t d1 by (simp add: located_def)
    have "confined D w1 w2" using safe_put_new [OF ok1 J _ h(3), of D] h(4) by simp
    then have "tree_ok (nodes w2)" by (rule confined_tree)
    then have "temp_state w (D @ [t]) (new_inode w1 (KFile []) 0x180) w2"
      using h(4) n1 by (simp add: temp_state_def same_but_def put_w_def new_inode_def)
    moreover have "r = Inr h" "w' = w2"
      using Suc.prems(1) step Inr hw by (auto simp del: create_temp.simps)
    ultimately show ?thesis using h n1 t by (auto simp: t_def new_inode_def)
  qed
qed

lemma write_at_empty [simp]: "write_at [] 0 d = d"
  by (simp add: write_at_def)

lemma temp_put:
  assumes "temp_state w a i w1" and "\<exists>b. kind j = KFile b" and "located (nodes w1) a"
  shows "temp_state w a j (put_w a j w1)"
proof -
  have "confined a w1 (put_w a j w1)"
    using safe_put_old [OF _ assms(3), of a i j] assms by (auto simp: temp_state_def)
  then have "tree_ok (nodes (put_w a j w1))" by (rule confined_tree)
  then show ?thesis using assms by (simp add: temp_state_def same_but_def put_w_def)
qed

lemma temp_located:
  assumes "temp_state w (D @ [t]) i w1" and "names_ok (D @ [t])"
  shows "is_dir_at (nodes w1) D" "located (nodes w1) (D @ [t])"
  using assms tree_ok_parent [of "nodes w1" D t i] by (auto simp: temp_state_def located_def)

lemma temp_write:
  assumes "os_Write h d w1 = (r, w2)" and "temp_state w (D @ [t]) i w1" and "kind i = KFile []"
    and "h_loc h = D @ [t]" and "h_off h = 0" and "\<not> h_append h" and "names_ok (D @ [t])"
  shows "\<exists>j. temp_state w (D @ [t]) j w2 \<and> (\<forall>n. r = Inr n \<longrightarrow> kind j = KFile d)"
proof -
  obtain x where x: "w2 = put_w (D @ [t]) (i\<lparr>kind := KFile x\<rparr>) w1" "\<forall>n. r = Inr n \<longrightarrow> x = d"
    using assms(1-6) by (auto simp: os_Write_def temp_state_def Let_def split: option.splits)
  have "temp_state w (D @ [t]) (i\<lparr>kind := KFile x\<rparr>) w2"
    unfolding x(1) by (rule temp_put [OF assms(2)]) (use temp_located [OF assms(2,7)] in auto)
  then show ?thesis using x(2) by (intro exI [of _ "i\<lparr>kind := KFile x\<rparr>"]) simp
qed

lemma temp_lookup:
  assumes "temp_state w (D @ [t]) i w1" and "names_ok (D @ [t])"
  shows "klookup w1 f (abs_path (D @ [t])) = Inr (D @ [t])"
proof -
  have "canonical (nodes w1) (D @ [t])"
    using assms temp_located [OF assms] by (auto simp: canonical_def temp_state_def)
  then show ?thesis
    using resolve_canonical [of "nodes w1" "[]" "D @ [t]" max_links f] assms tree_ok_root
    by (simp add: temp_state_def klookup_abs_path)
qed

lemma temp_chmod:
  assumes "os_Chmod (abs_path (D @ [t])) m w1 = (r, w2)" and "temp_state w (D @ [t]) i w1"
    and "names_ok (D @ [t])"
  shows "\<exists>j. temp_state w (D @ [t]) j w2 \<and> kind j = kind i \<and>
    (faults w SysChmod (abs_path (D @ [t])) = None \<longrightarrow> mode j = m)"
proof -
  have fl: "faults w1 = faults w" and nd: "node (nodes w1) (D @ [t]) = Some i"
    and kd: "\<exists>b. kind i = KFile b"
    using assms(2) by (auto simp: temp_state_def same_but_def)
  show ?thesis
  proof (cases "faults w SysChmod (abs_path (D @ [t]))")
    case None
    then have w2: "w2 = put_w (D @ [t]) (i\<lparr>mode := m\<rparr>) w1"
      using assms(1) fl nd temp_lookup [OF assms(2,3), of True]
      by (simp add: os_Chmod_def faulty_def set_attr_def)
    have "temp_state w (D @ [t]) (i\<lparr>mode := m\<rparr>) w2"
      unfolding w2 by (rule temp_put [OF assms(2)]) (use temp_located [OF assms(2,3)] kd in auto)
    then show ?thesis by (intro exI [of _ "i\<lparr>mode := m\<rparr>"]) simp
  next
    case (Some e)
    then have "w2 = w1" using assms(1) fl by (simp add: os_Chmod_def faulty_def)
    then show ?thesis using assms(2) Some by auto
  qed
qed

text \<open>A file renamed to another entry: only the two entries change.\<close>

lemma node_move_file:
  assumes ok: "tree_ok t" and a: "node t a = Some i" "kind i \<noteq> KDir"
    and b: "\<And>j. node t b = Some j \<Longrightarrow> kind j \<noteq> KDir" and ab: "\<not> prefix a b" "\<not> prefix b a"
  shows "node (move_tree a b t) q = (if q = b then Some i else if q = a then None else node t q)"
proof -
  have ea: "node t (a @ es) = None" if "es \<noteq> []" for es using file_no_children [OF a ok that] .
  have eb: "node t (b @ es) = None" if "es \<noteq> []" for es
  proof (cases "node t b")
    case None
    then show ?thesis by (rule tree_ok_below [OF ok])
  next
    case (Some j)
    then show ?thesis using file_no_children [OF Some b ok that] by simp
  qed
  consider es where "q = b @ es" | es where "q = a @ es" | "\<not> prefix a q" "\<not> prefix b q" by (auto simp: prefix_def)
  then show ?thesis
  proof cases
    case (1 es)
    then show ?thesis using ab a ea eb by (cases "es = []") (auto simp: node_move_tree)
  next
    case (2 es)
    then have "\<not> prefix b q" using ab by (metis prefixI prefix_same_cases)
    then show ?thesis using 2 ea by (cases "es = []") (auto simp: node_move_tree)
  next
    case 3
    then show ?thesis by (auto simp: node_move_tree)
  qed
qed

lemma temp_rename:
  assumes rn: "os_Rename (abs_path (D @ [t])) (abs_path (D @ [c])) w1 = (r, w2)"
    and ts: "temp_state w (D @ [t]) i w1" and n: "names_ok (D @ [t])" "name_ok c" and tc: "t \<noteq> c"
    and new: "node (nodes w) (D @ [t]) = None"
  shows "(case r of
      Inl e \<Rightarrow> w2 = w1
    | Inr u \<Rightarrow> node (nodes w2) (D @ [c]) = Some i \<and> same_but {D @ [c]} w w2 \<and> tree_ok (nodes w2))"
proof (cases r)
  case (Inl e)
  then show ?thesis using rn
    by (auto simp: os_Rename_def Let_def split: sum.splits if_splits)
next
  case (Inr u)
  let ?a = "D @ [t]" and ?b = "D @ [c]"
  have ok: "tree_ok (nodes w1)" and nd: "node (nodes w1) ?a = Some i" and kd: "\<exists>b. kind i = KFile b"
    and fl: "faults w1 = faults w" and oth: "\<And>q. q \<noteq> ?a \<Longrightarrow> node (nodes w1) q = node (nodes w) q"
    using ts by (auto simp: temp_state_def same_but_def)
  have la: "klookup w1 False (abs_path ?a) = Inr ?a" using temp_lookup [OF ts n(1)] .
  have lb: "klookup w1 False (abs_path ?b) = Inr ?b"
    using entry_lookup [OF ok temp_located(1) [OF ts n(1)]] n by simp
  have kr: "k_rename (abs_path ?a) (abs_path ?b) w1 = Inr w2"
    using rn Inr by (auto simp: os_Rename_def Let_def split: sum.splits if_splits)
  have w2: "w2 = w1\<lparr>nodes := move_tree ?a ?b (nodes w1)\<rparr>"
    and kb: "\<And>j. node (nodes w1) ?b = Some j \<Longrightarrow> kind j \<noteq> KDir"
    using kr la lb nd kd tc by (auto simp: k_rename_def split: option.splits if_splits)
  have "kind i \<noteq> KDir" "\<not> prefix ?a ?b" "\<not> prefix ?b ?a" using kd tc by auto
  then have "node (nodes w2) q = (if q = ?b then Some i else if q = ?a then None else node (nodes w1) q)" for q
    using node_move_file [where a = ?a and b = ?b and q = q, OF ok nd] kb by (simp add: w2)
  moreover have "tree_ok (nodes w2)"
    using safe_k_rename [OF kr ok, of "[]"] confined_tree by (auto simp: below_def)
  ultimately show ?thesis using Inr oth new w2 fl by (simp add: same_but_def)
qed

text \<open>The removal of the temporary name, after a rename and without one.\<close>

lemma temp_remove_gone:
  assumes "os_Remove (abs_path (D @ [t])) w1 = (r, w2)" and "node (nodes w1) (D @ [t]) = None"
    and "tree_ok (nodes w1)" and "is_dir_at (nodes w1) D" and "names_ok (D @ [t])"
  shows "w2 = w1"
  using assms(1,2) entry_lookup [OF assms(3-5)]
  by (auto simp: os_Remove_def k_unlink_def k_rmdir_def split: option.splits sum.splits)

lemma temp_remove:
  assumes "os_Remove (abs_path (D @ [t])) w1 = (r, w2)" and ts: "temp_state w (D @ [t]) i w1"
    and n: "names_ok (D @ [t])" and new: "node (nodes w) (D @ [t]) = None"
  shows "same_but {D @ [t]} w w2 \<and>
    (faults w SysUnlink (abs_path (D @ [t])) = None \<longrightarrow> same_but {} w w2)"
proof -
  let ?a = "D @ [t]"
  have ok: "tree_ok (nodes w1)" and nd: "node (nodes w1) ?a = Some i" and kd: "\<exists>b. kind i = KFile b"
    and fl: "faults w1 = faults w" and oth: "\<And>q. q \<noteq> ?a \<Longrightarrow> node (nodes w1) q = node (nodes w) q"
    using ts by (auto simp: temp_state_def same_but_def)
  have la: "klookup w1 False (abs_path ?a) = Inr ?a" using temp_lookup [OF ts n] .
  have ea: "node (nodes w1) (?a @ es) = None" if "es \<noteq> []" for es
    using file_no_children [OF nd _ ok that] kd by auto
  show ?thesis
  proof (cases "faults w SysUnlink (abs_path ?a)")
    case None
    then have w2: "w2 = w1\<lparr>nodes := del_tree ?a (nodes w1)\<rparr>"
      using assms(1) la nd kd fl by (auto simp: os_Remove_def k_unlink_def faulty_def)
    have "node (nodes w2) q = node (nodes w) q" for q
    proof (cases "prefix ?a q")
      case True
      then obtain es where es: "q = ?a @ es" by (auto simp: prefix_def)
      then have "node (nodes w) q = None" using new ea [of es] oth [of q] by (cases "es = []") auto
      then show ?thesis using w2 True by simp
    next
      case False
      then have "q \<noteq> ?a" by auto
      then show ?thesis using w2 False oth by simp
    qed
    then show ?thesis using w2 fl by (simp add: same_but_def)
  next
    case (Some e)
    then have "w2 = w1" using assms(1) fl
      by (auto simp: os_Remove_def k_unlink_def k_rmdir_def faulty_def)
    then show ?thesis using ts Some by (simp add: temp_state_def)
  qed
qed

section \<open>The whole procedure\<close>

lemma atomic_body_cases:
  assumes b: "atomic_body (abs_path (D @ [c])) data perm h w1 = (r, w2)"
    and ts: "temp_state w (D @ [t]) i w1" and i: "kind i = KFile []" and n: "names_ok (D @ [t])" "name_ok c"
    and tc: "t \<noteq> c" and new: "node (nodes w) (D @ [t]) = None"
    and h: "h_loc h = D @ [t]" "h_name h = abs_path (D @ [t])" "h_off h = 0" "\<not> h_append h"
  shows "(case r of
      Inl e \<Rightarrow> \<exists>j. temp_state w (D @ [t]) j w2
    | Inr u \<Rightarrow> \<exists>j. node (nodes w2) (D @ [c]) = Some j \<and> kind j = KFile data \<and>
        (faults w SysChmod (abs_path (D @ [t])) = None \<longrightarrow> mode j = perm) \<and>
        same_but {D @ [c]} w w2 \<and> tree_ok (nodes w2))"
proof -
  obtain r1 wa where wr: "os_Write h data w1 = (r1, wa)" by (metis prod.exhaust)
  obtain j1 where j1: "temp_state w (D @ [t]) j1 wa" "\<forall>n. r1 = Inr n \<longrightarrow> kind j1 = KFile data"
    using temp_write [OF wr ts i h(1,3,4) n(1)] by blast
  obtain r2 wb where cl: "os_Close h wa = (r2, wb)" by (metis prod.exhaust)
  have wb: "wb = wa" using Close_same [OF cl] .
  obtain r3 wc where cm: "os_Chmod (abs_path (D @ [t])) perm wa = (r3, wc)" by (metis prod.exhaust)
  obtain j2 where j2: "temp_state w (D @ [t]) j2 wc" "kind j2 = kind j1"
      "faults w SysChmod (abs_path (D @ [t])) = None \<longrightarrow> mode j2 = perm"
    using temp_chmod [OF cm j1(1) n(1)] by (elim exE conjE) (rule that)
  obtain r4 wd where rn: "os_Rename (abs_path (D @ [t])) (abs_path (D @ [c])) wc = (r4, wd)"
    by (metis prod.exhaust)
  note r4 = temp_rename [OF rn j2(1) n tc new]
  have eq: "atomic_body (abs_path (D @ [c])) data perm h w1 =
    (case r1 of Inl err \<Rightarrow> (Inl (Wrapped (''atomic write: write temp file '' @ quoted (h_name h)) err), wa)
     | Inr _ \<Rightarrow> (case r2 of Inl err \<Rightarrow> (Inl (Wrapped (''atomic write: close temp file '' @ quoted (h_name h)) err), wa)
       | Inr _ \<Rightarrow> (case r4 of Inl err \<Rightarrow> (Inl (Wrapped (''atomic write: rename '' @ quoted (h_name h) @ '' -> '' @ quoted (abs_path (D @ [c]))) err), wd)
         | Inr _ \<Rightarrow> (Inr (), wd))))"
    by (cases r1; cases r2; cases r4)
      (simp_all only: atomic_body_def attempt_def fail_def ret_def wr cl [unfolded wb] cm rn h(2)
        sum.case prod.case)
  show ?thesis
  proof (cases r1)
    case (Inl e)
    then have "r = Inl (Wrapped (''atomic write: write temp file '' @ quoted (h_name h)) e)" "w2 = wa"
      using b eq by simp_all
    then show ?thesis using j1(1) by auto
  next
    case r1: (Inr k)
    show ?thesis
    proof (cases r2)
      case (Inl e)
      then have "r = Inl (Wrapped (''atomic write: close temp file '' @ quoted (h_name h)) e)" "w2 = wa"
        using b eq r1 by simp_all
      then show ?thesis using j1(1) by auto
    next
      case r2: (Inr u)
      show ?thesis
      proof (cases r4)
        case (Inl e)
        then have "\<exists>e. r = Inl e" "w2 = wd" using b eq r1 r2 by auto
        then show ?thesis using r4 Inl j2(1) by auto
      next
        case (Inr v)
        then have "r = Inr ()" "w2 = wd" using b eq r1 r2 by simp_all
        then show ?thesis using r4 Inr j2(2,3) j1(2) r1 by auto
      qed
    qed
  qed
qed

text \<open>The body on a fresh temporary file, and the removal of that file after it.\<close>

lemma atomic_after_create:
  assumes bd: "atomic_body (abs_path (D @ [c])) data perm h w1 = (r, w2)"
    and rm: "os_Remove (abs_path (D @ [t])) w2 = (r3, w')"
    and h: "h_loc h = D @ [t]" "h_name h = abs_path (D @ [t])" "h_off h = 0" "\<not> h_append h"
    and n: "names_ok (D @ [t])" "name_ok c" and tc: "t \<noteq> c"
    and new: "node (nodes w) (D @ [t]) = None" and ts: "temp_state w (D @ [t]) i w1" "kind i = KFile []"
  shows "case r of
      Inl e \<Rightarrow> same_but {D @ [t]} w w' \<and>
        (faults w SysUnlink (abs_path (D @ [t])) = None \<longrightarrow> same_but {} w w')
    | Inr u \<Rightarrow> \<exists>j. node (nodes w') (D @ [c]) = Some j \<and> kind j = KFile data \<and>
        (faults w SysChmod (abs_path (D @ [t])) = None \<longrightarrow> mode j = perm) \<and>
        same_but {D @ [c]} w w'"
proof -
  note body = atomic_body_cases [OF bd ts n tc new h]
  show ?thesis
  proof (cases r)
    case (Inl e)
    then obtain j where "temp_state w (D @ [t]) j w2" using body by auto
    then show ?thesis using temp_remove [OF rm _ n(1) new] Inl by auto
  next
    case (Inr u)
    then obtain j where j: "node (nodes w2) (D @ [c]) = Some j" "kind j = KFile data"
        "faults w SysChmod (abs_path (D @ [t])) = None \<longrightarrow> mode j = perm"
        "same_but {D @ [c]} w w2" "tree_ok (nodes w2)"
      using body by auto
    have "node (nodes w2) (D @ [t]) = None" using j(4) new tc by (simp add: same_but_def)
    moreover have "is_dir_at (nodes w2) D" using tree_ok_parent [OF j(5,1)] .
    ultimately have "w' = w2" using temp_remove_gone [OF rm _ j(5) _ n(1)] by blast
    then show ?thesis using Inr j by auto
  qed
qed

lemma atomic_temp_cases:
  assumes a: "attempt (os_CreateTemp (abs_path D) (''.tmp-'' @ c @ ''.'')) (\<lambda>rt.
                 case rt of
                   Inl err \<Rightarrow> fail (Wrapped msg err)
                 | Inr tmpFile \<Rightarrow>
                     attempt (atomic_body (abs_path (D @ [c])) data perm tmpFile) (\<lambda>res.
                       attempt (os_Remove (h_name tmpFile)) (\<lambda>_. liftE res))) w = (r, w')"
    and ok: "tree_ok (nodes w)" and dir: "is_dir_at (nodes w) D"
    and n: "names_ok (D @ [c])" and pr: "plain_randoms w"
  shows "\<exists>t. t \<noteq> c \<and> (case r of
      Inl e \<Rightarrow> same_but {D @ [t]} w w' \<and>
        (faults w SysUnlink (abs_path (D @ [t])) = None \<longrightarrow> same_but {} w w')
    | Inr u \<Rightarrow> \<exists>j. node (nodes w') (D @ [c]) = Some j \<and> kind j = KFile data \<and>
        (faults w SysChmod (abs_path (D @ [t])) = None \<longrightarrow> mode j = perm) \<and>
        same_but {D @ [c]} w w')"
proof -
  have nc: "name_ok c" and nD: "names_ok D" using n by auto
  have ns: "CHR ''/'' \<notin> set c" using nc by (simp add: name_ok_def)
  then have np: "CHR ''/'' \<notin> set (''.tmp-'' @ c @ ''.'')" by simp
  define pre where "pre = ''.tmp-'' @ c @ ''.''"
  have pre: "CHR ''/'' \<notin> set x \<Longrightarrow> name_ok (pre @ x)" for x
    using ns by (auto simp: name_ok_def pre_def)
  have longer: "pre @ x \<noteq> c" for x
  proof
    assume "pre @ x = c"
    then have "length (pre @ x) = length c" by simp
    then show False by (simp add: pre_def)
  qed
  obtain rt w1 where ct: "os_CreateTemp (abs_path D) (''.tmp-'' @ c @ ''.'') w = (rt, w1)" by (metis prod.exhaust)
  have "create_temp 10000 (joinPath (abs_path D) pre) w = (rt, w1)"
    using ct np by (simp only: os_CreateTemp_def if_False pre_def)
  note cs = create_temp_state [OF this ok dir nD pr pre]
  show ?thesis
  proof (cases rt)
    case (Inl e)
    then have "same_but L w w'" for L using a ct cs by (auto simp: attempt_def fail_def same_but_def)
    moreover have "\<exists>e. r = Inl e" using a ct Inl by (auto simp: attempt_def fail_def)
    ultimately show ?thesis using longer [of "[]"] by auto
  next
    case (Inr h)
    then obtain x i where h: "h_loc h = D @ [pre @ x]" "h_name h = abs_path (h_loc h)" "name_ok (pre @ x)"
        "node (nodes w) (h_loc h) = None" "temp_state w (h_loc h) i w1" "kind i = KFile []"
        "h_off h = 0" "\<not> h_append h"
      using cs by auto
    define t where "t = pre @ x"
    have tc: "t \<noteq> c" using longer by (simp add: t_def)
    have nt: "names_ok (D @ [t])" using nD h(3) by (simp add: t_def)
    have nm: "h_name h = abs_path (D @ [t])" "h_loc h = D @ [t]" using h by (auto simp: t_def)
    have new: "node (nodes w) (D @ [t]) = None" and ts: "temp_state w (D @ [t]) i w1"
      using h(4,5) nm by auto
    obtain r2 w2 where bd: "atomic_body (abs_path (D @ [c])) data perm h w1 = (r2, w2)"
      by (metis prod.exhaust)
    obtain r3 w3 where rm: "os_Remove (abs_path (D @ [t])) w2 = (r3, w3)" by (metis prod.exhaust)
    have fin: "w' = w3" "r = r2" using a ct Inr bd rm nm by (simp_all add: attempt_def liftE_def)
    show ?thesis
      unfolding fin
      by (intro exI [of _ t] conjI tc atomic_after_create [OF bd rm nm(2,1) h(7,8) nt nc tc new ts h(6)])
  qed
qed

text \<open>A parent that exists is left alone by \<open>MkdirAll\<close>.\<close>

lemma MkdirAll_dir:
  assumes "tree_ok (nodes w)" and "is_dir_at (nodes w) D" and "names_ok D"
  shows "os_MkdirAll (abs_path D) perm w = (Inr (), w)"
proof -
  obtain i where i: "node (nodes w) D = Some i" "kind i = KDir" using assms(2) by (auto simp: is_dir_at_iff)
  have "resolve (nodes w) max_links True [] D = Inr D"
    using resolve_on_dir [of "nodes w" "[]" D max_links True "[]"] assms by simp
  then have "kstat w True (abs_path D) = Inr i" using i by (simp add: kstat_def klookup_abs_path assms(3))
  then show ?thesis using i by (simp add: os_MkdirAll.simps [of "abs_path D"] os_Stat_cases)
qed

lemma atomicWriteFile_cases:
  assumes a: "atomicWriteFile (abs_path (D @ [c])) data perm w = (r, w')"
    and ok: "tree_ok (nodes w)" and dir: "is_dir_at (nodes w) D"
    and n: "names_ok (D @ [c])" and pr: "plain_randoms w"
  shows "\<exists>t. t \<noteq> c \<and> (case r of
      Inl e \<Rightarrow> same_but {D @ [t]} w w' \<and>
        (faults w SysUnlink (abs_path (D @ [t])) = None \<longrightarrow> same_but {} w w')
    | Inr u \<Rightarrow> \<exists>j. node (nodes w') (D @ [c]) = Some j \<and> kind j = KFile data \<and>
        (faults w SysChmod (abs_path (D @ [t])) = None \<longrightarrow> mode j = perm) \<and>
        same_but {D @ [c]} w w')"
proof (rule atomic_temp_cases [OF _ ok dir n pr])
  show "attempt (os_CreateTemp (abs_path D) (''.tmp-'' @ c @ ''.'')) (\<lambda>rt.
      case rt of
        Inl err \<Rightarrow> fail (Wrapped ''atomic write: create temp file'' err)
      | Inr tmpFile \<Rightarrow>
          attempt (atomic_body (abs_path (D @ [c])) data perm tmpFile) (\<lambda>res.
            attempt (os_Remove (h_name tmpFile)) (\<lambda>_. liftE res))) w = (r, w')"
    using a MkdirAll_dir [OF ok dir, of "0x1ED"] n Dir_abs_path [OF n] Base_abs_path [OF n]
    by (simp add: atomicWriteFile_def Let_def attempt_def [of "os_MkdirAll _ _"])
qed

end
