(* ===== verification/OsFS_Paths.thy ===== *)
theory OsFS_Paths
  imports OsFS_Ops OsFS_Atomic
begin

text \<open>
  The working directory and the virtual paths \<open>OsFS\<close> resolves, exactly; and what is written through
  a path is what is read back through it.
\<close>

section \<open>Virtual paths\<close>

text \<open>An initialised file system: the working directory is a clean absolute path.\<close>

definition wd_ok :: "osfs \<Rightarrow> bool" where
  "wd_ok fs \<longleftrightarrow> clean_abs (fs_wd fs)"

lemma wd_ok_not_blank: "wd_ok fs \<Longrightarrow> \<not> blank (fs_wd fs)"
  by (simp add: wd_ok_def clean_abs_def blank_abs)

lemma init_done: "wd_ok fs \<Longrightarrow> ensureInitializedLocked (fs, w) = (Inr (), (fs, w))"
  by (simp add: ensureInitializedLocked_def wd_ok_not_blank)

lemma virtual_path_clean:
  assumes "wd_ok fs" shows "clean_abs (virtual_path fs p)"
proof -
  have a: "is_abs (fs_wd fs)" using assms by (simp add: wd_ok_def clean_abs_def)
  then have ne: "fs_wd fs \<noteq> []" by auto
  show ?thesis
    using a ne Join_clean_abs [OF a] clean_abs_Clean
    by (auto simp: virtual_path_def Let_def clean_abs_def)
qed

text \<open>
  The virtual path is purely lexical: an absolute path is cleaned, a relative one is cleaned on top
  of the working directory, and \<open>..\<close> never climbs above the root.
\<close>

lemma virtual_path_abs: "is_abs p \<Longrightarrow> virtual_path fs p = abs_path (acomps p)"
  by (auto simp: virtual_path_def Let_def blank_abs Clean_abs)

lemma resolveVirtual_plain:
  assumes wd: "wd_ok fs" and j: "fs_jail fs = abs_path jc" "names_ok jc"
    and v: "virtual_path fs p = abs_path vs" "names_ok vs"
  shows "resolveVirtual p False (fs, w) =
    (if dotdot_head vs then Inl (escape_err (abs_path (jc @ vs))) else Inr (abs_path vs), (fs, w))"
proof -
  have ne: "fs_jail fs \<noteq> []" using j by simp
  have "Join [abs_path jc, abs_path vs] = abs_path (jc @ vs)" using j(2) v(2) by (rule Join_abs_abs)
  moreover have "IsInJail (abs_path jc) (abs_path (jc @ vs)) \<longleftrightarrow> \<not> dotdot_head vs"
    using IsInJail_abs_path [of jc "jc @ vs"] j(2) v(2) by simp
  ultimately show ?thesis
    using resolveVirtual_jailed [OF ne init_done [OF wd], of p False w] j v
    by (simp add: jail_check_def Let_def)
qed

section \<open>Plain files of the jail\<close>

text \<open>
  A path that names an entry of a real directory of the jail: no link on the way, and the entry
  itself is not a link.
\<close>

definition plain_entry :: "string list \<Rightarrow> osfs \<Rightarrow> world \<Rightarrow> string \<Rightarrow> string list \<Rightarrow> string \<Rightarrow> bool" where
  "plain_entry J fs w p r c \<longleftrightarrow>
     jailed_host J (fs, w) \<and> wd_ok fs \<and> virtual_path fs p = abs_path (r @ [c]) \<and>
     names_ok (r @ [c]) \<and> \<not> dotdot_head (r @ [c]) \<and> is_dir_at (nodes w) (J @ r) \<and>
     (\<forall>i l. node (nodes w) (J @ r @ [c]) = Some i \<longrightarrow> kind i \<noteq> KLink l)"

lemma plain_entryD:
  assumes "plain_entry J fs w p r c"
  shows "tree_ok (nodes w)" "names_ok J" "fs_jail fs = abs_path J" "wd_ok fs"
    "names_ok (J @ r @ [c])" "is_dir_at (nodes w) (J @ r)" "is_dir_at (nodes w) J"
    "jail_at J fs w" "plain_randoms w"
  using assms jail_at_canonical by (auto simp: plain_entry_def jailed_host_def)

lemma canonical_self:
  assumes "jail_at J fs w" and "fs_jail fs = abs_path J"
  shows "canonical_jail (abs_path J) w = abs_path J"
  using assms by (auto elim: jail_atE)

lemma dir_stat:
  assumes "tree_ok (nodes w)" and "is_dir_at (nodes w) D" and "names_ok D"
  shows "\<exists>i. kstat w f (abs_path D) = Inr i"
proof -
  obtain i where i: "node (nodes w) D = Some i" using assms(2) by (auto simp: is_dir_at_iff)
  have "resolve (nodes w) max_links f [] D = Inr D"
    using resolve_on_dir [of "nodes w" "[]" D max_links f "[]"] assms by simp
  then show ?thesis using i by (simp add: kstat_def klookup_abs_path assms(3))
qed

lemma EvalSymlinks_canonical_path:
  assumes "tree_ok (nodes w)" and "canonical (nodes w) cs"
  shows "EvalSymlinks w (abs_path cs) = Inr (abs_path cs)"
  using walk_canonical [OF assms] by (simp add: EvalSymlinks_abs_path canonical_names_ok [OF assms(2)])

lemma dir_canonical:
  assumes "tree_ok t" and "is_dir_at t D" and "names_ok D"
  shows "canonical t D"
  using assms tree_ok_butlast [of t D] by (intro canonical_dir) (auto simp: located_def)

lemma plain_create:
  assumes pe: "plain_entry J fs w p r c"
  shows "resolveHostForCreate p (fs, w) = (Inr (abs_path (J @ r @ [c])), (fs, w))"
proof -
  note d = plain_entryD [OF pe]
  have v: "resolveVirtual p False (fs, w) = (Inr (abs_path (r @ [c])), (fs, w))"
    using resolveVirtual_plain [OF d(4) d(3) d(2), of p "r @ [c]" w] pe by (simp add: plain_entry_def)
  have h: "hostPath fs (abs_path (r @ [c])) = abs_path (J @ r @ [c])"
    using d(2,3,5) Join_abs_abs [of J "r @ [c]"] by (simp add: hostPath_def OsFS_GetJail_def)
  have n: "names_ok ((J @ r) @ [c])" using d(5) by simp
  have db: "Dir (abs_path (J @ r @ [c])) = abs_path (J @ r)" "Base (abs_path (J @ r @ [c])) = c"
    using Dir_abs_path [OF n] Base_abs_path [OF n] by auto
  have ne: "abs_path (J @ r @ [c]) \<noteq> abs_path J" using abs_path_inj [OF d(5) d(2)] by simp
  obtain i where "kstat w False (abs_path (J @ r)) = Inr i" using dir_stat [OF d(1,6)] n by auto
  then have cl: "climb w (abs_path (J @ r)) [c] = Inr (abs_path (J @ r), [c])"
    by (simp add: climb.simps [of w "abs_path (J @ r)"] os_Lstat_cases)
  have ev: "EvalSymlinks w (abs_path (J @ r)) = Inr (abs_path (J @ r))"
    using EvalSymlinks_canonical_path [OF d(1) dir_canonical [OF d(1,6)]] n by simp
  have "dotdot_head (drop (length J) (J @ r)) = dotdot_head r" by simp
  moreover have "\<not> dotdot_head r" using pe by (auto simp: plain_entry_def dotdot_head_def split: list.splits)
  ultimately have inj: "IsInJail (abs_path J) (abs_path (J @ r))"
    using IsInJail_abs_path [of J "J @ r"] n by simp
  have j: "Join [abs_path (J @ r), c] = abs_path (J @ r @ [c])"
    using Join_abs_name [of "J @ r" c] n by simp
  show ?thesis
    using v h db ne cl ev inj j d(2,3,5) canonical_self [OF d(8,3)]
    by (simp add: resolveHostForCreate_def bindE_def Let_def OsFS_GetJail_def)
qed

lemma plain_open:
  assumes pe: "plain_entry J fs w p r c"
  shows "resolveHostForOpen p (fs, w) = (Inr (abs_path (J @ r @ [c])), (fs, w))"
proof -
  note d = plain_entryD [OF pe]
  have n: "names_ok ((J @ r) @ [c])" using d(5) by simp
  have kl: "klookup w False (abs_path (J @ r @ [c])) = Inr (J @ r @ [c])"
    using entry_lookup [OF d(1,6) n] by simp
  show ?thesis
  proof (cases "node (nodes w) (J @ r @ [c])")
    case None
    then show ?thesis
      using plain_create [OF pe] kl
      by (simp add: resolveHostForOpen_def bindE_def Let_def os_Lstat_cases kstat_def)
  next
    case (Some i)
    then have "kind i \<noteq> KLink l" for l using pe by (simp add: plain_entry_def)
    then show ?thesis
      using plain_create [OF pe] kl Some
      by (simp add: resolveHostForOpen_def bindE_def Let_def os_Lstat_cases kstat_def split: kind.splits)
  qed
qed

text \<open>An existing plain file is read where it is.\<close>

lemma plain_read:
  assumes pe: "plain_entry J fs w p r c"
    and i: "node (nodes w) (J @ r @ [c]) = Some i" "kind i = KFile b"
  shows "OsFS_ReadFile p (fs, w) = (Inr b, (fs, w))"
proof -
  note d = plain_entryD [OF pe]
  let ?q = "J @ r @ [c]"
  have can: "canonical (nodes w) ?q"
    using i d(5,6) by (auto simp: canonical_def located_def butlast_append)
  have ne: "fs_jail fs \<noteq> []" using d(3) by simp
  have jn: "Join [abs_path J, abs_path (r @ [c])] = abs_path ?q"
    using d(2,5) Join_abs_abs [of J "r @ [c]"] by simp
  have inj: "IsInJail (abs_path J) (abs_path ?q)"
    using IsInJail_abs_path [of J ?q] d(5) pe by (simp add: plain_entry_def)
  have rm: "RemoveJailPrefix (abs_path J) (abs_path ?q) = abs_path (r @ [c])"
    using RemoveJailPrefix_below [of J "r @ [c]"] d(5) by simp
  have nr: "names_ok (r @ [c])" using pe by (simp add: plain_entry_def)
  have cr: "Clean (abs_path (r @ [c])) = abs_path (r @ [c])" using nr by (rule Clean_abs_path)
  have "resolveVirtual p True (fs, w) = (Inr (abs_path (r @ [c])), (fs, w))"
    using resolveVirtual_jailed [OF ne init_done [OF d(4)], of p True w] pe d(3,5) jn inj rm cr
      EvalSymlinks_canonical_path [OF d(1) can] canonical_self [OF d(8,3)]
    by (simp add: jail_check_def Let_def plain_entry_def del: list_all_append)
  moreover have "hostPath fs (abs_path (r @ [c])) = abs_path ?q"
    using d(3,5) jn by (simp add: hostPath_def OsFS_GetJail_def del: list_all_append)
  ultimately have rh: "resolveHost p True (fs, w) = (Inr (abs_path ?q), (fs, w))"
    by (simp add: resolveHost_def bindE_def getS_def)
  have "klookup w True (abs_path ?q) = Inr ?q"
    using resolve_canonical [of "nodes w" "[]" ?q max_links True] can d(1,5) tree_ok_root
    by (simp add: klookup_abs_path)
  then show ?thesis
    using rh i by (simp add: OsFS_ReadFile_def bindE_def os_query_def os_ReadFile_def kstat_def patherr_def)
qed

text \<open>A successful \<open>os.WriteFile\<close> at an entry of a real directory that is no link.\<close>

lemma WriteFile_entry:
  assumes ok: "tree_ok (nodes w)" and D: "is_dir_at (nodes w) D" and n: "names_ok (D @ [c])"
    and nl: "\<And>i l. node (nodes w) (D @ [c]) = Some i \<Longrightarrow> kind i \<noteq> KLink l"
    and wr: "os_WriteFile (abs_path (D @ [c])) data perm w = (Inr (), w')"
  shows "\<exists>i. node (nodes w') (D @ [c]) = Some i \<and> kind i = KFile data" "same_but {D @ [c]} w w'"
    "tree_ok (nodes w') \<and> randoms w' = randoms w"
proof -
  let ?q = "D @ [c]"
  have "klookup w False (abs_path ?q) = Inr ?q" using entry_lookup [OF ok D n] by simp
  then have kl: "klookup w True (abs_path ?q) = Inr ?q"
    using resolve_follow [of "nodes w" max_links "[]" ?q "Inr ?q"] n nl
    by (simp add: klookup_abs_path del: list_all_append)
  obtain h w1 where o: "k_open (abs_path ?q) wr_create_trunc perm w = Inr (h, w1)"
    using wr by (auto simp: os_WriteFile_def bindE_def os_OpenFile_def split: sum.splits prod.splits)
  have h: "h_loc h = ?q" "h_off h = 0" "\<not> h_append h" "\<exists>i. node (nodes w1) ?q = Some i \<and> kind i = KFile []"
    "same_but {?q} w w1"
    using o kl same_but_put
    by (auto simp: k_open_def wr_create_trunc_def Let_def new_inode_def
        split: option.splits if_splits kind.splits)
  obtain r1 w2 where wt: "os_Write h data w1 = (r1, w2)" by (metis prod.exhaust)
  have fin: "r1 \<noteq> Inl e" "w' = w2" for e
    using wr o wt by (auto simp: os_WriteFile_def bindE_def os_OpenFile_def attempt_def fail_def liftE_def
        dest: Close_same split: sum.splits prod.splits)
  then obtain k where "r1 = Inr k" by (cases r1) auto
  then have "(\<exists>i. node (nodes w2) ?q = Some i \<and> kind i = KFile data) \<and> same_but {?q} w1 w2"
    using wt h(1-4) same_but_put by (auto simp: os_Write_def Let_def split: option.splits)
  then show "\<exists>i. node (nodes w') ?q = Some i \<and> kind i = KFile data" "same_but {?q} w w'"
    using fin h(5) same_but_trans by auto
  have "below ?q w True (abs_path ?q)" using kl by (simp add: below_def)
  then have "safe ?q w w'" using safe_WriteFile [OF wr ok] by simp
  then show "tree_ok (nodes w') \<and> randoms w' = randoms w" by (simp add: confined_def)
qed

lemma plain_write:
  assumes pe: "plain_entry J fs w p r c"
    and wr: "OsFS_WriteFile p data perm (fs, w) = (Inr (), (fs', w'))"
  shows "fs' = fs" "\<exists>i. node (nodes w') (J @ r @ [c]) = Some i \<and> kind i = KFile data"
proof -
  note d = plain_entryD [OF pe]
  have n: "names_ok ((J @ r) @ [c])" using d(5) by simp
  have w: "os_WriteFile (abs_path ((J @ r) @ [c])) data perm w = (Inr (), w')" and "fs' = fs"
    using wr plain_open [OF pe] by (auto simp: OsFS_WriteFile_def bindE_def os_call_def split: prod.splits)
  then show "fs' = fs" by simp
  have "kind i \<noteq> KLink l" if "node (nodes w) ((J @ r) @ [c]) = Some i" for i l
    using pe that by (simp add: plain_entry_def)
  then show "\<exists>i. node (nodes w') (J @ r @ [c]) = Some i \<and> kind i = KFile data"
    using WriteFile_entry(1) [OF d(1,6) n _ w] by simp
qed

lemma plain_atomic:
  assumes pe: "plain_entry J fs w p r c"
    and wr: "OsFS_AtomicWriteFile p data perm (fs, w) = (Inr (), (fs', w'))"
  shows "fs' = fs" "\<exists>i. node (nodes w') (J @ r @ [c]) = Some i \<and> kind i = KFile data"
proof -
  note d = plain_entryD [OF pe]
  have n: "names_ok ((J @ r) @ [c])" using d(5) by simp
  have w: "atomicWriteFile (abs_path ((J @ r) @ [c])) data perm w = (Inr (), w')" and "fs' = fs"
    using wr plain_open [OF pe]
    by (auto simp: OsFS_AtomicWriteFile_def bindE_def os_call_def split: prod.splits)
  then show "fs' = fs" by simp
  show "\<exists>i. node (nodes w') (J @ r @ [c]) = Some i \<and> kind i = KFile data"
    using atomicWriteFile_cases [OF w d(1,6) n d(9)] by auto
qed

lemma plain_entry_after:
  assumes pe: "plain_entry J fs w p r c" and fr: "op_frame J (fs, w) (fs, w')"
    and i: "node (nodes w') (J @ r @ [c]) = Some i" "kind i = KFile b"
  shows "plain_entry J fs w' p r c"
proof -
  have jh: "jailed_host J (fs, w')" using jailed_host_frame [OF _ fr] pe by (simp add: plain_entry_def)
  have "is_dir_at (nodes w') (J @ r)"
    using tree_ok_parent [of "nodes w'" "J @ r" c i] i jh by (simp add: jailed_host_def)
  then show ?thesis using jh pe i by (auto simp: plain_entry_def)
qed

end
