(* ===== verification/OsFS_State.thy ===== *)
theory OsFS_State
  imports OsFS_Paths
begin

text \<open>
  What an operation of \<open>OsFS\<close> does to the fields of the struct itself: only \<open>Setwd\<close> changes them, and
  it keeps the working directory a clean absolute path.
\<close>

section \<open>State of the file system\<close>

lemma wd_after_init:
  "ensureInitializedLocked (fs, w) = (r, (fs', w')) \<Longrightarrow> wd_ok fs \<Longrightarrow> fs' = fs"
  using init_done by fastforce

lemma wd_resolveVirtual:
  assumes "resolveVirtual p f (fs, w) = (r, (fs', w'))" and "wd_ok fs"
  shows "fs' = fs"
  using assms init_done [OF assms(2), of w]
  by (auto simp: resolveVirtual_def bindE_def Let_def split: if_splits sum.splits)

lemma resolveVirtual_state: "wd_ok fs \<Longrightarrow> snd (resolveVirtual p f (fs, w)) = (fs, w)"
  by (cases "resolveVirtual p f (fs, w)")
    (metis resolveVirtual_frame wd_resolveVirtual prod.collapse snd_conv)

lemma wd_resolveHost: "resolveHost p f (fs, w) = (r, (fs', w')) \<Longrightarrow> wd_ok fs \<Longrightarrow> fs' = fs"
  using wd_resolveVirtual
  by (fastforce simp: resolveHost_def bindE_def getS_def split: prod.splits sum.splits)

lemma wd_resolveHostForCreate:
  assumes "resolveHostForCreate p (fs, w) = (r, (fs', w'))" and "wd_ok fs"
  shows "fs' = fs"
proof -
  have "\<exists>r1 w1. resolveVirtual p False (fs, w) = (r1, (fs', w1))"
    using assms(1)
    by (auto simp: resolveHostForCreate_def bindE_def Let_def split: prod.splits sum.splits if_splits)
  then show ?thesis using wd_resolveVirtual assms(2) by blast
qed

lemma wd_resolveHostForOpen:
  assumes "resolveHostForOpen p (fs, w) = (r, (fs', w'))" and "wd_ok fs"
  shows "fs' = fs"
proof -
  have "\<exists>r1 w1. resolveHostForCreate p (fs, w) = (r1, (fs', w1))"
    using assms(1)
    by (auto simp: resolveHostForOpen_def bindE_def Let_def
        split: prod.splits sum.splits if_splits kind.splits)
  then show ?thesis using wd_resolveHostForCreate assms(2) by blast
qed

lemma wd_bind_call:
  assumes "\<And>r fs' w'. R (fs, w) = (r, (fs', w')) \<Longrightarrow> fs' = fs"
  shows "fst (snd (bindE R (\<lambda>h. os_call (m h)) (fs, w))) = fs"
    and "fst (snd (bindE R (\<lambda>h. os_query (q h)) (fs, w))) = fs"
  using assms by (auto simp: bindE_def os_call_def os_query_def split: prod.splits sum.splits)

text \<open>The lexical resolver, when it answers, answers the virtual path, whatever the jail is.\<close>

lemma resolveVirtual_value:
  assumes "wd_ok fs" and "fst (resolveVirtual p False (fs, w)) = Inr v"
  shows "v = virtual_path fs p"
  using assms init_done [OF assms(1), of w]
  by (auto simp: resolveVirtual_def virtual_path_def bindE_def Let_def split: if_splits)

text \<open>\<open>Setwd\<close> keeps the jail; it fails and changes nothing, or the virtual path is the new directory.\<close>

lemma wd_Setwd:
  assumes "wd_ok fs"
  shows "(\<exists>e. OsFS_Setwd p (fs, w) = (Inl e, (fs, w))) \<or>
    OsFS_Setwd p (fs, w) = (Inr (), (fs\<lparr>fs_wd := virtual_path fs p\<rparr>, w))"
proof -
  obtain r fs' w' where rv: "resolveVirtual p False (fs, w) = (r, (fs', w'))" by (metis prod.exhaust)
  have "fs' = fs" "w' = w" using wd_resolveVirtual [OF rv assms] resolveVirtual_frame [OF rv] by auto
  then show ?thesis
    using rv resolveVirtual_value [OF assms, of p w]
    by (cases r) (auto simp: OsFS_Setwd_def bindE_def Let_def split: sum.split)
qed

lemma wd_ok_Setwd:
  assumes "wd_ok fs"
  shows "wd_ok (fst (snd (OsFS_Setwd p (fs, w))))"
  using wd_Setwd [OF assms, of p w] assms virtual_path_clean [OF assms] by (auto simp: wd_ok_def)

lemma wd_Rename:
  assumes "wd_ok fs" shows "fst (snd (OsFS_Rename a b (fs, w))) = fs"
proof -
  obtain r fs' w' where rc: "resolveHostForCreate a (fs, w) = (r, (fs', w'))" by (metis prod.exhaust)
  have "fs' = fs" using wd_resolveHostForCreate [OF rc assms] .
  then show ?thesis using rc [unfolded \<open>fs' = fs\<close>] assms
    by (cases r) (simp_all add: OsFS_Rename_def bindE_def [of "resolveHostForCreate a"]
        wd_bind_call wd_resolveHostForCreate)
qed

lemma wd_Symlink:
  assumes "wd_ok fs" shows "fst (snd (OsFS_Symlink a b (fs, w))) = fs"
proof -
  obtain r fs' w' where rc: "resolveHost a False (fs, w) = (r, (fs', w'))" by (metis prod.exhaust)
  have "fs' = fs" using wd_resolveHost [OF rc assms] .
  then show ?thesis using rc [unfolded \<open>fs' = fs\<close>] assms
    by (cases r) (simp_all add: OsFS_Symlink_def bindE_def [of "resolveHost a False"]
        wd_bind_call wd_resolveHostForCreate)
qed

lemma wd_Rel: "wd_ok fs \<Longrightarrow> fst (snd (OsFS_Rel a b (fs, w))) = fs"
  using wd_resolveVirtual [of a False fs w] wd_resolveVirtual [of b False fs]
  by (fastforce simp: OsFS_Rel_def bindE_def liftE_def split: prod.splits sum.splits)

lemma wd_Getwd: "wd_ok fs \<Longrightarrow> fst (snd (OsFS_Getwd (fs, w))) = fs"
  using init_done [of fs w] by (simp add: OsFS_Getwd_def bindE_def getS_def)

text \<open>No operation but \<open>Setwd\<close> changes the fields of an initialised file system.\<close>

lemma run_op_fs:
  assumes wd: "wd_ok fs" and "\<And>p. op \<noteq> FSetwd p"
  shows "fst (run_op op (fs, w)) = fs"
proof (cases op)
  case (FSetwd p)
  then show ?thesis using assms(2) by simp
next
  case (FAppendFile p d m)
  then show ?thesis using wd by (simp add: AppendFile_call wd_bind_call wd_resolveHostForOpen)
next
  case (FResolvePath p f)
  obtain r fs' w' where "resolveVirtual p f (fs, w) = (r, (fs', w'))" by (metis prod.exhaust)
  then show ?thesis using wd FResolvePath wd_resolveVirtual by (fastforce simp: OsFS_ResolvePath_def)
qed (use wd wd_Rename wd_Symlink wd_Rel wd_Getwd in \<open>simp_all add:
      wd_bind_call wd_resolveHost wd_resolveHostForCreate wd_resolveHostForOpen
      OsFS_ReadFile_def OsFS_WriteFile_def OsFS_Mkdir_def OsFS_Remove_def OsFS_Stat_def OsFS_ReadDir_def
      OsFS_OpenFile_def OsFS_Chmod_def OsFS_Chown_def OsFS_Lchown_def OsFS_Chtimes_def
      OsFS_AtomicWriteFile_def if_distrib [of os_call, symmetric]\<close>)

end
