(* ===== verification/OsFS_Props.thy ===== *)
theory OsFS_Props
  imports OsFS_State
begin

text \<open>The properties of \<open>OsFS\<close>, with their concrete instances on a small host.\<close>

section \<open>A small host\<close>

lemma tree_okI:
  assumes "is_dir_at t []" and "list_all (\<lambda>kv. fst kv = [] \<or> is_dir_at t (butlast (fst kv))) t"
  shows "tree_ok t"
  using assms by (auto simp: tree_ok_def list_all_iff dest!: map_of_SomeD)

definition demo_inode :: "kind \<Rightarrow> inode" where
  "demo_inode k = \<lparr>kind = k, mode = 0x1ED, owner = (0, 0), times = (0, 0)\<rparr>"

text \<open>
  \<open>/srv/jail\<close> is the jail; it holds the file \<open>f\<close>, the directory \<open>d\<close> and the link \<open>out\<close> to
  \<open>/srv\<close>. The file \<open>/srv/secret\<close> and the link \<open>/home -> /srv\<close> are outside.
\<close>

definition demo_tree :: tree where
  "demo_tree =
    [([], demo_inode KDir), ([''srv''], demo_inode KDir), ([''srv'', ''secret''], demo_inode (KFile ''s'')),
     ([''home''], demo_inode (KLink ''srv'')),
     ([''srv'', ''jail''], demo_inode KDir), ([''srv'', ''jail'', ''f''], demo_inode (KFile ''old'')),
     ([''srv'', ''jail'', ''d''], demo_inode KDir),
     ([''srv'', ''jail'', ''out''], demo_inode (KLink ''/srv''))]"

definition demo_world :: world where
  "demo_world = \<lparr>nodes = demo_tree, proc_wd = Some ''/'', umask = 0x12, faults = (\<lambda>c p. None),
     randoms = (\<lambda>n. ''7''), rand_pos = 0\<rparr>"

definition demo_J :: "string list" where "demo_J = [''srv'', ''jail'']"

definition demo_fs :: osfs where "demo_fs = \<lparr>fs_jail = ''/srv/jail'', fs_wd = ''/d''\<rparr>"

text \<open>The jail reached through a link.\<close>

definition demo_fs_link :: osfs where "demo_fs_link = \<lparr>fs_jail = ''/home/jail'', fs_wd = ''/''\<rparr>"

lemma demo_ok: "tree_ok demo_tree"
  by (rule tree_okI) code_simp+

lemma demo_nodes [simp]: "nodes demo_world = demo_tree" "plain_randoms demo_world"
  by (simp_all add: demo_world_def plain_randoms_def)

lemma demo_jail: "jailed_host demo_J (demo_fs, demo_world)"
proof -
  have "names_ok demo_J" "is_dir_at demo_tree demo_J" "fs_jail demo_fs = abs_path demo_J"
    by code_simp+
  then show ?thesis by (simp add: jailed_host_def demo_ok)
qed

lemma demo_jail_link: "jail_at demo_J demo_fs_link demo_world"
proof -
  have "clean_abs (fs_jail demo_fs_link)" "is_dir_at demo_tree demo_J"
    "klookup demo_world False (fs_jail demo_fs_link) = Inr demo_J"
    by code_simp+
  then show ?thesis by (simp add: jail_at_def demo_ok)
qed

lemma demo_jail_at: "jail_at demo_J demo_fs demo_world"
  using demo_jail jail_at_canonical by (simp add: jailed_host_def)

section \<open>Confinement\<close>

text \<open>
  C1. Whatever sequence of operations runs on a jailed file system (each may use any path, links
  planted by earlier operations included; the jail directory itself is neither removed nor the
  target of an atomic write), every location of the host outside the jail keeps its inode, and the
  jail stays usable.
\<close>

theorem osfs_run_confined:
  assumes "fs_reach J s t" and "jailed_host J s" and "\<not> prefix J cs"
  shows "node (nodes (snd t)) cs = node (nodes (snd s)) cs \<and> jailed_host J t"
  using fs_reach_frame [OF assms(1,2)] assms(3) by (simp add: op_frame_def confined_def)

lemma demo_run:
  "fs_reach demo_J (demo_fs, demo_world)
     (run_op (FWriteFile ''../l/secret'' ''x'' 0x1A4)
       (run_op (FSymlink ''/out'' ''/l'') (demo_fs, demo_world)))"
  by (intro fs_step fs_refl) simp_all

theorem osfs_run_confined_witness:
  "node (nodes (snd (run_op (FWriteFile ''../l/secret'' ''x'' 0x1A4)
       (run_op (FSymlink ''/out'' ''/l'') (demo_fs, demo_world))))) [''srv'', ''secret''] =
   Some (demo_inode (KFile ''s''))"
proof -
  have "\<not> prefix demo_J [''srv'', ''secret'']" by code_simp
  then have "node (nodes (snd (run_op (FWriteFile ''../l/secret'' ''x'' 0x1A4)
       (run_op (FSymlink ''/out'' ''/l'') (demo_fs, demo_world))))) [''srv'', ''secret''] =
      node demo_tree [''srv'', ''secret'']"
    using osfs_run_confined [OF demo_run demo_jail] by simp
  also have "\<dots> = Some (demo_inode (KFile ''s''))" by code_simp
  finally show ?thesis .
qed

text \<open>
  C2. The same for one operation under any usable jail, also one whose path goes through symbolic
  links: nothing outside the directory the jail names is changed, and the jail stays a directory.
\<close>

theorem osfs_op_confined:
  assumes "jail_at J fs w" and "plain_randoms w" and "spares_root J op (fs, w)" and "\<not> prefix J cs"
  shows "node (nodes (snd (run_op op (fs, w)))) cs = node (nodes w) cs \<and>
    is_dir_at (nodes (snd (run_op op (fs, w)))) J"
  using op_frame_step [OF assms(1-3)] assms(1,4)
  by (simp add: op_frame_def confined_def keeps_dir_def jail_at_def)

theorem osfs_op_confined_witness:
  "is_dir_at (nodes (snd (run_op (FAtomicWriteFile ''/d/new'' ''x'' 0x1A4) (demo_fs_link, demo_world)))) demo_J"
proof -
  have "spares_root demo_J (FAtomicWriteFile ''/d/new'' ''x'' 0x1A4) (demo_fs_link, demo_world)"
    by code_simp
  moreover have "\<not> prefix demo_J []" by code_simp
  ultimately show ?thesis
    using osfs_op_confined [OF demo_jail_link demo_nodes(2)] by blast
qed

section \<open>What can be read\<close>

lemma read_inside:
  assumes jail: "jail_at J fs w" and r: "resolveHost p True (fs, w) = (Inr host, (fs', w'))"
    and k: "kstat w True host = Inr i"
  shows "\<exists>q. prefix J q \<and> node (nodes w) q = Some i"
  using k resolveHost_follow_below [OF jail r] below_prefix
  by (fastforce simp: kstat_def split: sum.splits option.splits)

text \<open>
  C3. A read under a usable jail returns the content of a regular file of the jail, whatever links
  the path goes through; a followed stat returns the inode of a location of the jail.
\<close>

theorem osfs_reads_inside:
  assumes "jail_at J fs w"
  shows "(fst (OsFS_ReadFile p (fs, w)) = Inr b \<longrightarrow>
      (\<exists>q i. prefix J q \<and> node (nodes w) q = Some i \<and> kind i = KFile b)) \<and>
    (fst (OsFS_Stat p True (fs, w)) = Inr i \<longrightarrow> (\<exists>q. prefix J q \<and> node (nodes w) q = Some i))"
proof (intro conjI impI)
  assume "fst (OsFS_ReadFile p (fs, w)) = Inr b"
  then obtain host fs' w' where h: "resolveHost p True (fs, w) = (Inr host, (fs', w'))"
      "os_ReadFile host w' = Inr b"
    by (auto simp: OsFS_ReadFile_def bindE_def os_query_def split: prod.splits sum.splits)
  have "w' = w" using resolveHost_frame [OF h(1)] by simp
  then obtain i where i: "kstat w True host = Inr i" "kind i = KFile b"
    using h(2) by (auto simp: os_ReadFile_def patherr_def split: sum.splits kind.splits)
  then show "\<exists>q i. prefix J q \<and> node (nodes w) q = Some i \<and> kind i = KFile b"
    using read_inside [OF assms h(1) i(1)] by blast
next
  assume "fst (OsFS_Stat p True (fs, w)) = Inr i"
  then obtain host fs' w' where h: "resolveHost p True (fs, w) = (Inr host, (fs', w'))"
      "os_Stat host w' = Inr i"
    by (auto simp: OsFS_Stat_def bindE_def os_query_def split: prod.splits sum.splits)
  have "w' = w" using resolveHost_frame [OF h(1)] by simp
  then have "kstat w True host = Inr i" using h(2) by (auto simp: os_Stat_cases split: sum.splits)
  then show "\<exists>q. prefix J q \<and> node (nodes w) q = Some i" using read_inside [OF assms h(1)] by blast
qed

theorem osfs_reads_inside_witness:
  "\<exists>q i. prefix demo_J q \<and> node (nodes demo_world) q = Some i \<and> kind i = KFile ''old''"
proof -
  have "fst (OsFS_ReadFile ''../f'' (demo_fs, demo_world)) = Inr ''old''" by code_simp
  then show ?thesis using osfs_reads_inside [OF demo_jail_at] by blast
qed

section \<open>Escapes are refused\<close>

lemma klookup_walk:
  assumes "tree_ok (nodes w)" and "names_ok cs" and "klookup w True (abs_path cs) = Inr q"
    and "node (nodes w) q = Some i"
  shows "EvalSymlinks w (abs_path cs) = Inr (abs_path q)"
  using walk_complete [OF _ assms(4) links_le assms(1), of "[]" cs] assms tree_ok_root [OF assms(1)]
    names_ok_no_slashes [OF assms(2)]
  by (simp add: klookup_abs_path EvalSymlinks_abs_path)

text \<open>
  C4. The decision of the following resolver is exact, for an initialised file system with a jail that
  exists (a clean absolute path, which may lead through links) and a path that stays in it lexically - the first component of its virtual path does
  not begin with two dots - and names something, at the real location \<open>q\<close>. When \<open>q\<close> is the jail's
  canonical directory or below it, and the first component below does not begin with two dots, the
  path is resolved to its canonical virtual path. Otherwise - \<open>q\<close> is outside, or it is a location such
  as \<open>..data/x\<close> inside, which the test takes for an escape - it is refused with \<open>ErrEscapeAttempt\<close>,
  which names \<open>q\<close>.
\<close>

theorem osfs_follow_exact:
  assumes jail: "jail_at J fs w" and wd: "wd_ok fs"
    and jc: "fs_jail fs = abs_path jc" "names_ok jc"
    and vs: "virtual_path fs p = abs_path vs" "names_ok vs" "\<not> dotdot_head vs"
    and q: "klookup w True (abs_path (jc @ vs)) = Inr q" "node (nodes w) q = Some i"
  shows "fst (OsFS_ResolvePath p True (fs, w)) =
    (if prefix J q \<and> \<not> dotdot_head (drop (length J) q) then Inr (abs_path (drop (length J) q))
     else Inl (escape_err (abs_path q)))"
proof -
  have ne: "fs_jail fs \<noteq> []" using jc by simp
  obtain ok: "tree_ok (nodes w)" and nJ: "names_ok J" and cj: "canonical_jail (fs_jail fs) w = abs_path J"
    using jail by (elim jail_atE)
  have nv: "names_ok (jc @ vs)" using jc vs by simp
  have jn: "Join [abs_path jc, abs_path vs] = abs_path (jc @ vs)" using jc(2) vs(2) by (rule Join_abs_abs)
  have inj: "IsInJail (abs_path jc) (abs_path (jc @ vs))"
    using IsInJail_abs_path [of jc "jc @ vs"] jc(2) vs by simp
  have ev: "EvalSymlinks w (abs_path (jc @ vs)) = Inr (abs_path q)" by (rule klookup_walk [OF ok nv q])
  have nq: "names_ok q"
    using klookup_located [OF q(1) _ ok] by (simp add: located_def)
  have rv: "fst (resolveVirtual p True (fs, w)) =
      (if \<not> IsInJail (abs_path J) (abs_path q) then Inl (escape_err (abs_path q))
       else Inr (Clean (RemoveJailPrefix (abs_path J) (abs_path q))))"
    using resolveVirtual_jailed [OF ne init_done [OF wd], of p True w] jc vs jn inj ev cj nv
    by (simp add: jail_check_def Let_def del: list_all_append)
  show ?thesis
  proof (cases "prefix J q")
    case True
    then obtain r where r: "q = J @ r" by (auto simp: prefix_def)
    then have "RemoveJailPrefix (abs_path J) (abs_path q) = abs_path r"
      using RemoveJailPrefix_below nq by simp
    then show ?thesis using rv IsInJail_abs_path [OF nJ nq] r nq by (simp add: OsFS_ResolvePath_def)
  next
    case False
    then show ?thesis using rv IsInJail_abs_path [OF nJ nq] by (simp add: OsFS_ResolvePath_def)
  qed
qed

theorem osfs_follow_exact_witness:
  "fst (OsFS_ResolvePath ''/out/secret'' True (demo_fs, demo_world)) =
     Inl (escape_err ''/srv/secret'')"
proof -
  have h: "wd_ok demo_fs" "fs_jail demo_fs = abs_path demo_J" "names_ok demo_J"
    "virtual_path demo_fs ''/out/secret'' = abs_path [''out'', ''secret'']" "names_ok [''out'', ''secret'']"
    "\<not> dotdot_head [''out'', ''secret'']"
    "klookup demo_world True (abs_path (demo_J @ [''out'', ''secret''])) = Inr [''srv'', ''secret'']"
    "node (nodes demo_world) [''srv'', ''secret''] = Some (demo_inode (KFile ''s''))"
    by (simp add: wd_ok_def) code_simp+
  have "fst (OsFS_ResolvePath ''/out/secret'' True (demo_fs, demo_world)) =
     Inl (escape_err (abs_path [''srv'', ''secret'']))"
    using osfs_follow_exact [OF demo_jail_at h] by (simp add: demo_J_def)
  then show ?thesis by (simp add: abs_path_def)
qed

text \<open>
  C5. The lexical resolver is exact: the virtual path of any string is clean and absolute (\<open>..\<close>
  never climbs above the jail), and it is refused precisely when its first component begins with
  two dots - which, the path being clean, is a legal file name such as \<open>..data\<close>.
\<close>

theorem osfs_resolve_exact:
  assumes wd: "wd_ok fs" and jc: "fs_jail fs = abs_path jc" "names_ok jc"
  shows "OsFS_ResolvePath p False (fs, w) =
    (let vs = acomps (virtual_path fs p)
     in if dotdot_head vs then Inl (escape_err (abs_path (jc @ vs))) else Inr (abs_path vs), (fs, w)) \<and>
    names_ok (acomps (virtual_path fs p))"
proof -
  obtain vs where vs: "names_ok vs" "virtual_path fs p = abs_path vs"
    using virtual_path_clean [OF wd] by (rule clean_absE)
  then show ?thesis
    using resolveVirtual_plain [OF wd jc vs(2,1)] by (simp add: OsFS_ResolvePath_def Let_def)
qed

theorem osfs_resolve_exact_witness:
  "OsFS_ResolvePath ''../../..//x/./y'' False (demo_fs, demo_world) = (Inr ''/x/y'', (demo_fs, demo_world)) \<and>
   fst (OsFS_ResolvePath ''/..data'' False (demo_fs, demo_world)) = Inl (escape_err ''/srv/jail/..data'')"
proof -
  have h: "wd_ok demo_fs" "fs_jail demo_fs = abs_path demo_J" "names_ok demo_J"
    by (simp add: wd_ok_def) code_simp+
  have "acomps (virtual_path demo_fs ''../../..//x/./y'') = [''x'', ''y'']"
    "acomps (virtual_path demo_fs ''/..data'') = [''..data'']" "\<not> dotdot_head [''x'', ''y'']"
    "dotdot_head [''..data'']"
    by code_simp+
  then show ?thesis
    using osfs_resolve_exact [OF h, of "''../../..//x/./y''" demo_world]
      osfs_resolve_exact [OF h, of "''/..data''" demo_world]
    by (simp add: abs_path_def demo_J_def)
qed

section \<open>Writing\<close>

text \<open>
  C6. What is written through a path is read back through it, by \<open>WriteFile\<close> and by
  \<open>AtomicWriteFile\<close>, for every path that names an entry of a real directory of the jail and is not
  itself a link.
\<close>

theorem osfs_write_read:
  assumes pe: "plain_entry J fs w p r c"
  shows "(OsFS_WriteFile p data perm (fs, w) = (Inr (), s') \<longrightarrow> fst (OsFS_ReadFile p s') = Inr data) \<and>
    (OsFS_AtomicWriteFile p data perm (fs, w) = (Inr (), s') \<longrightarrow> fst (OsFS_ReadFile p s') = Inr data)"
proof (intro conjI impI)
  have jh: "jailed_host J (fs, w)" using pe by (simp add: plain_entry_def)
  assume a: "OsFS_WriteFile p data perm (fs, w) = (Inr (), s')"
  obtain fs' w' where s': "s' = (fs', w')" by (cases s')
  then have wr: "fs' = fs" "\<exists>i. node (nodes w') (J @ r @ [c]) = Some i \<and> kind i = KFile data"
    using plain_write [OF pe] a by auto
  have "op_frame J (fs, w) (fs, w')"
    using op_frame_jailed [OF jh, of "FWriteFile p data perm"] a s' wr(1) by simp
  then show "fst (OsFS_ReadFile p s') = Inr data"
    using wr s' plain_read plain_entry_after [OF pe] by fastforce
next
  have jh: "jailed_host J (fs, w)" using pe by (simp add: plain_entry_def)
  note d = plain_entryD [OF pe]
  assume a: "OsFS_AtomicWriteFile p data perm (fs, w) = (Inr (), s')"
  obtain fs' w' where s': "s' = (fs', w')" by (cases s')
  then have wr: "fs' = fs" "\<exists>i. node (nodes w') (J @ r @ [c]) = Some i \<and> kind i = KFile data"
    using plain_atomic [OF pe] a by auto
  have n: "names_ok ((J @ r) @ [c])" using d(5) by simp
  have "klookup w False (abs_path (J @ r @ [c])) = Inr (J @ r @ [c])"
    using entry_lookup [OF d(1,6) n] by simp
  then have "klookup w True (abs_path (J @ r @ [c])) = Inr (J @ r @ [c])"
    using resolve_follow [of "nodes w" max_links "[]" "J @ r @ [c]" "Inr (J @ r @ [c])"] d(5) pe
    by (simp add: klookup_abs_path plain_entry_def)
  then have "spares_root J (FAtomicWriteFile p data perm) (fs, w)"
    using plain_open [OF pe] by simp
  then have "op_frame J (fs, w) (fs, w')"
    using op_frame_jailed [OF jh, of "FAtomicWriteFile p data perm"] a s' wr(1) by simp
  then show "fst (OsFS_ReadFile p s') = Inr data"
    using wr s' plain_read plain_entry_after [OF pe] by fastforce
qed

lemma demo_entry: "plain_entry demo_J demo_fs demo_world ''new'' [''d''] ''new''"
proof -
  have "virtual_path demo_fs ''new'' = abs_path ([''d''] @ [''new''])" "names_ok ([''d''] @ [''new''])"
    "\<not> dotdot_head ([''d''] @ [''new''])" "is_dir_at demo_tree (demo_J @ [''d''])"
    "node demo_tree (demo_J @ [''d''] @ [''new'']) = None" "wd_ok demo_fs"
    by (code_simp, code_simp, code_simp, code_simp, code_simp) (simp add: wd_ok_def, code_simp)
  then show ?thesis by (simp add: plain_entry_def demo_jail)
qed

theorem osfs_write_read_witness:
  "fst (OsFS_ReadFile ''new'' (snd (OsFS_AtomicWriteFile ''new'' ''hello'' 0x1A4 (demo_fs, demo_world)))) =
     Inr ''hello''"
proof -
  have "fst (OsFS_AtomicWriteFile ''new'' ''hello'' 0x1A4 (demo_fs, demo_world)) = Inr ()" by code_simp
  then have "OsFS_AtomicWriteFile ''new'' ''hello'' 0x1A4 (demo_fs, demo_world) =
      (Inr (), snd (OsFS_AtomicWriteFile ''new'' ''hello'' 0x1A4 (demo_fs, demo_world)))"
    by (metis prod.collapse)
  then show ?thesis using osfs_write_read [OF demo_entry] by blast
qed

text \<open>
  C7. An atomic write into an existing directory is all or nothing, whatever calls fail and after
  however many bytes: on success the target holds the data, with the requested mode unless the
  chmod failed, and nothing else has changed; on an error the target and everything else are as
  they were, except that the temporary file (never the target) stays if its removal failed too.
\<close>

theorem atomic_write_all_or_nothing:
  assumes "atomicWriteFile (abs_path (D @ [c])) data perm w = (r, w')"
    and "tree_ok (nodes w)" and "is_dir_at (nodes w) D" and "names_ok (D @ [c])" and "plain_randoms w"
  shows "\<exists>t. t \<noteq> c \<and> (case r of
      Inl e \<Rightarrow> (\<forall>q. q \<noteq> D @ [t] \<or> faults w SysUnlink (abs_path (D @ [t])) = None \<longrightarrow>
          node (nodes w') q = node (nodes w) q)
    | Inr u \<Rightarrow> (\<exists>i. node (nodes w') (D @ [c]) = Some i \<and> kind i = KFile data \<and>
          (faults w SysChmod (abs_path (D @ [t])) = None \<longrightarrow> mode i = perm)) \<and>
        (\<forall>q. q \<noteq> D @ [c] \<longrightarrow> node (nodes w') q = node (nodes w) q))"
proof -
  obtain t where "t \<noteq> c" and *: "(case r of
      Inl e \<Rightarrow> same_but {D @ [t]} w w' \<and>
        (faults w SysUnlink (abs_path (D @ [t])) = None \<longrightarrow> same_but {} w w')
    | Inr u \<Rightarrow> \<exists>j. node (nodes w') (D @ [c]) = Some j \<and> kind j = KFile data \<and>
        (faults w SysChmod (abs_path (D @ [t])) = None \<longrightarrow> mode j = perm) \<and>
        same_but {D @ [c]} w w')"
    using atomicWriteFile_cases [OF assms] by blast
  then show ?thesis
    by (intro exI [of _ t]) (cases r, auto simp: same_but_def)
qed

text \<open>A disk that fills up after two bytes of the write.\<close>

definition full_world :: world where
  "full_world = demo_world\<lparr>faults := (\<lambda>c p. if c = SysWrite then Some (ENOSPC, 2) else None)\<rparr>"

theorem atomic_write_all_or_nothing_witness:
  "node (nodes (snd (atomicWriteFile ''/srv/jail/f'' ''new content'' 0x1A4 full_world))) =
   node demo_tree"
proof -
  obtain e w' where r: "atomicWriteFile ''/srv/jail/f'' ''new content'' 0x1A4 full_world = (Inl e, w')"
  proof -
    have "\<not> isl (Inr () :: goerr + unit)" by simp
    have "isl (fst (atomicWriteFile ''/srv/jail/f'' ''new content'' 0x1A4 full_world))" by code_simp
    then show ?thesis using that by (metis isl_def prod.collapse)
  qed
  have h: "atomicWriteFile (abs_path (demo_J @ [''f''])) ''new content'' 0x1A4 full_world = (Inl e, w')"
    using r by (simp add: abs_path_def demo_J_def)
  have w: "nodes full_world = demo_tree" "plain_randoms full_world" "faults full_world SysUnlink p = None" for p
    by (simp_all add: full_world_def demo_world_def plain_randoms_def)
  have d: "is_dir_at demo_tree demo_J" "names_ok (demo_J @ [''f''])" by code_simp+
  have "node (nodes w') q = node demo_tree q" for q
    using atomic_write_all_or_nothing [OF h] demo_ok w d by auto
  then show ?thesis using r by (simp add: fun_eq_iff)
qed

section \<open>State of the file system\<close>

text \<open>
  C8. The working directory of an initialised file system stays a clean absolute virtual path
  through every operation, whatever the jail is, and no operation changes the jail (\<open>SetJail\<close> is not
  one of them). Only a successful \<open>Setwd\<close> changes the directory: to the virtual path of its argument.
\<close>

theorem osfs_wd_invariant:
  assumes wd: "wd_ok fs" and fs': "fs' = fst (run_op op (fs, w))"
  shows "wd_ok fs' \<and> fs_jail fs' = fs_jail fs \<and>
    (fs' = fs \<or> (\<exists>p. op = FSetwd p \<and> fst (OsFS_Setwd p (fs, w)) = Inr () \<and> fs_wd fs' = virtual_path fs p))"
proof (cases "\<exists>p. op = FSetwd p")
  case True
  then obtain p where p: "op = FSetwd p" by blast
  then show ?thesis using wd_Setwd [OF wd, of p w] wd_ok_Setwd [OF wd, of p w] wd fs' by auto
next
  case False
  then show ?thesis using run_op_fs [OF wd, of op w] wd fs' by simp
qed

theorem osfs_wd_invariant_witness:
  "let fs' = fst (run_op (FSetwd ''../nowhere/../x'') (demo_fs, demo_world))
   in wd_ok fs' \<and> fs_jail fs' = ''/srv/jail'' \<and> fs_wd fs' = ''/x''"
proof -
  have wd: "wd_ok demo_fs" by (simp add: wd_ok_def) code_simp
  have "fs_jail demo_fs = ''/srv/jail''" by code_simp
  moreover have "fs_wd (fst (run_op (FSetwd ''../nowhere/../x'') (demo_fs, demo_world))) = ''/x''" by code_simp
  ultimately show ?thesis
    using osfs_wd_invariant [OF wd refl, of "FSetwd ''../nowhere/../x''" demo_world] by (simp add: Let_def)
qed

section \<open>Where something is created\<close>

text \<open>
  C9. A host path handed to a creating or removing call, when it leads anywhere, is the jail's own
  path or the path of an entry of a real directory of the jail, in canonical form: no symbolic
  link is left on the way for the operating system to follow.
\<close>

theorem osfs_create_canonical:
  assumes "jail_at J fs w" and "fst (resolveHostForCreate p (fs, w)) = Inr host"
    and "klookup w False host = Inr q"
  shows "prefix J q \<and>
    (host = fs_jail fs \<or>
     (\<exists>R c. q = R @ [c] \<and> host = abs_path q \<and> prefix J R \<and> canonical (nodes w) R \<and> is_dir_at (nodes w) R))"
proof -
  obtain fs' w' where "resolveHostForCreate p (fs, w) = (Inr host, (fs', w'))"
    using assms(2) by (metis prod.collapse)
  then have ch: "create_host J fs w host" using resolveHostForCreate_shape [OF assms(1)] by blast
  have "prefix J q" using below_prefix [OF create_host_below [OF ch assms(1)] assms(3)] .
  then show ?thesis using create_host_lookup [OF ch assms(1,3)] by blast
qed

theorem osfs_create_canonical_witness:
  "\<exists>R c. [''srv'', ''jail'', ''d'', ''x''] = R @ [c] \<and> is_dir_at demo_tree R"
proof -
  have "fst (resolveHostForCreate ''x'' (demo_fs, demo_world)) = Inr ''/srv/jail/d/x''"
    "klookup demo_world False ''/srv/jail/d/x'' = Inr [''srv'', ''jail'', ''d'', ''x'']"
    "''/srv/jail/d/x'' \<noteq> fs_jail demo_fs"
    by code_simp+
  then show ?thesis using osfs_create_canonical [OF demo_jail_at] by fastforce
qed

section \<open>The root of the jail\<close>

text \<open>
  An atomic write onto the jail's root makes its temporary file beside the jail; if its removal
  fails too, the file stays outside.
\<close>

definition stuck_world :: world where
  "stuck_world = demo_world\<lparr>faults := (\<lambda>c p. if c = SysUnlink then Some (EIO, 0) else None)\<rparr>"

lemma atomic_root_leaks:
  "node demo_tree [''srv'', ''.tmp-jail.7''] = None \<and>
   node (nodes (snd (snd (OsFS_AtomicWriteFile ''/'' ''x'' 0x1A4 (demo_fs, stuck_world)))))
     [''srv'', ''.tmp-jail.7''] \<noteq> None"
proof
  show "node demo_tree [''srv'', ''.tmp-jail.7''] = None" by code_simp
  have "map_option mode (node (nodes (snd (snd (OsFS_AtomicWriteFile ''/'' ''x'' 0x1A4 (demo_fs, stuck_world)))))
     [''srv'', ''.tmp-jail.7'']) = Some 0x1A4" by code_simp
  then show "node (nodes (snd (snd (OsFS_AtomicWriteFile ''/'' ''x'' 0x1A4 (demo_fs, stuck_world)))))
     [''srv'', ''.tmp-jail.7''] \<noteq> None" by auto
qed

end
