(* ===== verification/GoHeap.thy ===== *)
theory GoHeap
  imports Prelude "HOL-Library.Multiset"
begin

text \<open>
  Go's \<open>container/heap\<close>, over the interface it asks of its client (\<open>Len\<close>, \<open>Less\<close>, \<open>Swap\<close>), and the
  contract that makes it a priority queue: the client's elements have keys in a linear order,
  \<open>Less\<close> compares them and \<open>Swap\<close> exchanges two of them. The scheduler of the test clock is the
  client; it discharges the contract for its own heap of entries.
\<close>

section \<open>The algorithms\<close>

text \<open>\<open>(j - 1) / 2\<close>, which Go rounds towards zero: the parent of 0 is 0.\<close>

definition parent :: "nat \<Rightarrow> nat" where
  "parent j = (j - 1) div 2"

lemma parent_less: "0 < k \<Longrightarrow> parent k < k"
  by (simp add: parent_def)

lemma parent_iff: "0 < k \<Longrightarrow> parent k = i \<longleftrightarrow> k = 2 * i + 1 \<or> k = 2 * i + 2"
  unfolding parent_def by presburger

lemma parent_other: "parent j \<noteq> j \<Longrightarrow> parent j < j"
  by (cases "j = 0") (auto simp: parent_def)

lemma parent_0 [simp]: "parent 0 = 0"
  by (simp add: parent_def)

function heap_up :: "('s \<Rightarrow> nat \<Rightarrow> nat \<Rightarrow> bool) \<Rightarrow> (nat \<Rightarrow> nat \<Rightarrow> 's \<Rightarrow> 's) \<Rightarrow> nat \<Rightarrow> 's \<Rightarrow> 's" where
  "heap_up lessf swap j s =
     (let i = parent j
      in if i = j \<or> \<not> lessf s j i then s else heap_up lessf swap i (swap i j s))"
  by pat_completeness auto
termination
  by (relation "measure (\<lambda>(lessf, swap, j, s). j)") (auto simp: parent_other)

declare heap_up.simps [simp del]

function heap_down ::
  "('s \<Rightarrow> nat \<Rightarrow> nat \<Rightarrow> bool) \<Rightarrow> (nat \<Rightarrow> nat \<Rightarrow> 's \<Rightarrow> 's) \<Rightarrow> nat \<Rightarrow> nat \<Rightarrow> 's \<Rightarrow> 's" where
  "heap_down lessf swap i n s =
     (let j1 = 2 * i + 1
      in if j1 \<ge> n then s
         else let j2 = j1 + 1;
                  j = (if j2 < n \<and> lessf s j2 j1 then j2 else j1)
              in if \<not> lessf s j i then s else heap_down lessf swap j n (swap i j s))"
  by pat_completeness auto
termination
  by (relation "measure (\<lambda>(lessf, swap, i, n, s). n - i)") (auto simp: Let_def split: if_splits)

declare heap_down.simps [simp del]

text \<open>\<open>Push\<close> after the client's own \<open>Push\<close>; \<open>Pop\<close> before the client's own \<open>Pop\<close>.\<close>

definition heap_push_up :: "('s \<Rightarrow> nat \<Rightarrow> nat \<Rightarrow> bool) \<Rightarrow> (nat \<Rightarrow> nat \<Rightarrow> 's \<Rightarrow> 's) \<Rightarrow> ('s \<Rightarrow> nat) \<Rightarrow> 's \<Rightarrow> 's" where
  "heap_push_up lessf swap len s = heap_up lessf swap (len s - 1) s"

definition heap_pop_down :: "('s \<Rightarrow> nat \<Rightarrow> nat \<Rightarrow> bool) \<Rightarrow> (nat \<Rightarrow> nat \<Rightarrow> 's \<Rightarrow> 's) \<Rightarrow> ('s \<Rightarrow> nat) \<Rightarrow> 's \<Rightarrow> 's" where
  "heap_pop_down lessf swap len s = (let n = len s - 1 in heap_down lessf swap 0 n (swap 0 n s))"

section \<open>Heaps of keys\<close>

definition swap_list :: "nat \<Rightarrow> nat \<Rightarrow> 'a list \<Rightarrow> 'a list" where
  "swap_list i j xs = xs[i := xs ! j, j := xs ! i]"

lemma length_swap_list [simp]: "length (swap_list i j xs) = length xs"
  by (simp add: swap_list_def)

lemma nth_swap_list:
  "i < length xs \<Longrightarrow> j < length xs \<Longrightarrow>
   swap_list i j xs ! k = (if k = i then xs ! j else if k = j then xs ! i else xs ! k)"
  by (cases "k < length xs") (auto simp: swap_list_def nth_list_update)

lemma map_swap_list:
  "i < length xs \<Longrightarrow> j < length xs \<Longrightarrow> map f (swap_list i j xs) = swap_list i j (map f xs)"
  by (simp add: swap_list_def map_update)

lemma mset_swap_list [simp]:
  "i < length xs \<Longrightarrow> j < length xs \<Longrightarrow> mset (swap_list i j xs) = mset xs"
  unfolding swap_list_def by (rule mset_swap)

text \<open>
  The first \<open>n\<close> elements form a heap, except possibly for the edge into \<open>bad\<close> or the edges out of
  it (\<open>swim\<close> and \<open>sink\<close> repair the one and the other).
\<close>

definition heap_but :: "nat \<Rightarrow> (nat \<Rightarrow> nat \<Rightarrow> bool) \<Rightarrow> 'k::linorder list \<Rightarrow> bool" where
  "heap_but n bad ks \<longleftrightarrow>
     (\<forall>k. 0 < k \<longrightarrow> k < n \<longrightarrow> \<not> bad (parent k) k \<longrightarrow> ks ! (parent k) \<le> ks ! k)"

definition is_heap :: "nat \<Rightarrow> 'k::linorder list \<Rightarrow> bool" where
  "is_heap n ks \<longleftrightarrow> (\<forall>k. 0 < k \<longrightarrow> k < n \<longrightarrow> ks ! (parent k) \<le> ks ! k)"

text \<open>Only the edge into \<open>j\<close> is broken, and the children of \<open>j\<close> are above its parent.\<close>

definition swim :: "nat \<Rightarrow> nat \<Rightarrow> 'k::linorder list \<Rightarrow> bool" where
  "swim n j ks \<longleftrightarrow>
     (\<forall>k. 0 < k \<longrightarrow> k < n \<longrightarrow> k \<noteq> j \<longrightarrow> ks ! (parent k) \<le> ks ! k) \<and>
     (\<forall>k. 0 < k \<longrightarrow> k < n \<longrightarrow> parent k = j \<longrightarrow> 0 < j \<longrightarrow> ks ! (parent j) \<le> ks ! k)"

text \<open>Only the edges out of \<open>i\<close> are broken, and its children are above its parent.\<close>

definition sink :: "nat \<Rightarrow> nat \<Rightarrow> 'k::linorder list \<Rightarrow> bool" where
  "sink n i ks \<longleftrightarrow>
     (\<forall>k. 0 < k \<longrightarrow> k < n \<longrightarrow> parent k \<noteq> i \<longrightarrow> ks ! (parent k) \<le> ks ! k) \<and>
     (\<forall>k. 0 < k \<longrightarrow> k < n \<longrightarrow> parent k = i \<longrightarrow> 0 < i \<longrightarrow> ks ! (parent i) \<le> ks ! k)"

lemma is_heap_root:
  assumes "is_heap n ks" and "k < n"
  shows "ks ! 0 \<le> ks ! k"
  using assms(2)
proof (induction k rule: less_induct)
  case (less k)
  show ?case
  proof (cases "k = 0")
    case False
    then have "parent k < k" using parent_less by simp
    then have "ks ! 0 \<le> ks ! (parent k)" using less by simp
    also have "\<dots> \<le> ks ! k" using assms(1) less.prems False by (simp add: is_heap_def)
    finally show ?thesis .
  qed simp
qed

lemma swim_done:
  assumes "swim n j ks" and "j = 0 \<or> ks ! (parent j) \<le> ks ! j"
  shows "is_heap n ks"
  using assms by (auto simp: swim_def is_heap_def)

lemma swim_step:
  assumes s: "swim n j ks" and j: "0 < j" "j < n" "n \<le> length ks"
    and lt: "ks ! j < ks ! (parent j)"
  shows "swim n (parent j) (swap_list (parent j) j ks)"
proof -
  let ?i = "parent j"
  have "?i < j" using j(1) by (rule parent_less)
  then have i: "?i < j" "?i < length ks" "j < length ks" using j by linarith+
  note nth = nth_swap_list [OF i(2,3)]
  note par = parent_less
  show ?thesis
    unfolding swim_def
  proof (intro conjI allI impI)
    fix k
    assume k: "0 < k" "k < n" "k \<noteq> ?i"
    show "swap_list ?i j ks ! (parent k) \<le> swap_list ?i j ks ! k"
    proof (cases "k = j")
      case True
      then show ?thesis using lt i by (simp add: nth)
    next
      case kj: False
      consider "parent k = j" | "parent k = ?i" | "parent k \<noteq> j" "parent k \<noteq> ?i"
        by blast
      then show ?thesis
      proof cases
        case 1
        then show ?thesis using s k kj j i by (simp add: nth swim_def)
      next
        case 2
        then have "ks ! ?i \<le> ks ! k" using s k kj by (metis swim_def)
        then show ?thesis using 2 k kj i lt by (simp add: nth)
      next
        case 3
        then show ?thesis using s k kj by (simp add: nth swim_def)
      qed
    qed
  next
    fix k
    assume k: "0 < k" "k < n" "parent k = ?i" "0 < ?i"
    have ip: "parent ?i < ?i" using k(4) par by simp
    have up: "ks ! (parent ?i) \<le> ks ! ?i" using s k(4) i(1) j(2) by (simp add: swim_def)
    have ki: "?i < k" using k(1,3) par [of k] by simp
    have "ks ! ?i \<le> ks ! k \<or> k = j" using s k by (metis swim_def)
    then show "swap_list ?i j ks ! (parent ?i) \<le> swap_list ?i j ks ! k"
      using up ip i ki by (auto simp: nth)
  qed
qed

lemma sink_done:
  assumes "sink n i ks" and "\<And>k. 0 < k \<Longrightarrow> k < n \<Longrightarrow> parent k = i \<Longrightarrow> ks ! i \<le> ks ! k"
  shows "is_heap n ks"
  unfolding is_heap_def
proof (intro allI impI)
  fix k
  assume k: "0 < k" "k < n"
  show "ks ! parent k \<le> ks ! k"
    using assms k by (cases "parent k = i") (auto simp: sink_def)
qed

lemma sink_step:
  assumes s: "sink n i ks" and n: "n \<le> length ks" and j: "j < n" "j = 2 * i + 1 \<or> j = 2 * i + 2"
    and lt: "ks ! j < ks ! i"
    and least: "\<And>k. k < n \<Longrightarrow> k = 2 * i + 1 \<or> k = 2 * i + 2 \<Longrightarrow> ks ! j \<le> ks ! k"
  shows "sink n j (swap_list i j ks)"
proof -
  have i: "i < j" "i < length ks" "j < length ks" using j n by auto
  have pj: "parent j = i" using j(2) parent_iff [of j i] by auto
  note nth = nth_swap_list [OF i(2,3)]
  show ?thesis
    unfolding sink_def
  proof (intro conjI allI impI)
    fix k
    assume k: "0 < k" "k < n" "parent k \<noteq> j"
    show "swap_list i j ks ! (parent k) \<le> swap_list i j ks ! k"
    proof (cases "parent k = i")
      case True
      then have c: "k = 2 * i + 1 \<or> k = 2 * i + 2" using parent_iff k(1) by blast
      then have "k \<noteq> i" by auto
      then show ?thesis using True least [OF k(2) c] lt by (auto simp: nth)
    next
      case False
      have e: "ks ! (parent k) \<le> ks ! k" using s k False by (simp add: sink_def)
      show ?thesis
      proof (cases "k = i")
        case True
        have "ks ! (parent i) \<le> ks ! j" using s True k j pj i(1) by (simp add: sink_def)
        moreover have "parent k \<noteq> i" using False .
        ultimately show ?thesis using True k(3) by (simp add: nth)
      next
        case ki: False
        then have "k \<noteq> j" using False pj by auto
        then show ?thesis using e False k(3) ki by (simp add: nth)
      qed
    qed
  next
    fix k
    assume k: "0 < k" "k < n" "parent k = j" "0 < j"
    have "k \<noteq> i" "k \<noteq> j" using k i(1) parent_less [of k] by auto
    moreover have "ks ! j \<le> ks ! k" using s k i(1) by (auto simp: sink_def)
    ultimately show "swap_list i j ks ! (parent j) \<le> swap_list i j ks ! k"
      using pj by (simp add: nth)
  qed
qed

section \<open>The contract\<close>

text \<open>
  \<open>elems\<close> reads the elements in array order and \<open>key\<close> what they are compared by; \<open>inv\<close> is whatever
  the client wants its exchanges to preserve.
\<close>

locale heap_client =
  fixes lessf :: "'s \<Rightarrow> nat \<Rightarrow> nat \<Rightarrow> bool"
    and swap :: "nat \<Rightarrow> nat \<Rightarrow> 's \<Rightarrow> 's"
    and elems :: "'s \<Rightarrow> 'e list"
    and key :: "'e \<Rightarrow> 'k::linorder"
    and inv :: "'s \<Rightarrow> bool"
  assumes less_key: "inv s \<Longrightarrow> i < length (elems s) \<Longrightarrow> j < length (elems s) \<Longrightarrow>
      lessf s i j \<longleftrightarrow> key (elems s ! i) < key (elems s ! j)"
    and swap_elems: "inv s \<Longrightarrow> i < length (elems s) \<Longrightarrow> j < length (elems s) \<Longrightarrow>
      elems (swap i j s) = swap_list i j (elems s)"
    and swap_inv: "inv s \<Longrightarrow> i < length (elems s) \<Longrightarrow> j < length (elems s) \<Longrightarrow> inv (swap i j s)"
begin

lemma up_correct:
  "inv s \<Longrightarrow> j < n \<Longrightarrow> n \<le> length (elems s) \<Longrightarrow> swim n j (map key (elems s)) \<Longrightarrow>
   is_heap n (map key (elems (heap_up lessf swap j s))) \<and>
   mset (elems (heap_up lessf swap j s)) = mset (elems s) \<and> inv (heap_up lessf swap j s)"
proof (induction j arbitrary: s rule: less_induct)
  case (less j)
  let ?i = "parent j" and ?ks = "map key (elems s)"
  have jl: "j < length (elems s)" using less.prems by simp
  show ?case
  proof (cases "?i = j \<or> \<not> lessf s j ?i")
    case True
    have "j = 0 \<or> ?ks ! ?i \<le> ?ks ! j"
      using True less_key [OF less.prems(1) jl, of ?i] jl parent_less [of j]
      by (cases "j = 0") (auto simp: not_less)
    then show ?thesis
      using True swim_done less.prems by (auto simp: heap_up.simps [of lessf swap j s] Let_def)
  next
    case False
    then have j0: "0 < j" by (cases "j = 0") auto
    then have i: "?i < j" by (rule parent_less)
    then have il: "?i < length (elems s)" using jl by simp
    have lt: "?ks ! j < ?ks ! ?i" using False less_key [OF less.prems(1) jl il] jl il by simp
    have sk: "elems (swap ?i j s) = swap_list ?i j (elems s)" using swap_elems [OF less.prems(1) il jl] .
    have "swim n ?i (map key (elems (swap ?i j s)))"
      using swim_step [OF less.prems(4) j0 less.prems(2) _ lt] less.prems(3) by (simp add: sk map_swap_list il jl)
    then have "is_heap n (map key (elems (heap_up lessf swap ?i (swap ?i j s)))) \<and>
        mset (elems (heap_up lessf swap ?i (swap ?i j s))) = mset (elems (swap ?i j s)) \<and>
        inv (heap_up lessf swap ?i (swap ?i j s))"
      using less.IH [OF i, of "swap ?i j s"] swap_inv [OF less.prems(1) il jl] less.prems(2,3) i sk by simp
    then show ?thesis using False sk il jl by (simp add: heap_up.simps [of lessf swap j s] Let_def)
  qed
qed

lemma down_correct:
  "inv s \<Longrightarrow> n \<le> length (elems s) \<Longrightarrow> sink n i (map key (elems s)) \<Longrightarrow>
   is_heap n (map key (elems (heap_down lessf swap i n s))) \<and>
   mset (take n (elems (heap_down lessf swap i n s))) = mset (take n (elems s)) \<and>
   drop n (elems (heap_down lessf swap i n s)) = drop n (elems s) \<and>
   inv (heap_down lessf swap i n s) \<and> length (elems (heap_down lessf swap i n s)) = length (elems s)"
proof (induction "n - i" arbitrary: i s rule: less_induct)
  case less
  let ?j1 = "2 * i + 1"
  let ?j = "if ?j1 + 1 < n \<and> lessf s (?j1 + 1) ?j1 then ?j1 + 1 else ?j1"
  let ?ks = "map key (elems s)"
  define j where "j = ?j"
  have eq: "heap_down lessf swap i n s =
      (if n \<le> ?j1 then s else if \<not> lessf s j i then s else heap_down lessf swap j n (swap i j s))"
    by (simp only: heap_down.simps [of lessf swap i n s] Let_def j_def)
  show ?case
  proof (cases "n \<le> ?j1")
    case True
    have "is_heap n ?ks"
      using less.prems(3) by (rule sink_done) (use True parent_iff in auto)
    then show ?thesis using True less.prems by (simp add: eq)
  next
    case False
    have j: "j < n" "j = 2 * i + 1 \<or> j = 2 * i + 2" "i < j" using False by (auto simp: j_def)
    have least: "?ks ! j \<le> ?ks ! k" if "k < n" "k = 2 * i + 1 \<or> k = 2 * i + 2" for k
      using that less_key [OF less.prems(1), of "?j1 + 1" ?j1] less.prems(2) False
      by (auto simp: not_less j_def)
    have jn: "i < length (elems s)" "j < length (elems s)" "i < n" "j < n"
      using j less.prems(2) by linarith+
    have lk: "lessf s j i \<longleftrightarrow> ?ks ! j < ?ks ! i"
      using less_key [OF less.prems(1)] jn by simp
    show ?thesis
    proof (cases "lessf s j i")
      case nl: False
      have "is_heap n ?ks"
      proof (rule sink_done [OF less.prems(3)])
        fix k
        assume k: "0 < k" "k < n" "parent k = i"
        then have "?ks ! j \<le> ?ks ! k" using least parent_iff by blast
        then show "?ks ! i \<le> ?ks ! k" using lk nl by (simp add: not_less)
      qed
      then show ?thesis using False nl less.prems by (simp add: eq)
    next
      case True
      define s1 where "s1 = swap i j s"
      have k1: "elems s1 = swap_list i j (elems s)"
        using swap_elems [OF less.prems(1) jn(1,2)] by (simp add: s1_def)
      have i1: "inv s1" using swap_inv [OF less.prems(1) jn(1,2)] by (simp add: s1_def)
      have lt: "?ks ! j < ?ks ! i" using True lk by simp
      have "sink n j (swap_list i j ?ks)"
        by (rule sink_step [OF less.prems(3) _ j(1,2) lt]) (use least less.prems(2) in simp_all)
      then have sk: "sink n j (map key (elems s1))" using jn by (simp add: k1 map_swap_list)
      have tk: "take n (elems s1) = swap_list i j (take n (elems s))"
        using jn less.prems(2) by (simp add: k1 swap_list_def take_update_swap)
      have dr: "drop n (elems s1) = drop n (elems s)" using jn by (simp add: k1 swap_list_def)
      have "heap_down lessf swap i n s = heap_down lessf swap j n s1"
        using False True by (simp add: eq s1_def)
      moreover have "n - j < n - i" using j by linarith
      ultimately show ?thesis
        using less.hyps [of j s1] i1 sk k1 tk dr less.prems(2) jn by simp
    qed
  qed
qed

lemma push_correct:
  assumes "inv s" and "length (elems s) = Suc n" and "is_heap n (map key (elems s))" and "len s = Suc n"
  shows "is_heap (Suc n) (map key (elems (heap_push_up lessf swap len s)))"
    and "mset (elems (heap_push_up lessf swap len s)) = mset (elems s)"
    and "inv (heap_push_up lessf swap len s)"
proof -
  have "swim (Suc n) n (map key (elems s))"
    unfolding swim_def
  proof (intro conjI allI impI)
    fix k
    assume "0 < k" "k < Suc n" "k \<noteq> n"
    then show "map key (elems s) ! parent k \<le> map key (elems s) ! k"
      using assms(3) by (simp add: is_heap_def)
  next
    fix k
    assume "0 < k" "k < Suc n" "parent k = n"
    then show "map key (elems s) ! parent n \<le> map key (elems s) ! k" using parent_less [of k] by simp
  qed
  note u = up_correct [OF assms(1) _ _ this]
  show "is_heap (Suc n) (map key (elems (heap_push_up lessf swap len s)))"
    "mset (elems (heap_push_up lessf swap len s)) = mset (elems s)"
    "inv (heap_push_up lessf swap len s)"
    using u assms(2,4) by (simp_all add: heap_push_up_def)
qed

lemma pop_correct:
  assumes "inv s" and "length (elems s) = Suc n" and "is_heap (Suc n) (map key (elems s))"
    and "len s = Suc n"
  shows "is_heap n (map key (elems (heap_pop_down lessf swap len s)))"
    and "mset (elems (heap_pop_down lessf swap len s)) = mset (elems s)"
    and "inv (heap_pop_down lessf swap len s)"
    and "length (elems (heap_pop_down lessf swap len s)) = Suc n"
    and "elems (heap_pop_down lessf swap len s) ! n = elems s ! 0"
    and "\<forall>e \<in> set (elems s). key (elems s ! 0) \<le> key e"
proof -
  define s1 where "s1 = swap 0 n s"
  have k1: "elems s1 = swap_list 0 n (elems s)" using swap_elems [OF assms(1)] assms(2) by (simp add: s1_def)
  have i1: "inv s1" using swap_inv [OF assms(1)] assms(2) by (simp add: s1_def)
  have nth: "elems s1 ! k = (if k = 0 then elems s ! n else if k = n then elems s ! 0 else elems s ! k)" for k
    using assms(2) by (simp add: k1 nth_swap_list)
  have len: "length (elems s1) = Suc n" using assms(2) by (simp add: k1)
  have sk: "sink n 0 (map key (elems s1))"
    unfolding sink_def
  proof (intro conjI allI impI)
    fix k
    assume k: "0 < k" "k < n" "parent k \<noteq> 0"
    then have "parent k < n" using parent_less [of k] by linarith
    moreover have "map key (elems s) ! parent k \<le> map key (elems s) ! k"
      using k assms(3) by (simp add: is_heap_def)
    ultimately show "map key (elems s1) ! parent k \<le> map key (elems s1) ! k"
      using k assms(2) len by (simp add: nth)
  qed simp
  note d = down_correct [OF i1 _ sk]
  let ?r = "heap_down lessf swap 0 n s1"
  have r: "is_heap n (map key (elems ?r))" "mset (take n (elems ?r)) = mset (take n (elems s1))"
      "drop n (elems ?r) = drop n (elems s1)" "inv ?r" "length (elems ?r) = Suc n"
    using d len by auto
  have "mset (elems ?r) = mset (take n (elems ?r)) + mset (drop n (elems ?r))"
    by (metis append_take_drop_id mset_append)
  also have "\<dots> = mset (elems s1)" unfolding r(2,3) by (metis append_take_drop_id mset_append)
  also have "\<dots> = mset (elems s)" using assms(2) by (simp add: k1)
  finally have m: "mset (elems ?r) = mset (elems s)" .
  have "elems ?r ! n = drop n (elems ?r) ! 0" using r(5) by simp
  also have "\<dots> = elems s ! 0" using r(3) nth [of n] len by auto
  finally have l: "elems ?r ! n = elems s ! 0" .
  have e: "heap_pop_down lessf swap len s = ?r"
    using assms(4) by (simp add: heap_pop_down_def s1_def Let_def)
  show "is_heap n (map key (elems (heap_pop_down lessf swap len s)))"
    "mset (elems (heap_pop_down lessf swap len s)) = mset (elems s)"
    "inv (heap_pop_down lessf swap len s)" "length (elems (heap_pop_down lessf swap len s)) = Suc n"
    "elems (heap_pop_down lessf swap len s) ! n = elems s ! 0"
    using r m l by (simp_all add: e)
  show "\<forall>e \<in> set (elems s). key (elems s ! 0) \<le> key e"
    using is_heap_root [OF assms(3)] assms(2) by (fastforce simp: in_set_conv_nth)
qed

end

end
