(* ===== verification/Clock.thy ===== *)
theory Clock
  imports GoHeap "HOL-Library.Word" "HOL-Library.Product_Lexorder"
begin

text \<open>
  \<open>src/clock\<close>: the test clock (\<open>clock.go\<close>) and its event scheduler (\<open>scheduler.go\<close>). A
  \<open>time.Time\<close> is its instant in nanoseconds, a \<open>time.Duration\<close> the 64-bit word it is. The Go
  pointers to entries and ticker states are indices into the two stores; a channel with a buffer of
  one is the value waiting in it. \<open>TestClock.now\<close>, which the scheduler reads through a pointer, is a
  field of the one state. Locks are dropped: every method runs to completion.
\<close>

type_synonym duration = "64 word"

section \<open>Entries\<close>

datatype entryKind = kindTicker | kindAfterFunc | kindAfter

record tickerState =
  stopped :: bool
  ch :: nat
  period :: duration

record schedEntry =
  deadline :: int
  ent_id :: "64 word"
  ent_kind :: entryKind
  dead :: bool
  index :: int
  ticker :: "nat option"
  fn :: "nat option"
  afterC :: "nat option"

text \<open>
  \<open>launched\<close> records the callbacks for which \<open>go fn()\<close> was executed, in order.
\<close>

record clk =
  now :: int
  nextID :: "64 word"
  entries :: "nat list"
  store :: "schedEntry list"
  tickers :: "tickerState list"
  chans :: "int option list"
  launched :: "nat list"

definition newScheduler :: "int \<Rightarrow> clk" where
  "newScheduler t = \<lparr>now = t, nextID = 0, entries = [], store = [], tickers = [], chans = [], launched = []\<rparr>"

definition NewTestClock :: "int \<Rightarrow> clk" where
  "NewTestClock initial = newScheduler initial"

section \<open>heap.Interface of schedHeap\<close>

definition HeapLen :: "clk \<Rightarrow> nat" where
  "HeapLen s = length (entries s)"

definition entry_at :: "clk \<Rightarrow> nat \<Rightarrow> schedEntry" where
  "entry_at s i = store s ! (entries s ! i)"

definition HeapLess :: "clk \<Rightarrow> nat \<Rightarrow> nat \<Rightarrow> bool" where
  "HeapLess s i j =
     (if deadline (entry_at s i) = deadline (entry_at s j)
      then ent_id (entry_at s i) < ent_id (entry_at s j)
      else deadline (entry_at s i) < deadline (entry_at s j))"

definition upd_entry :: "nat \<Rightarrow> (schedEntry \<Rightarrow> schedEntry) \<Rightarrow> clk \<Rightarrow> clk" where
  "upd_entry r f s = s\<lparr>store := (store s)[r := f (store s ! r)]\<rparr>"

definition set_index :: "nat \<Rightarrow> int \<Rightarrow> clk \<Rightarrow> clk" where
  "set_index r i = upd_entry r (\<lambda>e. e\<lparr>index := i\<rparr>)"

definition HeapSwap :: "nat \<Rightarrow> nat \<Rightarrow> clk \<Rightarrow> clk" where
  "HeapSwap i j s =
     (let h = (entries s)[i := entries s ! j, j := entries s ! i];
          s1 = s\<lparr>entries := h\<rparr>;
          s2 = set_index (h ! i) (int i) s1
      in set_index (h ! j) (int j) s2)"

definition HeapPush :: "nat \<Rightarrow> clk \<Rightarrow> clk" where
  "HeapPush r s = (let s1 = set_index r (int (HeapLen s)) s in s1\<lparr>entries := entries s1 @ [r]\<rparr>)"

definition HeapPop :: "clk \<Rightarrow> nat \<times> clk" where
  "HeapPop s =
     (let n = HeapLen s; r = entries s ! (n - 1); s1 = s\<lparr>entries := take (n - 1) (entries s)\<rparr>
      in (r, set_index r (-1) s1))"

text \<open>\<open>heap.Push\<close> and \<open>heap.Pop\<close>\<close>

definition hpush :: "nat \<Rightarrow> clk \<Rightarrow> clk" where
  "hpush r s = heap_push_up HeapLess HeapSwap HeapLen (HeapPush r s)"

definition hpop :: "clk \<Rightarrow> nat \<times> clk" where
  "hpop s = HeapPop (heap_pop_down HeapLess HeapSwap HeapLen s)"

section \<open>Registering events\<close>

definition allocID :: "clk \<Rightarrow> 64 word \<times> clk" where
  "allocID s = (let s1 = s\<lparr>nextID := nextID s + 1\<rparr> in (nextID s1, s1))"

text \<open>A composite literal \<open>&schedEntry{...}\<close> and the \<open>heap.Push\<close> that follows it.\<close>

definition push_new :: "schedEntry \<Rightarrow> clk \<Rightarrow> nat \<times> clk" where
  "push_new e s = (let r = length (store s) in (r, hpush r (s\<lparr>store := store s @ [e]\<rparr>)))"

definition make_chan :: "clk \<Rightarrow> nat \<times> clk" where
  "make_chan s = (length (chans s), s\<lparr>chans := chans s @ [None]\<rparr>)"

definition addTicker :: "duration \<Rightarrow> clk \<Rightarrow> nat \<times> clk" where
  "addTicker per s =
     (let (c, s1) = make_chan s;
          ts = length (tickers s1);
          s2 = s1\<lparr>tickers := tickers s1 @ [\<lparr>stopped = False, ch = c, period = per\<rparr>]\<rparr>;
          (i, s3) = allocID s2;
          e = \<lparr>deadline = now s3 + sint per, ent_id = i, ent_kind = kindTicker, dead = False, index = 0,
               ticker = Some ts, fn = None, afterC = None\<rparr>
      in (ts, snd (push_new e s3)))"

definition addAfterFunc :: "duration \<Rightarrow> nat \<Rightarrow> clk \<Rightarrow> nat \<times> clk" where
  "addAfterFunc d f s =
     (let (i, s1) = allocID s;
          e = \<lparr>deadline = now s1 + sint d, ent_id = i, ent_kind = kindAfterFunc, dead = False, index = 0,
               ticker = None, fn = Some f, afterC = None\<rparr>
      in push_new e s1)"

definition addAfter :: "duration \<Rightarrow> clk \<Rightarrow> nat \<times> clk" where
  "addAfter d s =
     (let (i, s1) = allocID s;
          (c, s2) = make_chan s1;
          e = \<lparr>deadline = now s2 + sint d, ent_id = i, ent_kind = kindAfter, dead = False, index = 0,
               ticker = None, fn = None, afterC = Some c\<rparr>
      in push_new e s2)"

section \<open>Cancelling\<close>

definition stopTicker :: "nat \<Rightarrow> clk \<Rightarrow> clk" where
  "stopTicker ts s = s\<lparr>tickers := (tickers s)[ts := (tickers s ! ts)\<lparr>stopped := True\<rparr>]\<rparr>"

definition sched_remove :: "nat \<Rightarrow> clk \<Rightarrow> clk" where
  "sched_remove r = upd_entry r (\<lambda>e. e\<lparr>dead := True\<rparr>)"

definition sched_cancel :: "nat \<Rightarrow> clk \<Rightarrow> bool \<times> clk" where
  "sched_cancel r s =
     (if dead (store s ! r) then (False, s) else (True, upd_entry r (\<lambda>e. e\<lparr>dead := True\<rparr>) s))"

definition resetTimer :: "nat \<Rightarrow> duration \<Rightarrow> clk \<Rightarrow> (nat \<times> bool) \<times> clk" where
  "resetTimer r d s =
     (let e = store s ! r;
          wasActive = (\<not> dead e);
          s1 = upd_entry r (\<lambda>e. e\<lparr>dead := True\<rparr>) s;
          (i, s2) = allocID s1;
          fresh = \<lparr>deadline = now s2 + sint d, ent_id = i, ent_kind = ent_kind e, dead = False, index = 0,
                   ticker = None, fn = fn e, afterC = afterC e\<rparr>;
          (r', s3) = push_new fresh s2
      in ((r', wasActive), s3))"

section \<open>advance\<close>

text \<open>
  The collecting loop. It may run for ever when a ticker's period is not positive, so it is a
  partial function; \<open>fires\<close> holds the collected entries with their fire times.
\<close>

definition reinsert :: "schedEntry \<Rightarrow> clk \<Rightarrow> clk" where
  "reinsert topE s =
     (let ts = the (ticker topE);
          (i, s1) = allocID s;
          next = \<lparr>deadline = deadline topE + sint (period (tickers s ! ts)), ent_id = i, ent_kind = kindTicker,
                  dead = False, index = 0, ticker = Some ts, fn = None, afterC = None\<rparr>
      in snd (push_new next s1))"

partial_function (option) drain :: "int \<Rightarrow> clk \<Rightarrow> (nat \<times> int) list \<Rightarrow> (clk \<times> (nat \<times> int) list) option" where
  "drain newNow s fires =
     (if HeapLen s = 0 then Some (s, fires)
      else
        let r = entries s ! 0; topE = store s ! r
        in if deadline topE > newNow then Some (s, fires)
           else
             let s1 = snd (hpop s)
             in if dead topE then drain newNow s1 fires
                else if ent_kind topE = kindTicker \<and> stopped (tickers s1 ! the (ticker topE))
                then drain newNow s1 fires
                else
                  drain newNow (if ent_kind topE = kindTicker then reinsert topE s1 else s1)
                    (fires @ [(r, deadline topE)]))"

declare drain.simps [code]

text \<open>\<open>select { case c <- t: default: }\<close> on a channel with a buffer of one.\<close>

definition try_send :: "nat \<Rightarrow> int \<Rightarrow> clk \<Rightarrow> clk" where
  "try_send c t s = (if chans s ! c = None then s\<lparr>chans := (chans s)[c := Some t]\<rparr> else s)"

definition fire :: "nat \<times> int \<Rightarrow> clk \<Rightarrow> clk" where
  "fire f s =
     (let e = store s ! fst f
      in case ent_kind e of
           kindTicker \<Rightarrow> try_send (ch (tickers s ! the (ticker e))) (snd f) s
         | kindAfterFunc \<Rightarrow> s\<lparr>launched := launched s @ [the (fn e)]\<rparr>
         | kindAfter \<Rightarrow> try_send (the (afterC e)) (snd f) s)"

definition sched_advance :: "duration \<Rightarrow> clk \<Rightarrow> clk option" where
  "sched_advance d s =
     (let newNow = now s + sint d
      in case drain newNow s [] of
           None \<Rightarrow> None
         | Some (s1, fires) \<Rightarrow> Some (fold fire fires (s1\<lparr>now := newNow\<rparr>)))"

section \<open>TestClock, Ticker, Timer\<close>

definition TestClock_Now :: "clk \<Rightarrow> int" where
  "TestClock_Now s = now s"

definition TestClock_Advance :: "duration \<Rightarrow> clk \<Rightarrow> clk option" where
  "TestClock_Advance d s = sched_advance d s"

definition TestClock_Set :: "int \<Rightarrow> clk \<Rightarrow> clk" where
  "TestClock_Set t s = s\<lparr>now := t\<rparr>"

datatype clock_error = PanicNonPositiveInterval

text \<open>\<open>testTicker\<close> holds the ticker state's reference, \<open>testTimer\<close> a slot with the entry's.\<close>

record testTicker =
  tt_ts :: nat

record testTimer =
  entryRef :: nat

definition TestClock_NewTicker :: "duration \<Rightarrow> clk \<Rightarrow> (clock_error + testTicker) \<times> clk" where
  "TestClock_NewTicker d s =
     (if sint d \<le> 0 then (Inl PanicNonPositiveInterval, s)
      else let (ts, s1) = addTicker d s in (Inr \<lparr>tt_ts = ts\<rparr>, s1))"

definition TestClock_After :: "duration \<Rightarrow> clk \<Rightarrow> nat \<times> clk" where
  "TestClock_After d s = (let (r, s1) = addAfter d s in (the (afterC (store s1 ! r)), s1))"

definition TestClock_AfterFunc :: "duration \<Rightarrow> nat \<Rightarrow> clk \<Rightarrow> testTimer \<times> clk" where
  "TestClock_AfterFunc d f s = (let (r, s1) = addAfterFunc d f s in (\<lparr>entryRef = r\<rparr>, s1))"

text \<open>\<open>Time.Sub\<close> saturates at the two ends of \<open>Duration\<close>.\<close>

definition time_Sub :: "int \<Rightarrow> int \<Rightarrow> duration" where
  "time_Sub t u = word_of_int (max (- (2 ^ 63)) (min (2 ^ 63 - 1) (t - u)))"

definition TestClock_Since :: "int \<Rightarrow> clk \<Rightarrow> duration" where
  "TestClock_Since t s = time_Sub (TestClock_Now s) t"

definition Ticker_C :: "testTicker \<Rightarrow> clk \<Rightarrow> nat" where
  "Ticker_C tt s = ch (tickers s ! tt_ts tt)"

definition Ticker_Stop :: "testTicker \<Rightarrow> clk \<Rightarrow> clk" where
  "Ticker_Stop tt s = stopTicker (tt_ts tt) s"

definition Timer_Stop :: "testTimer \<Rightarrow> clk \<Rightarrow> bool \<times> clk" where
  "Timer_Stop tm s = sched_cancel (entryRef tm) s"

definition Timer_Reset :: "testTimer \<Rightarrow> duration \<Rightarrow> clk \<Rightarrow> (testTimer \<times> bool) \<times> clk" where
  "Timer_Reset tm d s =
     (let ((newEntry, wasActive), s1) = resetTimer (entryRef tm) d s
      in ((tm\<lparr>entryRef := newEntry\<rparr>, wasActive), s1))"

text \<open>A non-blocking receive by the owner of a channel.\<close>

definition chan_recv :: "nat \<Rightarrow> clk \<Rightarrow> int option \<times> clk" where
  "chan_recv c s = (chans s ! c, s\<lparr>chans := (chans s)[c := None]\<rparr>)"

end
