(* ===== verification/Clock_Heap.thy ===== *)
theory Clock_Heap
  imports Clock
begin

text \<open>
  The scheduler's heap as a client of \<open>container/heap\<close>: what \<open>hpush\<close> and \<open>hpop\<close> do to the entries,
  and the invariant \<open>clk_ok\<close> of the scheduler.
\<close>

section \<open>The contract discharged\<close>

text \<open>
  What an exchange leaves alone: everything but the order of \<open>entries\<close> and the \<open>index\<close> fields.
\<close>

definition strip :: "clk \<Rightarrow> clk" where
  "strip s = s\<lparr>entries := [], store := map (\<lambda>e. e\<lparr>index := 0\<rparr>) (store s)\<rparr>"

definition refs_ok :: "clk \<Rightarrow> bool" where
  "refs_ok s \<longleftrightarrow> distinct (entries s) \<and> (\<forall>r \<in> set (entries s). r < length (store s))"

definition index_ok :: "clk \<Rightarrow> bool" where
  "index_ok s \<longleftrightarrow> (\<forall>i < length (entries s). index (store s ! (entries s ! i)) = int i)"

definition ent_key :: "clk \<Rightarrow> nat \<Rightarrow> int \<times> 64 word" where
  "ent_key b r = (deadline (store b ! r), ent_id (store b ! r))"

definition same_as :: "clk \<Rightarrow> clk \<Rightarrow> bool" where
  "same_as b s \<longleftrightarrow> strip s = strip b"

definition heap_inv :: "clk \<Rightarrow> clk \<Rightarrow> bool" where
  "heap_inv b s \<longleftrightarrow> refs_ok s \<and> index_ok s \<and> same_as b s"

lemma same_as_iff:
  "same_as b s \<longleftrightarrow> now s = now b \<and> nextID s = nextID b \<and> tickers s = tickers b \<and> chans s = chans b \<and>
     launched s = launched b \<and> length (store s) = length (store b) \<and>
     (\<forall>r < length (store b). (store s ! r)\<lparr>index := 0\<rparr> = (store b ! r)\<lparr>index := 0\<rparr>)"
  unfolding same_as_def strip_def
  by (cases s; cases b) (auto simp: list_eq_iff_nth_eq dest: map_eq_imp_length_eq)

lemma same_asD:
  assumes "same_as b s"
  shows "now s = now b" "nextID s = nextID b" "tickers s = tickers b" "chans s = chans b"
    "launched s = launched b" "length (store s) = length (store b)"
  using assms by (auto simp: same_as_iff)

lemma same_as_refl [simp]: "same_as s s"
  by (simp add: same_as_def)

lemma same_as_sym: "same_as b s \<Longrightarrow> same_as s b"
  by (simp add: same_as_def)

lemma same_as_trans: "same_as a b \<Longrightarrow> same_as b c \<Longrightarrow> same_as a c"
  by (simp add: same_as_def)

lemma same_entry:
  assumes "same_as b s" and "r < length (store b)"
  shows "deadline (store s ! r) = deadline (store b ! r)" "ent_id (store s ! r) = ent_id (store b ! r)"
    "ent_kind (store s ! r) = ent_kind (store b ! r)" "dead (store s ! r) = dead (store b ! r)"
    "ticker (store s ! r) = ticker (store b ! r)" "fn (store s ! r) = fn (store b ! r)"
    "afterC (store s ! r) = afterC (store b ! r)"
proof -
  have e: "(store s ! r)\<lparr>index := 0\<rparr> = (store b ! r)\<lparr>index := 0\<rparr>"
    using assms by (simp add: same_as_iff)
  from arg_cong [OF e, of deadline] arg_cong [OF e, of ent_id] arg_cong [OF e, of ent_kind]
    arg_cong [OF e, of dead] arg_cong [OF e, of ticker] arg_cong [OF e, of fn] arg_cong [OF e, of afterC]
  show "deadline (store s ! r) = deadline (store b ! r)" "ent_id (store s ! r) = ent_id (store b ! r)"
    "ent_kind (store s ! r) = ent_kind (store b ! r)" "dead (store s ! r) = dead (store b ! r)"
    "ticker (store s ! r) = ticker (store b ! r)" "fn (store s ! r) = fn (store b ! r)"
    "afterC (store s ! r) = afterC (store b ! r)"
    by simp_all
qed

lemma same_as_set_index: "same_as b s \<Longrightarrow> same_as b (set_index r i s)"
  by (cases "r < length (store s)")
    (auto simp: same_as_iff set_index_def upd_entry_def nth_list_update)

lemma same_as_entries [simp]: "same_as b (s\<lparr>entries := xs\<rparr>) = same_as b s"
  by (simp add: same_as_iff)

lemma entries_set_index [simp]: "entries (set_index r i s) = entries s"
  by (simp add: set_index_def upd_entry_def)

lemma store_set_index:
  "r < length (store s) \<Longrightarrow> index (store (set_index r i s) ! q) = (if q = r then i else index (store s ! q))"
  by (simp add: set_index_def upd_entry_def nth_list_update)

lemma length_set_index [simp]: "length (store (set_index r i s)) = length (store s)"
  by (simp add: set_index_def upd_entry_def)

lemma entries_HeapSwap: "entries (HeapSwap i j s) = swap_list i j (entries s)"
  by (simp add: HeapSwap_def swap_list_def Let_def)

lemma HeapSwap_inv:
  assumes "heap_inv b s" and i: "i < length (entries s)" and j: "j < length (entries s)"
  shows "heap_inv b (HeapSwap i j s)"
proof -
  let ?h = "swap_list i j (entries s)"
  have refs: "distinct (entries s)" "\<And>k. k < length (entries s) \<Longrightarrow> entries s ! k < length (store s)"
    and ix: "\<And>k. k < length (entries s) \<Longrightarrow> index (store s ! (entries s ! k)) = int k"
    and same: "same_as b s"
    using assms(1) by (auto simp: heap_inv_def refs_ok_def index_ok_def)
  have sw: "HeapSwap i j s = set_index (?h ! j) (int j) (set_index (?h ! i) (int i) (s\<lparr>entries := ?h\<rparr>))"
    by (simp add: HeapSwap_def swap_list_def Let_def)
  have hi: "?h ! i = entries s ! j" "?h ! j = entries s ! i" using i j by (simp_all add: nth_swap_list)
  have d: "distinct ?h" using refs(1) mset_swap_list [OF i j] mset_eq_imp_distinct_iff by blast
  have sh: "set ?h = set (entries s)" using mset_swap_list [OF i j] mset_eq_setD by blast
  have l: "length (store (HeapSwap i j s)) = length (store s)" by (simp add: sw)
  have "index (store (HeapSwap i j s) ! (?h ! k)) = int k" if k: "k < length (entries s)" for k
  proof -
    have e: "index (store (HeapSwap i j s) ! q) =
        (if q = ?h ! j then int j else if q = ?h ! i then int i else index (store s ! q))" for q
      using refs(2) i j hi unfolding sw by (simp add: store_set_index)
    show ?thesis
    proof (cases "k = i \<or> k = j")
      case True
      then show ?thesis using e [of "?h ! k"] d i j by (auto simp: nth_eq_iff_index_eq)
    next
      case False
      then have "?h ! k = entries s ! k" using i j by (simp add: nth_swap_list)
      moreover have "?h ! k \<noteq> ?h ! i" "?h ! k \<noteq> ?h ! j"
        using False d k i j by (simp_all add: nth_eq_iff_index_eq)
      ultimately show ?thesis using e [of "?h ! k"] ix [OF k] by simp
    qed
  qed
  then have "index_ok (HeapSwap i j s)" by (simp add: index_ok_def entries_HeapSwap)
  moreover have "refs_ok (HeapSwap i j s)"
    using assms(1) d sh l by (simp add: refs_ok_def entries_HeapSwap heap_inv_def)
  moreover have "same_as b (HeapSwap i j s)"
    unfolding sw by (intro same_as_set_index) (simp add: same)
  ultimately show ?thesis by (simp add: heap_inv_def)
qed

lemma HeapLess_key:
  assumes "heap_inv b s" and "i < length (entries s)" and "j < length (entries s)"
  shows "HeapLess s i j \<longleftrightarrow> ent_key b (entries s ! i) < ent_key b (entries s ! j)"
proof -
  have r: "entries s ! i < length (store b)" "entries s ! j < length (store b)"
    using assms same_asD(6) by (auto simp: heap_inv_def refs_ok_def)
  have sm: "same_as b s" using assms(1) by (simp add: heap_inv_def)
  show ?thesis
    unfolding HeapLess_def entry_at_def ent_key_def same_entry(1,2) [OF sm r(1)] same_entry(1,2) [OF sm r(2)]
    by auto
qed

interpretation sched: heap_client HeapLess HeapSwap entries "ent_key b" "heap_inv b" for b
  by unfold_locales (simp_all add: HeapLess_key entries_HeapSwap HeapSwap_inv)

section \<open>heap.Push and heap.Pop\<close>

lemma is_heap_append: "n \<le> length ks \<Longrightarrow> is_heap n (ks @ xs) \<longleftrightarrow> is_heap n ks"
proof -
  assume n: "n \<le> length ks"
  have "(ks @ xs) ! parent k = ks ! parent k \<and> (ks @ xs) ! k = ks ! k" if "0 < k" "k < n" for k
    using that n parent_less [of k] by (simp add: nth_append)
  then show ?thesis by (simp add: is_heap_def)
qed

definition heap_ordered :: "clk \<Rightarrow> bool" where
  "heap_ordered s \<longleftrightarrow> refs_ok s \<and> index_ok s \<and> is_heap (length (entries s)) (map (ent_key s) (entries s))"

lemma ent_key_same: "same_as b s \<Longrightarrow> r < length (store b) \<Longrightarrow> ent_key s r = ent_key b r"
  by (simp add: ent_key_def same_entry)

lemma map_key_same:
  "same_as b s \<Longrightarrow> refs_ok s \<Longrightarrow> map (ent_key b) (entries s) = map (ent_key s) (entries s)"
  using ent_key_same [of b s] same_asD(6) [of b s] by (auto simp: refs_ok_def)

lemma hpush_ordered:
  assumes ho: "heap_ordered s" and r: "r < length (store s)" "r \<notin> set (entries s)"
  shows "heap_ordered (hpush r s)" "mset (entries (hpush r s)) = add_mset r (mset (entries s))"
    "same_as s (hpush r s)"
proof -
  let ?n = "length (entries s)" and ?s1 = "HeapPush r s"
  have e1: "entries ?s1 = entries s @ [r]" by (simp add: HeapPush_def Let_def)
  have ix: "index (store ?s1 ! q) = (if q = r then int ?n else index (store s ! q))" for q
    using r(1) by (simp add: HeapPush_def Let_def store_set_index HeapLen_def)
  have same: "same_as s ?s1" by (simp add: HeapPush_def Let_def same_as_set_index)
  have "refs_ok ?s1" using ho r same_asD(6) [OF same] by (auto simp: heap_ordered_def refs_ok_def e1)
  moreover have "index_ok ?s1"
    using ho r(2) unfolding index_ok_def heap_ordered_def ix e1
    by (auto simp: nth_append less_Suc_eq)
  ultimately have inv: "heap_inv s ?s1" using same by (simp add: heap_inv_def)
  have heap: "is_heap ?n (map (ent_key s) (entries ?s1))"
    using ho by (simp add: heap_ordered_def e1 is_heap_append)
  note p = sched.push_correct [OF inv _ heap, of HeapLen]
  have len: "length (entries ?s1) = Suc ?n" "HeapLen ?s1 = Suc ?n" by (simp_all add: e1 HeapLen_def)
  have i2: "heap_inv s (hpush r s)" using p(3) len by (simp add: hpush_def)
  show m: "mset (entries (hpush r s)) = add_mset r (mset (entries s))"
    using p(2) len e1 by (simp add: hpush_def)
  then have l2: "length (entries (hpush r s)) = Suc ?n" by (metis size_add_mset size_mset)
  show same2: "same_as s (hpush r s)" using i2 by (simp add: heap_inv_def)
  have "is_heap (Suc ?n) (map (ent_key s) (entries (hpush r s)))"
    unfolding hpush_def by (rule p(1)) (use len in simp_all)
  then have "is_heap (Suc ?n) (map (ent_key (hpush r s)) (entries (hpush r s)))"
    using map_key_same [OF same2] i2 by (simp only: heap_inv_def)
  then show "heap_ordered (hpush r s)" using i2 l2 by (simp add: heap_ordered_def heap_inv_def)
qed

lemma hpop_ordered:
  assumes ho: "heap_ordered s" and ne: "entries s \<noteq> []"
  shows "fst (hpop s) = entries s ! 0" "heap_ordered (snd (hpop s))"
    "mset (entries s) = add_mset (entries s ! 0) (mset (entries (snd (hpop s))))"
    "same_as s (snd (hpop s))" "\<forall>r \<in> set (entries s). ent_key s (entries s ! 0) \<le> ent_key s r"
proof -
  obtain n where n: "length (entries s) = Suc n" using ne by (cases "entries s") auto
  have inv: "heap_inv s s" using ho by (simp add: heap_inv_def heap_ordered_def)
  have heap: "is_heap (Suc n) (map (ent_key s) (entries s))" using ho n by (simp add: heap_ordered_def)
  have hl: "HeapLen s = Suc n" using n by (simp add: HeapLen_def)
  note p = sched.pop_correct [OF inv n heap, where len = HeapLen, OF hl]
  define s1 where "s1 = heap_pop_down HeapLess HeapSwap HeapLen s"
  have p1: "is_heap n (map (ent_key s) (entries s1))" "mset (entries s1) = mset (entries s)"
      "heap_inv s s1" "length (entries s1) = Suc n" "entries s1 ! n = entries s ! 0"
    using p(1-5) by (simp_all add: s1_def)
  have pop: "hpop s = (entries s1 ! n, set_index (entries s1 ! n) (-1) (s1\<lparr>entries := take n (entries s1)\<rparr>))"
    using p1(4) by (simp add: hpop_def HeapPop_def HeapLen_def s1_def [symmetric] Let_def)
  let ?s2 = "snd (hpop s)"
  have e2: "entries ?s2 = take n (entries s1)" by (simp add: pop)
  have split: "entries s1 = entries ?s2 @ [entries s ! 0]"
    using p1(4,5) e2 take_Suc_conv_app_nth [of n "entries s1"] by simp
  have same1: "same_as s s1" using p1(3) by (simp add: heap_inv_def)
  show same2: "same_as s ?s2" unfolding pop by (simp add: same_as_set_index same1)
  show "fst (hpop s) = entries s ! 0" by (simp add: pop p1(5))
  have "mset (entries s1) = add_mset (entries s ! 0) (mset (entries ?s2))" by (subst split) simp
  then show "mset (entries s) = add_mset (entries s ! 0) (mset (entries ?s2))" using p1(2) by simp
  show "\<forall>r \<in> set (entries s). ent_key s (entries s ! 0) \<le> ent_key s r" by (rule p(6))
  have d: "distinct (entries s1)" and lt: "\<forall>r \<in> set (entries s1). r < length (store s1)"
    and ix: "\<forall>i < length (entries s1). index (store s1 ! (entries s1 ! i)) = int i"
    using p1(3) by (auto simp: heap_inv_def refs_ok_def index_ok_def)
  have l2: "length (entries ?s2) = n" using e2 p1(4) by simp
  have r2: "refs_ok ?s2"
    using d lt split same_asD(6) [OF same1] same_asD(6) [OF same2]
    by (metis (no_types, lifting) refs_ok_def distinct_append Un_iff set_append)
  have topl: "entries s1 ! n < length (store s1)" using lt p1(4) by simp
  have i2: "index_ok ?s2"
    unfolding index_ok_def
  proof (intro allI impI)
    fix i
    assume i: "i < length (entries ?s2)"
    then have ei: "entries ?s2 ! i = entries s1 ! i" using e2 by simp
    have "entries s1 ! i \<noteq> entries s1 ! n" using d i l2 p1(4) by (simp add: nth_eq_iff_index_eq)
    then have "index (store ?s2 ! (entries s1 ! i)) = index (store s1 ! (entries s1 ! i))"
      using topl unfolding pop by (simp add: store_set_index)
    then show "index (store ?s2 ! (entries ?s2 ! i)) = int i" using ix i l2 p1(4) ei by simp
  qed
  have "map (ent_key s) (entries ?s2) = map (ent_key ?s2) (entries ?s2)"
    by (rule map_key_same [OF same2 r2])
  moreover have "is_heap n (map (ent_key s) (entries ?s2))"
    using p1(1) l2 by (subst (asm) split) (simp add: is_heap_append)
  ultimately have "is_heap n (map (ent_key ?s2) (entries ?s2))" by (simp only:)
  then show "heap_ordered ?s2" using r2 i2 l2 by (simp add: heap_ordered_def)
qed

end
