(* ===== verification/Clock_Drain.thy ===== *)
theory Clock_Drain
  imports Clock_Heap
begin

text \<open>
  The invariant of the scheduler, that every operation of the clock keeps it, and the collecting
  loop of \<open>advance\<close>: it returns, and what it collects.
\<close>

section \<open>The invariant\<close>

definition entry_ok :: "clk \<Rightarrow> schedEntry \<Rightarrow> bool" where
  "entry_ok s e \<longleftrightarrow>
     (case ent_kind e of
        kindTicker \<Rightarrow> (\<exists>ts. ticker e = Some ts \<and> ts < length (tickers s))
      | kindAfterFunc \<Rightarrow> (\<exists>f. fn e = Some f) \<and> ticker e = None
      | kindAfter \<Rightarrow> (\<exists>c. afterC e = Some c \<and> c < length (chans s)) \<and> ticker e = None)"

lemma entry_ok_simps [simp]:
  "entry_ok (s\<lparr>now := n\<rparr>) e = entry_ok s e" "entry_ok (s\<lparr>nextID := i\<rparr>) e = entry_ok s e"
  "entry_ok (s\<lparr>entries := h\<rparr>) e = entry_ok s e" "entry_ok (s\<lparr>store := es\<rparr>) e = entry_ok s e"
  "entry_ok (s\<lparr>launched := l\<rparr>) e = entry_ok s e" "entry_ok s (e\<lparr>dead := x\<rparr>) = entry_ok s e"
  "entry_ok (s\<lparr>chans := (chans s)[c := v]\<rparr>) e = entry_ok s e"
  "entry_ok (s\<lparr>tickers := (tickers s)[ts := t]\<rparr>) e = entry_ok s e"
  by (cases "ent_kind e"; simp add: entry_ok_def)+

text \<open>Ids are handed out in the order the entries are made.\<close>

definition data_ok :: "clk \<Rightarrow> bool" where
  "data_ok s \<longleftrightarrow>
     (\<forall>r < length (store s). entry_ok s (store s ! r) \<and> ent_id (store s ! r) = of_nat (Suc r)) \<and>
     nextID s = of_nat (length (store s)) \<and>
     (\<forall>ts < length (tickers s). 0 < sint (period (tickers s ! ts)) \<and> ch (tickers s ! ts) < length (chans s))"

definition clk_ok :: "clk \<Rightarrow> bool" where
  "clk_ok s \<longleftrightarrow> heap_ordered s \<and> data_ok s"

lemma data_ok_same:
  assumes "same_as b s" and "data_ok b"
  shows "data_ok s"
proof -
  have "entry_ok s (store s ! r) = entry_ok b (store b ! r)" if "r < length (store b)" for r
    unfolding entry_ok_def same_entry [OF assms(1) that] same_asD [OF assms(1)] ..
  then show ?thesis
    using assms(2) same_entry(2) [OF assms(1)] same_asD [OF assms(1)] by (simp add: data_ok_def)
qed

lemma heap_ordered_ids:
  "heap_ordered s \<Longrightarrow> heap_ordered (s\<lparr>nextID := i\<rparr>)"
  "heap_ordered s \<Longrightarrow> heap_ordered (s\<lparr>chans := c\<rparr>)"
  "heap_ordered s \<Longrightarrow> heap_ordered (s\<lparr>tickers := t\<rparr>)"
  "heap_ordered s \<Longrightarrow> heap_ordered (s\<lparr>now := n\<rparr>)"
  "heap_ordered s \<Longrightarrow> heap_ordered (s\<lparr>launched := l\<rparr>)"
  by (simp_all add: heap_ordered_def refs_ok_def index_ok_def ent_key_def [abs_def])

lemma heap_ordered_grow:
  assumes "heap_ordered s" shows "heap_ordered (s\<lparr>store := store s @ [e]\<rparr>)"
proof -
  have lt: "\<forall>r \<in> set (entries s). r < length (store s)" using assms by (simp add: heap_ordered_def refs_ok_def)
  then have "map (ent_key (s\<lparr>store := store s @ [e]\<rparr>)) (entries s) = map (ent_key s) (entries s)"
    by (auto simp: ent_key_def nth_append)
  then have "is_heap (length (entries s)) (map (ent_key (s\<lparr>store := store s @ [e]\<rparr>)) (entries s))"
    using assms by (simp only: heap_ordered_def)
  then show ?thesis
    using assms lt by (auto simp: heap_ordered_def refs_ok_def index_ok_def nth_append)
qed

lemma push_new_spec:
  assumes "heap_ordered s"
  shows "fst (push_new e s) = length (store s)" "heap_ordered (snd (push_new e s))"
    "mset (entries (snd (push_new e s))) = add_mset (length (store s)) (mset (entries s))"
    "same_as (s\<lparr>store := store s @ [e]\<rparr>) (snd (push_new e s))"
proof -
  have ho: "heap_ordered (s\<lparr>store := store s @ [e]\<rparr>)" using heap_ordered_grow assms .
  have r: "length (store s) < length (store (s\<lparr>store := store s @ [e]\<rparr>))"
    "length (store s) \<notin> set (entries (s\<lparr>store := store s @ [e]\<rparr>))"
    using assms by (auto simp: heap_ordered_def refs_ok_def)
  show "fst (push_new e s) = length (store s)" "heap_ordered (snd (push_new e s))"
    "mset (entries (snd (push_new e s))) = add_mset (length (store s)) (mset (entries s))"
    "same_as (s\<lparr>store := store s @ [e]\<rparr>) (snd (push_new e s))"
    using hpush_ordered [OF ho r] by (simp_all add: push_new_def Let_def)
qed

lemma entry_ok_grow:
  "entry_ok s e \<Longrightarrow> length (tickers s) \<le> length (tickers s') \<Longrightarrow> length (chans s) \<le> length (chans s') \<Longrightarrow>
   entry_ok s' e"
  by (auto simp: entry_ok_def split: entryKind.splits)

text \<open>A new entry with the next id, on any state that agrees with a good one on the rest.\<close>

lemma clk_ok_push:
  assumes "heap_ordered s" and "data_ok (s\<lparr>nextID := of_nat (length (store s))\<rparr>)"
    and "nextID s = of_nat (Suc (length (store s)))" and "ent_id e = nextID s" and "entry_ok s e"
  shows "clk_ok (snd (push_new e s))"
proof -
  have "data_ok (s\<lparr>store := store s @ [e]\<rparr>)"
    using assms(2-5) by (auto simp: data_ok_def nth_append less_Suc_eq)
  then show ?thesis
    using push_new_spec(2) [OF assms(1)] data_ok_same [OF push_new_spec(4) [OF assms(1)]]
    by (simp add: clk_ok_def)
qed

lemma clk_ok_alloc:
  assumes "clk_ok s" and "allocID s = (i, s1)"
  shows "heap_ordered s1" "s1 = s\<lparr>nextID := i\<rparr>" "i = of_nat (Suc (length (store s)))"
  using assms heap_ordered_ids(1) by (auto simp: allocID_def clk_ok_def data_ok_def Let_def)

lemma data_ok_restore: "data_ok s \<Longrightarrow> data_ok (s\<lparr>nextID := of_nat (length (store s))\<rparr>)"
  by (simp add: data_ok_def)

section \<open>Every operation keeps it\<close>

lemma clk_ok_new: "clk_ok (NewTestClock t)"
  by (simp add: clk_ok_def NewTestClock_def newScheduler_def heap_ordered_def refs_ok_def index_ok_def
      is_heap_def data_ok_def)

lemma clk_ok_Set: "clk_ok s \<Longrightarrow> clk_ok (TestClock_Set t s)"
  by (auto simp: clk_ok_def TestClock_Set_def heap_ordered_ids data_ok_def)

lemma clk_ok_NewTicker:
  assumes "clk_ok s" shows "clk_ok (snd (TestClock_NewTicker d s))"
proof (cases "sint d \<le> 0")
  case False
  define s2 where "s2 = s\<lparr>chans := chans s @ [None], tickers := tickers s @
      [\<lparr>stopped = False, ch = length (chans s), period = d\<rparr>]\<rparr>"
  define i where "i = nextID s + 1"
  define e where "e = \<lparr>deadline = now s + sint d, ent_id = i, ent_kind = kindTicker, dead = False,
      index = 0, ticker = Some (length (tickers s)), fn = None, afterC = None\<rparr>"
  have eq: "snd (TestClock_NewTicker d s) = snd (push_new e (s2\<lparr>nextID := i\<rparr>))"
    using False by (simp add: TestClock_NewTicker_def addTicker_def make_chan_def allocID_def Let_def
        s2_def e_def i_def split: prod.split)
  have i: "i = of_nat (Suc (length (store s)))" using assms by (simp add: i_def clk_ok_def data_ok_def)
  have ho: "heap_ordered (s2\<lparr>nextID := i\<rparr>)"
    using assms by (auto simp: clk_ok_def s2_def intro!: heap_ordered_ids)
  show ?thesis
    unfolding eq
  proof (rule clk_ok_push [OF ho])
    show "data_ok (s2\<lparr>nextID := i, nextID := of_nat (length (store (s2\<lparr>nextID := i\<rparr>)))\<rparr>)"
      using assms False
      using entry_ok_grow [of s _ "s2\<lparr>nextID := _\<rparr>"]
      by (simp add: clk_ok_def data_ok_def s2_def nth_append less_Suc_eq)
  qed (simp_all add: s2_def e_def i entry_ok_def)
qed (use assms in \<open>simp add: TestClock_NewTicker_def\<close>)

lemma clk_ok_AfterFunc:
  assumes "clk_ok s" shows "clk_ok (snd (addAfterFunc d f s))"
proof -
  obtain i s1 where a: "allocID s = (i, s1)" by (metis prod.exhaust)
  note al = clk_ok_alloc [OF assms a]
  show ?thesis
    unfolding addAfterFunc_def a Let_def prod.case
    by (rule clk_ok_push [OF al(1)])
      (use assms al(2,3) data_ok_restore in \<open>simp_all add: clk_ok_def entry_ok_def\<close>)
qed

lemma clk_ok_After:
  assumes "clk_ok s" shows "clk_ok (snd (addAfter d s))"
proof -
  obtain i s1 where a: "allocID s = (i, s1)" by (metis prod.exhaust)
  note al = clk_ok_alloc [OF assms a]
  have ho: "heap_ordered (s1\<lparr>chans := chans s1 @ [None]\<rparr>)" using heap_ordered_ids(2) al(1) .
  show ?thesis
    unfolding addAfter_def a Let_def prod.case make_chan_def
  proof (rule clk_ok_push [OF ho])
    show "data_ok (s1\<lparr>chans := chans s1 @ [None],
        nextID := of_nat (length (store (s1\<lparr>chans := chans s1 @ [None]\<rparr>)))\<rparr>)"
      using assms al(2) entry_ok_grow [of s _ "s1\<lparr>chans := chans s1 @ [None], nextID := _\<rparr>"]
      by (simp add: clk_ok_def data_ok_def less_SucI)
  qed (use al(2,3) in \<open>simp_all add: entry_ok_def\<close>)
qed

lemma heap_ordered_upd_entry:
  assumes "heap_ordered s" and "\<And>e. deadline (f e) = deadline e \<and> ent_id (f e) = ent_id e \<and> index (f e) = index e"
  shows "heap_ordered (upd_entry r f s)"
proof -
  have e: "deadline (store (upd_entry r f s) ! q) = deadline (store s ! q)"
    "ent_id (store (upd_entry r f s) ! q) = ent_id (store s ! q)"
    "index (store (upd_entry r f s) ! q) = index (store s ! q)" for q
    using assms(2) [of "store s ! r"] by (simp_all add: upd_entry_def upd_nth)
  have "entries (upd_entry r f s) = entries s" "length (store (upd_entry r f s)) = length (store s)"
    by (simp_all add: upd_entry_def)
  then show ?thesis
    using assms(1) by (simp add: heap_ordered_def refs_ok_def index_ok_def e ent_key_def [abs_def])
qed

lemma clk_ok_kill:
  assumes "clk_ok s" shows "clk_ok (upd_entry r (\<lambda>e. e\<lparr>dead := True\<rparr>) s)"
proof -
  have "data_ok (upd_entry r (\<lambda>e. e\<lparr>dead := True\<rparr>) s)"
    using assms by (auto simp: clk_ok_def data_ok_def upd_entry_def upd_nth)
  then show ?thesis using assms heap_ordered_upd_entry by (simp add: clk_ok_def)
qed

lemma clk_ok_Stop: "clk_ok s \<Longrightarrow> clk_ok (snd (Timer_Stop tm s))"
  by (simp add: Timer_Stop_def sched_cancel_def clk_ok_kill)

lemma clk_ok_stopTicker: "clk_ok s \<Longrightarrow> clk_ok (stopTicker ts s)"
  by (auto simp: clk_ok_def stopTicker_def heap_ordered_ids data_ok_def upd_nth)

lemma clk_ok_Reset:
  assumes "clk_ok s" and "r < length (store s)" and "ent_kind (store s ! r) \<noteq> kindTicker"
  shows "clk_ok (snd (resetTimer r d s))"
proof -
  define s1 where "s1 = upd_entry r (\<lambda>e. e\<lparr>dead := True\<rparr>) s"
  have ok1: "clk_ok s1" using clk_ok_kill assms(1) by (simp add: s1_def)
  obtain i s2 where a: "allocID s1 = (i, s2)" by (metis prod.exhaust)
  note al = clk_ok_alloc [OF ok1 a]
  have e: "entry_ok s (store s ! r)" using assms by (simp add: clk_ok_def data_ok_def)
  show ?thesis
    unfolding resetTimer_def Let_def s1_def [symmetric] a prod.case
  proof (simp split: prod.split, intro allI impI)
    fix r' s3
    let ?e = "\<lparr>deadline = now s2 + sint d, ent_id = i, ent_kind = ent_kind (store s ! r), dead = False,
      index = 0, ticker = None, fn = fn (store s ! r), afterC = afterC (store s ! r)\<rparr>"
    assume "push_new ?e s2 = (r', s3)"
    then have "s3 = snd (push_new ?e s2)" by simp
    also have "clk_ok \<dots>"
    proof (rule clk_ok_push [OF al(1)])
      show "entry_ok s2 ?e"
        using e assms(3) al(2) by (auto simp: entry_ok_def s1_def upd_entry_def split: entryKind.splits)
    qed (use ok1 al(2,3) data_ok_restore in \<open>simp_all add: clk_ok_def\<close>)
    finally show "clk_ok s3" .
  qed
qed

lemma clk_ok_fire: "clk_ok s \<Longrightarrow> clk_ok (fire f s)"
  by (auto simp: fire_def try_send_def clk_ok_def heap_ordered_ids data_ok_def Let_def
      split: entryKind.split)

lemma clk_ok_fires: "clk_ok s \<Longrightarrow> clk_ok (fold fire fs s)"
  by (induction fs arbitrary: s) (auto simp: clk_ok_fire)

lemma clk_ok_recv: "clk_ok s \<Longrightarrow> clk_ok (snd (chan_recv c s))"
  by (auto simp: chan_recv_def clk_ok_def heap_ordered_ids data_ok_def)

section \<open>The collecting loop as a relation\<close>

definition drained :: "int \<Rightarrow> clk \<Rightarrow> bool" where
  "drained n s \<longleftrightarrow> entries s = [] \<or> n < deadline (store s ! (entries s ! 0))"

definition live :: "clk \<Rightarrow> nat \<Rightarrow> bool" where
  "live s r \<longleftrightarrow> \<not> dead (store s ! r) \<and>
     \<not> (ent_kind (store s ! r) = kindTicker \<and> stopped (tickers s ! the (ticker (store s ! r))))"

definition after_pop :: "clk \<Rightarrow> clk" where
  "after_pop s = snd (hpop s)"

definition after_fire :: "clk \<Rightarrow> clk" where
  "after_fire s =
     (let top = store s ! (entries s ! 0)
      in if ent_kind top = kindTicker then reinsert top (after_pop s) else after_pop s)"

inductive drains :: "int \<Rightarrow> clk \<Rightarrow> (nat \<times> int) list \<Rightarrow> clk \<Rightarrow> bool" for n where
  drains_done: "drained n s \<Longrightarrow> drains n s [] s"
| drains_skip: "\<not> drained n s \<Longrightarrow> \<not> live s (entries s ! 0) \<Longrightarrow> drains n (after_pop s) fs s' \<Longrightarrow> drains n s fs s'"
| drains_fire: "\<not> drained n s \<Longrightarrow> live s (entries s ! 0) \<Longrightarrow> drains n (after_fire s) fs s' \<Longrightarrow>
    drains n s ((entries s ! 0, deadline (store s ! (entries s ! 0))) # fs) s'"

inductive_cases drains_cases: "drains n s fs s'"

lemma after_pop_spec:
  assumes "clk_ok s" and "entries s \<noteq> []"
  shows "clk_ok (after_pop s)" "same_as s (after_pop s)"
    "mset (entries s) = add_mset (entries s ! 0) (mset (entries (after_pop s)))"
    "\<forall>r \<in> set (entries s). ent_key s (entries s ! 0) \<le> ent_key s r"
  using hpop_ordered [of s] data_ok_same assms by (auto simp: clk_ok_def after_pop_def)

lemma live_tickers:
  "clk_ok s \<Longrightarrow> entries s \<noteq> [] \<Longrightarrow> tickers (after_pop s) = tickers s"
  using after_pop_spec(2) same_asD by blast

lemma ticker_entry:
  assumes "clk_ok s" and "r < length (store s)" and "ent_kind (store s ! r) = kindTicker"
  shows "\<exists>ts. ticker (store s ! r) = Some ts \<and> ts < length (tickers s)"
proof -
  have "entry_ok s (store s ! r)" using assms(1,2) by (simp add: clk_ok_def data_ok_def)
  then show ?thesis using assms(3) by (simp add: entry_ok_def)
qed

text \<open>A fired ticker is back in the heap, one period later.\<close>

lemma reinsert_spec:
  assumes ok: "clk_ok s" and r: "r < length (store s)" and top: "topE = store s ! r"
    and k: "ent_kind topE = kindTicker"
  shows "clk_ok (reinsert topE s)"
    "mset (entries (reinsert topE s)) = add_mset (length (store s)) (mset (entries s))"
    "length (store (reinsert topE s)) = Suc (length (store s))"
    "\<forall>q < length (store s). (store (reinsert topE s) ! q)\<lparr>index := 0\<rparr> = (store s ! q)\<lparr>index := 0\<rparr>"
    "deadline (store (reinsert topE s) ! length (store s)) =
       deadline topE + sint (period (tickers s ! the (ticker topE)))"
    "ent_kind (store (reinsert topE s) ! length (store s)) = kindTicker"
    "dead (store (reinsert topE s) ! length (store s)) = False"
    "ticker (store (reinsert topE s) ! length (store s)) = ticker topE"
    "tickers (reinsert topE s) = tickers s" "chans (reinsert topE s) = chans s"
    "now (reinsert topE s) = now s" "launched (reinsert topE s) = launched s"
proof -
  obtain i s1 where a: "allocID s = (i, s1)" by (metis prod.exhaust)
  note al = clk_ok_alloc [OF ok a]
  define ts where "ts = the (ticker topE)"
  have ts: "ticker topE = Some ts" "ts < length (tickers s)"
    using ticker_entry [OF ok r] k top by (auto simp: ts_def)
  define e where "e = \<lparr>deadline = deadline topE + sint (period (tickers s ! ts)), ent_id = i,
      ent_kind = kindTicker, dead = False, index = 0, ticker = Some ts, fn = None, afterC = None\<rparr>"
  have eq: "reinsert topE s = snd (push_new e s1)"
    by (simp add: reinsert_def a Let_def ts_def [symmetric] e_def)
  note p = push_new_spec [OF al(1), of e]
  have l: "length (store s1) = length (store s)" using al(2) by simp
  show "clk_ok (reinsert topE s)"
    unfolding eq
    by (rule clk_ok_push [OF al(1)])
      (use ok al(2,3) data_ok_restore ts in \<open>simp_all add: clk_ok_def e_def entry_ok_def\<close>)
  show "mset (entries (reinsert topE s)) = add_mset (length (store s)) (mset (entries s))"
    using p(3) al(2) by (simp add: eq)
  have same: "same_as (s1\<lparr>store := store s1 @ [e]\<rparr>) (reinsert topE s)" using p(4) by (simp add: eq)
  show "length (store (reinsert topE s)) = Suc (length (store s))"
    "tickers (reinsert topE s) = tickers s" "chans (reinsert topE s) = chans s"
    "now (reinsert topE s) = now s" "launched (reinsert topE s) = launched s"
    using same_asD [OF same] al(2) by simp_all
  show "\<forall>q < length (store s). (store (reinsert topE s) ! q)\<lparr>index := 0\<rparr> = (store s ! q)\<lparr>index := 0\<rparr>"
    using same al(2) by (simp add: same_as_iff nth_append)
  have last: "length (store s) < length (store (s1\<lparr>store := store s1 @ [e]\<rparr>))"
    "store (s1\<lparr>store := store s1 @ [e]\<rparr>) ! length (store s) = e" using l by (simp_all add: nth_append)
  note se = same_entry [OF same last(1), unfolded last(2)]
  show "deadline (store (reinsert topE s) ! length (store s)) =
       deadline topE + sint (period (tickers s ! the (ticker topE)))"
    "ent_kind (store (reinsert topE s) ! length (store s)) = kindTicker"
    "dead (store (reinsert topE s) ! length (store s)) = False"
    "ticker (store (reinsert topE s) ! length (store s)) = ticker topE"
    unfolding se by (simp_all add: e_def ts)
qed

text \<open>What stays of the entries already made, from one state to a later one.\<close>

definition extends :: "clk \<Rightarrow> clk \<Rightarrow> bool" where
  "extends s s' \<longleftrightarrow> length (store s) \<le> length (store s') \<and>
     (\<forall>r < length (store s). (store s' ! r)\<lparr>index := 0\<rparr> = (store s ! r)\<lparr>index := 0\<rparr>) \<and>
     tickers s' = tickers s \<and> chans s' = chans s \<and> now s' = now s \<and> launched s' = launched s"

lemma extends_refl [simp]: "extends s s"
  by (simp add: extends_def)

lemma extends_trans: "extends s t \<Longrightarrow> extends t u \<Longrightarrow> extends s u"
  by (auto simp: extends_def)

lemma extends_same: "same_as s s' \<Longrightarrow> extends s s'"
  by (simp add: extends_def same_as_iff)

lemma extends_entry:
  assumes "extends s s'" and "r < length (store s)"
  shows "deadline (store s' ! r) = deadline (store s ! r)" "ent_id (store s' ! r) = ent_id (store s ! r)"
    "ent_kind (store s' ! r) = ent_kind (store s ! r)" "dead (store s' ! r) = dead (store s ! r)"
    "ticker (store s' ! r) = ticker (store s ! r)" "fn (store s' ! r) = fn (store s ! r)"
    "afterC (store s' ! r) = afterC (store s ! r)"
proof -
  have e: "(store s' ! r)\<lparr>index := 0\<rparr> = (store s ! r)\<lparr>index := 0\<rparr>"
    using assms by (simp add: extends_def)
  from arg_cong [OF e, of deadline] arg_cong [OF e, of ent_id] arg_cong [OF e, of ent_kind]
    arg_cong [OF e, of dead] arg_cong [OF e, of ticker] arg_cong [OF e, of fn] arg_cong [OF e, of afterC]
  show "deadline (store s' ! r) = deadline (store s ! r)" "ent_id (store s' ! r) = ent_id (store s ! r)"
    "ent_kind (store s' ! r) = ent_kind (store s ! r)" "dead (store s' ! r) = dead (store s ! r)"
    "ticker (store s' ! r) = ticker (store s ! r)" "fn (store s' ! r) = fn (store s ! r)"
    "afterC (store s' ! r) = afterC (store s ! r)"
    by simp_all
qed

lemma extends_live: "extends s s' \<Longrightarrow> r < length (store s) \<Longrightarrow> live s' r = live s r"
  using extends_entry [of s s' r] by (simp add: live_def extends_def)

lemma ref_lt: "clk_ok s \<Longrightarrow> r \<in> set (entries s) \<Longrightarrow> r < length (store s)"
  by (simp add: clk_ok_def heap_ordered_def refs_ok_def)

text \<open>
  One turn of the loop that fires: the entries are the old ones without the root, and for a ticker
  the new one with it.
\<close>

lemma after_fire_spec:
  assumes ok: "clk_ok s" and ne: "entries s \<noteq> []"
  shows "clk_ok (after_fire s)" "extends s (after_fire s)"
    "mset (entries (after_fire s)) =
      (if ent_kind (store s ! (entries s ! 0)) = kindTicker then {#length (store s)#} else {#}) +
      (mset (entries s) - {#entries s ! 0#})"
    "ent_kind (store s ! (entries s ! 0)) = kindTicker \<Longrightarrow>
      deadline (store (after_fire s) ! length (store s)) =
        deadline (store s ! (entries s ! 0)) + sint (period (tickers s ! the (ticker (store s ! (entries s ! 0))))) \<and>
      ent_kind (store (after_fire s) ! length (store s)) = kindTicker \<and>
      dead (store (after_fire s) ! length (store s)) = False \<and>
      ticker (store (after_fire s) ! length (store s)) = ticker (store s ! (entries s ! 0))"
proof -
  let ?r = "entries s ! 0" and ?p = "after_pop s"
  note ap = after_pop_spec [OF ok ne]
  have r: "?r < length (store s)" using ref_lt [OF ok] ne by simp
  have l: "length (store ?p) = length (store s)" using same_asD [OF ap(2)] by simp
  have e0: "mset (entries s) - {#?r#} = mset (entries ?p)" using ap(3) by simp
  note se = same_entry [OF ap(2) r]
  have fx: "reinsert (store s ! ?r) ?p = reinsert (store ?p ! ?r) ?p"
    using se by (simp add: reinsert_def)
  have rp: "?r < length (store ?p)" using r l by simp
  have "clk_ok (after_fire s) \<and> extends s (after_fire s) \<and>
    mset (entries (after_fire s)) =
      (if ent_kind (store s ! ?r) = kindTicker then {#length (store s)#} else {#}) + (mset (entries s) - {#?r#}) \<and>
    (ent_kind (store s ! ?r) = kindTicker \<longrightarrow>
      deadline (store (after_fire s) ! length (store s)) =
        deadline (store s ! ?r) + sint (period (tickers s ! the (ticker (store s ! ?r)))) \<and>
      ent_kind (store (after_fire s) ! length (store s)) = kindTicker \<and>
      dead (store (after_fire s) ! length (store s)) = False \<and>
      ticker (store (after_fire s) ! length (store s)) = ticker (store s ! ?r))"
  proof (cases "ent_kind (store s ! ?r) = kindTicker")
    case True
    then have k: "ent_kind (store ?p ! ?r) = kindTicker" using se by simp
    note ri = reinsert_spec [OF ap(1) rp refl k]
    have af: "after_fire s = reinsert (store ?p ! ?r) ?p" using True fx by (simp add: after_fire_def Let_def)
    have "extends ?p (after_fire s)"
      using ri(3,4,9-12) by (simp add: extends_def af)
    then have "extends s (after_fire s)" using extends_same [OF ap(2)] extends_trans by blast
    then show ?thesis
      using ri(1,2,5-8) True e0 l se same_asD [OF ap(2)] by (simp add: af)
  next
    case False
    then have "after_fire s = ?p" by (simp add: after_fire_def Let_def)
    then show ?thesis using False e0 ap(1) extends_same [OF ap(2)] by simp
  qed
  then show "clk_ok (after_fire s)" "extends s (after_fire s)"
    "mset (entries (after_fire s)) =
      (if ent_kind (store s ! ?r) = kindTicker then {#length (store s)#} else {#}) + (mset (entries s) - {#?r#})"
    "ent_kind (store s ! ?r) = kindTicker \<Longrightarrow>
      deadline (store (after_fire s) ! length (store s)) =
        deadline (store s ! ?r) + sint (period (tickers s ! the (ticker (store s ! ?r)))) \<and>
      ent_kind (store (after_fire s) ! length (store s)) = kindTicker \<and>
      dead (store (after_fire s) ! length (store s)) = False \<and>
      ticker (store (after_fire s) ! length (store s)) = ticker (store s ! ?r)"
    by blast+
qed

section \<open>The loop returns\<close>

definition weight :: "int \<Rightarrow> clk \<Rightarrow> nat" where
  "weight n s = (\<Sum>r \<in># mset (entries s). nat (n - deadline (store s ! r) + 1))"

lemma weight_pop:
  assumes ok: "clk_ok s" and nd: "\<not> drained n s"
  shows "weight n (after_pop s) < weight n s"
proof -
  have ne: "entries s \<noteq> []" and d: "deadline (store s ! (entries s ! 0)) \<le> n"
    using nd by (auto simp: drained_def)
  note ap = after_pop_spec [OF ok ne]
  have "(\<Sum>r \<in># mset (entries (after_pop s)). nat (n - deadline (store (after_pop s) ! r) + 1)) =
      (\<Sum>r \<in># mset (entries (after_pop s)). nat (n - deadline (store s ! r) + 1))"
  proof (rule arg_cong [of _ _ sum_mset], rule image_mset_cong)
    fix r
    assume "r \<in># mset (entries (after_pop s))"
    then have "r \<in># mset (entries s)" using ap(3) by simp
    then have "r < length (store s)" using ref_lt [OF ok] by simp
    then show "nat (n - deadline (store (after_pop s) ! r) + 1) = nat (n - deadline (store s ! r) + 1)"
      using same_entry [OF ap(2)] by simp
  qed
  then show ?thesis using d by (simp add: weight_def ap(3))
qed

lemma period_pos:
  assumes "clk_ok s" and "r < length (store s)" and "ent_kind (store s ! r) = kindTicker"
  shows "0 < sint (period (tickers s ! the (ticker (store s ! r))))"
  using ticker_entry [OF assms] assms(1) by (auto simp: clk_ok_def data_ok_def)

lemma weight_fire:
  assumes ok: "clk_ok s" and nd: "\<not> drained n s"
  shows "weight n (after_fire s) < weight n s"
proof -
  let ?r = "entries s ! 0"
  let ?f = "\<lambda>r. nat (n - deadline (store s ! r) + 1)" and ?g = "\<lambda>r. nat (n - deadline (store (after_fire s) ! r) + 1)"
  have ne: "entries s \<noteq> []" and d: "deadline (store s ! ?r) \<le> n"
    using nd by (auto simp: drained_def)
  note af = after_fire_spec [OF ok ne]
  have r: "?r < length (store s)" using ref_lt [OF ok] ne by simp
  have rin: "?r \<in># mset (entries s)" using ne by simp
  have rest: "(\<Sum>r \<in># mset (entries s) - {#?r#}. ?g r) = (\<Sum>r \<in># mset (entries s) - {#?r#}. ?f r)"
  proof (rule arg_cong [of _ _ sum_mset], rule image_mset_cong)
    fix r
    assume "r \<in># mset (entries s) - {#?r#}"
    then have "r < length (store s)" using ref_lt [OF ok] by (metis in_diffD set_mset_mset)
    then show "?g r = ?f r" using extends_entry [OF af(2)] by simp
  qed
  have w: "weight n s = ?f ?r + (\<Sum>r \<in># mset (entries s) - {#?r#}. ?f r)"
    unfolding weight_def using rin by (metis (no_types, lifting) image_mset_add_mset insert_DiffM sum_mset.insert)
  show ?thesis
  proof (cases "ent_kind (store s ! ?r) = kindTicker")
    case True
    have "?g (length (store s)) < ?f ?r"
      using af(4) [OF True] period_pos [OF ok r True] d by auto
    then show ?thesis using w rest True by (simp add: weight_def af(3))
  next
    case False
    then show ?thesis using w rest d by (simp add: weight_def af(3))
  qed
qed

theorem drains_total: "clk_ok s \<Longrightarrow> \<exists>fs s'. drains n s fs s'"
proof (induction "weight n s" arbitrary: s rule: less_induct)
  case less
  show ?case
  proof (cases "drained n s")
    case False
    then have ne: "entries s \<noteq> []" by (auto simp: drained_def)
    show ?thesis
    proof (cases "live s (entries s ! 0)")
      case True
      then show ?thesis
        using less weight_fire [OF less.prems False] after_fire_spec(1) [OF less.prems ne]
        by (meson False drains_fire)
    next
      case nl: False
      then show ?thesis
        using less weight_pop [OF less.prems False] after_pop_spec(1) [OF less.prems ne]
        by (meson False drains_skip)
    qed
  qed (blast intro: drains_done)
qed

lemma drain_step:
  assumes "clk_ok s"
  shows "drain n s fs =
    (if drained n s then Some (s, fs)
     else if live s (entries s ! 0)
     then drain n (after_fire s) (fs @ [(entries s ! 0, deadline (store s ! (entries s ! 0)))])
     else drain n (after_pop s) fs)"
proof (cases "entries s = []")
  case False
  then show ?thesis
    using live_tickers [OF assms False]
    by (subst drain.simps)
      (auto simp: HeapLen_def drained_def live_def after_fire_def after_pop_def Let_def not_less)
qed (simp add: drain.simps [of n s] HeapLen_def drained_def)

lemma drains_drain: "drains n s gs s' \<Longrightarrow> clk_ok s \<Longrightarrow> drain n s fs = Some (s', fs @ gs)"
proof (induction arbitrary: fs rule: drains.induct)
  case (drains_done s)
  then show ?case by (simp add: drain_step)
next
  case (drains_skip s gs s')
  then have "entries s \<noteq> []" by (auto simp: drained_def)
  then show ?case using drains_skip after_pop_spec(1) by (simp add: drain_step)
next
  case (drains_fire s gs s')
  then have "entries s \<noteq> []" by (auto simp: drained_def)
  then show ?case using drains_fire after_fire_spec(1) by (simp add: drain_step)
qed

end
