(* ===== verification/Clock_Fires.thy ===== *)
theory Clock_Fires
  imports Clock_Drain
begin

text \<open>
  What one run of the collecting loop fires, by induction on the loop: nothing dead, everything due,
  each event once, in deadline order; a ticker at every multiple of its period; and two runs in a
  row are one run.
\<close>

section \<open>What is left and what is fired\<close>

lemma root_least:
  assumes "clk_ok s" and "r \<in> set (entries s)"
  shows "ent_key s (entries s ! 0) \<le> ent_key s r" "deadline (store s ! (entries s ! 0)) \<le> deadline (store s ! r)"
proof -
  have "entries s \<noteq> []" using assms(2) by auto
  then show "ent_key s (entries s ! 0) \<le> ent_key s r"
    using after_pop_spec(4) assms by blast
  then show "deadline (store s ! (entries s ! 0)) \<le> deadline (store s ! r)"
    by (auto simp: ent_key_def)
qed

lemma drains_ok: "drains n s fs s' \<Longrightarrow> clk_ok s \<Longrightarrow> clk_ok s' \<and> extends s s'"
proof (induction rule: drains.induct)
  case (drains_skip s fs s')
  then have "entries s \<noteq> []" by (auto simp: drained_def)
  then show ?case
    using drains_skip after_pop_spec [of s] extends_same extends_trans by blast
next
  case (drains_fire s fs s')
  then have "entries s \<noteq> []" by (auto simp: drained_def)
  then show ?case using drains_fire after_fire_spec [of s] extends_trans by blast
qed simp

lemma drains_rest: "drains n s fs s' \<Longrightarrow> clk_ok s \<Longrightarrow> r \<in> set (entries s') \<Longrightarrow> n < deadline (store s' ! r)"
proof (induction rule: drains.induct)
  case (drains_done s)
  then show ?case using root_least(2) [of s r] by (auto simp: drained_def)
next
  case (drains_skip s fs s')
  then have "entries s \<noteq> []" by (auto simp: drained_def)
  then show ?case using drains_skip after_pop_spec(1) by blast
next
  case (drains_fire s fs s')
  then have "entries s \<noteq> []" by (auto simp: drained_def)
  then show ?case using drains_fire after_fire_spec(1) by blast
qed

lemma entries_after_pop:
  assumes "clk_ok s" and "entries s \<noteq> []"
  shows "set (entries (after_pop s)) = set (entries s) - {entries s ! 0}"
proof -
  have d: "distinct (entries s)" using assms(1) by (simp add: clk_ok_def heap_ordered_def refs_ok_def)
  have "mset (entries (after_pop s)) = mset (entries s) - {#entries s ! 0#}"
    using after_pop_spec(3) [OF assms] by simp
  then have "mset (entries (after_pop s)) = mset (remove1 (entries s ! 0) (entries s))" by simp
  then show ?thesis using d by (metis mset_eq_setD set_remove1_eq)
qed

lemma entries_after_fire:
  assumes "clk_ok s" and "entries s \<noteq> []"
  shows "set (entries (after_fire s)) = (set (entries s) - {entries s ! 0}) \<union>
    (if ent_kind (store s ! (entries s ! 0)) = kindTicker then {length (store s)} else {})"
proof -
  have d: "distinct (entries s)" using assms(1) by (simp add: clk_ok_def heap_ordered_def refs_ok_def)
  have "mset (entries (after_fire s)) =
      mset ((if ent_kind (store s ! (entries s ! 0)) = kindTicker then [length (store s)] else []) @
        remove1 (entries s ! 0) (entries s))"
    using after_fire_spec(3) [OF assms] by simp
  then have "set (entries (after_fire s)) =
      set ((if ent_kind (store s ! (entries s ! 0)) = kindTicker then [length (store s)] else []) @
        remove1 (entries s ! 0) (entries s))"
    by (rule mset_eq_setD)
  then show ?thesis using d by (auto simp: set_remove1_eq split: if_splits)
qed

lemma fires_sound:
  "drains n s fs s' \<Longrightarrow> clk_ok s \<Longrightarrow> (r, t) \<in> set fs \<Longrightarrow>
   r < length (store s') \<and> t = deadline (store s' ! r) \<and> t \<le> n \<and> live s' r \<and>
   (r \<in> set (entries s) \<or> length (store s) \<le> r)"
proof (induction rule: drains.induct)
  case (drains_skip s fs s')
  then have ne: "entries s \<noteq> []" by (auto simp: drained_def)
  have "length (store (after_pop s)) = length (store s)"
    using same_asD(6) [OF after_pop_spec(2) [OF drains_skip.prems(1) ne]] .
  then show ?case
    using drains_skip after_pop_spec(1) [OF drains_skip.prems(1) ne]
      entries_after_pop [OF drains_skip.prems(1) ne] by auto
next
  case (drains_fire s fs s')
  then have ne: "entries s \<noteq> []" and d: "deadline (store s ! (entries s ! 0)) \<le> n"
    by (auto simp: drained_def)
  note af = after_fire_spec [OF drains_fire.prems(1) ne]
  have ext: "extends s s'" using drains_ok [OF drains_fire.hyps(3) af(1)] af(2) extends_trans by blast
  have r0: "entries s ! 0 < length (store s)" using ref_lt [OF drains_fire.prems(1)] ne by simp
  have len: "length (store s) \<le> length (store (after_fire s))" using af(2) by (simp add: extends_def)
  consider "r = entries s ! 0" "t = deadline (store s ! (entries s ! 0))" | "(r, t) \<in> set fs"
    using drains_fire.prems(2) by auto
  then show ?case
  proof cases
    case 1
    have "entries s ! 0 < length (store s')" using r0 ext by (simp add: extends_def)
    then show ?thesis
      using 1 ne d extends_entry(1) [OF ext r0] extends_live [OF ext r0] drains_fire.hyps(2) by simp
  next
    case 2
    note ih = drains_fire.IH [OF af(1) 2]
    then have "r \<in> set (entries (after_fire s)) \<or> length (store (after_fire s)) \<le> r" by blast
    then have "r \<in> set (entries s) \<or> length (store s) \<le> r"
      using len unfolding entries_after_fire [OF drains_fire.prems(1) ne] by (auto split: if_splits)
    then show ?thesis using ih by blast
  qed
qed simp

lemma fires_complete:
  "drains n s fs s' \<Longrightarrow> clk_ok s \<Longrightarrow> r \<in> set (entries s) \<Longrightarrow> live s r \<Longrightarrow> deadline (store s ! r) \<le> n \<Longrightarrow>
   (r, deadline (store s ! r)) \<in> set fs"
proof (induction rule: drains.induct)
  case (drains_done s)
  then show ?case using root_least(2) [of s r] by (auto simp: drained_def)
next
  case (drains_skip s fs s')
  have ne: "entries s \<noteq> []" using drains_skip.hyps(1) by (auto simp: drained_def)
  note ap = after_pop_spec [OF drains_skip.prems(1) ne]
  have r: "r < length (store s)" using ref_lt drains_skip.prems by blast
  have "r \<noteq> entries s ! 0" using drains_skip by auto
  then have "r \<in> set (entries (after_pop s))"
    using entries_after_pop [OF drains_skip.prems(1) ne] drains_skip.prems(2) by simp
  then show ?case
    using drains_skip.IH [OF ap(1)] drains_skip.prems same_entry(1) [OF ap(2) r]
      extends_live [OF extends_same [OF ap(2)] r] by simp
next
  case (drains_fire s fs s')
  have ne: "entries s \<noteq> []" using drains_fire.hyps(1) by (auto simp: drained_def)
  note af = after_fire_spec [OF drains_fire.prems(1) ne]
  have r: "r < length (store s)" using ref_lt drains_fire.prems by blast
  show ?case
  proof (cases "r = entries s ! 0")
    case False
    then have "r \<in> set (entries (after_fire s))"
      using entries_after_fire [OF drains_fire.prems(1) ne] drains_fire.prems(2) by simp
    then show ?thesis
      using drains_fire.IH [OF af(1)] drains_fire.prems extends_entry(1) [OF af(2) r]
        extends_live [OF af(2) r] by simp
  qed simp
qed

lemma fires_distinct: "drains n s fs s' \<Longrightarrow> clk_ok s \<Longrightarrow> distinct (map fst fs)"
proof (induction rule: drains.induct)
  case (drains_skip s fs s')
  then have "entries s \<noteq> []" by (auto simp: drained_def)
  then show ?case using drains_skip after_pop_spec(1) by blast
next
  case (drains_fire s fs s')
  then have ne: "entries s \<noteq> []" by (auto simp: drained_def)
  note af = after_fire_spec [OF drains_fire.prems ne]
  have r0: "entries s ! 0 < length (store s)" using ref_lt [OF drains_fire.prems] ne by simp
  have len: "length (store s) \<le> length (store (after_fire s))" using af(2) by (simp add: extends_def)
  have "entries s ! 0 \<notin> fst ` set fs"
  proof
    assume "entries s ! 0 \<in> fst ` set fs"
    then obtain t where "(entries s ! 0, t) \<in> set fs" by auto
    then have "entries s ! 0 \<in> set (entries (after_fire s)) \<or> length (store (after_fire s)) \<le> entries s ! 0"
      using fires_sound [OF drains_fire.hyps(3) af(1)] by blast
    then show False
      using entries_after_fire [OF drains_fire.prems ne] r0 len by (auto split: if_splits)
  qed
  then show ?case using drains_fire.IH [OF af(1)] by simp
qed simp

lemma fires_above:
  "drains n s fs s' \<Longrightarrow> clk_ok s \<Longrightarrow> \<forall>r \<in> set (entries s). K \<le> ent_key s r \<Longrightarrow> (r, t) \<in> set fs \<Longrightarrow>
   K \<le> ent_key s' r"
proof (induction rule: drains.induct)
  case (drains_skip s fs s')
  then have ne: "entries s \<noteq> []" by (auto simp: drained_def)
  note ap = after_pop_spec [OF drains_skip.prems(1) ne]
  have "\<forall>r \<in> set (entries (after_pop s)). K \<le> ent_key (after_pop s) r"
    using drains_skip.prems(2) entries_after_pop [OF drains_skip.prems(1) ne] ref_lt [OF drains_skip.prems(1)]
    by (simp add: ent_key_same [OF ap(2)])
  then show ?case using drains_skip.IH ap(1) drains_skip.prems(3) by blast
next
  case (drains_fire s fs s')
  then have ne: "entries s \<noteq> []" by (auto simp: drained_def)
  note af = after_fire_spec [OF drains_fire.prems(1) ne]
  let ?r0 = "entries s ! 0"
  have r0: "?r0 < length (store s)" using ref_lt [OF drains_fire.prems(1)] ne by simp
  have K0: "K \<le> ent_key s ?r0" using drains_fire.prems(2) ne by simp
  have ek: "ent_key (after_fire s) q = ent_key s q" if "q < length (store s)" for q
    using extends_entry [OF af(2) that] by (simp add: ent_key_def)
  have "K \<le> ent_key (after_fire s) q" if q: "q \<in> set (entries (after_fire s))" for q
  proof (cases "q \<in> set (entries s)")
    case True
    then show ?thesis using drains_fire.prems(2) ek ref_lt [OF drains_fire.prems(1)] by simp
  next
    case False
    then have k: "ent_kind (store s ! ?r0) = kindTicker" "q = length (store s)"
      using q entries_after_fire [OF drains_fire.prems(1) ne] by (auto split: if_splits)
    have "deadline (store s ! ?r0) < deadline (store (after_fire s) ! q)"
      using af(4) [OF k(1)] period_pos [OF drains_fire.prems(1) r0 k(1)] k(2) by simp
    then have "ent_key s ?r0 < ent_key (after_fire s) q" by (simp add: ent_key_def)
    then show ?thesis using K0 by simp
  qed
  then have "(r, t) \<in> set fs \<Longrightarrow> K \<le> ent_key s' r" using drains_fire.IH af(1) by blast
  moreover have "ent_key s' ?r0 = ent_key s ?r0"
    using extends_entry(1,2) [OF extends_trans [OF af(2) drains_ok [OF drains_fire.hyps(3) af(1), THEN conjunct2]] r0]
    by (simp add: ent_key_def)
  ultimately show ?case using drains_fire.prems(3) K0 by auto
qed simp

lemma fires_sorted: "drains n s fs s' \<Longrightarrow> clk_ok s \<Longrightarrow> sorted (map (ent_key s' \<circ> fst) fs)"
proof (induction rule: drains.induct)
  case (drains_skip s fs s')
  then have "entries s \<noteq> []" by (auto simp: drained_def)
  then show ?case using drains_skip after_pop_spec(1) by blast
next
  case (drains_fire s fs s')
  then have ne: "entries s \<noteq> []" by (auto simp: drained_def)
  let ?r0 = "entries s ! 0"
  have d: "drains n s ((?r0, deadline (store s ! ?r0)) # fs) s'"
    using drains_fire.hyps by (rule drains.drains_fire)
  note af = after_fire_spec [OF drains_fire.prems ne]
  have r0: "?r0 < length (store s)" using ref_lt [OF drains_fire.prems] ne by simp
  have ext: "extends s s'" using drains_ok [OF d drains_fire.prems] by simp
  have "ent_key s' ?r0 = ent_key s ?r0" using extends_entry(1,2) [OF ext r0] by (simp add: ent_key_def)
  moreover have "\<forall>r \<in> set (entries s). ent_key s ?r0 \<le> ent_key s r" using root_least(1) drains_fire.prems by blast
  ultimately have "ent_key s' ?r0 \<le> ent_key s' r" if "(r, t) \<in> set fs" for r t
    using fires_above [OF d drains_fire.prems, of "ent_key s ?r0" r t] that by simp
  then show ?case using drains_fire.IH [OF af(1)] by auto
qed simp

section \<open>Tickers\<close>

definition ticks :: "int \<Rightarrow> int \<Rightarrow> int \<Rightarrow> int list" where
  "ticks t p n = map (\<lambda>k. t + int k * p) [0..<nat ((n - t) div p + 1)]"

lemma ticks_none: "0 < p \<Longrightarrow> n < t \<Longrightarrow> ticks t p n = []"
  by (auto simp: ticks_def div_neg_pos_less0 add1_zle_eq)

lemma ticks_step: "0 < p \<Longrightarrow> t \<le> n \<Longrightarrow> ticks t p n = t # ticks (t + p) p n"
proof -
  assume p: "0 < p" and t: "t \<le> n"
  let ?q = "(n - t) div p"
  have q: "0 \<le> ?q" using p t by (simp add: pos_imp_zdiv_nonneg_iff)
  have "((n - t) + (- 1) * p) div p = - 1 + ?q" using p by (intro div_mult_self1) simp
  then have "(n - (t + p)) div p = ?q - 1" by (simp add: algebra_simps)
  then have "nat ((n - (t + p)) div p + 1) = nat ?q" by simp
  moreover have "[0..<nat (?q + 1)] = 0 # map Suc [0..<nat ?q]"
    using q by (simp add: nat_add_distrib upt_conv_Cons map_Suc_upt del: upt_Suc)
  ultimately show ?thesis by (simp add: ticks_def algebra_simps)
qed

text \<open>\<open>r\<close> is the live entry of ticker \<open>ts\<close>, and its only one.\<close>

definition sole_ticker :: "nat \<Rightarrow> nat \<Rightarrow> clk \<Rightarrow> bool" where
  "sole_ticker ts r s \<longleftrightarrow>
     r \<in> set (entries s) \<and> live s r \<and> ent_kind (store s ! r) = kindTicker \<and> ticker (store s ! r) = Some ts \<and>
     (\<forall>q \<in> set (entries s). ticker (store s ! q) = Some ts \<longrightarrow> q = r)"

lemma sole_tickerI:
  "r \<in> set (entries s) \<Longrightarrow> live s r \<Longrightarrow> ent_kind (store s ! r) = kindTicker \<Longrightarrow> ticker (store s ! r) = Some ts \<Longrightarrow>
   (\<And>q. q \<in> set (entries s) \<Longrightarrow> ticker (store s ! q) = Some ts \<Longrightarrow> q = r) \<Longrightarrow> sole_ticker ts r s"
  unfolding sole_ticker_def by blast

lemma sole_tickerD:
  assumes "sole_ticker ts r s"
  shows "r \<in> set (entries s)" "live s r" "ent_kind (store s ! r) = kindTicker" "ticker (store s ! r) = Some ts"
    "\<And>q. q \<in> set (entries s) \<Longrightarrow> ticker (store s ! q) = Some ts \<Longrightarrow> q = r"
  using assms unfolding sole_ticker_def by blast+

lemma sole_period:
  assumes ok: "clk_ok s" and r: "sole_ticker ts r s"
  shows "0 < sint (period (tickers s ! ts))"
proof -
  note r = sole_tickerD(1,3,4) [OF r]
  have "ts < length (tickers s)" using ticker_entry [OF ok ref_lt [OF ok r(1)] r(2)] r(3) by fastforce
  then show ?thesis using ok by (simp add: clk_ok_def data_ok_def)
qed

lemma sole_after_pop:
  assumes ok: "clk_ok s" and ne: "entries s \<noteq> []" and dead: "\<not> live s (entries s ! 0)" and r: "sole_ticker ts r s"
  shows "sole_ticker ts r (after_pop s)" "deadline (store (after_pop s) ! r) = deadline (store s ! r)"
proof -
  note ap = after_pop_spec [OF ok ne] and r = sole_tickerD [OF r]
  have r0: "r < length (store s)" using ref_lt [OF ok r(1)] .
  note se = same_entry [OF ap(2) r0]
  have "r \<noteq> entries s ! 0" using dead r(2) by blast
  then have rin: "r \<in> set (entries (after_pop s))" using entries_after_pop [OF ok ne] r(1) by simp
  have lv: "live (after_pop s) r" using extends_live [OF extends_same [OF ap(2)] r0] r(2) by simp
  show "sole_ticker ts r (after_pop s)"
  proof (rule sole_tickerI [OF rin lv])
    fix q assume q: "q \<in> set (entries (after_pop s))" "ticker (store (after_pop s) ! q) = Some ts"
    then have "q \<in> set (entries s)" using entries_after_pop [OF ok ne] by simp
    then show "q = r" using r(5) same_entry(5) [OF ap(2)] ref_lt [OF ok] q(2) by metis
  qed (simp_all add: se r(3,4))
  show "deadline (store (after_pop s) ! r) = deadline (store s ! r)" by (rule se(1))
qed

lemma sole_fired:
  assumes ok: "clk_ok s" and ne: "entries s \<noteq> []" and r: "sole_ticker ts (entries s ! 0) s"
  shows "sole_ticker ts (length (store s)) (after_fire s)"
    "deadline (store (after_fire s) ! length (store s)) = deadline (store s ! (entries s ! 0)) + sint (period (tickers s ! ts))"
proof -
  let ?new = "length (store s)"
  note af = after_fire_spec [OF ok ne] and t = sole_tickerD [OF r]
  note new = af(4) [OF t(3), unfolded t(4) option.sel]
  have ein: "set (entries (after_fire s)) = insert ?new (set (entries s) - {entries s ! 0})"
    using entries_after_fire [OF ok ne] t(3) by simp
  have "tickers (after_fire s) = tickers s" using af(2) by (simp add: extends_def)
  moreover have "\<not> stopped (tickers s ! ts)" using t(2-4) by (simp add: live_def)
  ultimately have lv: "live (after_fire s) ?new" using new by (simp add: live_def)
  show "sole_ticker ts ?new (after_fire s)"
  proof (rule sole_tickerI [OF _ lv])
    fix q assume q: "q \<in> set (entries (after_fire s))" "ticker (store (after_fire s) ! q) = Some ts"
    show "q = ?new"
    proof (rule ccontr)
      assume "q \<noteq> ?new"
      then have o: "q \<in> set (entries s)" "q \<noteq> entries s ! 0" using q(1) ein by auto
      then show False using t(5) [OF o(1)] extends_entry(5) [OF af(2) ref_lt [OF ok o(1)]] q(2) by metis
    qed
  qed (use new ein in simp_all)
  show "deadline (store (after_fire s) ! ?new) = deadline (store s ! (entries s ! 0)) + sint (period (tickers s ! ts))"
    using new by blast
qed

lemma sole_other:
  assumes ok: "clk_ok s" and ne: "entries s \<noteq> []" and r: "sole_ticker ts r s" and rn: "r \<noteq> entries s ! 0"
  shows "sole_ticker ts r (after_fire s)" "deadline (store (after_fire s) ! r) = deadline (store s ! r)"
    "ticker (store s ! (entries s ! 0)) \<noteq> Some ts"
proof -
  note af = after_fire_spec [OF ok ne] and r = sole_tickerD [OF r]
  have r0: "r < length (store s)" using ref_lt [OF ok r(1)] .
  note ee = extends_entry [OF af(2) r0]
  show nt: "ticker (store s ! (entries s ! 0)) \<noteq> Some ts" using r(5) [of "entries s ! 0"] rn ne by auto
  have lv: "live (after_fire s) r" using extends_live [OF af(2) r0] r(2) by simp
  have rin: "r \<in> set (entries (after_fire s))" using entries_after_fire [OF ok ne] r(1) rn by simp
  show "sole_ticker ts r (after_fire s)"
  proof (rule sole_tickerI [OF rin lv])
    fix q assume q: "q \<in> set (entries (after_fire s))" "ticker (store (after_fire s) ! q) = Some ts"
    have "q \<noteq> length (store s) \<or> ent_kind (store s ! (entries s ! 0)) \<noteq> kindTicker" using af(4) nt q(2) by auto
    moreover have "r \<noteq> length (store s)" "\<And>x. x \<in> set (entries s) \<Longrightarrow> x \<noteq> length (store s)"
      using ref_lt [OF ok] r(1) by blast+
    ultimately have o: "q \<in> set (entries s)" using q(1) entries_after_fire [OF ok ne] by (auto split: if_splits)
    then show "q = r" using r(5) [OF o] extends_entry(5) [OF af(2) ref_lt [OF ok o]] q(2) by metis
  qed (simp_all add: ee r(3,4))
  show "deadline (store (after_fire s) ! r) = deadline (store s ! r)" by (simp add: ee)
qed

lemma ticker_fires:
  "drains n s fs s' \<Longrightarrow> clk_ok s \<Longrightarrow> sole_ticker ts r s \<Longrightarrow>
   map snd (filter (\<lambda>f. ticker (store s' ! fst f) = Some ts) fs) =
     ticks (deadline (store s ! r)) (sint (period (tickers s ! ts))) n"
proof (induction arbitrary: r rule: drains.induct)
  case (drains_done s)
  have "r \<in> set (entries s)" using drains_done.prems(2) by (simp add: sole_ticker_def)
  then have "n < deadline (store s ! r)"
    using drains_done.hyps root_least(2) [OF drains_done.prems(1)] by (fastforce simp: drained_def)
  then show ?case using sole_period [OF drains_done.prems] by (simp add: ticks_none)
next
  case (drains_skip s fs s')
  have ne: "entries s \<noteq> []" using drains_skip.hyps(1) by (auto simp: drained_def)
  note ap = after_pop_spec [OF drains_skip.prems(1) ne]
  show ?case
    using drains_skip.IH [OF ap(1) sole_after_pop(1)] sole_after_pop(2) drains_skip.prems drains_skip.hyps(2) ne
      same_asD(3) [OF ap(2)] by simp
next
  case (drains_fire s fs s')
  have ne: "entries s \<noteq> []" using drains_fire.hyps(1) by (auto simp: drained_def)
  let ?t = "entries s ! 0"
  note ok = drains_fire.prems(1) and sole = drains_fire.prems(2)
  note af = after_fire_spec [OF ok ne]
  have t: "?t < length (store s)" using ref_lt [OF ok] ne by simp
  have ext: "extends s s'" using drains_ok [OF drains_fire.hyps(3) af(1)] af(2) extends_trans by blast
  have tk: "tickers (after_fire s) = tickers s" using af(2) by (simp add: extends_def)
  have le: "deadline (store s ! ?t) \<le> n" using drains_fire.hyps(1) by (auto simp: drained_def)
  have old: "ticker (store s' ! ?t) = ticker (store s ! ?t)" using extends_entry(5) [OF ext t] .
  show ?case
  proof (cases "r = ?t")
    case True
    note sf = sole_fired [OF ok ne sole [unfolded True]]
    have "ticker (store s ! ?t) = Some ts" using sole True by (simp add: sole_ticker_def)
    then show ?thesis
      using drains_fire.IH [OF af(1) sf(1)] sf(2) tk ticks_step [OF sole_period [OF ok sole] le] True old by simp
  next
    case False
    note so = sole_other [OF ok ne sole False]
    show ?thesis using drains_fire.IH [OF af(1) so(1)] so(2,3) tk old by simp
  qed
qed

section \<open>Two runs are one\<close>

text \<open>The heap does not look at the time, the channels or the launched callbacks.\<close>

definition aside :: "int \<Rightarrow> int option list \<Rightarrow> nat list \<Rightarrow> clk \<Rightarrow> clk" where
  "aside x c l s = s\<lparr>now := x, chans := c, launched := l\<rparr>"

lemma heap_up_commute:
  assumes "\<And>s i j. lessf (g s) i j = lessf s i j" and "\<And>s i j. swap i j (g s) = g (swap i j s)"
  shows "heap_up lessf swap j (g s) = g (heap_up lessf swap j s)"
proof (induction j arbitrary: s rule: less_induct)
  case (less j)
  show ?case
    using less [of "parent j"] parent_other [of j]
    by (subst (1 2) heap_up.simps) (auto simp: Let_def assms)
qed

lemma heap_down_commute:
  assumes "\<And>s i j. lessf (g s) i j = lessf s i j" and "\<And>s i j. swap i j (g s) = g (swap i j s)"
  shows "heap_down lessf swap i n (g s) = g (heap_down lessf swap i n s)"
proof (induction "n - i" arbitrary: i s rule: less_induct)
  case less
  let ?j1 = "2 * i + 1"
  define j where "j = (if ?j1 + 1 < n \<and> lessf s (?j1 + 1) ?j1 then ?j1 + 1 else ?j1)"
  have eq: "heap_down lessf swap i n s =
      (if n \<le> ?j1 then s else if \<not> lessf s j i then s else heap_down lessf swap j n (swap i j s))"
    by (simp only: heap_down.simps [of lessf swap i n s] Let_def j_def)
  have eqg: "heap_down lessf swap i n (g s) =
      (if n \<le> ?j1 then g s else if \<not> lessf s j i then g s else heap_down lessf swap j n (g (swap i j s)))"
    by (simp only: heap_down.simps [of lessf swap i n "g s"] Let_def j_def assms)
  show ?case
  proof (cases "n \<le> ?j1")
    case False
    then have "n - j < n - i" by (auto simp: j_def)
    then show ?thesis using less [of j "swap i j s"] by (simp add: eq eqg)
  qed (simp add: eq eqg)
qed

lemma aside_simps [simp]:
  "entries (aside x c l s) = entries s" "store (aside x c l s) = store s"
  "tickers (aside x c l s) = tickers s" "nextID (aside x c l s) = nextID s"
  "chans (aside x c l s) = c" "launched (aside x c l s) = l" "now (aside x c l s) = x"
  by (simp_all add: aside_def)

lemma aside_nextID: "(aside x c l s)\<lparr>nextID := i\<rparr> = aside x c l (s\<lparr>nextID := i\<rparr>)"
  by (simp add: aside_def)

lemma aside_less: "HeapLess (aside x c l s) i j = HeapLess s i j"
  by (simp add: HeapLess_def entry_at_def)

lemma aside_upd_entry: "upd_entry r f (aside x c l s) = aside x c l (upd_entry r f s)"
  by (simp add: upd_entry_def aside_def)

lemma aside_entries: "(aside x c l s)\<lparr>entries := h\<rparr> = aside x c l (s\<lparr>entries := h\<rparr>)"
  by (simp add: aside_def)

lemma aside_store: "(aside x c l s)\<lparr>store := h\<rparr> = aside x c l (s\<lparr>store := h\<rparr>)"
  by (simp add: aside_def)

lemma aside_swap: "HeapSwap i j (aside x c l s) = aside x c l (HeapSwap i j s)"
  by (simp add: HeapSwap_def set_index_def Let_def aside_entries aside_upd_entry)

lemma aside_heap:
  "heap_up HeapLess HeapSwap j (aside x c l s) = aside x c l (heap_up HeapLess HeapSwap j s)"
  "heap_down HeapLess HeapSwap i n (aside x c l s) = aside x c l (heap_down HeapLess HeapSwap i n s)"
  by (rule heap_up_commute [where g = "aside x c l"] heap_down_commute [where g = "aside x c l"];
      rule aside_less aside_swap)+

lemma aside_pop: "after_pop (aside x c l s) = aside x c l (after_pop s)"
proof -
  have "heap_pop_down HeapLess HeapSwap HeapLen (aside x c l s) =
      aside x c l (heap_pop_down HeapLess HeapSwap HeapLen s)"
    by (simp add: heap_pop_down_def HeapLen_def Let_def aside_swap aside_heap)
  then show ?thesis
    by (simp add: after_pop_def hpop_def HeapPop_def HeapLen_def Let_def set_index_def aside_entries
        aside_upd_entry)
qed

lemma aside_push: "snd (push_new e (aside x c l s)) = aside x c l (snd (push_new e s))"
  by (simp add: push_new_def hpush_def HeapPush_def heap_push_up_def HeapLen_def Let_def set_index_def
      aside_store aside_entries aside_upd_entry aside_heap)

lemma aside_reinsert: "reinsert topE (aside x c l s) = aside x c l (reinsert topE s)"
  by (simp add: reinsert_def allocID_def Let_def aside_push aside_nextID)

lemma aside_fire: "after_fire (aside x c l s) = aside x c l (after_fire s)"
  by (simp add: after_fire_def Let_def aside_pop aside_reinsert)

lemma aside_drained [simp]: "drained n (aside x c l s) = drained n s"
  by (simp add: drained_def)

lemma aside_live [simp]: "live (aside x c l s) r = live s r"
  by (simp add: live_def)

lemma drains_aside: "drains n s fs s' \<Longrightarrow> drains n (aside x c l s) fs (aside x c l s')"
proof (induction rule: drains.induct)
  case (drains_done s)
  show ?case by (rule drains.drains_done) (simp add: drains_done.hyps)
next
  case (drains_skip s fs s')
  show ?case
    by (rule drains.drains_skip) (simp_all add: drains_skip.hyps(1,2) aside_pop drains_skip.IH)
next
  case (drains_fire s fs s')
  let ?g = "aside x c l"
  have "drains n (?g s) ((entries (?g s) ! 0, deadline (store (?g s) ! (entries (?g s) ! 0))) # fs) (?g s')"
    by (rule drains.drains_fire) (simp_all add: drains_fire.hyps(1,2) aside_fire drains_fire.IH)
  then show ?case unfolding aside_simps .
qed

lemma not_drained_mono: "\<not> drained n1 s \<Longrightarrow> n1 \<le> n2 \<Longrightarrow> \<not> drained n2 s"
  by (auto simp: drained_def)

lemma drains_append:
  "drains n1 s f1 s1 \<Longrightarrow> n1 \<le> n2 \<Longrightarrow> drains n2 s1 f2 s2 \<Longrightarrow> drains n2 s (f1 @ f2) s2"
proof (induction rule: drains.induct)
  case (drains_skip s fs s')
  show ?case
    by (rule drains.drains_skip [OF not_drained_mono [OF drains_skip.hyps(1) drains_skip.prems(1)]
          drains_skip.hyps(2) drains_skip.IH [OF drains_skip.prems]])
next
  case (drains_fire s fs s')
  show ?case
    unfolding append_Cons
    by (rule drains.drains_fire [OF not_drained_mono [OF drains_fire.hyps(1) drains_fire.prems(1)]
          drains_fire.hyps(2) drains_fire.IH [OF drains_fire.prems]])
qed simp

text \<open>What the fires do to the channels and the callbacks depends only on the fired entries.\<close>

definition fire_effect ::
  "clk \<Rightarrow> nat \<times> int \<Rightarrow> int option list \<times> nat list \<Rightarrow> int option list \<times> nat list" where
  "fire_effect s f cl =
     (let e = store s ! fst f;
          send = (\<lambda>c. if fst cl ! c = None then ((fst cl)[c := Some (snd f)], snd cl) else cl)
      in case ent_kind e of
           kindTicker \<Rightarrow> send (ch (tickers s ! the (ticker e)))
         | kindAfterFunc \<Rightarrow> (fst cl, snd cl @ [the (fn e)])
         | kindAfter \<Rightarrow> send (the (afterC e)))"

lemma fire_aside:
  "fire f (aside x c l s) =
     aside x (fst (fire_effect s f (c, l))) (snd (fire_effect s f (c, l))) s"
  by (cases "ent_kind (store s ! fst f)")
    (auto simp: fire_def fire_effect_def try_send_def Let_def aside_def)

lemma fires_aside:
  "fold fire fs (aside x c l s) =
     aside x (fst (fold (fire_effect s) fs (c, l))) (snd (fold (fire_effect s) fs (c, l))) s"
  by (induction fs arbitrary: c l) (simp_all add: fire_aside)

lemma fire_effect_same:
  assumes "extends s s'" and "fst f < length (store s)"
  shows "fire_effect s' f = fire_effect s f"
proof -
  have "tickers s' = tickers s" using assms(1) by (simp add: extends_def)
  then show ?thesis
    unfolding fire_effect_def [abs_def] Let_def by (simp only: extends_entry [OF assms])
qed

lemma fires_effect_same:
  assumes "extends s s'" and "\<forall>f \<in> set fs. fst f < length (store s)"
  shows "fold (fire_effect s') fs = fold (fire_effect s) fs"
  using assms(2)
proof (induction fs)
  case (Cons f fs)
  then show ?case using fire_effect_same [OF assms(1), of f] by simp
qed simp

lemma advance_spec:
  assumes "clk_ok s" and "drains (now s + sint d) s fs s'"
  shows "TestClock_Advance d s = Some (fold fire fs (aside (now s + sint d) (chans s) (launched s) s'))"
proof -
  have "extends s s'" using drains_ok [OF assms(2,1)] by simp
  then have "s'\<lparr>now := now s + sint d\<rparr> = aside (now s + sint d) (chans s) (launched s) s'"
    by (simp add: aside_def extends_def)
  then show ?thesis
    using drains_drain [OF assms(2,1), of "[]"] by (simp add: TestClock_Advance_def sched_advance_def Let_def)
qed

lemma advance_total:
  assumes "clk_ok s"
  obtains fs s1 where "drains (now s + sint d) s fs s1"
    "TestClock_Advance d s = Some (fold fire fs (aside (now s + sint d) (chans s) (launched s) s1))"
  using drains_total [OF assms] advance_spec [OF assms] by blast

lemma advance_split:
  assumes ok: "clk_ok s" and d2: "0 \<le> sint d2" and no: "sint (d1 + d2) = sint d1 + sint d2"
  shows "Option.bind (TestClock_Advance d1 s) (TestClock_Advance d2) = TestClock_Advance (d1 + d2) s"
proof -
  let ?n1 = "now s + sint d1" and ?n2 = "now s + sint d1 + sint d2"
  obtain f1 s1 where r1: "drains ?n1 s f1 s1"
      "TestClock_Advance d1 s = Some (fold fire f1 (aside ?n1 (chans s) (launched s) s1))"
    using advance_total [OF ok] by blast
  have ok1: "clk_ok s1" "extends s s1" using drains_ok [OF r1(1) ok] by auto
  define cl where "cl = fold (fire_effect s1) f1 (chans s, launched s)"
  let ?t = "aside ?n1 (fst cl) (snd cl) s1"
  have t: "fold fire f1 (aside ?n1 (chans s) (launched s) s1) = ?t" by (simp add: fires_aside cl_def)
  have okt: "clk_ok ?t"
  proof -
    have "aside ?n1 (chans s) (launched s) s1 = s1\<lparr>now := ?n1\<rparr>"
      using ok1(2) by (simp add: aside_def extends_def)
    moreover have "clk_ok (s1\<lparr>now := ?n1\<rparr>)" using clk_ok_Set [OF ok1(1)] by (simp add: TestClock_Set_def)
    ultimately show ?thesis using clk_ok_fires t by metis
  qed
  obtain f2 s2 where r2: "drains ?n2 s1 f2 s2" using drains_total [OF ok1(1)] by blast
  have ok2: "extends s1 s2" using drains_ok [OF r2 ok1(1)] by simp
  have adv2: "TestClock_Advance d2 ?t = Some (fold fire f2 (aside ?n2 (fst cl) (snd cl) s2))"
  proof -
    have "drains (now ?t + sint d2) ?t f2 (aside ?n1 (fst cl) (snd cl) s2)"
      using drains_aside [OF r2] by simp
    from advance_spec [OF okt this]
    show ?thesis by (simp add: aside_def)
  qed
  have "drains ?n2 s (f1 @ f2) s2" by (rule drains_append [OF r1(1) _ r2]) (use d2 in simp)
  then have "TestClock_Advance (d1 + d2) s =
      Some (fold fire (f1 @ f2) (aside ?n2 (chans s) (launched s) s2))"
    using advance_spec [OF ok, of "d1 + d2"] no by (simp add: add.assoc)
  moreover have "fold fire f1 (aside ?n2 (chans s) (launched s) s2) = aside ?n2 (fst cl) (snd cl) s2"
  proof -
    have "\<forall>f \<in> set f1. fst f < length (store s1)" using fires_sound [OF r1(1) ok] by auto
    then show ?thesis using fires_effect_same [OF ok2] by (simp add: fires_aside cl_def)
  qed
  ultimately show ?thesis using r1(2) t adv2 by simp
qed

end
