(* ===== verification/Clock_Props.thy ===== *)
theory Clock_Props
  imports Clock_Fires
begin

text \<open>The properties of the test clock, with instances on small clocks.\<close>

section \<open>Reachable clocks\<close>

text \<open>
  Any use of a test clock: every method, in any order; a timer handle refers to an entry made by
  \<open>AfterFunc\<close> or \<open>Reset\<close>, never to a ticker's.
\<close>

inductive clk_step :: "clk \<Rightarrow> clk \<Rightarrow> bool" where
  step_set: "clk_step s (TestClock_Set u s)"
| step_ticker: "clk_step s (snd (TestClock_NewTicker d s))"
| step_after: "clk_step s (snd (TestClock_After d s))"
| step_afterfunc: "clk_step s (snd (TestClock_AfterFunc d f s))"
| step_tstop: "clk_step s (Ticker_Stop tt s)"
| step_stop: "clk_step s (snd (Timer_Stop tm s))"
| step_reset: "entryRef tm < length (store s) \<Longrightarrow> ent_kind (store s ! entryRef tm) \<noteq> kindTicker \<Longrightarrow>
    clk_step s (snd (Timer_Reset tm d s))"
| step_recv: "clk_step s (snd (chan_recv c s))"
| step_advance: "TestClock_Advance d s = Some s' \<Longrightarrow> clk_step s s'"

inductive clk_reach :: "int \<Rightarrow> clk \<Rightarrow> bool" for t where
  reach_new: "clk_reach t (NewTestClock t)"
| reach_step: "clk_reach t s \<Longrightarrow> clk_step s s' \<Longrightarrow> clk_reach t s'"

lemmas reach_intros =
  reach_new reach_step [OF _ step_set] reach_step [OF _ step_ticker] reach_step [OF _ step_after]
  reach_step [OF _ step_afterfunc] reach_step [OF _ step_tstop] reach_step [OF _ step_stop]
  reach_step [OF _ step_reset] reach_step [OF _ step_recv]

lemma clk_reach_later: "clk_step\<^sup>*\<^sup>* s u \<Longrightarrow> clk_reach t s \<Longrightarrow> clk_reach t u"
  by (induction rule: rtranclp_induct) (auto intro: reach_step)

lemma clk_ok_aside: "clk_ok s \<Longrightarrow> extends b s \<Longrightarrow> clk_ok (aside n (chans b) (launched b) s)"
proof -
  assume "clk_ok s" "extends b s"
  moreover from this(2) have "aside n (chans b) (launched b) s = TestClock_Set n s"
    by (simp add: aside_def extends_def TestClock_Set_def)
  ultimately show ?thesis by (simp add: clk_ok_Set)
qed

lemma clk_ok_advance:
  assumes "clk_ok s" and "TestClock_Advance d s = Some s'"
  shows "clk_ok s'"
proof -
  obtain fs s1 where "drains (now s + sint d) s fs s1"
      "TestClock_Advance d s = Some (fold fire fs (aside (now s + sint d) (chans s) (launched s) s1))"
    using advance_total [OF assms(1)] by blast
  then show ?thesis
    using assms clk_ok_fires clk_ok_aside drains_ok by (metis option.inject)
qed

lemma clk_step_ok: "clk_step s s' \<Longrightarrow> clk_ok s \<Longrightarrow> clk_ok s'"
proof (induction rule: clk_step.induct)
  case (step_after s d)
  then show ?case using clk_ok_After [of s d] by (auto simp: TestClock_After_def split: prod.split)
next
  case (step_afterfunc s d f)
  then show ?case using clk_ok_AfterFunc [of s d f] by (auto simp: TestClock_AfterFunc_def split: prod.split)
next
  case (step_reset tm s d)
  then show ?case
    using clk_ok_Reset [of s "entryRef tm" d] by (auto simp: Timer_Reset_def split: prod.split)
next
  case (step_advance d s s')
  then show ?case using clk_ok_advance by blast
qed (simp_all add: clk_ok_Set clk_ok_NewTicker clk_ok_stopTicker clk_ok_Stop clk_ok_recv Ticker_Stop_def)

lemma clk_reach_ok: "clk_reach t s \<Longrightarrow> clk_ok s"
  by (induction rule: clk_reach.induct) (auto intro: clk_ok_new clk_step_ok)

text \<open>
  C11. The scheduler's invariant holds in every reachable state of a test clock: the entries are a
  heap by (deadline, id) of distinct entries whose \<open>index\<close> fields are their positions, ids are
  handed out in order of registration, every entry has the fields of its kind and every ticker a
  positive period.
\<close>

theorem clock_invariant:
  assumes "clk_reach t s"
  shows "is_heap (length (entries s)) (map (ent_key s) (entries s)) \<and> distinct (entries s) \<and>
    (\<forall>i < length (entries s). index (store s ! (entries s ! i)) = int i) \<and>
    (\<forall>r < length (store s). entry_ok s (store s ! r) \<and> ent_id (store s ! r) = of_nat (Suc r)) \<and>
    (\<forall>ts < length (tickers s). 0 < sint (period (tickers s ! ts)))"
  using clk_reach_ok [OF assms]
  by (simp add: clk_ok_def heap_ordered_def refs_ok_def index_ok_def data_ok_def)

definition demo_clock :: clk where
  "demo_clock = snd (TestClock_AfterFunc 4 7 (snd (TestClock_NewTicker 10 (NewTestClock 100))))"

lemma demo_reach: "clk_reach 100 demo_clock"
  unfolding demo_clock_def by (intro reach_intros)

theorem clock_invariant_witness:
  "distinct (entries demo_clock) \<and> map (ent_key demo_clock) (entries demo_clock) = [(104, 2), (110, 1)]"
proof
  show "distinct (entries demo_clock)" using clock_invariant [OF demo_reach] by blast
  show "map (ent_key demo_clock) (entries demo_clock) = [(104, 2), (110, 1)]" by code_simp
qed

section \<open>Advance\<close>

lemma store_fires [simp]: "store (fold fire fs s) = store s" "entries (fold fire fs s) = entries s"
  "now (fold fire fs s) = now s" "tickers (fold fire fs s) = tickers s"
proof -
  have f: "store (fire f s) = store s" "entries (fire f s) = entries s" "now (fire f s) = now s"
    "tickers (fire f s) = tickers s" for f s
    by (auto simp: fire_def try_send_def Let_def split: entryKind.split)
  show "store (fold fire fs s) = store s" "entries (fold fire fs s) = entries s"
    "now (fold fire fs s) = now s" "tickers (fold fire fs s) = tickers s"
    by (induction fs arbitrary: s) (simp_all add: f)
qed

text \<open>
  C12. \<open>Advance\<close> returns from every reachable state, whatever the duration: the loop cannot run for
  ever because every re-inserted ticker has moved on by its positive period. The clock then shows the
  new time and nothing due is left in the heap.
\<close>

theorem clock_advance_returns:
  assumes "clk_reach t s"
  shows "\<exists>s'. TestClock_Advance d s = Some s' \<and> TestClock_Now s' = TestClock_Now s + sint d \<and>
    (\<forall>r \<in> set (entries s'). TestClock_Now s' < deadline (store s' ! r))"
proof -
  note ok = clk_reach_ok [OF assms]
  obtain fs s1 where d: "drains (now s + sint d) s fs s1"
      "TestClock_Advance d s = Some (fold fire fs (aside (now s + sint d) (chans s) (launched s) s1))"
    using advance_total [OF ok] by blast
  then show ?thesis using drains_rest [OF d(1) ok] by (simp add: TestClock_Now_def)
qed

theorem clock_advance_returns_witness:
  "\<exists>s'. TestClock_Advance 25 demo_clock = Some s' \<and> TestClock_Now s' = 125"
proof -
  have "TestClock_Now demo_clock + sint (25 :: duration) = 125" by code_simp
  then show ?thesis using clock_advance_returns [OF demo_reach, of 25] by auto
qed

text \<open>
  C13. What \<open>Advance\<close> fires, exactly: the collected events are in order of deadline and, at equal
  deadlines, of registration; no event fires twice; each fires at its own deadline, which is due,
  and is neither cancelled nor of a stopped ticker; and every live event that was due has fired.
\<close>

theorem clock_fires_exact:
  assumes "clk_reach t s" and "drain n s [] = Some (s', fs)" and "length (store s') < 2 ^ 64"
  shows "sorted (map (\<lambda>(r, t). (t, r)) fs) \<and> distinct (map fst fs) \<and>
    (\<forall>(r, t) \<in> set fs. t = deadline (store s' ! r) \<and> t \<le> n \<and> live s' r) \<and>
    (\<forall>r \<in> set (entries s). live s r \<and> deadline (store s ! r) \<le> n \<longrightarrow> (r, deadline (store s ! r)) \<in> set fs)"
proof -
  note ok = clk_reach_ok [OF assms(1)]
  obtain gs u where "drains n s gs u" using drains_total [OF ok] by blast
  then have d: "drains n s fs s'" using drains_drain [OF _ ok, of n gs u "[]"] assms(2) by simp
  have ok': "clk_ok s'" using drains_ok [OF d ok] by simp
  have id: "ent_id (store s' ! r) = of_nat (Suc r)" if "r < length (store s')" for r
    using ok' that by (simp add: clk_ok_def data_ok_def)
  have le: "(deadline (store s' ! r), r) \<le> (deadline (store s' ! q), q)"
    if "r < length (store s')" "q < length (store s')" "ent_key s' r \<le> ent_key s' q" for r q
  proof (cases "deadline (store s' ! r) = deadline (store s' ! q)")
    case True
    then have "(of_nat (Suc r) :: 64 word) \<le> of_nat (Suc q)"
      using that id by (simp add: ent_key_def)
    moreover have "unat (of_nat (Suc k) :: 64 word) = Suc k" if "k < length (store s')" for k
    proof -
      have "Suc k < 2 ^ LENGTH(64)" using that assms(3) by simp
      then show ?thesis by (simp only: unat_of_nat mod_less)
    qed
    ultimately have "Suc r \<le> Suc q"
      using that(1,2) by (simp only: word_le_nat_alt)
    then show ?thesis using True by simp
  next
    case False
    then show ?thesis using that(3) by (auto simp: ent_key_def)
  qed
  have snd: "t = deadline (store s' ! r) \<and> t \<le> n \<and> live s' r \<and> r < length (store s')" if "(r, t) \<in> set fs" for r t
    using fires_sound [OF d ok that] by simp
  have "sorted_wrt (\<lambda>f g. ent_key s' (fst f) \<le> ent_key s' (fst g)) fs"
    using fires_sorted [OF d ok] by (simp add: sorted_wrt_map)
  then have "sorted_wrt (\<lambda>f g. (case f of (r, t) \<Rightarrow> (t, r)) \<le> (case g of (r, t) \<Rightarrow> (t, r))) fs"
    by (rule sorted_wrt_mono_rel [rotated]) (auto dest!: snd intro: le)
  then have "sorted (map (\<lambda>(r, t). (t, r)) fs)" by (simp add: sorted_wrt_map)
  moreover have "\<forall>r \<in> set (entries s). live s r \<and> deadline (store s ! r) \<le> n \<longrightarrow>
      (r, deadline (store s ! r)) \<in> set fs"
    using fires_complete [OF d ok] by blast
  ultimately show ?thesis using fires_distinct [OF d ok] snd by blast
qed

lemma demo_drain:
  "map_option (\<lambda>(s, fs). (length (store s), fs)) (drain 115 demo_clock []) = Some (3, [(1, 104), (0, 110)])"
  by code_simp

theorem clock_fires_exact_witness:
  "sorted (map (\<lambda>(r, t). (t, r)) [(1 :: nat, 104 :: int), (0, 110)])"
proof -
  obtain s' where "drain 115 demo_clock [] = Some (s', [(1, 104), (0, 110)])" "length (store s') = 3"
    using demo_drain by (auto split: prod.splits)
  then show ?thesis using clock_fires_exact [OF demo_reach] by force
qed

text \<open>
  C14. Advancing twice is advancing once by the sum (when the sum of the durations does not
  overflow and the second is not negative): the same state, fires, channels and callbacks.
\<close>

theorem clock_advance_add:
  assumes "clk_reach t s" and "0 \<le> sint d2" and "sint (d1 + d2) = sint d1 + sint d2"
  shows "Option.bind (TestClock_Advance d1 s) (TestClock_Advance d2) = TestClock_Advance (d1 + d2) s"
  using advance_split [OF clk_reach_ok [OF assms(1)] assms(2,3)] .

theorem clock_advance_add_witness:
  "Option.bind (TestClock_Advance 3 demo_clock) (TestClock_Advance 9) = TestClock_Advance 12 demo_clock"
proof -
  have "0 \<le> sint (9 :: duration)" "sint (3 + 9 :: duration) = sint (3 :: duration) + sint (9 :: duration)"
    by code_simp+
  then show ?thesis using clock_advance_add [OF demo_reach, of 9 3] by simp
qed

section \<open>Tickers and timers\<close>

lemma new_ticker_state:
  assumes ok: "clk_ok s" and new: "TestClock_NewTicker p s = (Inr tt, s1)"
  shows "clk_ok s1" "now s1 = now s" "0 < sint p" "tt_ts tt = length (tickers s)"
    "length (store s1) = Suc (length (store s))" "length (store s) \<in> set (entries s1)"
    "ent_kind (store s1 ! length (store s)) = kindTicker"
    "ticker (store s1 ! length (store s)) = Some (tt_ts tt)"
    "deadline (store s1 ! length (store s)) = now s + sint p" "dead (store s1 ! length (store s)) = False"
    "tickers s1 = tickers s @ [\<lparr>stopped = False, ch = length (chans s), period = p\<rparr>]"
    "\<forall>r \<in> set (entries s1). ticker (store s1 ! r) = Some (tt_ts tt) \<longrightarrow> r = length (store s)"
proof -
  define s2 where "s2 = s\<lparr>chans := chans s @ [None], tickers := tickers s @
      [\<lparr>stopped = False, ch = length (chans s), period = p\<rparr>], nextID := nextID s + 1\<rparr>"
  define e where "e = \<lparr>deadline = now s + sint p, ent_id = nextID s + 1, ent_kind = kindTicker, dead = False,
      index = 0, ticker = Some (length (tickers s)), fn = None, afterC = None\<rparr>"
  show p: "0 < sint p" using new by (simp add: TestClock_NewTicker_def split: if_splits)
  have s1: "s1 = snd (push_new e s2)" and tt: "tt_ts tt = length (tickers s)"
    using new p
    by (auto simp: TestClock_NewTicker_def addTicker_def make_chan_def allocID_def Let_def s2_def e_def
        split: prod.splits)
  show "tt_ts tt = length (tickers s)" by (rule tt)
  show "clk_ok s1" using clk_ok_NewTicker [OF ok, of p] new by simp
  have ho: "heap_ordered s2" using ok by (auto simp: clk_ok_def s2_def intro!: heap_ordered_ids)
  note ps = push_new_spec [OF ho, of e, folded s1]
  have l: "length (store s2) = length (store s)" by (simp add: s2_def)
  let ?b = "s2\<lparr>store := store s2 @ [e]\<rparr>"
  show "now s1 = now s" "tickers s1 = tickers s @ [\<lparr>stopped = False, ch = length (chans s), period = p\<rparr>]"
    "length (store s1) = Suc (length (store s))"
    using same_asD [OF ps(4)] by (simp_all add: s2_def)
  have ent: "set (entries s1) = insert (length (store s)) (set (entries s))"
    using mset_eq_setD [of "entries s1" "length (store s) # entries s"] ps(3) by (simp add: s2_def)
  then show "length (store s) \<in> set (entries s1)" by simp
  have last: "length (store s) < length (store ?b)" "store ?b ! length (store s) = e"
    using l by (simp_all add: nth_append)
  note se = same_entry [OF ps(4) last(1), unfolded last(2)]
  show "ent_kind (store s1 ! length (store s)) = kindTicker"
    "ticker (store s1 ! length (store s)) = Some (tt_ts tt)"
    "deadline (store s1 ! length (store s)) = now s + sint p" "dead (store s1 ! length (store s)) = False"
    unfolding se by (simp_all add: e_def tt)
  show "\<forall>r \<in> set (entries s1). ticker (store s1 ! r) = Some (tt_ts tt) \<longrightarrow> r = length (store s)"
  proof (intro ballI impI)
    fix r
    assume r: "r \<in> set (entries s1)" "ticker (store s1 ! r) = Some (tt_ts tt)"
    show "r = length (store s)"
    proof (rule ccontr)
      assume "r \<noteq> length (store s)"
      then have "r \<in> set (entries s)" using r(1) ent by simp
      then have rl: "r < length (store s)" using ref_lt [OF ok] by simp
      then have "ticker (store s1 ! r) = ticker (store s ! r)"
        using same_entry(5) [OF ps(4), of r] l by (simp add: nth_append s2_def)
      then have "ticker (store s ! r) = Some (length (tickers s))" using r(2) tt by simp
      moreover have "entry_ok s (store s ! r)" using ok rl by (simp add: clk_ok_def data_ok_def)
      ultimately show False by (auto simp: entry_ok_def split: entryKind.splits)
    qed
  qed
qed

text \<open>
  C15. A new ticker of period \<open>p\<close>, made at time \<open>t\<close> on any reachable clock and advanced by \<open>d\<close>,
  fires at exactly \<open>t + p, t + 2p, ...\<close> up to \<open>t + d\<close>, whatever else is scheduled.
\<close>

theorem clock_ticker_times:
  assumes "clk_reach t s" and "TestClock_NewTicker p s = (Inr tt, s1)"
    and "drain (now s + sint d) s1 [] = Some (s2, fs)"
  shows "map snd (filter (\<lambda>f. ticker (store s2 ! fst f) = Some (tt_ts tt)) fs) =
    map (\<lambda>k. now s + (1 + int k) * sint p) [0..<nat ((sint d - sint p) div sint p + 1)]"
proof -
  note ns = new_ticker_state [OF clk_reach_ok [OF assms(1)] assms(2)]
  let ?r = "length (store s)" and ?n = "now s + sint d"
  obtain gs u where "drains ?n s1 gs u" using drains_total [OF ns(1)] by blast
  then have dr: "drains ?n s1 fs s2" using drains_drain [OF _ ns(1), of ?n gs u "[]"] assms(3) by simp
  have lv: "live s1 ?r" using ns(4,8,10,11) by (simp add: live_def)
  have sole: "sole_ticker (tt_ts tt) ?r s1" by (rule sole_tickerI [OF ns(6) lv ns(7,8)]) (use ns(12) in blast)
  have "map snd (filter (\<lambda>f. ticker (store s2 ! fst f) = Some (tt_ts tt)) fs) =
      ticks (now s + sint p) (sint p) ?n"
    using ticker_fires [OF dr ns(1) sole] ns(4,9,11) by simp
  also have "\<dots> = map (\<lambda>k. now s + (1 + int k) * sint p) [0..<nat ((sint d - sint p) div sint p + 1)]"
    by (simp add: ticks_def algebra_simps)
  finally show ?thesis .
qed

theorem clock_ticker_times_witness:
  "map_option snd (drain 25 (snd (TestClock_NewTicker 10 (NewTestClock 0))) []) = Some [(0, 10), (1, 20)] \<and>
   map (\<lambda>k. 0 + (1 + int k) * sint (10 :: duration))
     [0..<nat ((sint (25 :: duration) - sint (10 :: duration)) div sint (10 :: duration) + 1)] = [10, 20]"
proof
  define s1 where "s1 = snd (TestClock_NewTicker 10 (NewTestClock 0))"
  have e: "map_option (\<lambda>(s, fs). (fs, map ticker (store s))) (drain 25 s1 []) =
      Some ([(0, 10), (1, 20)], [Some 0, Some 0, Some 0])"
    unfolding s1_def by code_simp
  then obtain s2 where s2: "drain 25 s1 [] = Some (s2, [(0, 10), (1, 20)])"
      "map ticker (store s2) = [Some 0, Some 0, Some 0]"
    by (auto split: prod.splits)
  then have tk: "ticker (store s2 ! 0) = Some 0" "ticker (store s2 ! 1) = Some 0"
    by (auto simp: map_eq_Cons_conv)
  have "TestClock_NewTicker 10 (NewTestClock 0) = (Inr \<lparr>tt_ts = 0\<rparr>, s1)"
  proof -
    have "fst (TestClock_NewTicker 10 (NewTestClock 0)) = Inr \<lparr>tt_ts = 0\<rparr>"
      by (simp add: TestClock_NewTicker_def addTicker_def make_chan_def allocID_def Let_def NewTestClock_def
          newScheduler_def)
    then show ?thesis by (simp add: s1_def prod_eq_iff)
  qed
  moreover have "drain (now (NewTestClock 0) + sint (25 :: duration)) s1 [] = Some (s2, [(0, 10), (1, 20)])"
    using s2 by (simp add: NewTestClock_def newScheduler_def)
  ultimately have "[10, 20] = map (\<lambda>k. now (NewTestClock 0) + (1 + int k) * sint (10 :: duration))
      [0..<nat ((sint (25 :: duration) - sint (10 :: duration)) div sint (10 :: duration) + 1)]"
    using clock_ticker_times [OF reach_new] tk by fastforce
  then show "map (\<lambda>k. 0 + (1 + int k) * sint (10 :: duration))
     [0..<nat ((sint (25 :: duration) - sint (10 :: duration)) div sint (10 :: duration) + 1)] = [10, 20]"
    by (simp add: NewTestClock_def newScheduler_def)
  show "map_option snd (drain 25 (snd (TestClock_NewTicker 10 (NewTestClock 0))) []) = Some [(0, 10), (1, 20)]"
    using s2(1) by (simp add: s1_def)
qed

text \<open>What is stopped or cancelled stays so, whatever is done with the clock.\<close>

definition stays_off :: "clk \<Rightarrow> clk \<Rightarrow> bool" where
  "stays_off s s' \<longleftrightarrow>
     length (tickers s) \<le> length (tickers s') \<and> length (store s) \<le> length (store s') \<and>
     (\<forall>ts < length (tickers s). stopped (tickers s ! ts) \<longrightarrow> stopped (tickers s' ! ts)) \<and>
     (\<forall>r < length (store s). dead (store s ! r) \<longrightarrow> dead (store s' ! r))"

lemma stays_off_trans: "stays_off s t \<Longrightarrow> stays_off t u \<Longrightarrow> stays_off s u"
  by (simp add: stays_off_def)

lemma stays_off_same: "tickers s' = tickers s \<Longrightarrow> store s' = store s \<Longrightarrow> stays_off s s'"
  by (simp add: stays_off_def)

lemma stays_off_push:
  assumes "heap_ordered s" shows "stays_off s (snd (push_new e s))"
proof -
  let ?b = "s\<lparr>store := store s @ [e]\<rparr>"
  note sa = push_new_spec(4) [OF assms, of e]
  have "dead (store (snd (push_new e s)) ! r) = dead (store ?b ! r)" if "r < length (store s)" for r
    using same_entry [OF sa] that by simp
  then show ?thesis using same_asD [OF sa] by (simp add: stays_off_def nth_append)
qed

text \<open>Every registration: a state with the same tickers (or one more) and entries, and a push.\<close>

lemma stays_off_add: "heap_ordered s1 \<Longrightarrow> stays_off s s1 \<Longrightarrow> stays_off s (snd (push_new e s1))"
  using stays_off_trans stays_off_push by blast

lemma stays_off_refl [simp]: "stays_off s s"
  by (simp add: stays_off_same)

lemma stays_off_grow:
  "stays_off s (s\<lparr>chans := c, tickers := tickers s @ ts, nextID := i\<rparr>)"
  "stays_off s (s\<lparr>nextID := i, chans := c\<rparr>)" "stays_off s (s\<lparr>nextID := i\<rparr>)"
  by (simp_all add: stays_off_def nth_append)

lemma stays_off_kill: "stays_off s (upd_entry r (\<lambda>e. e\<lparr>dead := True\<rparr>) s)"
proof -
  have "dead ((store s)[r := (store s ! r)\<lparr>dead := True\<rparr>] ! q)" if "q < length (store s)" "dead (store s ! q)" for q
    using that by (cases "q = r") auto
  then show ?thesis by (simp add: stays_off_def upd_entry_def)
qed

lemma stays_off_step: "clk_step s s' \<Longrightarrow> clk_ok s \<Longrightarrow> stays_off s s'"
proof (induction rule: clk_step.induct)
  case (step_ticker s d)
  then have "heap_ordered s" by (simp add: clk_ok_def)
  then show ?case
    by (auto simp: TestClock_NewTicker_def addTicker_def make_chan_def allocID_def Let_def
        heap_ordered_ids intro!: stays_off_add stays_off_grow)
next
  case (step_after s d)
  then have "heap_ordered s" by (simp add: clk_ok_def)
  then show ?case
    by (auto simp: TestClock_After_def addAfter_def make_chan_def allocID_def Let_def
        heap_ordered_ids case_prod_unfold intro!: stays_off_add stays_off_grow)
next
  case (step_afterfunc s d f)
  then have "heap_ordered s" by (simp add: clk_ok_def)
  then show ?case
    by (auto simp: TestClock_AfterFunc_def addAfterFunc_def allocID_def Let_def
        heap_ordered_ids case_prod_unfold intro!: stays_off_add stays_off_grow)
next
  case (step_reset tm s d)
  let ?s1 = "upd_entry (entryRef tm) (\<lambda>e. e\<lparr>dead := True\<rparr>) s"
  have "heap_ordered ?s1" using step_reset clk_ok_kill [of s] by (simp add: clk_ok_def)
  moreover have "stays_off s (?s1\<lparr>nextID := i\<rparr>)" for i
    using stays_off_kill [of s "entryRef tm"] by (simp add: stays_off_def)
  ultimately show ?case
    by (auto simp: Timer_Reset_def resetTimer_def allocID_def Let_def heap_ordered_ids case_prod_unfold
        intro!: stays_off_add)
next
  case (step_advance d s s')
  obtain fs s1 where "drains (now s + sint d) s fs s1"
      "TestClock_Advance d s = Some (fold fire fs (aside (now s + sint d) (chans s) (launched s) s1))"
    using advance_total [OF step_advance.prems] by blast
  moreover from this(1) have "extends s s1" using drains_ok step_advance.prems by blast
  ultimately show ?case
    using step_advance.hyps extends_entry(4) [of s s1]
    by (auto simp: stays_off_def extends_def aside_def)
next
  case (step_tstop s tt)
  have "stopped ((tickers s)[tt_ts tt := (tickers s ! tt_ts tt)\<lparr>stopped := True\<rparr>] ! ts)"
    if "ts < length (tickers s)" "stopped (tickers s ! ts)" for ts
    using that by (cases "ts = tt_ts tt") auto
  then show ?case by (simp add: stays_off_def Ticker_Stop_def stopTicker_def)
qed (auto simp: TestClock_Set_def Timer_Stop_def sched_cancel_def stays_off_kill chan_recv_def
      intro!: stays_off_same)

lemma stays_off_later: "clk_step\<^sup>*\<^sup>* s u \<Longrightarrow> clk_ok s \<Longrightarrow> clk_ok u \<and> stays_off s u"
proof (induction rule: rtranclp_induct)
  case (step u v)
  then show ?case using clk_step_ok stays_off_step stays_off_trans by blast
qed (simp add: stays_off_def)

text \<open>
  C16. A stopped ticker and a cancelled timer never fire again: after \<open>Stop\<close>, and any further use of
  the clock - advances, other timers and tickers, stops and resets in any order -, what the next
  advance collects holds no entry of that ticker, and not that timer's entry (\<open>Reset\<close> gives the timer
  a new entry, which may fire).
\<close>

theorem clock_stop_final:
  assumes "clk_reach t s"
  shows "(tt_ts tt < length (tickers s) \<and> clk_step\<^sup>*\<^sup>* (Ticker_Stop tt s) u \<and> drain n u [] = Some (u', fs) \<longrightarrow>
      (\<forall>(r, x) \<in> set fs. ent_kind (store u' ! r) = kindTicker \<longrightarrow> ticker (store u' ! r) \<noteq> Some (tt_ts tt))) \<and>
    (entryRef tm < length (store s) \<and> clk_step\<^sup>*\<^sup>* (snd (Timer_Stop tm s)) u \<and> drain n u [] = Some (u', fs) \<longrightarrow>
      (\<forall>(r, x) \<in> set fs. r \<noteq> entryRef tm))"
proof -
  note ok = clk_reach_ok [OF assms]
  have fired: "extends u u' \<and> (\<forall>(r, x) \<in> set fs. live u' r)" if u: "clk_ok u" and d: "drain n u [] = Some (u', fs)"
  proof -
    obtain gs v where "drains n u gs v" using drains_total [OF u] by blast
    then have "drains n u fs u'" using drains_drain [OF _ u, of n gs v "[]"] d by simp
    then show ?thesis using drains_ok [OF _ u] fires_sound [OF _ u] by blast
  qed
  show ?thesis
  proof (intro conjI impI; elim conjE)
    assume ts: "tt_ts tt < length (tickers s)" and l: "clk_step\<^sup>*\<^sup>* (Ticker_Stop tt s) u"
      and d: "drain n u [] = Some (u', fs)"
    have u: "clk_ok u" "stays_off (Ticker_Stop tt s) u"
      using stays_off_later [OF l] clk_step_ok [OF step_tstop ok] by auto
    have "stopped (tickers u ! tt_ts tt)"
      using u(2) ts by (simp add: Ticker_Stop_def stopTicker_def stays_off_def)
    then have "stopped (tickers u' ! tt_ts tt)" using fired [OF u(1) d] by (simp add: extends_def)
    then show "\<forall>(r, x) \<in> set fs. ent_kind (store u' ! r) = kindTicker \<longrightarrow> ticker (store u' ! r) \<noteq> Some (tt_ts tt)"
      using fired [OF u(1) d] by (fastforce simp: live_def)
  next
    assume r: "entryRef tm < length (store s)" and l: "clk_step\<^sup>*\<^sup>* (snd (Timer_Stop tm s)) u"
      and d: "drain n u [] = Some (u', fs)"
    have u: "clk_ok u" "stays_off (snd (Timer_Stop tm s)) u"
      using stays_off_later [OF l] clk_step_ok [OF step_stop ok] by auto
    have "entryRef tm < length (store u)" "dead (store u ! entryRef tm)"
      using u(2) r by (auto simp: Timer_Stop_def sched_cancel_def upd_entry_def stays_off_def split: if_splits)
    then have "dead (store u' ! entryRef tm)" using fired [OF u(1) d] extends_entry(4) by blast
    then show "\<forall>(r, x) \<in> set fs. r \<noteq> entryRef tm" using fired [OF u(1) d] by (auto simp: live_def)
  qed
qed

text \<open>A timer is cancelled; the clock is set back and a new one is made before the clock is advanced.\<close>

theorem clock_stop_final_witness:
  "map_option snd (drain 200 (snd (TestClock_AfterFunc 150 8 (TestClock_Set 90
      (snd (Timer_Stop \<lparr>entryRef = 0\<rparr> (snd (TestClock_AfterFunc 4 7 (NewTestClock 100)))))))) []) = Some []"
proof -
  define s where "s = snd (TestClock_AfterFunc 4 7 (NewTestClock 100))"
  define s0 where "s0 = snd (Timer_Stop \<lparr>entryRef = 0\<rparr> s)"
  define u where "u = snd (TestClock_AfterFunc 150 8 (TestClock_Set 90 s0))"
  have r: "clk_reach 100 s" unfolding s_def by (intro reach_intros)
  have l: "entryRef \<lparr>entryRef = 0\<rparr> < length (store s)" unfolding s_def by code_simp
  have "clk_step s0 (TestClock_Set 90 s0)" "clk_step (TestClock_Set 90 s0) u"
    unfolding u_def by (rule step_set, rule step_afterfunc)
  then have "clk_step\<^sup>*\<^sup>* (snd (Timer_Stop \<lparr>entryRef = 0\<rparr> s)) u" unfolding s0_def [symmetric] by simp
  moreover have d: "map_option (map fst \<circ> snd) (drain 200 u []) = Some []"
    unfolding u_def s0_def s_def by code_simp
  then obtain u' where u': "drain 200 u [] = Some (u', [])" by (auto split: prod.splits)
  ultimately have "\<forall>(r, x) \<in> set ([] :: (nat \<times> int) list). r \<noteq> entryRef \<lparr>entryRef = 0\<rparr>"
    using clock_stop_final [OF r, of _ u 200 u' "[]" "\<lparr>entryRef = 0\<rparr>"] l by blast
  then show ?thesis using u' by (simp add: u_def s0_def s_def)
qed

lemma launched_mono: "set (launched s) \<subseteq> set (launched (fold fire fs s))"
proof (induction fs arbitrary: s)
  case (Cons f fs)
  have "set (launched s) \<subseteq> set (launched (fire f s))"
    by (auto simp: fire_def try_send_def Let_def split: entryKind.split)
  then show ?case using Cons [of "fire f s"] by auto
qed simp

lemma launched_fire:
  "(r, u) \<in> set fs \<Longrightarrow> ent_kind (store s ! r) = kindAfterFunc \<Longrightarrow>
   the (fn (store s ! r)) \<in> set (launched (fold fire fs s))"
proof (induction fs arbitrary: s)
  case (Cons f fs)
  have st: "store (fire f s) = store s" using store_fires(1) [of "[f]" s] by simp
  show ?case
  proof (cases "f = (r, u)")
    case True
    then have "the (fn (store s ! r)) \<in> set (launched (fire f s))"
      using Cons.prems(2) by (simp add: fire_def Let_def)
    then show ?thesis using launched_mono [of "fire f s" fs] by auto
  next
    case False
    then show ?thesis using Cons.IH [of "fire f s"] Cons.prems st by simp
  qed
qed simp

text \<open>The entry of a new callback.\<close>

lemma new_callback_state:
  assumes ok: "clk_ok s" and new: "TestClock_AfterFunc d f s = (tm, s1)"
  shows "clk_ok s1" "now s1 = now s" "launched s1 = launched s" "entryRef tm = length (store s)"
    "length (store s1) = Suc (length (store s))" "length (store s) \<in> set (entries s1)"
    "live s1 (length (store s))" "ent_kind (store s1 ! length (store s)) = kindAfterFunc"
    "fn (store s1 ! length (store s)) = Some f" "deadline (store s1 ! length (store s)) = now s + sint d"
    "\<forall>r < length (store s). fn (store s1 ! r) = fn (store s ! r)"
proof -
  define b where "b = s\<lparr>nextID := nextID s + 1\<rparr>"
  define en where "en = \<lparr>deadline = now s + sint d, ent_id = nextID s + 1, ent_kind = kindAfterFunc, dead = False,
      index = 0, ticker = None, fn = Some f, afterC = None\<rparr>"
  have s1: "s1 = snd (push_new en b)" and tm: "entryRef tm = length (store s)"
    using new push_new_spec(1) [of b en] heap_ordered_ids(1) ok
    by (auto simp: TestClock_AfterFunc_def addAfterFunc_def allocID_def Let_def b_def en_def clk_ok_def
        push_new_def split: prod.splits)
  show "entryRef tm = length (store s)" by (rule tm)
  show "clk_ok s1" using clk_ok_AfterFunc [OF ok, of d f] new
    by (auto simp: TestClock_AfterFunc_def split: prod.splits)
  have ho: "heap_ordered b" using ok heap_ordered_ids(1) by (simp add: clk_ok_def b_def)
  note ps = push_new_spec [OF ho, of en, folded s1]
  let ?r = "length (store s)" and ?b = "b\<lparr>store := store b @ [en]\<rparr>"
  have last: "?r < length (store ?b)" "store ?b ! ?r = en" by (simp_all add: b_def nth_append)
  note se = same_entry [OF ps(4) last(1), unfolded last(2)]
  show "now s1 = now s" "launched s1 = launched s" "length (store s1) = Suc (length (store s))"
    using same_asD [OF ps(4)] by (simp_all add: b_def)
  show "?r \<in> set (entries s1)" using mset_eq_setD [of "entries s1" "?r # entries s"] ps(3) by (simp add: b_def)
  show "live s1 ?r" unfolding live_def se by (simp add: en_def)
  show "ent_kind (store s1 ! ?r) = kindAfterFunc" "fn (store s1 ! ?r) = Some f"
    "deadline (store s1 ! ?r) = now s + sint d"
    unfolding se by (simp_all add: en_def)
  show "\<forall>r < length (store s). fn (store s1 ! r) = fn (store s ! r)"
    using same_entry(6) [OF ps(4)] by (simp add: b_def nth_append)
qed

text \<open>
  A callback registered with \<open>AfterFunc(d, f)\<close> has been launched once the clock has advanced by
  \<open>e \<ge> d\<close>; and \<open>Stop\<close> on its timer still reports \<open>true\<close> afterwards, although the timer has expired:
  nothing marks a fired entry as dead, so the result of \<open>Stop\<close> (and of \<open>Reset\<close>) does not say whether
  the timer was still active.
\<close>

theorem clock_stop_after_fire:
  assumes "clk_reach t s" and "TestClock_AfterFunc d f s = (tm, s1)" and "sint d \<le> sint e"
    and "TestClock_Advance e s1 = Some s2"
  shows "f \<in> set (launched s2) \<and> fst (Timer_Stop tm s2) = True"
proof -
  note nc = new_callback_state [OF clk_reach_ok [OF assms(1)] assms(2)]
  let ?r = "length (store s)"
  obtain fs s' where d: "drains (now s1 + sint e) s1 fs s'"
      "TestClock_Advance e s1 = Some (fold fire fs (aside (now s1 + sint e) (chans s1) (launched s1) s'))"
    using advance_total [OF nc(1)] by blast
  have ext: "extends s1 s'" using drains_ok [OF d(1) nc(1)] by simp
  have rl: "?r < length (store s1)" using nc(5) by simp
  note ee = extends_entry [OF ext rl]
  have "deadline (store s1 ! ?r) \<le> now s1 + sint e" using nc(2,10) assms(3) by simp
  then have "(?r, deadline (store s1 ! ?r)) \<in> set fs" by (rule fires_complete [OF d(1) nc(1,6,7)])
  moreover have "ent_kind (store s' ! ?r) = kindAfterFunc" "fn (store s' ! ?r) = Some f" "\<not> dead (store s' ! ?r)"
    using nc(7,8,9) unfolding ee by (simp_all add: live_def)
  ultimately have "f \<in> set (launched s2)" "\<not> dead (store s2 ! ?r)"
    using launched_fire [of ?r _ fs "aside (now s1 + sint e) (chans s1) (launched s1) s'"] d(2) assms(4) by auto
  then show ?thesis by (simp add: Timer_Stop_def sched_cancel_def nc(4))
qed

theorem clock_stop_after_fire_witness:
  "\<exists>s2. TestClock_Advance 5 (snd (TestClock_AfterFunc 4 7 (NewTestClock 100))) = Some s2 \<and> 7 \<in> set (launched s2) \<and>
     fst (Timer_Stop \<lparr>entryRef = 0\<rparr> s2) = True"
proof -
  define s1 where "s1 = snd (TestClock_AfterFunc 4 7 (NewTestClock 100))"
  have r: "clk_reach 100 (NewTestClock 100)" "clk_reach 100 s1" unfolding s1_def by (intro reach_intros)+
  obtain fs u where "TestClock_Advance 5 s1 = Some (fold fire fs u)"
    using advance_total [OF clk_reach_ok [OF r(2)], of 5] by blast
  then obtain s2 where s2: "TestClock_Advance 5 s1 = Some s2" by blast
  have e: "fst (TestClock_AfterFunc 4 7 (NewTestClock 100)) = \<lparr>entryRef = 0\<rparr>" by code_simp
  have "TestClock_AfterFunc 4 7 (NewTestClock 100) = (\<lparr>entryRef = 0\<rparr>, s1)"
    unfolding s1_def e [symmetric] by simp
  moreover have "sint (4 :: duration) \<le> sint (5 :: duration)" by code_simp
  ultimately show ?thesis using clock_stop_after_fire [OF r(1) _ _ s2] s2 by (simp add: s1_def)
qed

text \<open>
  \<open>Since\<close> is the exact difference when it fits a \<open>Duration\<close> and the nearer end of the
  range otherwise; it never wraps around.
\<close>

theorem clock_since_saturates:
  "sint (TestClock_Since u s) =
     (if TestClock_Now s - u > 2 ^ 63 - 1 then 2 ^ 63 - 1
      else if TestClock_Now s - u < - (2 ^ 63) then - (2 ^ 63)
      else TestClock_Now s - u)"
proof -
  have "sint (word_of_int k :: 64 word) = k" if "- (2 ^ 63) \<le> k" "k < 2 ^ 63" for k
    using that by (simp add: sint_sbintrunc' signed_take_bit_int_eq_self)
  then show ?thesis by (auto simp: TestClock_Since_def time_Sub_def)
qed

end
