(* ===== verification/GoExpand.thy ===== *)
theory GoExpand
  imports GoStrings
begin

text \<open>
  \<open>os.Expand\<close> of Go's standard library, which \<open>ExpandEnv\<close> calls: the scan for \<open>$var\<close> and
  \<open>${var}\<close>, and what it does on text, on a plain variable and on a braced one.
\<close>

section \<open>The scanner\<close>

definition byte_in :: "nat \<Rightarrow> nat \<Rightarrow> char \<Rightarrow> bool" where
  "byte_in a b c = (a \<le> (of_char c :: nat) \<and> (of_char c :: nat) \<le> b)"

definition isShellSpecialVar :: "char \<Rightarrow> bool" where
  "isShellSpecialVar c = (c \<in> set ''*#$@!?-'' \<or> byte_in 48 57 c)"

definition isAlphaNum :: "char \<Rightarrow> bool" where
  "isAlphaNum c = (c = CHR ''_'' \<or> byte_in 48 57 c \<or> byte_in 97 122 c \<or> byte_in 65 90 c)"

text \<open>The name that follows a dollar sign, and how many bytes it takes; the text is not empty.\<close>

definition getShellName :: "string \<Rightarrow> string \<times> nat" where
  "getShellName s =
     (case s of
        [] \<Rightarrow> ([], 0)
      | c # t \<Rightarrow>
          if c = CHR ''{'' then
            if length s > 2 \<and> isShellSpecialVar (s ! 1) \<and> s ! 2 = CHR ''}'' then ([s ! 1], 3)
            else (let n = takeWhile (\<lambda>x. x \<noteq> CHR ''}'') t
                  in if length n = length t then ([], 1)
                     else if n = [] then ([], 2) else (n, length n + 2))
          else if isShellSpecialVar c then ([c], 1)
          else (let n = takeWhile isAlphaNum s in (n, length n)))"

function os_Expand :: "(string \<Rightarrow> string) \<Rightarrow> string \<Rightarrow> string" where
  "os_Expand m [] = []"
| "os_Expand m (c # s) =
     (if c = CHR ''$'' \<and> s \<noteq> [] then
        (let (name, w) = getShellName s
         in (if name = [] \<and> w > 0 then [] else if name = [] then [c] else m name) @
            os_Expand m (drop w s))
      else c # os_Expand m s)"
  by pat_completeness auto
termination
  by (relation "measure (\<lambda>(m, s). length s)") auto

section \<open>What it computes\<close>

lemma os_Expand_plain_append:
  "CHR ''$'' \<notin> set s \<Longrightarrow> os_Expand m (s @ t) = s @ os_Expand m t"
  by (induction s) auto

lemma os_Expand_plain [simp]: "CHR ''$'' \<notin> set s \<Longrightarrow> os_Expand m s = s"
  using os_Expand_plain_append [of s m "[]"] by simp

definition var_name :: "string \<Rightarrow> bool" where
  "var_name n \<longleftrightarrow> n \<noteq> [] \<and> list_all isAlphaNum n \<and> \<not> isShellSpecialVar (hd n)"

lemma takeWhile_all_stop:
  "list_all P n \<Longrightarrow> (t = [] \<or> \<not> P (hd t)) \<Longrightarrow> takeWhile P (n @ t) = n"
  by (induction n) (auto simp: takeWhile_eq_Nil_iff)

lemma brace_facts [simp]:
  "\<not> isAlphaNum CHR ''{''" "\<not> isAlphaNum CHR ''}''" "\<not> isAlphaNum CHR ''$''"
  "\<not> isAlphaNum CHR ''/''"
  by (simp_all add: isAlphaNum_def byte_in_def)

lemma var_name_brace: "var_name n \<Longrightarrow> list_all (\<lambda>x. x \<noteq> CHR ''}'') n \<and> hd n \<noteq> CHR ''{''"
  by (cases n) (auto simp: var_name_def list_all_iff)

text \<open>\<open>$NAME\<close> up to a byte that cannot continue the name, and \<open>${NAME}\<close> before anything.\<close>

lemma os_Expand_var:
  assumes n: "var_name n" and t: "t = [] \<or> \<not> isAlphaNum (hd t)"
  shows "os_Expand m (CHR ''$'' # n @ t) = m n @ os_Expand m t"
proof -
  obtain c cs where c: "n = c # cs" using n by (cases n) (auto simp: var_name_def)
  have "c \<noteq> CHR ''{''" using var_name_brace [OF n] c by auto
  moreover have "takeWhile isAlphaNum (n @ t) = n"
    using n t by (intro takeWhile_all_stop) (auto simp: var_name_def)
  ultimately have "getShellName (n @ t) = (n, length n)"
    using n c by (auto simp: getShellName_def var_name_def Let_def)
  then show ?thesis using c by simp
qed

lemma os_Expand_braced:
  assumes n: "var_name n"
  shows "os_Expand m (''${'' @ n @ CHR ''}'' # t) = m n @ os_Expand m t"
proof -
  obtain c cs where c: "n = c # cs" using n by (cases n) (auto simp: var_name_def)
  have "takeWhile (\<lambda>x. x \<noteq> CHR ''}'') (n @ CHR ''}'' # t) = n"
    using var_name_brace [OF n] by (intro takeWhile_all_stop) auto
  moreover have "\<not> isShellSpecialVar c" using n c by (simp add: var_name_def)
  ultimately have "getShellName (CHR ''{'' # n @ CHR ''}'' # t) = (n, length n + 2)"
    using c by (auto simp: getShellName_def Let_def)
  then show ?thesis using c by simp
qed

end
