(* ===== verification/Env.thy ===== *)
theory Env
  imports Jail HostOS GoExpand "HOL-Library.AList"
begin

text \<open>
  \<open>src/toolkit/env\<close>: the in-memory environment \<open>TestEnv\<close> (\<open>test_env.go\<close>), the process environment
  \<open>OsEnv\<close> (\<open>os_env.go\<close>), the interface \<open>Env\<close> they implement and its helpers (\<open>env.go\<close>).
\<close>

section \<open>The process\<close>

text \<open>
  What the \<open>os\<close> and \<open>os/user\<close> packages read and change of the process: the host, its environment
  variables and the account it runs under (user name and display name). The target is a Unix host.
\<close>

record proc =
  p_host :: world
  p_vars :: "(string \<times> string) list"
  p_account :: "goerr + string \<times> string"

definition GOOS :: string where
  "GOOS = ''linux''"

definition os_Getenv :: "string \<Rightarrow> proc \<Rightarrow> string" where
  "os_Getenv key p = (case map_of (p_vars p) key of None \<Rightarrow> [] | Some v \<Rightarrow> v)"

definition os_Setenv :: "string \<Rightarrow> string \<Rightarrow> proc \<Rightarrow> (goerr + unit) \<times> proc" where
  "os_Setenv key v p =
     (if key = [] \<or> CHR ''='' \<in> set key \<or> CHR 0x00 \<in> set key \<or> CHR 0x00 \<in> set v
      then (Inl (Wrapped ''setenv'' (Errno EINVAL)), p)
      else (Inr (), p\<lparr>p_vars := AList.update key v (p_vars p)\<rparr>))"

definition os_Unsetenv :: "string \<Rightarrow> proc \<Rightarrow> proc" where
  "os_Unsetenv key p = p\<lparr>p_vars := AList.delete key (p_vars p)\<rparr>"

definition os_Environ :: "proc \<Rightarrow> string list" where
  "os_Environ p = map (\<lambda>(k, v). k @ ''='' @ v) (p_vars p)"

definition os_UserHomeDir :: "proc \<Rightarrow> goerr + string" where
  "os_UserHomeDir p =
     (let h = os_Getenv ''HOME'' p in if h \<noteq> [] then Inr h else Inl (ErrMsg ''$HOME is not defined''))"

definition os_TempDir :: "proc \<Rightarrow> string" where
  "os_TempDir p = (let d = os_Getenv ''TMPDIR'' p in if d = [] then ''/tmp'' else d)"

definition os_Chdir :: "string \<Rightarrow> proc \<Rightarrow> (goerr + unit) \<times> proc" where
  "os_Chdir d p =
     (let w = p_host p; err = (\<lambda>e. (Inl (PathErr ''chdir'' d (Errno e)), p))
      in case klookup w True d of
           Inl e \<Rightarrow> err e
         | Inr cs \<Rightarrow>
             (case node (nodes w) cs of
                None \<Rightarrow> err ENOENT
              | Some i \<Rightarrow> if kind i \<noteq> KDir then err ENOTDIR
                          else (Inr (), p\<lparr>p_host := w\<lparr>proc_wd := Some (abs_path cs)\<rparr>\<rparr>)))"

definition filepath_Abs :: "string \<Rightarrow> proc \<Rightarrow> goerr + string" where
  "filepath_Abs path p =
     (if is_abs path then Inr (Clean path)
      else case os_Getwd (p_host p) of Inl e \<Rightarrow> Inl e | Inr wd \<Rightarrow> Inr (Join [wd, path]))"

section \<open>Leading tildes\<close>

definition tilde_form :: "string \<Rightarrow> bool" where
  "tilde_form p \<longleftrightarrow> p = ''~'' \<or> HasPrefix p ''~/'' \<or> HasPrefix p (''~'' @ [CHR 0x5C])"

section \<open>TestEnv\<close>

text \<open>A Go map is \<open>None\<close> when nil; reading a missing key gives the zero value.\<close>

record testenv =
  te_jail :: string
  te_home :: string
  te_user :: string
  te_data :: "(string \<times> string) list option"

definition make_map :: "(string \<times> string) list option \<Rightarrow> (string \<times> string) list" where
  "make_map d = (case d of None \<Rightarrow> [] | Some m \<Rightarrow> m)"

definition map_at :: "(string \<times> string) list option \<Rightarrow> string \<Rightarrow> string" where
  "map_at d k = (case map_of (make_map d) k of None \<Rightarrow> [] | Some v \<Rightarrow> v)"

definition put_data :: "string \<Rightarrow> string \<Rightarrow> testenv \<Rightarrow> testenv" where
  "put_data k v te = te\<lparr>te_data := Some (AList.update k v (make_map (te_data te)))\<rparr>"

definition NewTestEnv :: "string \<Rightarrow> string \<Rightarrow> string \<Rightarrow> testenv" where
  "NewTestEnv jailPath home0 username =
     (let user = (if username = [] then ''testuser'' else username);
          (home, cwd) =
            (if home0 = [] \<and> user = ''root'' then (Join [''/'', ''.root''], ''/'')
             else if home0 = [] then (let h = Join [''/'', ''home'', user] in (h, h))
             else (home0, home0));
          m = \<lparr>te_jail = jailPath, te_home = home, te_user = user, te_data = Some []\<rparr>;
          m1 = put_data ''PWD'' cwd (put_data ''USER'' user (put_data ''HOME'' home m))
      in if GOOS = ''windows'' then
           (let appdata = Join [home, ''AppData'', ''Roaming'']; lcl = Join [home, ''AppData'', ''Local'']
            in put_data ''TMPDIR'' (Join [lcl, ''Temp''])
                 (put_data ''LOCALAPPDATA'' lcl (put_data ''APPDATA'' appdata m1)))
         else
           (let xdgConfig = Join [home, ''.config'']; xdgCache = Join [home, ''.cache''];
                xdgData = Join [home, ''.local'', ''share'']; xdgState = Join [home, ''.local'', ''state'']
            in put_data ''TMPDIR'' (Join [jailPath, ''tmp''])
                 (put_data ''XDG_STATE_HOME'' xdgState
                   (put_data ''XDG_DATA_HOME'' xdgData
                     (put_data ''XDG_CACHE_HOME'' xdgCache
                       (put_data ''XDG_CONFIG_HOME'' xdgConfig m1))))))"

definition TestEnv_Name :: "testenv \<Rightarrow> string" where
  "TestEnv_Name te = ''test-env''"

definition TestEnv_GetJail :: "testenv \<Rightarrow> string" where
  "TestEnv_GetJail te = te_jail te"

definition TestEnv_SetJail :: "string \<Rightarrow> testenv \<Rightarrow> testenv" where
  "TestEnv_SetJail jailPath te =
     (let newJail = CleanJail jailPath;
          oldJail = te_jail te;
          rejail = (\<lambda>v. if newJail = [] then Clean v else Join [newJail, v]);
          te1 = te\<lparr>te_jail := newJail, te_data := Some (make_map (te_data te))\<rparr>;
          te2 = (if te_home te1 \<noteq> [] then
                   (let h = rejail (RemoveJailPrefix oldJail (te_home te1))
                    in put_data ''HOME'' h (te1\<lparr>te_home := h\<rparr>))
                 else te1);
          tmp = map_at (te_data te2) ''TMPDIR''
      in if tmp \<noteq> [] \<and> oldJail \<noteq> [] \<and> IsInJail oldJail tmp
         then put_data ''TMPDIR'' (rejail (RemoveJailPrefix oldJail tmp)) te2
         else te2)"

definition TestEnv_GetHome :: "testenv \<Rightarrow> goerr + string" where
  "TestEnv_GetHome te =
     (if te_home te = [] then Inl (ErrMsg ''home not set in TestEnv'')
      else Inr (RemoveJailPrefix (te_jail te) (te_home te)))"

definition TestEnv_Getwd :: "testenv \<Rightarrow> goerr + string" where
  "TestEnv_Getwd te =
     (if map_at (te_data te) ''PWD'' \<noteq> [] then Inr (map_at (te_data te) ''PWD'')
      else Inl (ErrMsg ''working directory not set in TestEnv''))"

definition TestEnv_ExpandPath :: "string \<Rightarrow> testenv \<Rightarrow> string" where
  "TestEnv_ExpandPath p te =
     (if p = [] then p
      else if hd p \<noteq> CHR ''~'' then p
      else if tilde_form p then
        (let home = (case TestEnv_GetHome te of Inl _ \<Rightarrow> [] | Inr h \<Rightarrow> h)
         in if p = ''~'' then Clean home else Join [home, drop 2 p])
      else p)"

definition TestEnv_ResolvePath :: "string \<Rightarrow> bool \<Rightarrow> world \<Rightarrow> testenv \<Rightarrow> goerr + string" where
  "TestEnv_ResolvePath rel follow w te =
     (let p = Clean rel
      in if p = ''.'' \<or> p = [] then TestEnv_Getwd te
         else
           (let expanded = TestEnv_ExpandPath rel te;
                path = (if is_abs expanded then Inr expanded
                        else case TestEnv_Getwd te of Inl e \<Rightarrow> Inl e | Inr wd \<Rightarrow> Inr (Join [wd, expanded]))
            in case path of
                 Inl e \<Rightarrow> Inl e
               | Inr path \<Rightarrow>
                   if \<not> follow then Inr (Clean path)
                   else case EvalSymlinks w (Join [te_jail te, path]) of
                          Inl e \<Rightarrow> Inl e
                        | Inr resolved \<Rightarrow> Inr (RemoveJailPrefix (te_jail te) resolved)))"

definition TestEnv_SetHome :: "world \<Rightarrow> string \<Rightarrow> testenv \<Rightarrow> (goerr + unit) \<times> testenv" where
  "TestEnv_SetHome w rel te =
     (case TestEnv_ResolvePath rel False w te of
        Inl e \<Rightarrow> (Inl (Wrapped ''unable to set home'' e), te)
      | Inr path \<Rightarrow>
          (let home = Join [te_jail te, path] in (Inr (), put_data ''HOME'' home (te\<lparr>te_home := home\<rparr>))))"

definition TestEnv_GetUser :: "testenv \<Rightarrow> goerr + string" where
  "TestEnv_GetUser te =
     (if te_user te = [] then Inl (ErrMsg ''user not set in TestEnv'') else Inr (te_user te))"

definition TestEnv_SetUser :: "string \<Rightarrow> testenv \<Rightarrow> (goerr + unit) \<times> testenv" where
  "TestEnv_SetUser username te = (Inr (), put_data ''USER'' username (te\<lparr>te_user := username\<rparr>))"

definition TestEnv_Setwd :: "world \<Rightarrow> string \<Rightarrow> testenv \<Rightarrow> (goerr + unit) \<times> testenv" where
  "TestEnv_Setwd w dir te =
     (let te1 = te\<lparr>te_data := Some (make_map (te_data te))\<rparr>
      in case TestEnv_ResolvePath dir False w te1 of
           Inl e \<Rightarrow> (Inl e, te1)
         | Inr path \<Rightarrow> (Inr (), put_data ''PWD'' path te1))"

definition TestEnv_Get :: "string \<Rightarrow> testenv \<Rightarrow> string" where
  "TestEnv_Get key te =
     (if key = ''HOME'' then te_home te
      else if key = ''USER'' then te_user te
      else map_at (te_data te) key)"

definition TestEnv_Set :: "world \<Rightarrow> string \<Rightarrow> string \<Rightarrow> testenv \<Rightarrow> (goerr + unit) \<times> testenv" where
  "TestEnv_Set w key v te =
     (if key = ''HOME'' then TestEnv_SetHome w v te
      else if key = ''USER'' then TestEnv_SetUser v te
      else if key = ''PWD'' then TestEnv_Setwd w v te
      else (Inr (), put_data key v te))"

definition TestEnv_Environ :: "testenv \<Rightarrow> string list" where
  "TestEnv_Environ te =
     (let ks0 = map fst (make_map (te_data te));
          ks1 = (if te_home te \<noteq> [] \<and> ''HOME'' \<notin> set ks0 then ks0 @ [''HOME''] else ks0);
          ks2 = (if te_user te \<noteq> [] \<and> ''USER'' \<notin> set ks0 then ks1 @ [''USER''] else ks1);
          val = (\<lambda>k. if k = ''HOME'' then te_home te else if k = ''USER'' then te_user te
                     else map_at (te_data te) k)
      in map (\<lambda>k. k @ ''='' @ val k) (sort_strings ks2))"

definition TestEnv_Has :: "string \<Rightarrow> testenv \<Rightarrow> bool" where
  "TestEnv_Has key te = (map_of (make_map (te_data te)) key \<noteq> None)"

definition TestEnv_Unset :: "string \<Rightarrow> testenv \<Rightarrow> testenv" where
  "TestEnv_Unset key te =
     (let del = (\<lambda>te. te\<lparr>te_data := map_option (AList.delete key) (te_data te)\<rparr>)
      in if key = ''HOME'' then del (te\<lparr>te_home := []\<rparr>)
         else if key = ''USER'' then del (te\<lparr>te_user := []\<rparr>)
         else del te)"

definition TestEnv_GetTempDir :: "testenv \<Rightarrow> string" where
  "TestEnv_GetTempDir te =
     (let d = map_at (te_data te)
      in if d ''TMPDIR'' \<noteq> [] then d ''TMPDIR''
         else if d ''TEMP'' \<noteq> [] then d ''TEMP''
         else if d ''TMP'' \<noteq> [] then d ''TMP''
         else if GOOS = ''windows'' then
           (if d ''LOCALAPPDATA'' \<noteq> [] then Join [d ''LOCALAPPDATA'', ''Temp'']
            else if d ''APPDATA'' \<noteq> [] then Join [d ''APPDATA'', ''Temp'']
            else if d ''USERPROFILE'' \<noteq> [] then Join [d ''USERPROFILE'', ''Temp'']
            else if te_home te \<noteq> [] then Join [te_home te, ''AppData'', ''Local'', ''Temp'']
            else [])
         else Join [''/'', ''tmp''])"

text \<open>\<open>Clone\<close> copies the map: a value here.\<close>

definition TestEnv_Clone :: "testenv \<Rightarrow> testenv" where
  "TestEnv_Clone te =
     \<lparr>te_jail = te_jail te, te_home = te_home te, te_user = te_user te, te_data = te_data te\<rparr>"

section \<open>OsEnv\<close>

record osenv =
  o_jail :: string

definition OsEnv_Name :: "osenv \<Rightarrow> string" where
  "OsEnv_Name o' = ''os''"

definition OsEnv_GetJail :: "osenv \<Rightarrow> string" where
  "OsEnv_GetJail e = o_jail e"

definition OsEnv_SetJail :: "string \<Rightarrow> osenv \<Rightarrow> osenv" where
  "OsEnv_SetJail jailPath e = e\<lparr>o_jail := CleanJail jailPath\<rparr>"

definition OsEnv_GetHome :: "proc \<Rightarrow> goerr + string" where
  "OsEnv_GetHome p = os_UserHomeDir p"

definition OsEnv_SetHome :: "string \<Rightarrow> proc \<Rightarrow> (goerr + unit) \<times> proc" where
  "OsEnv_SetHome home =
     (if GOOS = ''windows'' then bindE (os_Setenv ''USERPROFILE'' home) (\<lambda>_. os_Setenv ''HOME'' home)
      else os_Setenv ''HOME'' home)"

definition OsEnv_GetUser :: "proc \<Rightarrow> goerr + string" where
  "OsEnv_GetUser p =
     (case p_account p of
        Inl e \<Rightarrow> Inl e
      | Inr (Username, Name) \<Rightarrow> if Username \<noteq> [] then Inr Username else Inr Name)"

definition OsEnv_SetUser :: "string \<Rightarrow> proc \<Rightarrow> (goerr + unit) \<times> proc" where
  "OsEnv_SetUser username =
     (if GOOS = ''windows'' then bindE (os_Setenv ''USERNAME'' username) (\<lambda>_. os_Setenv ''USER'' username)
      else os_Setenv ''USER'' username)"

definition OsEnv_Get :: "string \<Rightarrow> proc \<Rightarrow> string" where
  "OsEnv_Get key p = os_Getenv key p"

definition OsEnv_Set :: "string \<Rightarrow> string \<Rightarrow> proc \<Rightarrow> (goerr + unit) \<times> proc" where
  "OsEnv_Set key v = os_Setenv key v"

definition OsEnv_Environ :: "proc \<Rightarrow> string list" where
  "OsEnv_Environ p = os_Environ p"

definition OsEnv_Has :: "string \<Rightarrow> proc \<Rightarrow> bool" where
  "OsEnv_Has key p = (map_of (p_vars p) key \<noteq> None)"

definition OsEnv_Unset :: "string \<Rightarrow> proc \<Rightarrow> proc" where
  "OsEnv_Unset key p = os_Unsetenv key p"

definition OsEnv_GetTempDir :: "proc \<Rightarrow> string" where
  "OsEnv_GetTempDir p = os_TempDir p"

definition OsEnv_Getwd :: "proc \<Rightarrow> goerr + string" where
  "OsEnv_Getwd p = os_Getwd (p_host p)"

text \<open>The error of \<open>filepath.Abs\<close> is dropped; the path is then empty.\<close>

definition OsEnv_Setwd :: "string \<Rightarrow> proc \<Rightarrow> (goerr + unit) \<times> proc" where
  "OsEnv_Setwd dir p = os_Chdir (case filepath_Abs dir p of Inl _ \<Rightarrow> [] | Inr d \<Rightarrow> d) p"

definition OsEnv_Clone :: "osenv \<Rightarrow> osenv" where
  "OsEnv_Clone e = \<lparr>o_jail = o_jail e\<rparr>"

definition OsEnv_ExpandPath :: "string \<Rightarrow> proc \<Rightarrow> string" where
  "OsEnv_ExpandPath q p =
     (if q = [] then q
      else if hd q \<noteq> CHR ''~'' then q
      else if tilde_form q then
        (let home = (case OsEnv_GetHome p of Inl _ \<Rightarrow> [] | Inr h \<Rightarrow> h)
         in if q = ''~'' then Clean home else Join [home, drop 2 q])
      else q)"

section \<open>The interface Env\<close>

text \<open>
  An interface value is one of the implementations of the package (\<open>Runtime\<close>, which forwards to
  one of them, is modelled in its own theory); a method call dispatches on it. A mutating method
  runs on the value and the process.
\<close>

datatype env = TestEnvV testenv | OsEnvV osenv

type_synonym 'a envio = "(env \<times> proc, goerr, 'a) io"

definition on_test :: "(testenv \<Rightarrow> (goerr + 'a) \<times> testenv) \<Rightarrow> testenv \<Rightarrow> 'a envio" where
  "on_test m te s = (case m te of (r, te1) \<Rightarrow> (r, (TestEnvV te1, snd s)))"

definition on_proc :: "(proc \<Rightarrow> (goerr + 'a) \<times> proc) \<Rightarrow> 'a envio" where
  "on_proc m s = (case m (snd s) of (r, p) \<Rightarrow> (r, (fst s, p)))"

definition Env_Name :: "env \<Rightarrow> string" where
  "Env_Name e = (case e of TestEnvV te \<Rightarrow> TestEnv_Name te | OsEnvV oe \<Rightarrow> OsEnv_Name oe)"

definition Env_GetJail :: "env \<Rightarrow> string" where
  "Env_GetJail e = (case e of TestEnvV te \<Rightarrow> TestEnv_GetJail te | OsEnvV oe \<Rightarrow> OsEnv_GetJail oe)"

definition Env_SetJail :: "string \<Rightarrow> env \<Rightarrow> env" where
  "Env_SetJail j e =
     (case e of TestEnvV te \<Rightarrow> TestEnvV (TestEnv_SetJail j te) | OsEnvV oe \<Rightarrow> OsEnvV (OsEnv_SetJail j oe))"

definition Env_Get :: "string \<Rightarrow> env \<times> proc \<Rightarrow> string" where
  "Env_Get key s =
     (case fst s of TestEnvV te \<Rightarrow> TestEnv_Get key te | OsEnvV oe \<Rightarrow> OsEnv_Get key (snd s))"

definition Env_Has :: "string \<Rightarrow> env \<times> proc \<Rightarrow> bool" where
  "Env_Has key s =
     (case fst s of TestEnvV te \<Rightarrow> TestEnv_Has key te | OsEnvV oe \<Rightarrow> OsEnv_Has key (snd s))"

definition Env_Environ :: "env \<times> proc \<Rightarrow> string list" where
  "Env_Environ s =
     (case fst s of TestEnvV te \<Rightarrow> TestEnv_Environ te | OsEnvV oe \<Rightarrow> OsEnv_Environ (snd s))"

definition Env_GetHome :: "env \<times> proc \<Rightarrow> goerr + string" where
  "Env_GetHome s =
     (case fst s of TestEnvV te \<Rightarrow> TestEnv_GetHome te | OsEnvV oe \<Rightarrow> OsEnv_GetHome (snd s))"

definition Env_GetUser :: "env \<times> proc \<Rightarrow> goerr + string" where
  "Env_GetUser s =
     (case fst s of TestEnvV te \<Rightarrow> TestEnv_GetUser te | OsEnvV oe \<Rightarrow> OsEnv_GetUser (snd s))"

definition Env_Getwd :: "env \<times> proc \<Rightarrow> goerr + string" where
  "Env_Getwd s =
     (case fst s of TestEnvV te \<Rightarrow> TestEnv_Getwd te | OsEnvV oe \<Rightarrow> OsEnv_Getwd (snd s))"

definition Env_GetTempDir :: "env \<times> proc \<Rightarrow> string" where
  "Env_GetTempDir s =
     (case fst s of TestEnvV te \<Rightarrow> TestEnv_GetTempDir te | OsEnvV oe \<Rightarrow> OsEnv_GetTempDir (snd s))"

definition Env_Set :: "string \<Rightarrow> string \<Rightarrow> unit envio" where
  "Env_Set key v s =
     (case fst s of TestEnvV te \<Rightarrow> on_test (TestEnv_Set (p_host (snd s)) key v) te s
      | OsEnvV oe \<Rightarrow> on_proc (OsEnv_Set key v) s)"

definition Env_SetHome :: "string \<Rightarrow> unit envio" where
  "Env_SetHome home s =
     (case fst s of TestEnvV te \<Rightarrow> on_test (TestEnv_SetHome (p_host (snd s)) home) te s
      | OsEnvV oe \<Rightarrow> on_proc (OsEnv_SetHome home) s)"

definition Env_SetUser :: "string \<Rightarrow> unit envio" where
  "Env_SetUser user s =
     (case fst s of TestEnvV te \<Rightarrow> on_test (TestEnv_SetUser user) te s
      | OsEnvV oe \<Rightarrow> on_proc (OsEnv_SetUser user) s)"

definition Env_Setwd :: "string \<Rightarrow> unit envio" where
  "Env_Setwd dir s =
     (case fst s of TestEnvV te \<Rightarrow> on_test (TestEnv_Setwd (p_host (snd s)) dir) te s
      | OsEnvV oe \<Rightarrow> on_proc (OsEnv_Setwd dir) s)"

definition Env_Unset :: "string \<Rightarrow> env \<times> proc \<Rightarrow> env \<times> proc" where
  "Env_Unset key s =
     (case fst s of TestEnvV te \<Rightarrow> (TestEnvV (TestEnv_Unset key te), snd s)
      | OsEnvV oe \<Rightarrow> (fst s, OsEnv_Unset key (snd s)))"

text \<open>Both implementations are \<open>EnvCloner\<close>s.\<close>

definition Env_CloneEnv :: "env \<Rightarrow> env" where
  "Env_CloneEnv e =
     (case e of TestEnvV te \<Rightarrow> TestEnvV (TestEnv_Clone te) | OsEnvV oe \<Rightarrow> OsEnvV (OsEnv_Clone oe))"

section \<open>Helpers of env.go\<close>

text \<open>
  A helper is given the methods it calls; \<open>None\<close> is a nil \<open>Env\<close>, for which \<open>ExpandEnv\<close> reads the
  process environment.
\<close>

definition GetDefault :: "(string \<Rightarrow> string) option \<Rightarrow> string \<Rightarrow> string \<Rightarrow> string" where
  "GetDefault get key other =
     (case get of None \<Rightarrow> other | Some g \<Rightarrow> if g key \<noteq> [] then g key else other)"

definition ExpandEnv :: "(string \<Rightarrow> string) option \<Rightarrow> proc \<Rightarrow> string \<Rightarrow> string" where
  "ExpandEnv get p s = os_Expand (case get of None \<Rightarrow> (\<lambda>k. OsEnv_Get k p) | Some g \<Rightarrow> g) s"

text \<open>The dynamic types \<open>DumpEnv\<close> tells apart.\<close>

datatype dump_arg =
    DumpNil
  | DumpTest testenv
  | DumpOs
  | DumpEnviron "string list"
  | DumpKeys "string list" "string \<Rightarrow> string"
  | DumpOther

definition split_kv :: "string \<Rightarrow> (string \<times> string) option" where
  "split_kv kv =
     (let k = takeWhile (\<lambda>c. c \<noteq> CHR ''='') kv
      in if length k < length kv then Some (k, drop (Suc (length k)) kv) else None)"

definition add_kv :: "string \<Rightarrow> (string \<times> string) list \<Rightarrow> (string \<times> string) list" where
  "add_kv kv m = (case split_kv kv of None \<Rightarrow> m | Some (k, v) \<Rightarrow> AList.update k v m)"

definition dump_entries :: "dump_arg \<Rightarrow> proc \<Rightarrow> (string \<times> string) list option" where
  "dump_entries a p =
     (case a of
        DumpTest te \<Rightarrow>
          (let m0 = make_map (te_data te);
               m1 = (if te_home te \<noteq> [] then AList.update ''HOME'' (te_home te) m0 else m0)
           in Some (if te_user te \<noteq> [] then AList.update ''USER'' (te_user te) m1 else m1))
      | DumpEnviron kvs \<Rightarrow> Some (fold add_kv kvs [])
      | DumpKeys ks g \<Rightarrow> Some (fold (\<lambda>k. AList.update k (g k)) ks [])
      | DumpOther \<Rightarrow> None
      | _ \<Rightarrow> Some (fold add_kv (os_Environ p) []))"

definition DumpEnv :: "dump_arg \<Rightarrow> proc \<Rightarrow> string" where
  "DumpEnv a p =
     (case dump_entries a p of
        None \<Rightarrow> ''env: cannot enumerate keys for this Env implementation''
      | Some m \<Rightarrow>
          concat (map (\<lambda>k. k @ ''='' @ the (map_of m k) @ [CHR 0x0A]) (sort_strings (map fst m))))"

end
