(* ===== verification/Env_Facts.thy ===== *)
theory Env_Facts
  imports Env
begin

text \<open>
  Facts on the environments: byte order and sorting, the maps behind \<open>TestEnv\<close>, its invariant, the
  contract of an environment as a store of variables, and how the home directory and the
  temporary directory move with the jail.
\<close>

lemma GOOS_unix [simp]: "GOOS \<noteq> ''windows''"
  by (simp add: GOOS_def)

section \<open>Sorting\<close>

lemma bytes_le_refl [simp]: "bytes_le x x"
  by (induction x) (auto simp: Let_def)

lemma bytes_le_total: "bytes_le x y \<or> bytes_le y x"
  by (induction x y rule: bytes_le.induct) (auto simp: Let_def)

lemma bytes_le_trans: "bytes_le x y \<Longrightarrow> bytes_le y z \<Longrightarrow> bytes_le x z"
proof (induction x y arbitrary: z rule: bytes_le.induct)
  case (3 x xs y ys)
  then show ?case by (cases z) (auto simp: Let_def)
qed auto

lemma insert_by_set [simp]: "set (insert_by le x xs) = insert x (set xs)"
  by (induction xs) auto

lemma insert_by_distinct: "distinct (insert_by le x xs) \<longleftrightarrow> x \<notin> set xs \<and> distinct xs"
  by (induction xs) auto

lemma insert_by_sorted:
  assumes "\<And>x y. le x y \<or> le y x" and "\<And>x y z. le x y \<Longrightarrow> le y z \<Longrightarrow> le x z"
  shows "sorted_wrt le xs \<Longrightarrow> sorted_wrt le (insert_by le x xs)"
proof (induction xs)
  case (Cons a xs)
  show ?case
  proof (cases "le x a")
    case True
    then show ?thesis using Cons.prems assms(2) by auto
  next
    case False
    then have "le a x" using assms(1) by blast
    then show ?thesis using Cons False by auto
  qed
qed simp

lemma sort_strings_set [simp]: "set (sort_strings xs) = set xs"
  by (induction xs) (auto simp: sort_strings_def)

lemma sort_strings_distinct [simp]: "distinct (sort_strings xs) \<longleftrightarrow> distinct xs"
proof (induction xs)
  case (Cons x xs)
  then show ?case using sort_strings_set [of xs] by (simp add: sort_strings_def insert_by_distinct)
qed (simp add: sort_strings_def)

lemma sort_strings_sorted: "sorted_wrt bytes_le (sort_strings xs)"
  by (induction xs)
    (auto simp: sort_strings_def intro!: insert_by_sorted bytes_le_total dest: bytes_le_trans)

section \<open>Maps\<close>

lemma map_at_put [simp]: "map_at (te_data (put_data k v te)) k' = (if k' = k then v else map_at (te_data te) k')"
  by (simp add: map_at_def put_data_def make_map_def update_conv')

lemma put_data_fields [simp]:
  "te_jail (put_data k v te) = te_jail te" "te_home (put_data k v te) = te_home te"
  "te_user (put_data k v te) = te_user te"
  by (simp_all add: put_data_def)

lemma map_at_make [simp]: "map_at (Some (make_map d)) k = map_at d k"
  by (simp add: map_at_def make_map_def)

lemma make_map_Some [simp]: "make_map (Some m) = m"
  by (simp add: make_map_def)

lemma map_at_key: "map_at d k \<noteq> [] \<Longrightarrow> k \<in> set (map fst (make_map d))"
  by (cases "map_of (make_map d) k") (auto simp: map_at_def map_of_eq_None_iff dest!: map_of_SomeD, force)

text \<open>The keys of the map, without the ones \<open>Get\<close> reads from a field, after each operation.\<close>

definition keys :: "testenv \<Rightarrow> string list" where
  "keys te = map fst (make_map (te_data te))"

lemma Has_keys: "TestEnv_Has k te \<longleftrightarrow> k \<in> set (keys te)"
  by (auto simp: TestEnv_Has_def keys_def map_of_eq_None_iff)

lemma keys_put [simp]: "set (keys (put_data k v te)) = insert k (set (keys te))"
  by (simp add: keys_def put_data_def make_map_def dom_update)

lemma keys_put_distinct: "distinct (keys te) \<Longrightarrow> distinct (keys (put_data k v te))"
  by (simp add: keys_def put_data_def make_map_def distinct_update)

section \<open>The invariant of TestEnv\<close>

text \<open>
  The map has one value per key, and \<open>HOME\<close> and \<open>USER\<close> are in it exactly as in the fields (absent
  only when the field is empty).
\<close>

definition te_wf :: "testenv \<Rightarrow> bool" where
  "te_wf te \<longleftrightarrow> distinct (keys te) \<and>
     map_at (te_data te) ''HOME'' = te_home te \<and> map_at (te_data te) ''USER'' = te_user te"

datatype teop =
  TSetJail string | TSetHome string | TSetUser string | TSet string string | TUnset string | TSetwd string

fun run_te :: "world \<Rightarrow> teop \<Rightarrow> testenv \<Rightarrow> testenv" where
  "run_te w (TSetJail j) te = TestEnv_SetJail j te"
| "run_te w (TSetHome h) te = snd (TestEnv_SetHome w h te)"
| "run_te w (TSetUser u) te = snd (TestEnv_SetUser u te)"
| "run_te w (TSet k v) te = snd (TestEnv_Set w k v te)"
| "run_te w (TUnset k) te = TestEnv_Unset k te"
| "run_te w (TSetwd d) te = snd (TestEnv_Setwd w d te)"

inductive te_reach :: "testenv \<Rightarrow> bool" where
  te_new: "te_reach (NewTestEnv j h u)"
| te_step: "te_reach te \<Longrightarrow> te_reach (run_te w op te)"

lemma te_wf_put: "te_wf te \<Longrightarrow> k \<noteq> ''HOME'' \<Longrightarrow> k \<noteq> ''USER'' \<Longrightarrow> te_wf (put_data k v te)"
  by (simp add: te_wf_def keys_put_distinct)

lemma te_wf_put_home: "te_wf te \<Longrightarrow> te_wf (put_data ''HOME'' h (te\<lparr>te_home := h\<rparr>))"
  by (simp add: te_wf_def keys_put_distinct) (simp add: keys_def put_data_def make_map_def distinct_update map_at_def)

lemma te_wf_put_user: "te_wf te \<Longrightarrow> te_wf (put_data ''USER'' u (te\<lparr>te_user := u\<rparr>))"
  by (simp add: te_wf_def keys_put_distinct) (simp add: keys_def put_data_def make_map_def distinct_update map_at_def)

lemma te_wf_fresh: "te_wf te \<Longrightarrow> te_wf (te\<lparr>te_data := Some (make_map (te_data te))\<rparr>)"
  by (simp add: te_wf_def keys_def)

lemma te_wf_jail [simp]: "te_wf (te\<lparr>te_jail := j\<rparr>) = te_wf te"
  by (simp add: te_wf_def keys_def)

lemma te_wf_SetJail: "te_wf te \<Longrightarrow> te_wf (TestEnv_SetJail j te)"
  using te_wf_fresh [of "te\<lparr>te_jail := CleanJail j\<rparr>"]
  by (auto simp: TestEnv_SetJail_def Let_def intro!: te_wf_put te_wf_put_home)

lemma te_wf_SetHome: "te_wf te \<Longrightarrow> te_wf (snd (TestEnv_SetHome w h te))"
  by (auto simp: TestEnv_SetHome_def Let_def te_wf_put_home split: sum.splits)

lemma te_wf_SetUser: "te_wf te \<Longrightarrow> te_wf (snd (TestEnv_SetUser u te))"
  by (simp add: TestEnv_SetUser_def te_wf_put_user)

lemma te_wf_Setwd: "te_wf te \<Longrightarrow> te_wf (snd (TestEnv_Setwd w d te))"
  by (auto simp: TestEnv_Setwd_def Let_def te_wf_put te_wf_fresh split: sum.splits)

lemma te_wf_Unset: "te_wf te \<Longrightarrow> te_wf (TestEnv_Unset k te)"
  by (cases "te_data te")
    (auto simp: te_wf_def TestEnv_Unset_def Let_def keys_def make_map_def map_at_def delete_conv'
      distinct_delete)

lemma te_wf_step: "te_wf te \<Longrightarrow> te_wf (run_te w op te)"
  by (cases op)
    (auto simp: te_wf_SetJail te_wf_SetHome te_wf_SetUser te_wf_Unset te_wf_Setwd TestEnv_Set_def te_wf_put)

lemma te_wf_New: "te_wf (NewTestEnv j h u)"
proof -
  have base: "te_wf (put_data ''USER'' user (put_data ''HOME'' home
      \<lparr>te_jail = j, te_home = home, te_user = user, te_data = Some []\<rparr>))" for home user
    by (simp add: te_wf_def put_data_def keys_def make_map_def map_at_def)
  show ?thesis by (simp add: NewTestEnv_def Let_def te_wf_put base)
qed

lemma te_reach_wf: "te_reach te \<Longrightarrow> te_wf te"
  by (induction rule: te_reach.induct) (auto simp: te_wf_New te_wf_step)

lemma te_wf_Get: "te_wf te \<Longrightarrow> TestEnv_Get k te = map_at (te_data te) k"
  by (auto simp: TestEnv_Get_def te_wf_def)

lemma te_wf_home_key: "te_wf te \<Longrightarrow> te_home te \<noteq> [] \<Longrightarrow> ''HOME'' \<in> set (keys te)"
  using map_at_key [of "te_data te" "''HOME''"] by (simp add: te_wf_def keys_def)

lemma te_wf_user_key: "te_wf te \<Longrightarrow> te_user te \<noteq> [] \<Longrightarrow> ''USER'' \<in> set (keys te)"
  using map_at_key [of "te_data te" "''USER''"] by (simp add: te_wf_def keys_def)

lemma Environ_wf:
  assumes "te_wf te"
  shows "TestEnv_Environ te = map (\<lambda>k. k @ ''='' @ TestEnv_Get k te) (sort_strings (keys te))"
proof -
  have "(te_home te \<noteq> [] \<and> ''HOME'' \<notin> set (keys te)) = False"
    and "(te_user te \<noteq> [] \<and> ''USER'' \<notin> set (keys te)) = False"
    using te_wf_home_key [OF assms] te_wf_user_key [OF assms] by auto
  note f = this
  show ?thesis
    unfolding TestEnv_Environ_def Let_def keys_def [symmetric] f if_False TestEnv_Get_def ..
qed

section \<open>An environment as a store of variables\<close>

text \<open>
  What a client of \<open>Env\<close> relies on for ordinary variables: a key that is set reads as its value, a
  key that is unset reads as empty, and no other key changes. \<open>plain\<close> says which keys and values
  the implementation stores as they are.
\<close>

locale env_vars =
  fixes get :: "string \<Rightarrow> 's \<Rightarrow> string"
    and put :: "string \<Rightarrow> string \<Rightarrow> 's \<Rightarrow> 's"
    and del :: "string \<Rightarrow> 's \<Rightarrow> 's"
    and plain :: "string \<Rightarrow> string \<Rightarrow> bool"
  assumes get_put: "plain k v \<Longrightarrow> get k' (put k v s) = (if k' = k then v else get k' s)"
    and get_del: "get k' (del k s) = (if k' = k then [] else get k' s)"
begin

lemma default_put: "plain k v \<Longrightarrow> GetDefault (Some (\<lambda>x. get x (put k v s))) k d = (if v = [] then d else v)"
  by (simp add: GetDefault_def get_put)

lemma default_del: "GetDefault (Some (\<lambda>x. get x (del k s))) k d = d"
  by (simp add: GetDefault_def get_del)

lemma expand_put:
  assumes "plain k v" and "var_name k" and "CHR ''$'' \<notin> set t"
  shows "ExpandEnv (Some (\<lambda>x. get x (put k v s))) p (t @ ''${'' @ k @ CHR ''}'' # u) =
    t @ v @ ExpandEnv (Some (\<lambda>x. get x (put k v s))) p u"
  using assms os_Expand_braced [OF assms(2)] by (simp add: ExpandEnv_def os_Expand_plain_append get_put)

lemma put_idem: "plain k v \<Longrightarrow> plain k v' \<Longrightarrow> get x (put k v (put k v' s)) = get x (put k v s)"
  by (simp add: get_put)

end

definition te_plain :: "string \<Rightarrow> string \<Rightarrow> bool" where
  "te_plain k v \<longleftrightarrow> k \<noteq> ''HOME'' \<and> k \<noteq> ''USER'' \<and> k \<noteq> ''PWD''"

definition os_plain :: "string \<Rightarrow> string \<Rightarrow> bool" where
  "os_plain k v \<longleftrightarrow> k \<noteq> [] \<and> CHR ''='' \<notin> set k \<and> CHR 0x00 \<notin> set k \<and> CHR 0x00 \<notin> set v"

lemma map_at_delete: "map_at (map_option (AList.delete k) d) k' = (if k' = k then [] else map_at d k')"
  by (cases d) (auto simp: map_at_def make_map_def delete_conv')

interpretation test_vars: env_vars TestEnv_Get "\<lambda>k v te. snd (TestEnv_Set w k v te)" TestEnv_Unset te_plain for w
  by unfold_locales
    (auto simp: TestEnv_Get_def TestEnv_Set_def te_plain_def TestEnv_Unset_def Let_def map_at_delete)

interpretation os_vars: env_vars OsEnv_Get "\<lambda>k v p. snd (OsEnv_Set k v p)" OsEnv_Unset os_plain
  by unfold_locales
    (auto simp: OsEnv_Get_def OsEnv_Set_def OsEnv_Unset_def os_Unsetenv_def os_Setenv_def os_plain_def
      os_Getenv_def update_conv' delete_conv')

section \<open>Jail, home and temporary directory\<close>

interpretation test_jail: jailed TestEnv_GetJail TestEnv_SetJail
  by unfold_locales (simp add: TestEnv_GetJail_def TestEnv_SetJail_def Let_def)

interpretation os_jail: jailed OsEnv_GetJail OsEnv_SetJail
  by unfold_locales (simp add: OsEnv_GetJail_def OsEnv_SetJail_def)

lemma TestEnv_SetJail_jail [simp]: "te_jail (TestEnv_SetJail j te) = CleanJail j"
  using test_jail.get_set by (simp add: TestEnv_GetJail_def)

text \<open>\<open>J\<close> is the jail, and the home directory and \<open>TMPDIR\<close> (which no \<open>..\<close>-like name hides) are in it.\<close>

definition te_inside :: "string list \<Rightarrow> string list \<Rightarrow> string list \<Rightarrow> testenv \<Rightarrow> bool" where
  "te_inside J h t te \<longleftrightarrow>
     names_ok (J @ h) \<and> names_ok (J @ t) \<and> \<not> dotdot_head t \<and>
     te_jail te = abs_path J \<and> te_home te = abs_path (J @ h) \<and>
     map_at (te_data te) ''TMPDIR'' = abs_path (J @ t)"

lemma te_inside_GetHome: "te_inside J h t te \<Longrightarrow> TestEnv_GetHome te = Inr (abs_path h)"
  by (simp add: te_inside_def TestEnv_GetHome_def RemoveJailPrefix_below)

lemma te_inside_SetJail:
  assumes i: "te_inside J h t te" and K: "names_ok K"
  shows "TestEnv_SetJail (abs_path K) te =
      put_data ''TMPDIR'' (abs_path (K @ t)) (put_data ''HOME'' (abs_path (K @ h))
        (te\<lparr>te_jail := abs_path K, te_home := abs_path (K @ h)\<rparr>))"
proof -
  have n: "names_ok J" "names_ok h" "names_ok t" "names_ok (J @ h)" "names_ok (J @ t)"
    using i by (auto simp: te_inside_def)
  have r: "RemoveJailPrefix (abs_path J) (abs_path (J @ h)) = abs_path h"
    "RemoveJailPrefix (abs_path J) (abs_path (J @ t)) = abs_path t"
    using n by (simp_all add: RemoveJailPrefix_below)
  have inj: "IsInJail (abs_path J) (abs_path (J @ t))"
    using i n by (simp add: IsInJail_abs_path te_inside_def)
  have j: "Join [abs_path K, abs_path h] = abs_path (K @ h)" "Join [abs_path K, abs_path t] = abs_path (K @ t)"
    using n K by (simp_all add: Join_abs_abs)
  show ?thesis
    using i n K r inj j by (simp add: TestEnv_SetJail_def te_inside_def Let_def) (simp add: put_data_def)
qed

lemma te_inside_moves:
  assumes "te_inside J h t te" and "names_ok K"
  shows "te_inside K h t (TestEnv_SetJail (abs_path K) te)"
  using assms te_inside_SetJail [OF assms] by (simp add: te_inside_def)

section \<open>Paths of TestEnv\<close>

lemma TestEnv_Resolve_abs:
  assumes "is_abs p" shows "TestEnv_ResolvePath p False w te = Inr (Clean p)"
proof -
  have "Clean p \<noteq> ''.''" using assms by (simp add: Clean_abs)
  moreover have "p \<noteq> []" "hd p \<noteq> CHR ''~''" using assms by (cases p; auto)+
  ultimately show ?thesis using assms by (simp add: TestEnv_ResolvePath_def TestEnv_ExpandPath_def Let_def)
qed

lemma TestEnv_Setwd_abs:
  "is_abs p \<Longrightarrow> TestEnv_Setwd w p te = (Inr (), put_data ''PWD'' (Clean p) te)"
  by (simp add: TestEnv_Setwd_def TestEnv_Resolve_abs Let_def) (simp add: put_data_def)

text \<open>On a clean working directory every path resolves to a clean absolute one.\<close>

lemma TestEnv_Resolve_clean:
  assumes "map_at (te_data te) ''PWD'' = wd" and "clean_abs wd"
  shows "\<exists>p. TestEnv_ResolvePath rel False w te = Inr p \<and> clean_abs p"
proof -
  have wd: "TestEnv_Getwd te = Inr wd" "is_abs wd"
    using assms by (auto simp: TestEnv_Getwd_def clean_abs_def)
  show ?thesis
    using wd assms(2) clean_abs_Clean Join_clean_abs [OF wd(2)]
    by (auto simp: TestEnv_ResolvePath_def Let_def clean_abs_def)
qed

lemma home_roundtrip:
  assumes "te_jail te = abs_path J" and "names_ok J" and "clean_abs (map_at (te_data te) ''PWD'')"
  shows "\<exists>p te'. names_ok p \<and> TestEnv_ResolvePath rel False w te = Inr (abs_path p) \<and>
    TestEnv_SetHome w rel te = (Inr (), te') \<and> TestEnv_GetHome te' = Inr (abs_path p) \<and>
    TestEnv_Get ''HOME'' te' = abs_path (J @ p)"
proof -
  obtain q where q: "TestEnv_ResolvePath rel False w te = Inr q" "clean_abs q"
    using TestEnv_Resolve_clean [OF refl assms(3)] by blast
  then obtain p where p: "q = abs_path p" "names_ok p" by (auto elim: clean_absE)
  have "Join [abs_path J, abs_path p] = abs_path (J @ p)" using assms(2) p(2) by (rule Join_abs_abs)
  then show ?thesis
    using q p assms(1,2) RemoveJailPrefix_below [of J p]
    by (auto simp: TestEnv_SetHome_def TestEnv_GetHome_def TestEnv_Get_def Let_def)
qed

end
