(* ===== verification/User.thy ===== *)
theory User
  imports Env
begin

text \<open>
  \<open>src/toolkit/user.go\<close>, the parts that need no \<open>Runtime\<close>: expanding a leading tilde and the
  per-user directories. An \<open>Env\<close> argument is the pair of its methods \<open>Get\<close> and \<open>GetHome\<close>; a nil one
  (\<open>None\<close>) is replaced by \<open>OsEnv\<close>.
\<close>

type_synonym env_arg = "((string \<Rightarrow> string) \<times> (goerr + string)) option"

definition env_or_os :: "env_arg \<Rightarrow> proc \<Rightarrow> (string \<Rightarrow> string) \<times> (goerr + string)" where
  "env_or_os a p = (case a of None \<Rightarrow> (\<lambda>k. OsEnv_Get k p, OsEnv_GetHome p) | Some x \<Rightarrow> x)"

definition ExpandPath :: "env_arg \<Rightarrow> proc \<Rightarrow> string \<Rightarrow> goerr + string" where
  "ExpandPath a p q =
     (if q = [] then Inr q
      else if hd q \<noteq> CHR ''~'' then Inr q
      else if tilde_form q then
        (case snd (env_or_os a p) of
           Inl e \<Rightarrow> Inl e
         | Inr home \<Rightarrow> if q = ''~'' then Inr (Clean home) else Inr (Join [home, drop 2 q]))
      else Inr q)"

definition home_or :: "(goerr + string) \<Rightarrow> string list \<Rightarrow> goerr + string" where
  "home_or h rest = (case h of Inl e \<Rightarrow> Inl e | Inr home \<Rightarrow> Inr (Join (home # rest)))"

definition UserConfigPath :: "env_arg \<Rightarrow> proc \<Rightarrow> goerr + string" where
  "UserConfigPath a p =
     (let (get, h) = env_or_os a p
      in if get ''XDG_CONFIG_HOME'' \<noteq> [] then Inr (Clean (get ''XDG_CONFIG_HOME''))
         else if get ''APPDATA'' \<noteq> [] then Inr (Clean (get ''APPDATA''))
         else home_or h [''.config''])"

definition UserCachePath :: "env_arg \<Rightarrow> proc \<Rightarrow> goerr + string" where
  "UserCachePath a p =
     (let (get, h) = env_or_os a p
      in if get ''XDG_CACHE_HOME'' \<noteq> [] then Inr (Clean (get ''XDG_CACHE_HOME''))
         else if get ''LOCALAPPDATA'' \<noteq> [] then Inr (Clean (get ''LOCALAPPDATA''))
         else home_or h [''.cache''])"

definition no_localappdata :: goerr where
  "no_localappdata = Wrapped ''LOCALAPPDATA environment variable not set'' ErrNoEnvKey"

definition UserDataPath :: "env_arg \<Rightarrow> proc \<Rightarrow> goerr + string" where
  "UserDataPath a p =
     (let (get, h) = env_or_os a p
      in if GOOS = ''windows'' then
           (if get ''LOCALAPPDATA'' \<noteq> [] then Inr (Clean (Join [get ''LOCALAPPDATA'', ''data'']))
            else Inl no_localappdata)
         else if get ''XDG_DATA_HOME'' \<noteq> [] then Inr (Clean (get ''XDG_DATA_HOME''))
         else home_or h [''.local'', ''share''])"

definition UserStatePath :: "env_arg \<Rightarrow> proc \<Rightarrow> goerr + string" where
  "UserStatePath a p =
     (let (get, h) = env_or_os a p
      in if GOOS = ''windows'' then
           (if get ''LOCALAPPDATA'' \<noteq> [] then Inr (Join [get ''LOCALAPPDATA'', ''state''])
            else Inl no_localappdata)
         else if get ''XDG_STATE_HOME'' \<noteq> [] then Inr (get ''XDG_STATE_HOME'')
         else home_or h [''.local'', ''state''])"

definition DefaultEditor :: string where
  "DefaultEditor = ''nano''"

end
