(* ===== verification/Env_Props.thy ===== *)
theory Env_Props
  imports Env_Facts User
begin

text \<open>The properties of the environments and of the per-user directories, with concrete instances.\<close>

definition demo_te :: testenv where
  "demo_te = NewTestEnv ''/srv/jail'' ''/home/ann'' ''ann''"

definition demo_te_in :: testenv where
  "demo_te_in = TestEnv_SetJail ''/srv/jail'' demo_te"

section \<open>Enumeration\<close>

text \<open>
  C19. The environment list of every test environment that can arise, whatever is set, unset or
  moved: one \<open>KEY=VALUE\<close> line for each key that \<open>Has\<close> reports, with the value that \<open>Get\<close> returns,
  keys in byte order and none twice.
\<close>

theorem testenv_environ_exact:
  assumes "te_reach te"
  shows "\<exists>ks. TestEnv_Environ te = map (\<lambda>k. k @ ''='' @ TestEnv_Get k te) ks \<and>
    set ks = {k. TestEnv_Has k te} \<and> distinct ks \<and> sorted_wrt bytes_le ks"
proof -
  have wf: "te_wf te" using assms by (rule te_reach_wf)
  then show ?thesis
    by (intro exI [of _ "sort_strings (keys te)"])
      (auto simp: Environ_wf Has_keys sort_strings_sorted te_wf_def)
qed

lemma demo_te_reach: "te_reach demo_te"
  by (simp add: demo_te_def te_new)

theorem testenv_environ_exact_witness:
  "\<exists>ks. TestEnv_Environ (run_te undefined (TUnset ''HOME'') demo_te) =
      map (\<lambda>k. k @ ''='' @ TestEnv_Get k (run_te undefined (TUnset ''HOME'') demo_te)) ks \<and>
    set ks = {k. TestEnv_Has k (run_te undefined (TUnset ''HOME'') demo_te)} \<and> distinct ks \<and>
    sorted_wrt bytes_le ks"
  by (rule testenv_environ_exact) (rule te_step [OF demo_te_reach])

lemma update_present: "map_of al k = Some v \<Longrightarrow> AList.update k v al = al"
  by (induction al) (auto split: if_splits)

lemma map_of_key: "k \<in> set (map fst al) \<Longrightarrow> map_of al k = Some (case map_of al k of None \<Rightarrow> [] | Some v \<Rightarrow> v)"
  by (cases "map_of al k") (auto simp: map_of_eq_None_iff)

lemma put_same:
  assumes "k \<in> set (keys te)" and "map_at (te_data te) k = v"
  shows "AList.update k v (make_map (te_data te)) = make_map (te_data te)"
  using assms map_of_key [of k "make_map (te_data te)"] by (intro update_present) (simp add: keys_def map_at_def)

text \<open>
  \<open>DumpEnv\<close>, which looks into a \<open>TestEnv\<close> and collects its entries itself, prints exactly the
  lines of \<open>Environ\<close>, each followed by a newline.
\<close>

theorem dump_is_environ:
  assumes "te_reach te"
  shows "DumpEnv (DumpTest te) p = concat (map (\<lambda>l. l @ [CHR 0x0A]) (TestEnv_Environ te))"
proof -
  have wf: "te_wf te" using assms by (rule te_reach_wf)
  have "te_home te \<noteq> [] \<Longrightarrow> AList.update ''HOME'' (te_home te) (make_map (te_data te)) = make_map (te_data te)"
    using wf by (intro put_same te_wf_home_key) (auto simp: te_wf_def)
  moreover have "te_user te \<noteq> [] \<Longrightarrow> AList.update ''USER'' (te_user te) (make_map (te_data te)) = make_map (te_data te)"
    using wf by (intro put_same te_wf_user_key) (auto simp: te_wf_def)
  ultimately have e: "dump_entries (DumpTest te) p = Some (make_map (te_data te))"
    by (simp add: dump_entries_def Let_def)
  have "k \<in> set (keys te) \<Longrightarrow> the (map_of (make_map (te_data te)) k) = TestEnv_Get k te" for k
    using map_of_key [of k "make_map (te_data te)"] te_wf_Get [OF wf, of k]
    by (auto simp: keys_def map_at_def split: option.splits)
  then have "map (\<lambda>k. k @ ''='' @ the (map_of (make_map (te_data te)) k) @ [CHR 0x0A]) (sort_strings (keys te)) =
      map ((\<lambda>l. l @ [CHR 0x0A]) \<circ> (\<lambda>k. k @ ''='' @ TestEnv_Get k te)) (sort_strings (keys te))"
    by (intro map_cong) auto
  then show ?thesis
    unfolding DumpEnv_def e option.case Environ_wf [OF wf] map_map keys_def [symmetric] by (rule arg_cong)
qed

theorem dump_is_environ_witness:
  "DumpEnv (DumpTest (run_te undefined (TSetUser ''bob'') demo_te)) undefined =
    concat (map (\<lambda>l. l @ [CHR 0x0A]) (TestEnv_Environ (run_te undefined (TSetUser ''bob'') demo_te)))"
  by (rule dump_is_environ) (rule te_step [OF demo_te_reach])

section \<open>The jail and the home directory\<close>

lemma update_absorb [simp]: "AList.update k v (AList.update k v' al) = AList.update k v al"
  by (induction al) auto

lemma update_commute:
  "k \<noteq> k' \<Longrightarrow> k \<in> set (map fst al) \<Longrightarrow>
   AList.update k v (AList.update k' v' al) = AList.update k' v' (AList.update k v al)"
  by (induction al) auto

text \<open>
  C21. Moving a test environment whose home directory and \<open>TMPDIR\<close> are stored below its jail (as after
  \<open>SetHome\<close>, or a first \<open>SetJail\<close>; \<open>NewTestEnv\<close> itself stores the home unjailed) to another jail keeps the
  virtual home directory and moves \<open>HOME\<close> and \<open>TMPDIR\<close> to the same places below the new jail, and
  moving back restores the environment exactly. Both jails are clean absolute paths, no name of \<open>TMPDIR\<close>
  right below the jail begins with two dots, and the environment has one value per key, with \<open>HOME\<close> and
  \<open>USER\<close> as in the fields, as every reachable one has.
\<close>

theorem testenv_setjail_roundtrip:
  assumes "te_inside J h t te" and "te_wf te" and "names_ok K"
  shows "TestEnv_GetHome (TestEnv_SetJail (abs_path K) te) = TestEnv_GetHome te \<and>
    TestEnv_Get ''HOME'' (TestEnv_SetJail (abs_path K) te) = abs_path (K @ h) \<and>
    TestEnv_GetTempDir (TestEnv_SetJail (abs_path K) te) = abs_path (K @ t) \<and>
    TestEnv_SetJail (abs_path J) (TestEnv_SetJail (abs_path K) te) = te"
proof -
  let ?te1 = "TestEnv_SetJail (abs_path K) te"
  have i1: "te_inside K h t ?te1" using assms by (intro te_inside_moves)
  have J: "names_ok J" using assms(1) by (simp add: te_inside_def)
  have h: "TestEnv_GetHome ?te1 = TestEnv_GetHome te"
    using te_inside_GetHome [OF i1] te_inside_GetHome [OF assms(1)] by simp
  have k: "''HOME'' \<in> set (keys te)" "''TMPDIR'' \<in> set (keys te)"
    using map_at_key [of "te_data te"] assms(1,2) by (auto simp: te_inside_def te_wf_def keys_def)
  obtain d where d: "te_data te = Some d"
    using k by (cases "te_data te") (auto simp: keys_def make_map_def)
  have u: "AList.update ''HOME'' (abs_path (J @ h)) d = d" "AList.update ''TMPDIR'' (abs_path (J @ t)) d = d"
    using put_same [OF k(1)] put_same [OF k(2)] assms(1,2) d by (auto simp: te_inside_def te_wf_def)
  have c: "AList.update ''TMPDIR'' v' (AList.update ''HOME'' v d) = AList.update ''HOME'' v (AList.update ''TMPDIR'' v' d)" for v v'
    using update_commute [of "''HOME''" "''TMPDIR''" d] k(1) d by (simp add: keys_def)
  then have ch: "AList.update ''HOME'' (abs_path (J @ h)) (AList.update ''TMPDIR'' v' d) = AList.update ''TMPDIR'' v' d" for v'
    using u(1) by metis
  have "TestEnv_SetJail (abs_path J) ?te1 = te"
    unfolding te_inside_SetJail [OF i1 J] unfolding te_inside_SetJail [OF assms(1,3)]
    using assms(1) d u by (simp add: put_data_def te_inside_def c ch)
  then show ?thesis using h i1
    by (simp add: TestEnv_Get_def te_inside_def TestEnv_GetTempDir_def)
qed

lemma demo_te_inside:
  "te_inside [''srv'', ''jail''] [''home'', ''ann''] [''tmp''] demo_te_in" "te_wf demo_te_in"
proof -
  show "te_wf demo_te_in" unfolding demo_te_in_def by (rule te_wf_SetJail) (rule te_reach_wf [OF demo_te_reach])
  show "te_inside [''srv'', ''jail''] [''home'', ''ann''] [''tmp''] demo_te_in" by code_simp
qed

theorem testenv_setjail_roundtrip_witness:
  "TestEnv_GetHome (TestEnv_SetJail (abs_path [''mnt'']) demo_te_in) = TestEnv_GetHome demo_te_in \<and>
    TestEnv_Get ''HOME'' (TestEnv_SetJail (abs_path [''mnt'']) demo_te_in) = abs_path ([''mnt''] @ [''home'', ''ann'']) \<and>
    TestEnv_GetTempDir (TestEnv_SetJail (abs_path [''mnt'']) demo_te_in) = abs_path ([''mnt''] @ [''tmp'']) \<and>
    TestEnv_SetJail (abs_path [''srv'', ''jail'']) (TestEnv_SetJail (abs_path [''mnt'']) demo_te_in) = demo_te_in"
  by (rule testenv_setjail_roundtrip [OF demo_te_inside]) (simp_all add: name_ok_def)

text \<open>
  Setting the home directory to any path and reading it back gives the path as the environment
  resolves it, for every jail; the variable \<open>HOME\<close>, however, then holds the host path below the jail,
  not the virtual one that \<open>GetHome\<close> returns.
\<close>

theorem testenv_home_roundtrip:
  assumes "te_jail te = abs_path J" and "names_ok J" and "clean_abs (map_at (te_data te) ''PWD'')"
  shows "\<exists>p te'. names_ok p \<and> TestEnv_ResolvePath rel False w te = Inr (abs_path p) \<and>
    TestEnv_SetHome w rel te = (Inr (), te') \<and> TestEnv_GetHome te' = Inr (abs_path p) \<and>
    TestEnv_Get ''HOME'' te' = abs_path (J @ p)"
  using assms by (rule home_roundtrip)

theorem testenv_home_roundtrip_witness:
  "\<exists>p te'. names_ok p \<and> TestEnv_ResolvePath ''~/x'' False undefined demo_te_in = Inr (abs_path p) \<and>
    TestEnv_SetHome undefined ''~/x'' demo_te_in = (Inr (), te') \<and> TestEnv_GetHome te' = Inr (abs_path p) \<and>
    TestEnv_Get ''HOME'' te' = abs_path ([''srv'', ''jail''] @ p)"
proof (rule testenv_home_roundtrip)
  show "te_jail demo_te_in = abs_path [''srv'', ''jail'']" by code_simp
  show "names_ok [''srv'', ''jail'']" by (simp add: name_ok_def)
  show "clean_abs (map_at (te_data demo_te_in) ''PWD'')" by code_simp
qed

lemma new_home:
  assumes "names_ok J" and "names_ok h"
  shows "TestEnv_GetHome (NewTestEnv (abs_path J) (abs_path h) u) = Inr (abs_path (snd (strip_common J h))) \<and>
    (TestEnv_GetHome (NewTestEnv (abs_path J) (abs_path h) u) = Inr (abs_path h) \<longleftrightarrow>
      J = [] \<or> h = [] \<or> hd J \<noteq> hd h)"
proof -
  obtain bs ts where s: "strip_common J h = (bs, ts)" by (cases "strip_common J h")
  have n: "names_ok ts" using strip_common_eq [OF s] assms(2) by auto
  have "ts = h \<longleftrightarrow> J = [] \<or> h = [] \<or> hd J \<noteq> hd h"
  proof (cases J; cases h)
    fix x xs y ys
    assume c: "J = x # xs" "h = y # ys"
    have "x = y \<Longrightarrow> length ts < length h"
      using s c strip_common_eq [of xs ys bs ts] by auto
    then show ?thesis using s c by (cases "x = y") auto
  qed (use s in auto)
  moreover have "TestEnv_GetHome (NewTestEnv (abs_path J) (abs_path h) u) = Inr (abs_path ts)"
    using RemoveJailPrefix_abs_path [OF assms] s
    by (simp add: TestEnv_GetHome_def NewTestEnv_def Let_def)
  ultimately show ?thesis using s abs_path_inj [OF n assms(2)] by simp
qed

text \<open>
  What a new test environment answers for its home directory, exactly: the requested path with
  the components it has in common with the jail removed. It is the requested home precisely when
  the two share no leading component; a jail below \<open>/home\<close> makes \<open>/home/ann\<close> read as \<open>/ann\<close>.
\<close>

theorem testenv_new_home:
  assumes "names_ok J" and "names_ok h"
  shows "TestEnv_GetHome (NewTestEnv (abs_path J) (abs_path h) u) = Inr (abs_path (snd (strip_common J h))) \<and>
    (TestEnv_GetHome (NewTestEnv (abs_path J) (abs_path h) u) = Inr (abs_path h) \<longleftrightarrow>
      J = [] \<or> h = [] \<or> hd J \<noteq> hd h)"
  by (rule new_home [OF assms])

theorem testenv_new_home_witness:
  "TestEnv_GetHome (NewTestEnv (abs_path [''home'', ''ci'', ''tmp'']) (abs_path [''home'', ''ann'']) ''ann'') =
    Inr (abs_path [''ann''])"
  using testenv_new_home [of "[''home'', ''ci'', ''tmp'']" "[''home'', ''ann'']" "''ann''"]
  by (simp add: name_ok_def)

section \<open>Variables and user directories\<close>

text \<open>
  A variable that has been set is what \<open>ExpandEnv\<close> puts in the place of its reference, in a test
  environment and in the process environment alike: a text without dollar signs is kept, \<open>${K}\<close>
  becomes the value as it is (it is not expanded again), and the rest is expanded as before.
\<close>

theorem env_set_expand:
  assumes "var_name k" and "CHR ''$'' \<notin> set t"
  shows "(te_plain k v \<longrightarrow>
      (let te' = snd (TestEnv_Set w k v te); x = ExpandEnv (Some (\<lambda>a. TestEnv_Get a te')) p
       in x (t @ ''${'' @ k @ CHR ''}'' # u) = t @ v @ x u)) \<and>
    (os_plain k v \<longrightarrow>
      (let p' = snd (OsEnv_Set k v p); x = ExpandEnv None p'
       in x (t @ ''${'' @ k @ CHR ''}'' # u) = t @ v @ x u))"
  using assms test_vars.expand_put [of k v t w te p u] os_vars.expand_put [of k v t p p u]
  by (simp add: Let_def ExpandEnv_def)

theorem env_set_expand_witness:
  "let te' = snd (TestEnv_Set undefined ''APP'' ''$X'' demo_te); x = ExpandEnv (Some (\<lambda>a. TestEnv_Get a te')) undefined
   in x (''a-'' @ ''${'' @ ''APP'' @ CHR ''}'' # ''/b'') = ''a-'' @ ''$X'' @ x ''/b''"
  using env_set_expand [of "''APP''" "''a-''" "''$X''" undefined demo_te undefined "''/b''"]
  by (simp add: var_name_def isAlphaNum_def isShellSpecialVar_def byte_in_def te_plain_def)

text \<open>A test environment as the argument of the helpers of \<open>user.go\<close>.\<close>

definition te_arg :: "testenv \<Rightarrow> env_arg" where
  "te_arg te = Some (\<lambda>k. TestEnv_Get k te, TestEnv_GetHome te)"

lemma Get_Unset: "TestEnv_Get k' (TestEnv_Unset k te) = (if k' = k then [] else TestEnv_Get k' te)"
  by (rule test_vars.get_del)

lemma GetHome_Unset: "k \<noteq> ''HOME'' \<Longrightarrow> TestEnv_GetHome (TestEnv_Unset k te) = TestEnv_GetHome te"
  by (simp add: TestEnv_GetHome_def TestEnv_Unset_def Let_def)

lemma New_Get:
  assumes "h \<noteq> []"
  shows "TestEnv_Get ''XDG_CONFIG_HOME'' (NewTestEnv j h u) = Join [h, ''.config'']"
    "TestEnv_Get ''XDG_CACHE_HOME'' (NewTestEnv j h u) = Join [h, ''.cache'']"
    "TestEnv_Get ''XDG_DATA_HOME'' (NewTestEnv j h u) = Join [h, ''.local'', ''share'']"
    "TestEnv_Get ''XDG_STATE_HOME'' (NewTestEnv j h u) = Join [h, ''.local'', ''state'']"
    "TestEnv_Get ''APPDATA'' (NewTestEnv j h u) = []" "TestEnv_Get ''LOCALAPPDATA'' (NewTestEnv j h u) = []"
  using assms by (simp_all add: NewTestEnv_def TestEnv_Get_def Let_def) (simp_all add: map_at_def)

lemma Join_under:
  assumes "names_ok h"
  shows "Join [abs_path h, ''.config''] = abs_path (h @ [''.config''])"
    "Join [abs_path h, ''.cache''] = abs_path (h @ [''.cache''])"
    "Join [abs_path h, ''.local'', ''share''] = abs_path (h @ [''.local'', ''share''])"
    "Join [abs_path h, ''.local'', ''state''] = abs_path (h @ [''.local'', ''state''])"
proof -
  have j: "Join [abs_path h, a, b] = Join [abs_path h, a @ CHR ''/'' # b]" for a b
    by (simp add: Join_def)
  show "Join [abs_path h, ''.config''] = abs_path (h @ [''.config''])"
    "Join [abs_path h, ''.cache''] = abs_path (h @ [''.cache''])"
    using assms by (simp_all add: Join_abs_name name_ok_def)
  show "Join [abs_path h, ''.local'', ''share''] = abs_path (h @ [''.local'', ''share''])"
    "Join [abs_path h, ''.local'', ''state''] = abs_path (h @ [''.local'', ''state''])"
    unfolding j using assms by (simp_all add: Join_pair)
qed

text \<open>
  In a new test environment whose home shares no leading component with its jail, the four
  per-user directories are the usual ones below the home, and they are the same whether the \<open>XDG\<close>
  variable is read or, once it is unset, the home directory is used instead.
\<close>

theorem user_paths_fallback:
  assumes "names_ok J" and "names_ok h" and "J = [] \<or> h = [] \<or> hd J \<noteq> hd h"
    and te: "te = NewTestEnv (abs_path J) (abs_path h) u"
  shows "UserConfigPath (te_arg te) p = Inr (abs_path (h @ [''.config''])) \<and>
    UserConfigPath (te_arg (TestEnv_Unset ''XDG_CONFIG_HOME'' te)) p = UserConfigPath (te_arg te) p \<and>
    UserCachePath (te_arg te) p = Inr (abs_path (h @ [''.cache''])) \<and>
    UserCachePath (te_arg (TestEnv_Unset ''XDG_CACHE_HOME'' te)) p = UserCachePath (te_arg te) p \<and>
    UserDataPath (te_arg te) p = Inr (abs_path (h @ [''.local'', ''share''])) \<and>
    UserDataPath (te_arg (TestEnv_Unset ''XDG_DATA_HOME'' te)) p = UserDataPath (te_arg te) p \<and>
    UserStatePath (te_arg te) p = Inr (abs_path (h @ [''.local'', ''state''])) \<and>
    UserStatePath (te_arg (TestEnv_Unset ''XDG_STATE_HOME'' te)) p = UserStatePath (te_arg te) p"
proof -
  have h: "TestEnv_GetHome te = Inr (abs_path h)"
    unfolding te using new_home [OF assms(1,2)] assms(3) by blast
  have g: "env_or_os (te_arg x) p = (\<lambda>k. TestEnv_Get k x, TestEnv_GetHome x)" for x
    by (simp add: env_or_os_def te_arg_def)
  have n: "names_ok (h @ [''.config''])" "names_ok (h @ [''.cache''])"
    "names_ok (h @ [''.local'', ''share''])" "names_ok (h @ [''.local'', ''state''])"
    using assms(2) by (simp_all add: name_ok_def)
  note e = New_Get [of "abs_path h" "abs_path J" u, folded te] Join_under [OF assms(2)]
  show ?thesis
    by (simp add: UserConfigPath_def UserCachePath_def UserDataPath_def UserStatePath_def home_or_def
        g Get_Unset GetHome_Unset h e n [THEN Clean_abs_path])
qed

theorem user_paths_fallback_witness:
  "UserConfigPath (te_arg (TestEnv_Unset ''XDG_CONFIG_HOME''
      (NewTestEnv (abs_path [''srv'']) (abs_path [''home'', ''ann'']) ''ann''))) undefined =
    Inr (abs_path ([''home'', ''ann''] @ [''.config'']))"
  using user_paths_fallback [of "[''srv'']" "[''home'', ''ann'']"
      "NewTestEnv (abs_path [''srv'']) (abs_path [''home'', ''ann'']) ''ann''" "''ann''" undefined]
  by (simp add: name_ok_def)

end
