(* ===== verification/Runtime.thy ===== *)
theory Runtime
  imports OsFS User Clock
begin

text \<open>
  \<open>src/toolkit/runtime.go\<close> and \<open>runtime_impl.go\<close>: the \<open>Runtime\<close>, its construction, the jail and the
  working directory it keeps in step in the environment and the file system, and its forwarding
  methods; with \<open>stdio.go\<close>, \<open>tty.go\<close>, \<open>hash.go\<close> and \<open>ToSchedulingClock\<close> for its fields.

  Dependencies are pointers: indices into the stores of \<open>sys\<close>, so that two runtimes that share one
  (a clone and its original) share its state. A nil pointer is \<open>None\<close>. A method runs on the receiver
  (a possibly nil \<open>*Runtime\<close>) and the stores.
\<close>

section \<open>Dependencies\<close>

record stream =
  st_In :: nat
  st_Out :: nat
  st_Err :: nat
  IsPiped :: bool
  IsTTY :: bool

text \<open>A clock: the two of the package, another \<open>SchedulingClock\<close>, or a plain \<open>Clock\<close>.\<close>

datatype gclock = OsClockV | TestClockV nat | OtherSchedV nat | PlainClockV nat

datatype sclock = Sched gclock | osSchedulingAdapter gclock

fun implements_sched :: "gclock \<Rightarrow> bool" where
  "implements_sched (PlainClockV n) = False"
| "implements_sched c = True"

definition ToSchedulingClock :: "gclock \<Rightarrow> sclock" where
  "ToSchedulingClock c = (if implements_sched c then Sched c else osSchedulingAdapter c)"

definition ClockOrDefault :: "gclock option \<Rightarrow> gclock" where
  "ClockOrDefault c = (case c of None \<Rightarrow> OsClockV | Some c \<Rightarrow> c)"

datatype logger = DiscardLogger | LoggerV nat

definition LoggerOrDefault :: "logger option \<Rightarrow> logger" where
  "LoggerOrDefault l = (case l of None \<Rightarrow> DiscardLogger | Some l \<Rightarrow> l)"

datatype hasher = MD5Hasher | HasherV nat

definition DefaultHasher :: hasher where
  "DefaultHasher = MD5Hasher"

definition OrDefaultHasher :: "hasher option \<Rightarrow> hasher" where
  "OrDefaultHasher h = (case h of None \<Rightarrow> DefaultHasher | Some h \<Rightarrow> h)"

record process_info =
  PID :: int
  Hostname :: string
  StartedAt :: int
  UID :: string

text \<open>
  \<open>stdin_mode\<close> is what \<open>os.Stdin.Stat()\<close> returns, \<open>stdout_term\<close> what \<open>term.IsTerminal\<close> answers for
  standard output.
\<close>

record sys =
  s_proc :: proc
  s_envs :: "env list"
  s_fss :: "osfs list"
  s_streams :: "stream list"
  s_clks :: "clk list"
  stdin_mode :: "goerr + 32 word"
  stdout_term :: bool

definition ModeCharDevice :: "32 word" where
  "ModeCharDevice = 0x200000"

definition StdinHasData :: "goerr + 32 word \<Rightarrow> bool" where
  "StdinHasData fi = (case fi of Inl _ \<Rightarrow> False | Inr m \<Rightarrow> m AND ModeCharDevice = 0)"

definition DefaultStream :: "sys \<Rightarrow> stream" where
  "DefaultStream y =
     \<lparr>st_In = 0, st_Out = 1, st_Err = 2, IsPiped = StdinHasData (stdin_mode y), IsTTY = stdout_term y\<rparr>"

definition OrDefaultStream :: "sys \<Rightarrow> stream option \<Rightarrow> stream" where
  "OrDefaultStream y s = (case s of None \<Rightarrow> DefaultStream y | Some s \<Rightarrow> s)"

section \<open>The Runtime and its state\<close>

record runtime =
  rt_env :: "nat option"
  rt_fs :: "nat option"
  rt_clock :: "sclock option"
  rt_logger :: "logger option"
  rt_stream :: "nat option"
  rt_hasher :: "hasher option"
  rt_process :: "process_info option"
  rt_jail :: string
  rt_wd :: string

text \<open>The accessors of the dependencies; the receiver is not nil.\<close>

definition Runtime_Env :: "runtime \<Rightarrow> nat option" where "Runtime_Env rt = rt_env rt"
definition Runtime_FS :: "runtime \<Rightarrow> nat option" where "Runtime_FS rt = rt_fs rt"
definition Runtime_Clock :: "runtime \<Rightarrow> sclock option" where "Runtime_Clock rt = rt_clock rt"
definition Runtime_SchedulingClock :: "runtime \<Rightarrow> sclock option" where "Runtime_SchedulingClock rt = rt_clock rt"
definition Runtime_Stream :: "runtime \<Rightarrow> nat option" where "Runtime_Stream rt = rt_stream rt"
definition Runtime_Hasher :: "runtime \<Rightarrow> hasher option" where "Runtime_Hasher rt = rt_hasher rt"

type_synonym rts = "runtime option \<times> sys"
type_synonym 'a rtio = "(rts, goerr, 'a) io"

definition fs_of :: "rts \<Rightarrow> osfs" where
  "fs_of s = s_fss (snd s) ! the (rt_fs (the (fst s)))"

definition env_of :: "rts \<Rightarrow> env" where
  "env_of s = s_envs (snd s) ! the (rt_env (the (fst s)))"

definition host_of :: "rts \<Rightarrow> world" where
  "host_of s = p_host (s_proc (snd s))"

definition set_host :: "world \<Rightarrow> sys \<Rightarrow> sys" where
  "set_host w y = y\<lparr>s_proc := (s_proc y)\<lparr>p_host := w\<rparr>\<rparr>"

text \<open>A method call on the receiver's file system or environment, and a write to its own fields.\<close>

definition on_fs :: "'a fsio \<Rightarrow> 'a rtio" where
  "on_fs m s =
     (case m (fs_of s, host_of s) of
        (r, (fs, w)) \<Rightarrow>
          (r, (fst s, set_host w ((snd s)\<lparr>s_fss := (s_fss (snd s))[the (rt_fs (the (fst s))) := fs]\<rparr>))))"

definition on_env :: "'a envio \<Rightarrow> 'a rtio" where
  "on_env m s =
     (case m (env_of s, s_proc (snd s)) of
        (r, (e, p)) \<Rightarrow>
          (r, (fst s, (snd s)\<lparr>s_proc := p, s_envs := (s_envs (snd s))[the (rt_env (the (fst s))) := e]\<rparr>)))"

definition ask_env :: "(env \<times> proc \<Rightarrow> 'a) \<Rightarrow> rts \<Rightarrow> 'a" where
  "ask_env q s = q (env_of s, s_proc (snd s))"

definition mod_rt :: "(runtime \<Rightarrow> runtime) \<Rightarrow> unit rtio" where
  "mod_rt f = modifyS (\<lambda>s. (map_option f (fst s), snd s))"

section \<open>State: jail and working directory\<close>

definition normalizePath :: "string \<Rightarrow> string" where
  "normalizePath path = (if blank path then ''/'' else Clean path)"

definition applyWorkingDir :: "string \<Rightarrow> unit rtio" where
  "applyWorkingDir dir =
     (let target = normalizePath dir
      in bindE (on_fs (OsFS_Setwd target)) (\<lambda>_.
           bindE (on_env (Env_Setwd target)) (\<lambda>_.
             attempt (on_fs OsFS_Getwd) (\<lambda>r.
               case r of
                 Inr wd \<Rightarrow> mod_rt (\<lambda>rt. rt\<lparr>rt_wd := if blank wd then target else Clean wd\<rparr>)
               | Inl _ \<Rightarrow> mod_rt (\<lambda>rt. rt\<lparr>rt_wd := target\<rparr>)))))"

definition applyJail :: "string \<Rightarrow> unit rtio" where
  "applyJail j =
     bindE (on_fs (modifyS (\<lambda>(fs, w). (OsFS_SetJail j fs, w)))) (\<lambda>_.
       on_env (modifyS (\<lambda>(e, p). (Env_SetJail j e, p))))"

text \<open>The second choice of \<open>normalizeState\<close> for the working directory: the file system's, or the root.\<close>

definition wd_from_fs :: "unit rtio" where
  "wd_from_fs =
     attempt (on_fs OsFS_Getwd) (\<lambda>r.
       mod_rt (\<lambda>rt. rt\<lparr>rt_wd :=
         case r of Inr cwd \<Rightarrow> if \<not> blank cwd then Clean cwd else ''/'' | Inl _ \<Rightarrow> ''/''\<rparr>))"

definition initial_wd :: "unit rtio" where
  "initial_wd s =
     (case ask_env Env_Getwd s of
        Inr cwd \<Rightarrow> if \<not> blank cwd then mod_rt (\<lambda>rt. rt\<lparr>rt_wd := Clean cwd\<rparr>) s else wd_from_fs s
      | Inl _ \<Rightarrow> wd_from_fs s)"

definition initial_jail :: "rts \<Rightarrow> string" where
  "initial_jail s =
     (let j = CleanJail (ask_env (\<lambda>(e, p). Env_GetJail e) s)
      in if j = [] then CleanJail (OsFS_GetJail (fs_of s)) else j)"

definition normalizeState :: "unit rtio" where
  "normalizeState s =
     (case fst s of
        None \<Rightarrow> fail (ErrMsg ''runtime is nil'') s
      | Some rt \<Rightarrow>
          if rt_env rt = None then fail (ErrMsg ''runtime env is nil'') s
          else if rt_fs rt = None then fail (ErrMsg ''runtime filesystem is nil'') s
          else
            (let j = (if rt_jail rt = [] then initial_jail s else rt_jail rt)
             in bindE (mod_rt (\<lambda>rt. rt\<lparr>rt_jail := j\<rparr>)) (\<lambda>_.
                  bindE (applyJail j) (\<lambda>_.
                    bindE (if blank (rt_wd rt) then initial_wd else ret ()) (\<lambda>_ s.
                      applyWorkingDir (rt_wd (the (fst s))) s))) s))"

definition Validate :: "unit rtio" where
  "Validate s =
     (case fst s of
        None \<Rightarrow> fail (ErrMsg ''runtime is nil'') s
      | Some rt \<Rightarrow>
          if rt_env rt = None then fail (ErrMsg ''runtime env is nil'') s
          else if rt_fs rt = None then fail (ErrMsg ''runtime filesystem is nil'') s
          else if rt_clock rt = None then fail (ErrMsg ''runtime clock is nil'') s
          else if rt_logger rt = None then fail (ErrMsg ''runtime logger is nil'') s
          else if rt_stream rt = None then fail (ErrMsg ''runtime stream is nil'') s
          else if rt_hasher rt = None then fail (ErrMsg ''runtime hasher is nil'') s
          else (Inr (), s))"

definition Runtime_GetJail :: "rts \<Rightarrow> string" where
  "Runtime_GetJail s = (case fst s of None \<Rightarrow> [] | Some rt \<Rightarrow> rt_jail rt)"

definition Runtime_SetJail :: "string \<Rightarrow> unit rtio" where
  "Runtime_SetJail jailPath =
     bindE Validate (\<lambda>_.
       bindE (mod_rt (\<lambda>rt. rt\<lparr>rt_jail := CleanJail jailPath\<rparr>)) (\<lambda>_.
         bindE (applyJail (CleanJail jailPath)) (\<lambda>_.
           bindE (mod_rt (\<lambda>rt. if blank (rt_wd rt) then rt\<lparr>rt_wd := ''/''\<rparr> else rt)) (\<lambda>_ s.
             attempt (applyWorkingDir (rt_wd (the (fst s)))) (\<lambda>r.
               case r of
                 Inr _ \<Rightarrow> ret ()
               | Inl err \<Rightarrow>
                   attempt (applyWorkingDir ''/'') (\<lambda>r2.
                     case r2 of Inl _ \<Rightarrow> fail err | Inr _ \<Rightarrow> ret ())) s))))"

definition Runtime_Getwd :: "string rtio" where
  "Runtime_Getwd =
     bindE Validate (\<lambda>_ s.
       bindE (if blank (rt_wd (the (fst s))) then normalizeState else ret ()) (\<lambda>_.
         getS (\<lambda>s. rt_wd (the (fst s)))) s)"

section \<open>Paths\<close>

definition Runtime_Get :: "string \<Rightarrow> rts \<Rightarrow> string" where
  "Runtime_Get key s =
     (if fst s = None \<or> rt_env (the (fst s)) = None then [] else ask_env (Env_Get key) s)"

definition validated :: "'a rtio \<Rightarrow> 'a rtio" where
  "validated m = bindE Validate (\<lambda>_. m)"

definition Runtime_GetHome :: "string rtio" where
  "Runtime_GetHome = validated (\<lambda>s. (ask_env Env_GetHome s, s))"

text \<open>\<open>rt\<close> as the \<open>Env\<close> argument of a helper of the package.\<close>

definition rt_arg :: "rts \<Rightarrow> env_arg" where
  "rt_arg s = Some (\<lambda>k. Runtime_Get k s, fst (Runtime_GetHome s))"

definition rt_ExpandEnv :: "string \<Rightarrow> rts \<Rightarrow> string" where
  "rt_ExpandEnv p s = ExpandEnv (Some (\<lambda>k. Runtime_Get k s)) (s_proc (snd s)) p"

definition rt_ExpandPath :: "string \<Rightarrow> string rtio" where
  "rt_ExpandPath p s = (ExpandPath (rt_arg s) (s_proc (snd s)) p, s)"

text \<open>Variables and a tilde expanded, then made absolute on the working directory.\<close>

definition expand_abs :: "string \<Rightarrow> string rtio" where
  "expand_abs rel =
     bindE (\<lambda>s. rt_ExpandPath (rt_ExpandEnv rel s) s) (\<lambda>p.
       if \<not> is_abs p then bindE Runtime_Getwd (\<lambda>cwd. ret (Join [cwd, p])) else ret p)"

definition resolveWorkingDir :: "string \<Rightarrow> string rtio" where
  "resolveWorkingDir dir =
     (if blank dir \<or> dir = ''.'' then Runtime_Getwd
      else bindE (expand_abs dir) (\<lambda>p.
             bindE (on_fs (OsFS_ResolvePath (Clean p) False)) (\<lambda>resolved. ret (Clean resolved))))"

definition Runtime_Setwd :: "string \<Rightarrow> unit rtio" where
  "Runtime_Setwd dir = validated (bindE (resolveWorkingDir dir) applyWorkingDir)"

definition Runtime_AbsPath :: "string \<Rightarrow> string rtio" where
  "Runtime_AbsPath rel =
     (if blank rel then ret []
      else validated (bindE (expand_abs rel) (\<lambda>p. ret (Clean p))))"

definition Runtime_ResolvePath :: "string \<Rightarrow> bool \<Rightarrow> string rtio" where
  "Runtime_ResolvePath rel follow =
     validated (bindE (if blank rel \<or> rel = ''.'' then Runtime_Getwd else expand_abs rel)
       (\<lambda>p. on_fs (OsFS_ResolvePath (Clean p) follow)))"

definition Runtime_RelativePath :: "string \<Rightarrow> string \<Rightarrow> string rtio" where
  "Runtime_RelativePath basepath path =
     attempt (Runtime_AbsPath basepath) (\<lambda>rb.
       attempt (Runtime_AbsPath path) (\<lambda>rp.
         let base = (case rb of Inl _ \<Rightarrow> basepath | Inr b \<Rightarrow> b);
             target = (case rp of Inl _ \<Rightarrow> path | Inr t \<Rightarrow> t)
         in case Rel base target of Inl _ \<Rightarrow> ret target | Inr rel \<Rightarrow> ret rel))"

section \<open>Environment methods\<close>

definition has_env :: "rts \<Rightarrow> bool" where
  "has_env s = (fst s \<noteq> None \<and> rt_env (the (fst s)) \<noteq> None)"

definition Runtime_Name :: "rts \<Rightarrow> string" where
  "Runtime_Name s = (if \<not> has_env s then ''runtime'' else ask_env (\<lambda>(e, p). Env_Name e) s)"

definition Runtime_Set :: "string \<Rightarrow> string \<Rightarrow> unit rtio" where
  "Runtime_Set key v =
     validated (if key = ''PWD'' then Runtime_Setwd v else on_env (Env_Set key v))"

definition Runtime_Has :: "string \<Rightarrow> rts \<Rightarrow> bool" where
  "Runtime_Has key s = (has_env s \<and> ask_env (Env_Has key) s)"

definition Runtime_Environ :: "rts \<Rightarrow> string list" where
  "Runtime_Environ s = (if \<not> has_env s then [] else ask_env Env_Environ s)"

definition Runtime_Unset :: "string \<Rightarrow> unit rtio" where
  "Runtime_Unset key s =
     (if \<not> has_env s then (Inr (), s) else on_env (modifyS (Env_Unset key)) s)"

definition Runtime_SetHome :: "string \<Rightarrow> unit rtio" where
  "Runtime_SetHome home = validated (on_env (Env_SetHome home))"

definition Runtime_GetUser :: "string rtio" where
  "Runtime_GetUser = validated (\<lambda>s. (ask_env Env_GetUser s, s))"

definition Runtime_SetUser :: "string \<Rightarrow> unit rtio" where
  "Runtime_SetUser user = validated (on_env (Env_SetUser user))"

definition Runtime_GetTempDir :: "rts \<Rightarrow> string" where
  "Runtime_GetTempDir s =
     (if \<not> has_env s then os_TempDir (s_proc (snd s)) else ask_env Env_GetTempDir s)"

section \<open>File-system methods\<close>

definition at_path :: "string \<Rightarrow> bool \<Rightarrow> (string \<Rightarrow> 'a rtio) \<Rightarrow> 'a rtio" where
  "at_path rel follow k = validated (bindE (Runtime_ResolvePath rel follow) k)"

definition Runtime_ReadFile :: "string \<Rightarrow> string rtio" where
  "Runtime_ReadFile rel = at_path rel False (\<lambda>path. on_fs (OsFS_ReadFile path))"

text \<open>The methods that create a file make its parent directories first.\<close>

definition mkdir_parent :: "string \<Rightarrow> unit rtio" where
  "mkdir_parent path = on_fs (OsFS_Mkdir (Dir path) 0x1ED True)"

definition Runtime_WriteFile :: "string \<Rightarrow> string \<Rightarrow> 32 word \<Rightarrow> unit rtio" where
  "Runtime_WriteFile rel data perm =
     at_path rel False (\<lambda>path.
       bindE (mkdir_parent path) (\<lambda>_. on_fs (OsFS_WriteFile path data perm)))"

definition Runtime_AppendFile :: "string \<Rightarrow> string \<Rightarrow> 32 word \<Rightarrow> unit rtio" where
  "Runtime_AppendFile rel data perm =
     at_path rel False (\<lambda>path.
       bindE (mkdir_parent path) (\<lambda>_. on_fs (OsFS_AppendFile path data perm)))"

definition Runtime_OpenFile :: "string \<Rightarrow> oflags \<Rightarrow> 32 word \<Rightarrow> handle rtio" where
  "Runtime_OpenFile rel flag perm =
     at_path rel False (\<lambda>path.
       bindE (mkdir_parent path) (\<lambda>_. on_fs (OsFS_OpenFile path flag perm)))"

definition Runtime_Mkdir :: "string \<Rightarrow> 32 word \<Rightarrow> bool \<Rightarrow> unit rtio" where
  "Runtime_Mkdir rel perm all = at_path rel False (\<lambda>path. on_fs (OsFS_Mkdir path perm all))"

definition Runtime_Remove :: "string \<Rightarrow> bool \<Rightarrow> unit rtio" where
  "Runtime_Remove rel all = at_path rel False (\<lambda>path. on_fs (OsFS_Remove path all))"

definition Runtime_Rename :: "string \<Rightarrow> string \<Rightarrow> unit rtio" where
  "Runtime_Rename src dst =
     at_path src False (\<lambda>srcPath.
       bindE (Runtime_ResolvePath dst False) (\<lambda>dstPath. on_fs (OsFS_Rename srcPath dstPath)))"

definition Runtime_Stat :: "string \<Rightarrow> bool \<Rightarrow> inode rtio" where
  "Runtime_Stat rel follow = at_path rel follow (\<lambda>path. on_fs (OsFS_Stat path follow))"

definition Runtime_ReadDir :: "string \<Rightarrow> string list rtio" where
  "Runtime_ReadDir rel = at_path rel False (\<lambda>path. on_fs (OsFS_ReadDir path))"

definition Runtime_Symlink :: "string \<Rightarrow> string \<Rightarrow> unit rtio" where
  "Runtime_Symlink oldName newName =
     at_path oldName False (\<lambda>oldPath.
       bindE (Runtime_ResolvePath newName False) (\<lambda>newPath. on_fs (OsFS_Symlink oldPath newPath)))"

definition Runtime_Chmod :: "string \<Rightarrow> 32 word \<Rightarrow> unit rtio" where
  "Runtime_Chmod rel m = at_path rel False (\<lambda>path. on_fs (OsFS_Chmod path m))"

definition Runtime_Chown :: "string \<Rightarrow> int \<Rightarrow> int \<Rightarrow> unit rtio" where
  "Runtime_Chown rel uid gid = at_path rel False (\<lambda>path. on_fs (OsFS_Chown path uid gid))"

definition Runtime_Lchown :: "string \<Rightarrow> int \<Rightarrow> int \<Rightarrow> unit rtio" where
  "Runtime_Lchown rel uid gid = at_path rel False (\<lambda>path. on_fs (OsFS_Lchown path uid gid))"

definition Runtime_Chtimes :: "string \<Rightarrow> int \<Rightarrow> int \<Rightarrow> unit rtio" where
  "Runtime_Chtimes rel atime mtime =
     at_path rel False (\<lambda>path. on_fs (OsFS_Chtimes path atime mtime))"

definition Runtime_AtomicWriteFile :: "string \<Rightarrow> string \<Rightarrow> 32 word \<Rightarrow> unit rtio" where
  "Runtime_AtomicWriteFile rel data perm =
     at_path rel False (\<lambda>path. on_fs (OsFS_AtomicWriteFile path data perm))"

definition Runtime_Rel :: "string \<Rightarrow> string \<Rightarrow> string rtio" where
  "Runtime_Rel basePath targetPath =
     at_path basePath False (\<lambda>baseResolved.
       bindE (Runtime_ResolvePath targetPath False) (\<lambda>targetResolved.
         on_fs (OsFS_Rel baseResolved targetResolved)))"

section \<open>Dependencies: setters, getters, clone\<close>

definition set_dep :: "string \<Rightarrow> 'a option \<Rightarrow> ('a \<Rightarrow> runtime \<Rightarrow> runtime) \<Rightarrow> runtime \<Rightarrow> goerr + runtime" where
  "set_dep what x upd rt =
     (case x of None \<Rightarrow> Inl (ErrMsg (''runtime '' @ what @ '' cannot be nil'')) | Some v \<Rightarrow> Inr (upd v rt))"

definition with_rt :: "(runtime \<Rightarrow> goerr + runtime) \<Rightarrow> unit rtio" where
  "with_rt f s =
     (case f (the (fst s)) of Inl e \<Rightarrow> (Inl e, s) | Inr rt \<Rightarrow> (Inr (), (Some rt, snd s)))"

definition WithRuntimeEnv :: "nat option \<Rightarrow> runtime \<Rightarrow> goerr + runtime" where
  "WithRuntimeEnv env = set_dep ''env'' env (\<lambda>e rt. rt\<lparr>rt_env := Some e\<rparr>)"

definition WithRuntimeFileSystem :: "nat option \<Rightarrow> runtime \<Rightarrow> goerr + runtime" where
  "WithRuntimeFileSystem fs = set_dep ''filesystem'' fs (\<lambda>f rt. rt\<lparr>rt_fs := Some f\<rparr>)"

definition WithRuntimeClock :: "gclock option \<Rightarrow> runtime \<Rightarrow> goerr + runtime" where
  "WithRuntimeClock c = set_dep ''clock'' c (\<lambda>c rt. rt\<lparr>rt_clock := Some (ToSchedulingClock c)\<rparr>)"

definition WithRuntimeLogger :: "logger option \<Rightarrow> runtime \<Rightarrow> goerr + runtime" where
  "WithRuntimeLogger lg = set_dep ''logger'' lg (\<lambda>l rt. rt\<lparr>rt_logger := Some l\<rparr>)"

definition WithRuntimeStream :: "nat option \<Rightarrow> runtime \<Rightarrow> goerr + runtime" where
  "WithRuntimeStream s = set_dep ''stream'' s (\<lambda>s rt. rt\<lparr>rt_stream := Some s\<rparr>)"

definition WithRuntimeHasher :: "hasher option \<Rightarrow> runtime \<Rightarrow> goerr + runtime" where
  "WithRuntimeHasher h = set_dep ''hasher'' h (\<lambda>h rt. rt\<lparr>rt_hasher := Some h\<rparr>)"

definition WithProcessInfo :: "process_info \<Rightarrow> runtime \<Rightarrow> goerr + runtime" where
  "WithProcessInfo p rt = Inr (rt\<lparr>rt_process := Some p\<rparr>)"

definition WithRuntimeJail :: "string \<Rightarrow> runtime \<Rightarrow> goerr + runtime" where
  "WithRuntimeJail jailPath rt = Inr (rt\<lparr>rt_jail := CleanJail jailPath\<rparr>)"

definition Runtime_SetClock :: "gclock option \<Rightarrow> unit rtio" where
  "Runtime_SetClock c = with_rt (WithRuntimeClock c)"

definition Runtime_SetLogger :: "logger option \<Rightarrow> unit rtio" where
  "Runtime_SetLogger lg = with_rt (WithRuntimeLogger lg)"

definition Runtime_SetStream :: "nat option \<Rightarrow> unit rtio" where
  "Runtime_SetStream s = with_rt (WithRuntimeStream s)"

definition Runtime_SetHasher :: "hasher option \<Rightarrow> unit rtio" where
  "Runtime_SetHasher h = with_rt (WithRuntimeHasher h)"

definition Runtime_Logger :: "runtime \<Rightarrow> logger" where
  "Runtime_Logger rt = LoggerOrDefault (rt_logger rt)"

definition Runtime_Process :: "runtime option \<Rightarrow> process_info option" where
  "Runtime_Process r = (case r of None \<Rightarrow> None | Some rt \<Rightarrow> rt_process rt)"

text \<open>A new object in a store, and the pointer to it.\<close>

definition new_env :: "env \<Rightarrow> sys \<Rightarrow> nat \<times> sys" where
  "new_env e y = (length (s_envs y), y\<lparr>s_envs := s_envs y @ [e]\<rparr>)"

definition new_fs :: "osfs \<Rightarrow> sys \<Rightarrow> nat \<times> sys" where
  "new_fs f y = (length (s_fss y), y\<lparr>s_fss := s_fss y @ [f]\<rparr>)"

definition new_stream :: "stream \<Rightarrow> sys \<Rightarrow> nat \<times> sys" where
  "new_stream st y = (length (s_streams y), y\<lparr>s_streams := s_streams y @ [st]\<rparr>)"

definition new_clk :: "clk \<Rightarrow> sys \<Rightarrow> nat \<times> sys" where
  "new_clk c y = (length (s_clks y), y\<lparr>s_clks := s_clks y @ [c]\<rparr>)"

text \<open>
  A clone has its own environment, stream and process info and shares the rest, the file system
  included.
\<close>

definition Runtime_Clone :: "runtime option \<Rightarrow> sys \<Rightarrow> runtime option \<times> sys" where
  "Runtime_Clone r y =
     (case r of
        None \<Rightarrow> (None, y)
      | Some rt \<Rightarrow>
          (let (rt1, y1) =
                 (case rt_env rt of
                    None \<Rightarrow> (rt, y)
                  | Some e \<Rightarrow> (let (i, y1) = new_env (Env_CloneEnv (s_envs y ! e)) y in (rt\<lparr>rt_env := Some i\<rparr>, y1)));
               (rt2, y2) =
                 (case rt_stream rt1 of
                    None \<Rightarrow> (rt1, y1)
                  | Some st \<Rightarrow> (let (i, y2) = new_stream (s_streams y1 ! st) y1 in (rt1\<lparr>rt_stream := Some i\<rparr>, y2)))
           in (Some rt2, y2)))"

section \<open>Construction\<close>

fun apply_opts :: "(runtime \<Rightarrow> goerr + runtime) option list \<Rightarrow> runtime \<Rightarrow> goerr + runtime" where
  "apply_opts [] rt = Inr rt"
| "apply_opts (None # opts) rt = apply_opts opts rt"
| "apply_opts (Some opt # opts) rt =
     (case opt rt of Inl e \<Rightarrow> Inl e | Inr rt1 \<Rightarrow> apply_opts opts rt1)"

definition NewRuntime :: "(runtime \<Rightarrow> goerr + runtime) option list \<Rightarrow> sys \<Rightarrow> (goerr + runtime) \<times> sys" where
  "NewRuntime opts y0 =
     (let (e, y1) = new_env (OsEnvV \<lparr>o_jail = []\<rparr>) y0;
          (f, y2) = new_fs \<lparr>fs_jail = [], fs_wd = []\<rparr> y1;
          (st, y3) = new_stream (DefaultStream y2) y2;
          rt0 = \<lparr>rt_env = Some e, rt_fs = Some f, rt_clock = Some (Sched OsClockV),
                 rt_logger = Some DiscardLogger, rt_stream = Some st, rt_hasher = Some DefaultHasher,
                 rt_process = None, rt_jail = [], rt_wd = []\<rparr>
      in case apply_opts opts rt0 of
           Inl err \<Rightarrow> (Inl err, y3)
         | Inr rt \<Rightarrow>
             (case bindE normalizeState (\<lambda>_. Validate) (Some rt, y3) of
                (Inl err, s) \<Rightarrow> (Inl err, snd s)
              | (Inr _, s) \<Rightarrow> (Inr (the (fst s)), snd s)))"

definition NewOsRuntime :: "sys \<Rightarrow> (goerr + runtime) \<times> sys" where
  "NewOsRuntime = NewRuntime []"

text \<open>2025-10-15 12:30:00 UTC, in nanoseconds.\<close>

definition test_epoch :: int where
  "test_epoch = 1760531400 * 10 ^ 9"

definition NewTestRuntime ::
  "string \<Rightarrow> string \<Rightarrow> string \<Rightarrow> (runtime \<Rightarrow> goerr + runtime) option list \<Rightarrow> sys \<Rightarrow> (goerr + runtime) \<times> sys" where
  "NewTestRuntime jail home user opts y0 =
     (let te = NewTestEnv jail home user
      in case TestEnv_Getwd te of
           Inl err \<Rightarrow> (Inl err, y0)
         | Inr wd \<Rightarrow>
             (case NewOsFS jail wd (p_host (s_proc y0)) of
                Inl err \<Rightarrow> (Inl err, y0)
              | Inr fs \<Rightarrow>
                  (let (e, y1) = new_env (TestEnvV te) y0;
                       (f, y2) = new_fs fs y1;
                       (c, y3) = new_clk (NewTestClock test_epoch) y2;
                       (st, y4) = new_stream (DefaultStream y3) y3;
                       baseOpts = [Some (WithRuntimeEnv (Some e)), Some (WithRuntimeFileSystem (Some f)),
                                   Some (WithRuntimeClock (Some (TestClockV c))),
                                   Some (WithRuntimeLogger (Some DiscardLogger)),
                                   Some (WithRuntimeStream (Some st)),
                                   Some (WithRuntimeHasher (Some MD5Hasher)),
                                   Some (WithRuntimeJail jail)]
                   in NewRuntime (baseOpts @ opts) y4)))"

end
