(* ===== verification/Runtime_Facts.thy ===== *)
theory Runtime_Facts
  imports Runtime Env_Facts OsFS_State
begin

text \<open>
  The invariant of a \<open>Runtime\<close> on a test environment: it, its environment and its file system agree
  on the jail and on the working directory. What each method does to the three of them.
\<close>

section \<open>The invariant\<close>

definition complete :: "runtime \<Rightarrow> bool" where
  "complete rt \<longleftrightarrow> rt_env rt \<noteq> None \<and> rt_fs rt \<noteq> None \<and> rt_clock rt \<noteq> None \<and> rt_logger rt \<noteq> None \<and>
     rt_stream rt \<noteq> None \<and> rt_hasher rt \<noteq> None"

definition the_te :: "rts \<Rightarrow> testenv" where
  "the_te s = (case env_of s of TestEnvV te \<Rightarrow> te | OsEnvV _ \<Rightarrow> NewTestEnv [] [] [])"

text \<open>The parts agree on the jail, and the file system is initialised.\<close>

definition same_jail :: "rts \<Rightarrow> bool" where
  "same_jail s \<longleftrightarrow>
     (case fst s of None \<Rightarrow> False | Some rt \<Rightarrow>
        complete rt \<and> the (rt_env rt) < length (s_envs (snd s)) \<and> the (rt_fs rt) < length (s_fss (snd s)) \<and>
        fs_jail (fs_of s) = rt_jail rt \<and> wd_ok (fs_of s) \<and>
        env_of s = TestEnvV (the_te s) \<and> te_jail (the_te s) = rt_jail rt)"

definition in_step :: "rts \<Rightarrow> bool" where
  "in_step s \<longleftrightarrow> same_jail s \<and> fs_wd (fs_of s) = rt_wd (the (fst s)) \<and>
     map_at (te_data (the_te s)) ''PWD'' = rt_wd (the (fst s))"

lemma in_stepD: "in_step s \<Longrightarrow> same_jail s"
  by (simp add: in_step_def)

lemma same_jailE:
  assumes "same_jail s"
  obtains rt y i j where "s = (Some rt, y)" "complete rt" "rt_env rt = Some i" "rt_fs rt = Some j"
    "i < length (s_envs y)" "j < length (s_fss y)" "s_envs y ! i = TestEnvV (the_te s)"
    "fs_of s = s_fss y ! j" "fs_jail (s_fss y ! j) = rt_jail rt" "wd_ok (s_fss y ! j)"
    "te_jail (the_te s) = rt_jail rt"
proof -
  obtain rt y where s: "s = (Some rt, y)"
    using assms by (cases s) (auto simp: same_jail_def split: option.splits)
  have c: "complete rt" using assms by (simp add: same_jail_def s)
  then obtain i j where r: "rt_env rt = Some i" "rt_fs rt = Some j" by (auto simp: complete_def)
  have f: "fs_of s = s_fss y ! j" "env_of s = s_envs y ! i" by (simp_all add: fs_of_def env_of_def s r)
  show ?thesis by (rule that [OF s c r]) (use assms f in \<open>simp_all add: same_jail_def s r\<close>)
qed

lemma in_step_wd: "in_step s \<Longrightarrow> clean_abs (rt_wd (the (fst s)))"
  by (cases "fst s") (auto simp: in_step_def same_jail_def wd_ok_def)

lemma Validate_complete: "same_jail s \<Longrightarrow> Validate s = (Inr (), s)"
  by (erule same_jailE) (auto simp: Validate_def complete_def)

text \<open>The state of the file system and its host, as the operations of \<open>OsFS\<close> see it.\<close>

definition view :: "rts \<Rightarrow> osfs \<times> world" where
  "view s = (fs_of s, host_of s)"

lemma on_fs_result: "fst (on_fs m s) = fst (m (view s))"
  by (simp add: on_fs_def view_def split: prod.splits)

lemma view_on_fs: "same_jail s \<Longrightarrow> view (snd (on_fs m s)) = snd (m (view s))"
  by (erule same_jailE) (simp add: on_fs_def view_def fs_of_def host_of_def set_host_def split: prod.splits)

lemma on_fs_runtime [simp]: "fst (snd (on_fs m s)) = fst s"
  by (simp add: on_fs_def split: prod.splits)

lemma env_of_on_fs [simp]: "env_of (snd (on_fs m s)) = env_of s"
  by (simp add: on_fs_def env_of_def set_host_def split: prod.splits)

lemma the_te_cong: "env_of s = env_of t \<Longrightarrow> the_te s = the_te t"
  by (simp add: the_te_def)

lemma on_fs_lengths [simp]:
  "length (s_envs (snd (snd (on_fs m s)))) = length (s_envs (snd s))"
  "length (s_fss (snd (snd (on_fs m s)))) = length (s_fss (snd s))"
  by (simp_all add: on_fs_def set_host_def split: prod.splits)

text \<open>A call that leaves the fields of the file system alone keeps everything in step.\<close>

lemma on_fs_keeps:
  assumes "same_jail s" and "fst (snd (m (view s))) = fs_of s"
  shows "same_jail (snd (on_fs m s))" "fs_of (snd (on_fs m s)) = fs_of s" "in_step s \<Longrightarrow> in_step (snd (on_fs m s))"
proof -
  show f: "fs_of (snd (on_fs m s)) = fs_of s"
    using view_on_fs [OF assms(1), of m] assms(2) by (simp add: view_def prod_eq_iff)
  have t: "the_te (snd (on_fs m s)) = the_te s" by (rule the_te_cong) simp
  show "same_jail (snd (on_fs m s))"
    using assms(1) by (cases "fst s") (simp_all add: same_jail_def f t)
  then show "in_step s \<Longrightarrow> in_step (snd (on_fs m s))" by (simp add: in_step_def f t)
qed

section \<open>Setting the working directory\<close>

lemma clean_abs_not_blank: "clean_abs p \<Longrightarrow> \<not> blank p"
  by (simp add: clean_abs_def blank_abs)

lemma clean_abs_abs: "clean_abs p \<Longrightarrow> is_abs p \<and> Clean p = p"
  by (simp add: clean_abs_def)

lemma resolveVirtual_abs:
  assumes "wd_ok fs" and "is_abs p"
  shows "\<exists>r. resolveVirtual p False (fs, w) = (r, (fs, w)) \<and> (\<forall>q. r = Inr q \<longrightarrow> q = Clean p)"
proof -
  have "\<not> blank p" "p \<noteq> ''.''" using assms(2) by (auto simp: blank_abs)
  then show ?thesis
    using init_done [OF assms(1), of w] assms(2) by (auto simp: resolveVirtual_def bindE_def Let_def)
qed

lemma OsFS_Setwd_abs:
  assumes "wd_ok fs" and "clean_abs t"
  shows "(\<exists>e. OsFS_Setwd t (fs, w) = (Inl e, (fs, w))) \<or>
    OsFS_Setwd t (fs, w) = (Inr (), (fs\<lparr>fs_wd := t\<rparr>, w))"
proof -
  obtain r where r: "resolveVirtual t False (fs, w) = (r, (fs, w))" "\<forall>q. r = Inr q \<longrightarrow> q = t"
    using resolveVirtual_abs [OF assms(1)] clean_abs_abs [OF assms(2)] by metis
  show ?thesis
    using r by (cases r) (auto simp: OsFS_Setwd_def bindE_def Let_def split: sum.split)
qed

definition set_wd :: "string \<Rightarrow> rts \<Rightarrow> rts" where
  "set_wd t s =
     (map_option (\<lambda>rt. rt\<lparr>rt_wd := t\<rparr>) (fst s),
      (snd s)\<lparr>s_fss := (s_fss (snd s))[the (rt_fs (the (fst s))) := (fs_of s)\<lparr>fs_wd := t\<rparr>],
        s_envs := (s_envs (snd s))[the (rt_env (the (fst s))) := TestEnvV (put_data ''PWD'' t (the_te s))]\<rparr>)"

lemma set_wd_in_step:
  assumes "same_jail s" and "clean_abs t"
  shows "in_step (set_wd t s)"
  using assms
  by (elim same_jailE)
    (simp add: in_step_def same_jail_def set_wd_def fs_of_def env_of_def the_te_def complete_def wd_ok_def)

lemma applyWorkingDir_cases:
  assumes s: "same_jail s" and t: "clean_abs t"
  shows "(\<exists>e. applyWorkingDir t s = (Inl e, s) \<and> OsFS_Setwd t (view s) = (Inl e, view s)) \<or>
    applyWorkingDir t s = (Inr (), set_wd t s) \<and> OsFS_Setwd t (view s) = (Inr (), view (set_wd t s))"
proof -
  obtain rt y i j where e: "s = (Some rt, y)" "rt_env rt = Some i" "rt_fs rt = Some j"
    "i < length (s_envs y)" "j < length (s_fss y)" "s_envs y ! i = TestEnvV (the_te s)"
    "fs_of s = s_fss y ! j" "wd_ok (s_fss y ! j)"
    using s by (elim same_jailE)
  have n: "normalizePath t = t" "\<not> blank t" "Clean t = t" "is_abs t"
    using t clean_abs_not_blank clean_abs_abs by (auto simp: normalizePath_def)
  have h: "set_host (p_host (s_proc y)) y = y" by (simp add: set_host_def)
  have g: "OsFS_Getwd (fs, w) = (Inr t, (fs, w))" if "fs_wd fs = t" for fs w
    using that init_done [of fs w] t by (simp add: OsFS_Getwd_def bindE_def getS_def wd_ok_def)
  from OsFS_Setwd_abs [OF e(8) t, of "host_of s"] show ?thesis
  proof
    assume "\<exists>e. OsFS_Setwd t (s_fss y ! j, host_of s) = (Inl e, (s_fss y ! j, host_of s))"
    then show ?thesis
      using e h n by (auto simp: applyWorkingDir_def bindE_def on_fs_def host_of_def view_def)
  next
    assume w: "OsFS_Setwd t (s_fss y ! j, host_of s) = (Inr (), ((s_fss y ! j)\<lparr>fs_wd := t\<rparr>, host_of s))"
    let ?y1 = "y\<lparr>s_fss := (s_fss y)[j := (s_fss y ! j)\<lparr>fs_wd := t\<rparr>]\<rparr>"
    let ?y2 = "?y1\<lparr>s_envs := (s_envs y)[i := TestEnvV (put_data ''PWD'' t (the_te s))]\<rparr>"
    have 1: "on_fs (OsFS_Setwd t) s = (Inr (), (Some rt, ?y1))"
      using w e by (simp add: on_fs_def host_of_def set_host_def)
    have 2: "on_env (Env_Setwd t) (Some rt, ?y1) = (Inr (), (Some rt, ?y2))"
      using e n by (simp add: on_env_def env_of_def Env_Setwd_def on_test_def TestEnv_Setwd_abs)
    have 3: "on_fs OsFS_Getwd (Some rt, ?y2) = (Inr t, (Some rt, ?y2))"
      using e by (simp add: on_fs_def fs_of_def host_of_def set_host_def g)
    have "applyWorkingDir t s = (Inr (), set_wd t s)"
      using 1 2 3 n e by (simp add: applyWorkingDir_def bindE_def attempt_def mod_rt_def modifyS_def set_wd_def)
    moreover have "OsFS_Setwd t (view s) = (Inr (), view (set_wd t s))"
      using w e by (simp add: view_def set_wd_def fs_of_def host_of_def)
    ultimately show ?thesis by blast
  qed
qed

lemma applyWorkingDir_in_step:
  assumes "in_step s" and "clean_abs t"
  shows "in_step (snd (applyWorkingDir t s))"
  using applyWorkingDir_cases [of s t] set_wd_in_step [of s t] assms by (auto simp: in_step_def)

end
