(* ===== verification/Runtime_Ops.thy ===== *)
theory Runtime_Ops
  imports Runtime_Facts
begin

text \<open>
  The methods of \<open>Runtime\<close> that change state as one step function, and what a step does: it keeps
  runtime, environment and file system in step, and it acts on the file system and the host only
  through operations of \<open>OsFS\<close>.
\<close>

section \<open>Resolving\<close>

lemma on_fs_query:
  assumes "same_jail s" and "snd (m (view s)) = view s"
  shows "on_fs m s = (fst (m (view s)), s)"
  using assms
  by (elim same_jailE) (auto simp: on_fs_def view_def host_of_def set_host_def split: prod.splits)

lemma Runtime_Getwd_in_step:
  assumes "in_step s" shows "Runtime_Getwd s = (Inr (rt_wd (the (fst s))), s)"
  using assms Validate_complete [of s] clean_abs_not_blank [OF in_step_wd [OF assms]]
  by (simp add: Runtime_Getwd_def bindE_def in_step_def ret_def getS_def)

lemma validated_in_step: "in_step s \<Longrightarrow> validated m s = m s"
  by (simp add: validated_def bindE_def Validate_complete in_step_def)

lemma expand_abs_in_step:
  assumes "in_step s"
  shows "\<exists>r. expand_abs p s = (r, s) \<and> (\<forall>q. r = Inr q \<longrightarrow> is_abs q)"
proof -
  have "is_abs (rt_wd (the (fst s)))" using in_step_wd [OF assms] by (simp add: clean_abs_def)
  then have "is_abs (Join [rt_wd (the (fst s)), q])" for q
    using Join_clean_abs by (simp add: clean_abs_def)
  then show ?thesis
    using Runtime_Getwd_in_step [OF assms]
    by (auto simp: expand_abs_def rt_ExpandPath_def bindE_def ret_def split: sum.split)
qed

lemma in_step_view: "in_step s \<Longrightarrow> view s = (fs_of s, host_of s) \<and> wd_ok (fs_of s)"
  by (cases "fst s") (auto simp: view_def in_step_def same_jail_def)

lemma on_fs_ResolvePath:
  assumes "in_step s"
  shows "on_fs (OsFS_ResolvePath p f) s = (fst (OsFS_ResolvePath p f (view s)), s)"
  using in_step_view [OF assms] in_stepD [OF assms]
  by (intro on_fs_query) (auto simp: OsFS_ResolvePath_def resolveVirtual_state)

lemma Runtime_ResolvePath_in_step:
  assumes "in_step s"
  shows "\<exists>r. Runtime_ResolvePath p f s = (r, s) \<and> (\<forall>q. r = Inr q \<longrightarrow> \<not> f \<longrightarrow> clean_abs q)"
proof -
  have "\<exists>r. (if blank p \<or> p = ''.'' then Runtime_Getwd else expand_abs p) s = (r, s) \<and> (\<forall>q. r = Inr q \<longrightarrow> is_abs q)"
    using expand_abs_in_step [OF assms, of p] Runtime_Getwd_in_step [OF assms] in_step_wd [OF assms]
    by (auto simp: clean_abs_def)
  then obtain r where r: "(if blank p \<or> p = ''.'' then Runtime_Getwd else expand_abs p) s = (r, s)"
    "\<forall>q. r = Inr q \<longrightarrow> is_abs q" by blast
  show ?thesis
  proof (cases r)
    case (Inl e)
    then show ?thesis using r(1) by (simp add: Runtime_ResolvePath_def validated_in_step assms bindE_def)
  next
    case (Inr q)
    then have a: "is_abs (Clean q)" using r(2) by simp
    have "fst (OsFS_ResolvePath (Clean q) False (view s)) = Inr v \<Longrightarrow> clean_abs v" for v
      using resolveVirtual_abs [of "fs_of s" "Clean q" "host_of s"] in_step_view [OF assms] a clean_abs_Clean
      by (auto simp: OsFS_ResolvePath_def)
    then show ?thesis
      using r(1) Inr
      by (cases f) (auto simp: Runtime_ResolvePath_def validated_in_step assms bindE_def on_fs_ResolvePath)
  qed
qed

section \<open>Steps\<close>

datatype rtop =
    RFs fsop
  | RSet string string
  | RUnset string
  | RSetHome string
  | RSetUser string
  | RSetJail string

fun run_rt :: "rtop \<Rightarrow> rts \<Rightarrow> rts" where
  "run_rt (RFs FGetwd) s = snd (Runtime_Getwd s)"
| "run_rt (RFs (FSetwd p)) s = snd (Runtime_Setwd p s)"
| "run_rt (RFs (FResolvePath p f)) s = snd (Runtime_ResolvePath p f s)"
| "run_rt (RFs (FRel b t)) s = snd (Runtime_Rel b t s)"
| "run_rt (RFs (FReadFile p)) s = snd (Runtime_ReadFile p s)"
| "run_rt (RFs (FWriteFile p d m)) s = snd (Runtime_WriteFile p d m s)"
| "run_rt (RFs (FMkdir p m a)) s = snd (Runtime_Mkdir p m a s)"
| "run_rt (RFs (FRemove p a)) s = snd (Runtime_Remove p a s)"
| "run_rt (RFs (FRename a b)) s = snd (Runtime_Rename a b s)"
| "run_rt (RFs (FStat p f)) s = snd (Runtime_Stat p f s)"
| "run_rt (RFs (FReadDir p)) s = snd (Runtime_ReadDir p s)"
| "run_rt (RFs (FSymlink a b)) s = snd (Runtime_Symlink a b s)"
| "run_rt (RFs (FAppendFile p d m)) s = snd (Runtime_AppendFile p d m s)"
| "run_rt (RFs (FOpenFile p fl m)) s = snd (Runtime_OpenFile p fl m s)"
| "run_rt (RFs (FChmod p m)) s = snd (Runtime_Chmod p m s)"
| "run_rt (RFs (FChown p u g)) s = snd (Runtime_Chown p u g s)"
| "run_rt (RFs (FLchown p u g)) s = snd (Runtime_Lchown p u g s)"
| "run_rt (RFs (FChtimes p a m)) s = snd (Runtime_Chtimes p a m s)"
| "run_rt (RFs (FAtomicWriteFile p d m)) s = snd (Runtime_AtomicWriteFile p d m s)"
| "run_rt (RSet k v) s = snd (Runtime_Set k v s)"
| "run_rt (RUnset k) s = snd (Runtime_Unset k s)"
| "run_rt (RSetHome h) s = snd (Runtime_SetHome h s)"
| "run_rt (RSetUser u) s = snd (Runtime_SetUser u s)"
| "run_rt (RSetJail j) s = snd (Runtime_SetJail j s)"

text \<open>The path of the operation, as the runtime resolves it, is not the jail directory.\<close>

fun rt_spares :: "string list \<Rightarrow> rtop \<Rightarrow> rts \<Rightarrow> bool" where
  "rt_spares J (RFs (FRemove p a)) s =
     (case fst (Runtime_ResolvePath p False s) of Inl _ \<Rightarrow> True
      | Inr q \<Rightarrow> spares_root J (FRemove q a) (view s))"
| "rt_spares J (RFs (FAtomicWriteFile p d m)) s =
     (case fst (Runtime_ResolvePath p False s) of Inl _ \<Rightarrow> True
      | Inr q \<Rightarrow> spares_root J (FAtomicWriteFile q d m) (view s))"
| "rt_spares J (RSetJail j) s = False"
| "rt_spares J _ s = True"

text \<open>The receiver keeps its pointers, no other environment and no clock changes.\<close>

definition own_env :: "rts \<Rightarrow> rts \<Rightarrow> bool" where
  "own_env s s' \<longleftrightarrow>
     rt_env (the (fst s')) = rt_env (the (fst s)) \<and> rt_fs (the (fst s')) = rt_fs (the (fst s)) \<and>
     rt_clock (the (fst s')) = rt_clock (the (fst s)) \<and> s_clks (snd s') = s_clks (snd s) \<and>
     (\<forall>i. i \<noteq> the (rt_env (the (fst s))) \<longrightarrow> s_envs (snd s') ! i = s_envs (snd s) ! i)"

lemma own_env_refl [simp]: "own_env s s"
  by (simp add: own_env_def)

lemma own_env_trans: "own_env s t \<Longrightarrow> own_env t u \<Longrightarrow> own_env s u"
  by (simp add: own_env_def)

lemma own_env_on_fs [simp]: "own_env s (snd (on_fs m s))"
  by (simp add: own_env_def on_fs_def set_host_def split: prod.split)

lemma own_env_on_env [simp]: "own_env s (snd (on_env m s))"
  by (simp add: own_env_def on_env_def split: prod.split)

lemma own_env_set_wd: "in_step s \<Longrightarrow> own_env s (set_wd t s)"
  by (cases "fst s") (auto simp: own_env_def set_wd_def in_step_def same_jail_def)

text \<open>
  A step keeps everything in step and, where \<open>P\<close> holds, drives the file system by its own operations.
\<close>

definition tame :: "bool \<Rightarrow> string list \<Rightarrow> rts \<Rightarrow> rts \<Rightarrow> bool" where
  "tame P J s s' \<longleftrightarrow> in_step s' \<and> own_env s s' \<and> (P \<longrightarrow> fs_reach J (view s) (view s'))"

lemma fs_reach_trans: "fs_reach J t u \<Longrightarrow> fs_reach J s t \<Longrightarrow> fs_reach J s u"
  by (induction rule: fs_reach.induct) (auto intro: fs_step)

lemma tame_refl: "in_step s \<Longrightarrow> tame P J s s"
  by (simp add: tame_def fs_refl)

lemma tame_trans: "tame P J s t \<Longrightarrow> tame P J t u \<Longrightarrow> tame P J s u"
  unfolding tame_def by (blast intro: fs_reach_trans own_env_trans)

lemma tame_call:
  assumes s: "in_step s" and m: "\<And>x. snd (m x) = run_op op x"
    and op: "\<And>p. op \<noteq> FSetwd p" and sp: "P \<Longrightarrow> spares_root J op (view s)"
  shows "tame P J s (snd (on_fs m s))"
proof -
  have "fst (snd (m (view s))) = fs_of s"
    using run_op_fs [of "fs_of s" op "host_of s"] in_step_view [OF s] op by (simp add: m)
  then have "in_step (snd (on_fs m s))" using on_fs_keeps(3) [OF in_stepD [OF s]] s by blast
  moreover have "view (snd (on_fs m s)) = run_op op (view s)"
    using view_on_fs [OF in_stepD [OF s], of m] m by simp
  ultimately show ?thesis using fs_step [OF fs_refl] sp by (simp add: tame_def)
qed

lemma tame_resolve:
  assumes s: "in_step s"
    and k: "\<And>q. fst (Runtime_ResolvePath p f s) = Inr q \<Longrightarrow> tame P J s (snd (k q s))"
  shows "tame P J s (snd (bindE (Runtime_ResolvePath p f) k s))"
proof -
  obtain r where r: "Runtime_ResolvePath p f s = (r, s)"
    using Runtime_ResolvePath_in_step [OF s] by blast
  show ?thesis using k tame_refl [OF s] by (cases r) (simp_all add: bindE_def r)
qed

lemma tame_at_path:
  assumes "in_step s"
    and "\<And>q. fst (Runtime_ResolvePath p f s) = Inr q \<Longrightarrow> tame P J s (snd (k q s))"
  shows "tame P J s (snd (at_path p f k s))"
  unfolding at_path_def validated_in_step [OF assms(1)] by (rule tame_resolve) (use assms in auto)

lemma tame_parent:
  assumes s: "in_step s" and k: "\<And>s1. in_step s1 \<Longrightarrow> tame P J s1 (snd (k () s1))"
  shows "tame P J s (snd (bindE (mkdir_parent q) k s))"
proof -
  obtain r s1 where m: "mkdir_parent q s = (r, s1)" by (cases "mkdir_parent q s")
  have "tame P J s (snd (mkdir_parent q s))"
    unfolding mkdir_parent_def by (rule tame_call [OF s, of _ "FMkdir (Dir q) 0x1ED True"]) simp_all
  then have t: "tame P J s s1" using m by simp
  show ?thesis
  proof (cases r)
    case (Inl e)
    then show ?thesis using t by (simp add: bindE_def m)
  next
    case (Inr u)
    then show ?thesis using tame_trans [OF t k] t by (simp add: bindE_def m tame_def)
  qed
qed

section \<open>File operations\<close>

lemmas file_methods = Runtime_Rel_def Runtime_ReadFile_def Runtime_WriteFile_def Runtime_Mkdir_def
  Runtime_Remove_def Runtime_Rename_def Runtime_Stat_def Runtime_ReadDir_def Runtime_Symlink_def
  Runtime_AppendFile_def Runtime_OpenFile_def Runtime_Chmod_def Runtime_Chown_def Runtime_Lchown_def
  Runtime_Chtimes_def Runtime_AtomicWriteFile_def

lemmas tame_ops = run_op.simps [symmetric, THEN tame_call [rotated 1]]

lemma file_op_tame:
  assumes s: "in_step s" and sp: "P \<Longrightarrow> rt_spares J (RFs op) s" and n: "\<And>p. op \<noteq> FSetwd p"
  shows "tame P J s (run_rt (RFs op) s)"
proof (cases op)
  case FGetwd
  then show ?thesis using tame_refl [OF s] Runtime_Getwd_in_step [OF s] by simp
next
  case (FResolvePath p f)
  then show ?thesis using tame_refl [OF s] Runtime_ResolvePath_in_step [OF s, of p f] by auto
next
  case (FRemove p a)
  then show ?thesis using sp unfolding FRemove run_rt.simps Runtime_Remove_def
    by (intro tame_at_path s) (rule tame_call [OF s, of _ "FRemove _ _"], simp_all)
next
  case (FAtomicWriteFile p d m)
  then show ?thesis using sp unfolding FAtomicWriteFile run_rt.simps Runtime_AtomicWriteFile_def
    by (intro tame_at_path s) (rule tame_call [OF s, of _ "FAtomicWriteFile _ _ _"], simp_all)
qed (use n in \<open>simp_all only: run_rt.simps file_methods\<close>,
  (intro tame_at_path tame_resolve tame_parent s | rule tame_ops | assumption | simp)+)

section \<open>Working directory\<close>

lemma resolveWorkingDir_in_step:
  assumes "in_step s"
  shows "\<exists>r. resolveWorkingDir d s = (r, s) \<and> (\<forall>q. r = Inr q \<longrightarrow> clean_abs q)"
proof (cases "blank d \<or> d = ''.''")
  case True
  then show ?thesis
    using Runtime_Getwd_in_step [OF assms] in_step_wd [OF assms] by (auto simp: resolveWorkingDir_def)
next
  case False
  obtain r where r: "expand_abs d s = (r, s)" "\<forall>q. r = Inr q \<longrightarrow> is_abs q"
    using expand_abs_in_step [OF assms] by blast
  show ?thesis
  proof (cases r)
    case (Inl e)
    then show ?thesis using r False by (simp add: resolveWorkingDir_def bindE_def)
  next
    case (Inr q)
    then have a: "is_abs (Clean q)" using r(2) by simp
    have "fst (OsFS_ResolvePath (Clean q) False (view s)) = Inr v \<Longrightarrow> clean_abs (Clean v)" for v
      using resolveVirtual_abs [of "fs_of s" "Clean q" "host_of s"] in_step_view [OF assms] a clean_abs_Clean
      by (auto simp: OsFS_ResolvePath_def)
    then show ?thesis using r(1) Inr False
      by (auto simp: resolveWorkingDir_def bindE_def on_fs_ResolvePath [OF assms] ret_def split: sum.split)
  qed
qed

lemma applyWorkingDir_tame:
  assumes s: "in_step s" and t: "clean_abs t"
  shows "tame P J s (snd (applyWorkingDir t s))"
  using applyWorkingDir_cases [OF in_stepD [OF s] t]
proof
  assume "\<exists>e. applyWorkingDir t s = (Inl e, s) \<and> OsFS_Setwd t (view s) = (Inl e, view s)"
  then show ?thesis using tame_refl [OF s] by auto
next
  assume a: "applyWorkingDir t s = (Inr (), set_wd t s) \<and> OsFS_Setwd t (view s) = (Inr (), view (set_wd t s))"
  have "fs_reach J (view s) (run_op (FSetwd t) (view s))" by (intro fs_step fs_refl) simp
  then show ?thesis
    using a set_wd_in_step [OF in_stepD [OF s] t] own_env_set_wd [OF s] by (simp add: tame_def)
qed

lemma Runtime_Setwd_tame:
  assumes s: "in_step s" shows "tame P J s (snd (Runtime_Setwd d s))"
proof -
  obtain r where r: "resolveWorkingDir d s = (r, s)" "\<forall>q. r = Inr q \<longrightarrow> clean_abs q"
    using resolveWorkingDir_in_step [OF s] by blast
  show ?thesis
    using r applyWorkingDir_tame [OF s] tame_refl [OF s]
    by (cases r) (simp_all add: Runtime_Setwd_def validated_in_step [OF s] bindE_def)
qed

section \<open>Environment operations\<close>

lemma on_env_tame:
  assumes s: "in_step s"
    and m: "m (TestEnvV (the_te s), s_proc (snd s)) = (r, (TestEnvV te, s_proc (snd s)))"
    and te: "te_jail te = te_jail (the_te s)" "map_at (te_data te) ''PWD'' = map_at (te_data (the_te s)) ''PWD''"
  shows "tame P J s (snd (on_env m s))"
proof -
  from in_stepD [OF s] show ?thesis
  proof (cases rule: same_jailE)
    case (1 rt y i j)
    have e: "on_env m s = (r, (Some rt, y\<lparr>s_envs := (s_envs y)[i := TestEnvV te]\<rparr>))"
      using m 1 by (simp add: on_env_def env_of_def)
    have v: "view (Some rt, y\<lparr>s_envs := (s_envs y)[i := TestEnvV te]\<rparr>) = view s"
      using 1 by (simp add: view_def fs_of_def host_of_def)
    have f: "fs_of (Some rt, y\<lparr>s_envs := (s_envs y)[i := TestEnvV te]\<rparr>) = s_fss y ! j"
      "env_of (Some rt, y\<lparr>s_envs := (s_envs y)[i := TestEnvV te]\<rparr>) = TestEnvV te"
      using 1(3-6) by (simp_all add: fs_of_def env_of_def)
    then have t: "the_te (Some rt, y\<lparr>s_envs := (s_envs y)[i := TestEnvV te]\<rparr>) = te" by (simp add: the_te_def)
    have "fs_wd (s_fss y ! j) = rt_wd rt" "map_at (te_data te) ''PWD'' = rt_wd rt"
      using s 1(1,8) te(2) by (simp_all add: in_step_def)
    then have "in_step (Some rt, y\<lparr>s_envs := (s_envs y)[i := TestEnvV te]\<rparr>)"
      using 1(2-6,9-11) te(1) by (simp add: in_step_def same_jail_def f t)
    then show ?thesis using e v own_env_on_env [of s m] by (simp add: tame_def fs_refl)
  qed
qed

lemma te_SetHome_frame:
  "te_jail (snd (TestEnv_SetHome w h te)) = te_jail te"
  "map_at (te_data (snd (TestEnv_SetHome w h te))) ''PWD'' = map_at (te_data te) ''PWD''"
  by (auto simp: TestEnv_SetHome_def Let_def split: sum.split)

lemma te_Set_frame:
  assumes "k \<noteq> ''PWD''"
  shows "te_jail (snd (TestEnv_Set w k v te)) = te_jail te"
    "map_at (te_data (snd (TestEnv_Set w k v te))) ''PWD'' = map_at (te_data te) ''PWD''"
  using assms te_SetHome_frame by (auto simp: TestEnv_Set_def TestEnv_SetUser_def)

lemma te_Unset_frame:
  assumes "k \<noteq> ''PWD''"
  shows "te_jail (TestEnv_Unset k te) = te_jail te"
    "map_at (te_data (TestEnv_Unset k te)) ''PWD'' = map_at (te_data te) ''PWD''"
  using assms by (auto simp: TestEnv_Unset_def Let_def map_at_delete)

lemma SetHome_tame:
  assumes s: "in_step s" shows "tame P J s (snd (Runtime_SetHome h s))"
  unfolding Runtime_SetHome_def validated_in_step [OF s]
  by (rule on_env_tame [OF s, where r = "fst (TestEnv_SetHome (p_host (s_proc (snd s))) h (the_te s))"
        and te = "snd (TestEnv_SetHome (p_host (s_proc (snd s))) h (the_te s))"])
    (simp_all add: Env_SetHome_def on_test_def te_SetHome_frame split: prod.split)

lemma SetUser_tame:
  assumes s: "in_step s" shows "tame P J s (snd (Runtime_SetUser u s))"
  unfolding Runtime_SetUser_def validated_in_step [OF s]
  by (rule on_env_tame [OF s, where r = "Inr ()" and te = "snd (TestEnv_SetUser u (the_te s))"])
    (simp_all add: Env_SetUser_def on_test_def TestEnv_SetUser_def)

lemma Set_tame:
  assumes s: "in_step s" shows "tame P J s (snd (Runtime_Set k v s))"
proof (cases "k = ''PWD''")
  case True
  then show ?thesis using Runtime_Setwd_tame [OF s] by (simp add: Runtime_Set_def validated_in_step [OF s])
next
  case False
  then have r: "Runtime_Set k v s = on_env (Env_Set k v) s"
    by (simp add: Runtime_Set_def validated_in_step [OF s])
  show ?thesis unfolding r
    by (rule on_env_tame [OF s, where r = "fst (TestEnv_Set (p_host (s_proc (snd s))) k v (the_te s))"
          and te = "snd (TestEnv_Set (p_host (s_proc (snd s))) k v (the_te s))"])
      (simp_all add: Env_Set_def on_test_def te_Set_frame False split: prod.split)
qed

lemma Unset_tame:
  assumes s: "in_step s" and k: "k \<noteq> ''PWD''" shows "tame P J s (snd (Runtime_Unset k s))"
proof -
  have "has_env s" using in_stepD [OF s] by (elim same_jailE) (simp add: has_env_def)
  then have r: "Runtime_Unset k s = on_env (modifyS (Env_Unset k)) s" by (simp add: Runtime_Unset_def)
  show ?thesis unfolding r
    by (rule on_env_tame [OF s, where r = "Inr ()" and te = "TestEnv_Unset k (the_te s)"])
      (simp_all add: modifyS_def Env_Unset_def te_Unset_frame k)
qed

lemma run_rt_tame:
  assumes s: "in_step s" and sp: "P \<Longrightarrow> rt_spares J op s" and n: "op \<noteq> RUnset ''PWD''"
    and j: "\<And>j. op \<noteq> RSetJail j"
  shows "tame P J s (run_rt op s)"
proof (cases op)
  case (RFs f)
  then show ?thesis using file_op_tame [OF s, of P J f] Runtime_Setwd_tame [OF s] sp by (cases f) auto
next
  case (RSetJail j)
  then show ?thesis using j by simp
qed (use SetHome_tame [OF s] SetUser_tame [OF s] Set_tame [OF s] Unset_tame [OF s] n in auto)

end
