(* ===== verification/Runtime_New.thy ===== *)
theory Runtime_New
  imports Runtime_Ops
begin

text \<open>
  Changing the jail of a \<open>Runtime\<close> keeps it in step, and a runtime made by \<open>NewTestRuntime\<close> starts in
  step.
\<close>

section \<open>Jail values\<close>

lemma CleanJail_value: "blank j \<or> is_abs j \<Longrightarrow> CleanJail (CleanJail j) = CleanJail j"
  by (auto simp: CleanJail_def Clean_abs blank_abs)

lemma te_SetJail_PWD [simp]:
  "map_at (te_data (TestEnv_SetJail j te)) ''PWD'' = map_at (te_data te) ''PWD''"
  by (auto simp: TestEnv_SetJail_def Let_def)

lemma OsFS_SetJail_fields [simp]:
  "fs_jail (OsFS_SetJail j fs) = CleanJail j" "fs_wd (OsFS_SetJail j fs) = fs_wd fs"
  by (simp_all add: OsFS_SetJail_def CleanJail_def)

section \<open>SetJail\<close>

definition set_jail :: "string \<Rightarrow> rts \<Rightarrow> rts" where
  "set_jail j s =
     (map_option (\<lambda>rt. rt\<lparr>rt_jail := j\<rparr>) (fst s),
      (snd s)\<lparr>s_fss := (s_fss (snd s))[the (rt_fs (the (fst s))) := OsFS_SetJail j (fs_of s)],
        s_envs := (s_envs (snd s))[the (rt_env (the (fst s))) := TestEnvV (TestEnv_SetJail j (the_te s))]\<rparr>)"

text \<open>The receiver has its parts, whatever their jails.\<close>

definition has_parts :: "rts \<Rightarrow> bool" where
  "has_parts s \<longleftrightarrow>
     (case fst s of None \<Rightarrow> False | Some rt \<Rightarrow>
        complete rt \<and> the (rt_env rt) < length (s_envs (snd s)) \<and> the (rt_fs rt) < length (s_fss (snd s)) \<and>
        wd_ok (fs_of s) \<and> env_of s = TestEnvV (the_te s))"

lemma same_jail_parts: "same_jail s \<Longrightarrow> has_parts s"
  by (cases "fst s") (auto simp: same_jail_def has_parts_def)

lemma has_partsE:
  assumes "has_parts s"
  obtains rt y i j te where "s = (Some rt, y)" "complete rt" "rt_env rt = Some i" "rt_fs rt = Some j"
    "i < length (s_envs y)" "j < length (s_fss y)" "s_envs y ! i = TestEnvV te" "the_te s = te"
    "fs_of s = s_fss y ! j" "wd_ok (s_fss y ! j)" "env_of s = TestEnvV te"
proof -
  obtain rt y where s: "s = (Some rt, y)"
    using assms by (cases s) (auto simp: has_parts_def split: option.splits)
  have c: "complete rt" using assms by (simp add: has_parts_def s)
  then obtain i j where r: "rt_env rt = Some i" "rt_fs rt = Some j" by (auto simp: complete_def)
  have f: "fs_of s = s_fss y ! j" "env_of s = s_envs y ! i" by (simp_all add: fs_of_def env_of_def s r)
  obtain te where te: "the_te s = te" by blast
  show ?thesis by (rule that [OF s c r _ _ _ te]) (use assms f te in \<open>simp_all add: has_parts_def s r\<close>)
qed

lemma applyJail_result:
  assumes "has_parts s"
  shows "bindE (mod_rt (\<lambda>rt. rt\<lparr>rt_jail := j\<rparr>)) (\<lambda>_. applyJail j) s = (Inr (), set_jail j s)"
  using assms
proof (cases rule: has_partsE)
  case (1 rt y i k te)
  let ?rt = "rt\<lparr>rt_jail := j\<rparr>" and ?y = "y\<lparr>s_fss := (s_fss y)[k := OsFS_SetJail j (s_fss y ! k)]\<rparr>"
  have a: "on_fs (modifyS (\<lambda>(fs, w). (OsFS_SetJail j fs, w))) (Some ?rt, y) = (Inr (), (Some ?rt, ?y))"
    using 1(4) by (simp add: on_fs_def modifyS_def fs_of_def host_of_def set_host_def)
  have b: "on_env (modifyS (\<lambda>(e, p). (Env_SetJail j e, p))) (Some ?rt, ?y) =
      (Inr (), (Some ?rt, ?y\<lparr>s_envs := (s_envs y)[i := TestEnvV (TestEnv_SetJail j te)]\<rparr>))"
    using 1(3,7) by (simp add: on_env_def modifyS_def env_of_def Env_SetJail_def)
  show ?thesis using a b 1(1,3,4,8,9)
    by (simp add: bindE_def mod_rt_def modifyS_def applyJail_def set_jail_def)
qed

lemma set_jail_same:
  assumes "has_parts s" and j: "CleanJail j = j"
  shows "same_jail (set_jail j s)" "fs_wd (fs_of (set_jail j s)) = fs_wd (fs_of s)"
    "map_at (te_data (the_te (set_jail j s))) ''PWD'' = map_at (te_data (the_te s)) ''PWD''"
    "the (fst (set_jail j s)) = (the (fst s))\<lparr>rt_jail := j\<rparr>"
proof -
  from assms(1) have "same_jail (set_jail j s) \<and> fs_wd (fs_of (set_jail j s)) = fs_wd (fs_of s) \<and>
    map_at (te_data (the_te (set_jail j s))) ''PWD'' = map_at (te_data (the_te s)) ''PWD'' \<and>
    the (fst (set_jail j s)) = (the (fst s))\<lparr>rt_jail := j\<rparr>"
  proof (cases rule: has_partsE)
    case (1 rt y i k te)
    obtain s' where s': "set_jail j s = s'" by blast
    have e: "fst s' = Some (rt\<lparr>rt_jail := j\<rparr>)" "length (s_envs (snd s')) = length (s_envs y)"
      "length (s_fss (snd s')) = length (s_fss y)" "fs_of s' = OsFS_SetJail j (s_fss y ! k)"
      "env_of s' = TestEnvV (TestEnv_SetJail j te)"
      using 1(1,3-6,8,9) unfolding s' [symmetric] by (simp_all add: fs_of_def env_of_def set_jail_def)
    then have t: "the_te s' = TestEnv_SetJail j te" by (simp add: the_te_def)
    have w: "wd_ok (OsFS_SetJail j (s_fss y ! k))" using 1(10) by (simp add: wd_ok_def)
    have c: "complete (rt\<lparr>rt_jail := j\<rparr>)" using 1(2) by (simp add: complete_def)
    have "same_jail s'" using 1(3-6) e t w c j by (simp add: same_jail_def)
    moreover have "the (fst s) = rt" using 1(1) by simp
    ultimately show ?thesis unfolding s' using e(1,4) 1(8,9) by (simp add: t)
  qed
  then show "same_jail (set_jail j s)" "fs_wd (fs_of (set_jail j s)) = fs_wd (fs_of s)"
    "map_at (te_data (the_te (set_jail j s))) ''PWD'' = map_at (te_data (the_te s)) ''PWD''"
    "the (fst (set_jail j s)) = (the (fst s))\<lparr>rt_jail := j\<rparr>" by auto
qed

lemma SetJail_result:
  assumes s: "in_step s" and j: "blank j \<or> is_abs j"
  shows "snd (Runtime_SetJail j s) = set_jail (CleanJail j) s \<or>
    (\<exists>d. clean_abs d \<and> snd (Runtime_SetJail j s) = set_wd d (set_jail (CleanJail j) s))"
proof -
  let ?j = "CleanJail j"
  let ?s1 = "set_jail ?j s"
  have p: "has_parts s" using in_stepD [OF s] by (rule same_jail_parts)
  note f = set_jail_same [OF p CleanJail_value [OF j]]
  have s1: "in_step ?s1" using s f by (simp add: in_step_def)
  have wd: "clean_abs (rt_wd (the (fst ?s1)))" using in_step_wd [OF s1] .
  obtain r where r: "applyWorkingDir (rt_wd (the (fst ?s1))) ?s1 = (r, ?s1) \<and> (\<exists>e. r = Inl e) \<or>
      applyWorkingDir (rt_wd (the (fst ?s1))) ?s1 = (Inr (), set_wd (rt_wd (the (fst ?s1))) ?s1)"
    using applyWorkingDir_cases [OF f(1) wd] by blast
  have r2: "(\<exists>e. applyWorkingDir ''/'' ?s1 = (Inl e, ?s1)) \<or> applyWorkingDir ''/'' ?s1 = (Inr (), set_wd ''/'' ?s1)"
    using applyWorkingDir_cases [OF f(1) clean_abs_root] by blast
  have m: "mod_rt (\<lambda>rt. if blank (rt_wd rt) then rt\<lparr>rt_wd := ''/''\<rparr> else rt) ?s1 = (Inr (), ?s1)"
    using clean_abs_not_blank [OF wd] by (cases "fst ?s1") (auto simp: mod_rt_def modifyS_def prod_eq_iff)
  define K :: "goerr + unit \<Rightarrow> unit rtio" where
    "K = (\<lambda>r. case r of Inr _ \<Rightarrow> ret ()
      | Inl err \<Rightarrow> attempt (applyWorkingDir ''/'') (\<lambda>r2. case r2 of Inl _ \<Rightarrow> fail err | Inr _ \<Rightarrow> ret ()))"
  have e: "Runtime_SetJail j s = attempt (applyWorkingDir (rt_wd (the (fst ?s1)))) K ?s1"
    unfolding Runtime_SetJail_def bindE_assoc [symmetric] K_def [symmetric]
    using Validate_complete [OF in_stepD [OF s]] applyJail_result [OF p, of ?j] m
    by (simp add: bindE_def)
  have d: "\<exists>d. clean_abs d \<and> set_wd ''/'' ?s1 = set_wd d ?s1" using clean_abs_root by blast
  show ?thesis
    using r r2 wd d unfolding e
    by (auto simp: attempt_def ret_def fail_def K_def)
qed

lemma SetJail_in_step:
  assumes s: "in_step s" and j: "blank j \<or> is_abs j"
  shows "in_step (snd (Runtime_SetJail j s)) \<and> Runtime_GetJail (snd (Runtime_SetJail j s)) = CleanJail j"
proof -
  let ?j = "CleanJail j"
  let ?s1 = "set_jail ?j s"
  have p: "has_parts s" using in_stepD [OF s] by (rule same_jail_parts)
  note f = set_jail_same [OF p CleanJail_value [OF j]]
  have s1: "in_step ?s1" using s f by (simp add: in_step_def)
  obtain s1 where eq: "set_jail ?j s = s1" by blast
  obtain rt1 where rt1: "fst s1 = Some rt1" "rt_jail rt1 = ?j"
    using f(1,4) unfolding eq by (cases "fst s1") (auto simp: same_jail_def)
  have g: "Runtime_GetJail ?s1 = ?j" "Runtime_GetJail (set_wd d ?s1) = ?j" for d
    unfolding eq using rt1 by (simp_all add: Runtime_GetJail_def set_wd_def)
  have i: "in_step (set_wd d ?s1)" if "clean_abs d" for d using set_wd_in_step [OF f(1) that] .
  show ?thesis using SetJail_result [OF s j] s1 i g by auto
qed

section \<open>NewTestRuntime\<close>

lemma strip_front_suffix: "suffix (strip_front encs s) s"
proof (induction encs s rule: strip_front.induct)
  case (1 encs s)
  show ?case
  proof (cases "find (\<lambda>e. e \<noteq> [] \<and> prefix e s) encs")
    case None
    then show ?thesis by (simp add: strip_front.simps [of encs s])
  next
    case (Some e)
    then have "suffix (strip_front encs (drop (length e) s)) s"
      using 1 suffix_drop suffix_order.trans by blast
    then show ?thesis using Some by (simp add: strip_front.simps [of encs s])
  qed
qed

lemma TrimSpace_is_abs:
  assumes "is_abs p" shows "is_abs (TrimSpace p)"
proof -
  obtain q where p: "p = CHR ''/'' # q" using assms by (cases p) auto
  have "find (\<lambda>e. e \<noteq> [] \<and> prefix e p) space_encodings = None"
    by (simp add: p space_encodings_def)
  then have l: "TrimLeftSpace p = p" by (simp add: TrimLeftSpace_def strip_front.simps)
  have "suffix (strip_front (map rev space_encodings) (rev p)) (rev p)" by (rule strip_front_suffix)
  then have "prefix (TrimSpace p) p" by (simp add: TrimSpace_def l TrimRightSpace_def suffix_to_prefix)
  moreover have "TrimSpace p \<noteq> []" using slash_not_blank [of p] p by simp
  ultimately show ?thesis using p by (cases "TrimSpace p") auto
qed

lemma resolveVirtual_abs_result:
  assumes "resolveVirtual p False (fs, w) = (Inr v, s')" and "is_abs p"
  shows "v = Clean p"
proof -
  have "\<not> blank p" "p \<noteq> ''.''" using assms(2) by (auto simp: blank_abs)
  then show ?thesis
    using assms by (auto simp: resolveVirtual_def bindE_def Let_def split: prod.splits sum.splits if_splits)
qed

lemma NewOsFS_ok:
  assumes "NewOsFS jail wd w = Inr fs" and "is_abs wd"
  shows "fs_jail fs = CleanJail jail \<and> wd_ok fs"
proof -
  let ?fs0 = "OsFS_SetJail jail \<lparr>fs_jail = [], fs_wd = []\<rparr>"
  have t: "is_abs (TrimSpace wd)" using assms(2) by (rule TrimSpace_is_abs)
  then have ne: "TrimSpace wd \<noteq> []" by auto
  obtain v fs1 w1 where r: "resolveVirtual (TrimSpace wd) False (?fs0, w) = (Inr v, (fs1, w1))"
    and fs: "fs = fs1\<lparr>fs_wd := v\<rparr>"
    using assms(1) ne by (auto simp: NewOsFS_def Let_def split: prod.splits sum.splits)
  show ?thesis
    using resolveVirtual_frame [OF r] resolveVirtual_abs_result [OF r t] t clean_abs_Clean fs
    by (simp add: wd_ok_def)
qed

lemma NewTestEnv_fields:
  assumes "home = [] \<or> is_abs home"
  shows "te_jail (NewTestEnv jail home user) = jail"
    "is_abs (map_at (te_data (NewTestEnv jail home user)) ''PWD'')"
proof -
  have "is_abs (Join [''/'', ''home'', u])" for u
    using Join_clean_abs [of "''/''" "''home'' @ CHR ''/'' # u"] by (simp add: Join_def clean_abs_def)
  then show "is_abs (map_at (te_data (NewTestEnv jail home user)) ''PWD'')"
    using assms by (auto simp: NewTestEnv_def Let_def)
  show "te_jail (NewTestEnv jail home user) = jail" by (simp add: NewTestEnv_def Let_def)
qed

text \<open>
  \<open>normalizeState\<close> on a runtime without a working directory: the parts get the jail, and the
  environment's directory is applied to all of them.
\<close>

lemma normalizeState_eq:
  assumes p: "has_parts s" and wd: "rt_wd (the (fst s)) = []"
    and pwd: "is_abs (map_at (te_data (the_te s)) ''PWD'')"
    and j: "(if rt_jail (the (fst s)) = [] then initial_jail s else rt_jail (the (fst s))) = j" "CleanJail j = j"
  obtains s2 where "normalizeState s = applyWorkingDir (Clean (map_at (te_data (the_te s)) ''PWD'')) s2"
    "same_jail s2" "rt_jail (the (fst s2)) = j" "fst s2 \<noteq> None"
    "view s2 = (OsFS_SetJail j (fs_of s), host_of s)"
    "rt_clock (the (fst s2)) = rt_clock (the (fst s))" "s_clks (snd s2) = s_clks (snd s)"
proof -
  let ?pwd = "map_at (te_data (the_te s)) ''PWD''"
  obtain s1 where s1: "set_jail j s = s1" by blast
  note f = set_jail_same [OF p j(2), unfolded s1]
  define s2 where "s2 = (map_option (\<lambda>rt. rt\<lparr>rt_wd := Clean ?pwd\<rparr>) (fst s1), snd s1)"
  have "?pwd \<noteq> []" "\<not> blank ?pwd" using pwd blank_abs by auto
  then have "ask_env Env_Getwd s1 = Inr ?pwd"
    using f(1,3) by (cases "fst s1") (auto simp: ask_env_def Env_Getwd_def same_jail_def TestEnv_Getwd_def)
  then have w: "initial_wd s1 = (Inr (), s2)"
    using \<open>\<not> blank ?pwd\<close> by (simp add: initial_wd_def mod_rt_def modifyS_def s2_def)
  have c: "clean_abs (Clean ?pwd)" using pwd by (rule clean_abs_Clean)
  obtain rt1 where rt1: "fst s1 = Some rt1" using f(1) by (cases "fst s1") (auto simp: same_jail_def)
  have e: "fs_of s2 = fs_of s1" "env_of s2 = env_of s1" by (simp_all add: s2_def fs_of_def env_of_def rt1)
  then have "the_te s2 = the_te s1" by (simp add: the_te_def)
  then have s2: "same_jail s2" using f(1) e
    by (simp add: same_jail_def rt1 complete_def) (simp add: s2_def rt1 complete_def)
  have rt2: "the (fst s2) = (the (fst s))\<lparr>rt_jail := j, rt_wd := Clean ?pwd\<rparr>"
    using f(4) rt1 by (simp add: s2_def)
  obtain rt a b where rt: "fst s = Some rt" "rt_env rt = Some a" "rt_fs rt = Some b"
    using p by (cases "fst s") (auto simp: has_parts_def complete_def)
  have n: "normalizeState s = applyWorkingDir (rt_wd (the (fst s2))) s2"
  proof -
    have j': "(if rt_jail rt = [] then initial_jail s else rt_jail rt) = j"
      using j(1) unfolding rt(1) option.sel .
    have b: "blank (rt_wd rt)" using wd rt by simp
    have "normalizeState s = bindE (mod_rt (\<lambda>rt. rt\<lparr>rt_jail := j\<rparr>)) (\<lambda>_. bindE (applyJail j) (\<lambda>_.
        bindE initial_wd (\<lambda>_ s. applyWorkingDir (rt_wd (the (fst s))) s))) s"
      using rt by (simp add: normalizeState_def Let_def j' b del: if_split)
    then show ?thesis
      unfolding bindE_assoc [symmetric] using applyJail_result [OF p, of j] s1 w by (simp add: bindE_def)
  qed
  then have n2: "normalizeState s = applyWorkingDir (Clean ?pwd) s2" using rt2 by simp
  have v: "view s2 = (OsFS_SetJail j (fs_of s), host_of s)"
    using p
  proof (cases rule: has_partsE)
    case (1 rt' y i k te)
    have k: "rt_fs rt1 = Some k" using f(4) rt1 1(1,4) by simp
    have "fs_of s1 = OsFS_SetJail j (fs_of s)" "host_of s1 = host_of s"
      using rt1 k 1(1,4,6,9) unfolding s1 [symmetric]
      by (simp_all add: set_jail_def fs_of_def host_of_def)
    then show ?thesis using e(1) by (simp add: view_def) (simp add: s2_def host_of_def)
  qed
  have "rt_jail (the (fst s2)) = j" "fst s2 \<noteq> None" "rt_clock (the (fst s2)) = rt_clock (the (fst s))"
    using rt2 by (simp, simp add: s2_def rt1, simp)
  moreover have "s_clks (snd s2) = s_clks (snd s)"
    unfolding s2_def snd_conv s1 [symmetric] by (simp add: set_jail_def)
  ultimately show ?thesis using that [OF n2 s2 _ _ v] by blast
qed

text \<open>
  Options that only set dependencies: \<open>f\<close> says which clock they leave. \<open>NewTestRuntime\<close> applies them
  after its own.
\<close>

definition deps_only :: "(sclock option \<Rightarrow> sclock option) \<Rightarrow> (runtime \<Rightarrow> goerr + runtime) option list \<Rightarrow> bool" where
  "deps_only f opts \<longleftrightarrow> (\<forall>rt. complete rt \<longrightarrow> (\<exists>rt1. apply_opts opts rt = Inr rt1 \<and> complete rt1 \<and>
     rt_env rt1 = rt_env rt \<and> rt_fs rt1 = rt_fs rt \<and> rt_jail rt1 = rt_jail rt \<and> rt_wd rt1 = rt_wd rt \<and>
     rt_clock rt1 = f (rt_clock rt)))"

lemma deps_only_Nil: "deps_only (\<lambda>c. c) []"
  by (simp add: deps_only_def)

lemma apply_opts_append:
  "apply_opts (xs @ ys) rt = (case apply_opts xs rt of Inl e \<Rightarrow> Inl e | Inr rt1 \<Rightarrow> apply_opts ys rt1)"
proof (induction xs arbitrary: rt)
  case (Cons x xs)
  then show ?case by (cases x) (auto split: sum.split)
qed simp

text \<open>The state in which \<open>NewTestRuntime\<close> normalises the runtime it has built.\<close>

lemma NewTestRuntime_shape:
  assumes fs: "NewOsFS jail (map_at (te_data (NewTestEnv jail home user)) ''PWD'') (p_host (s_proc y)) = Inr fs"
    and jail: "blank jail \<or> is_abs jail" and home: "home = [] \<or> is_abs home" and opts: "deps_only f opts"
  obtains s2 where "same_jail s2" "rt_jail (the (fst s2)) = CleanJail jail" "fst s2 \<noteq> None"
    "view s2 = (OsFS_SetJail (CleanJail jail) fs, p_host (s_proc y))"
    "NewTestRuntime jail home user opts y =
      (case bindE (applyWorkingDir (Clean (map_at (te_data (NewTestEnv jail home user)) ''PWD''))) (\<lambda>_. Validate) s2 of
         (Inl err, s) \<Rightarrow> (Inl err, snd s) | (Inr _, s) \<Rightarrow> (Inr (the (fst s)), snd s))"
    "rt_clock (the (fst s2)) = f (Some (Sched (TestClockV (length (s_clks y)))))"
    "s_clks (snd s2) = s_clks y @ [NewTestClock test_epoch]"
proof -
  let ?te = "NewTestEnv jail home user"
  let ?pwd = "map_at (te_data ?te) ''PWD''"
  note te = NewTestEnv_fields [OF home]
  have g: "TestEnv_Getwd ?te = Inr ?pwd" using te(2) [of jail user] by (auto simp: TestEnv_Getwd_def)
  have fsok: "fs_jail fs = CleanJail jail" "wd_ok fs" using NewOsFS_ok [OF fs te(2)] by auto
  let ?ne = "length (s_envs y)" and ?nf = "length (s_fss y)"
  let ?y1 = "y\<lparr>s_envs := s_envs y @ [TestEnvV ?te, OsEnvV \<lparr>o_jail = []\<rparr>],
      s_fss := s_fss y @ [fs, \<lparr>fs_jail = [], fs_wd = []\<rparr>],
      s_clks := s_clks y @ [NewTestClock test_epoch],
      s_streams := s_streams y @ [DefaultStream y, DefaultStream y]\<rparr>"
  let ?rt0 = "\<lparr>rt_env = Some ?ne, rt_fs = Some ?nf,
      rt_clock = Some (ToSchedulingClock (TestClockV (length (s_clks y)))),
      rt_logger = Some DiscardLogger, rt_stream = Some (length (s_streams y)), rt_hasher = Some MD5Hasher,
      rt_process = None, rt_jail = CleanJail jail, rt_wd = []\<rparr>"
  have "complete ?rt0" by (simp add: complete_def)
  then obtain rt1 where rt1': "apply_opts opts ?rt0 = Inr rt1" "complete rt1" "rt_env rt1 = rt_env ?rt0"
    "rt_fs rt1 = rt_fs ?rt0" "rt_jail rt1 = rt_jail ?rt0" "rt_wd rt1 = rt_wd ?rt0"
    "rt_clock rt1 = f (rt_clock ?rt0)"
    using opts unfolding deps_only_def by blast
  then have rt1: "apply_opts opts ?rt0 = Inr rt1" "complete rt1" "rt_env rt1 = Some ?ne"
    "rt_fs rt1 = Some ?nf" "rt_jail rt1 = CleanJail jail" "rt_wd rt1 = []"
    "rt_clock rt1 = f (Some (ToSchedulingClock (TestClockV (length (s_clks y)))))" by simp_all
  let ?s = "(Some rt1, ?y1)"
  have n: "NewTestRuntime jail home user opts y = (case bindE normalizeState (\<lambda>_. Validate) ?s of
      (Inl err, s) \<Rightarrow> (Inl err, snd s) | (Inr _, s) \<Rightarrow> (Inr (the (fst s)), snd s))"
    using fs g rt1(1)
    by (cases y) (simp add: NewTestRuntime_def NewRuntime_def new_env_def new_fs_def new_clk_def
        new_stream_def Let_def WithRuntimeEnv_def WithRuntimeFileSystem_def WithRuntimeClock_def
        WithRuntimeLogger_def WithRuntimeStream_def WithRuntimeHasher_def WithRuntimeJail_def set_dep_def
        DefaultStream_def apply_opts_append)
  obtain s where s: "s = ?s" by blast
  have e: "fs_of s = fs" "env_of s = TestEnvV ?te" "host_of s = p_host (s_proc y)" "fst s = Some rt1"
    by (simp_all add: s fs_of_def env_of_def host_of_def nth_append rt1)
  then have t: "the_te s = ?te" by (simp add: the_te_def)
  have p: "has_parts s"
    using e fsok t rt1 by (simp add: has_parts_def) (simp add: s)
  have j: "(if rt_jail (the (fst s)) = [] then initial_jail s else rt_jail (the (fst s))) = CleanJail jail"
    using fsok e te(1) [of jail user] rt1
    by (auto simp: initial_jail_def ask_env_def Env_GetJail_def TestEnv_GetJail_def OsFS_GetJail_def)
  have pwd: "is_abs (map_at (te_data (the_te s)) ''PWD'')" using te(2) t by simp
  have wd: "rt_wd (the (fst s)) = []" using e rt1 by simp
  obtain s2 where s2: "normalizeState s = applyWorkingDir (Clean (map_at (te_data (the_te s)) ''PWD'')) s2"
    "same_jail s2" "rt_jail (the (fst s2)) = CleanJail jail" "fst s2 \<noteq> None"
    "view s2 = (OsFS_SetJail (CleanJail jail) (fs_of s), host_of s)"
    "rt_clock (the (fst s2)) = rt_clock (the (fst s))" "s_clks (snd s2) = s_clks (snd s)"
    using normalizeState_eq [OF p wd pwd j CleanJail_value [OF jail]] by blast
  have c: "s_clks (snd s2) = s_clks y @ [NewTestClock test_epoch]"
    "rt_clock (the (fst s2)) = f (Some (Sched (TestClockV (length (s_clks y)))))"
    using s2(6,7) e(4) rt1(7) by (simp_all add: s ToSchedulingClock_def)
  show ?thesis
    by (rule that [OF s2(2-4) _ _ c(2,1)]) (use s2(1,5) e t n s in \<open>simp_all add: bindE_def\<close>)
qed

lemma NewTestRuntime_in_step:
  assumes n: "NewTestRuntime jail home user opts y = (Inr rt, y')"
    and jail: "blank jail \<or> is_abs jail" and home: "home = [] \<or> is_abs home" and opts: "deps_only f opts"
  shows "in_step (Some rt, y') \<and> rt_jail rt = CleanJail jail \<and>
    rt_wd rt = Clean (map_at (te_data (NewTestEnv jail home user)) ''PWD'') \<and>
    rt_clock rt = f (Some (Sched (TestClockV (length (s_clks y))))) \<and>
    s_clks y' = s_clks y @ [NewTestClock test_epoch]"
proof -
  let ?pwd = "map_at (te_data (NewTestEnv jail home user)) ''PWD''"
  have pwd: "is_abs ?pwd" using NewTestEnv_fields [OF home] by simp
  then have g: "TestEnv_Getwd (NewTestEnv jail home user) = Inr ?pwd" by (auto simp: TestEnv_Getwd_def)
  obtain fs where fs: "NewOsFS jail ?pwd (p_host (s_proc y)) = Inr fs"
    using n by (cases "NewOsFS jail ?pwd (p_host (s_proc y))") (simp_all add: NewTestRuntime_def Let_def g)
  obtain s2 where s2: "same_jail s2" "rt_jail (the (fst s2)) = CleanJail jail" "fst s2 \<noteq> None"
    "view s2 = (OsFS_SetJail (CleanJail jail) fs, p_host (s_proc y))"
    and e: "NewTestRuntime jail home user opts y =
      (case bindE (applyWorkingDir (Clean ?pwd)) (\<lambda>_. Validate) s2 of
         (Inl err, s) \<Rightarrow> (Inl err, snd s) | (Inr _, s) \<Rightarrow> (Inr (the (fst s)), snd s))"
    and k: "rt_clock (the (fst s2)) = f (Some (Sched (TestClockV (length (s_clks y)))))"
      "s_clks (snd s2) = s_clks y @ [NewTestClock test_epoch]"
    by (rule NewTestRuntime_shape [OF fs jail home opts])
  have c: "clean_abs (Clean ?pwd)" using pwd by (rule clean_abs_Clean)
  obtain S where S: "S = set_wd (Clean ?pwd) s2" by blast
  have i: "in_step S" unfolding S using set_wd_in_step [OF s2(1) c] .
  have f: "fst S \<noteq> None" "rt_jail (the (fst S)) = CleanJail jail" "rt_wd (the (fst S)) = Clean ?pwd"
    "rt_clock (the (fst S)) = rt_clock (the (fst s2))" "s_clks (snd S) = s_clks (snd s2)"
    unfolding S using s2(2,3) by (auto simp: set_wd_def)
  have "applyWorkingDir (Clean ?pwd) s2 = (Inr (), S)"
    using n applyWorkingDir_cases [OF s2(1) c] unfolding e S by (auto simp: bindE_def)
  then have "rt = the (fst S)" "y' = snd S"
    using n Validate_complete [OF in_stepD [OF i]] unfolding e by (simp_all add: bindE_def)
  then have "(Some rt, y') = S" using f(1) by (simp add: prod_eq_iff)
  then show ?thesis using i f k by auto
qed

lemma NewTestRuntime_ok:
  assumes fs: "NewOsFS jail (map_at (te_data (NewTestEnv jail home user)) ''PWD'') (p_host (s_proc y)) = Inr fs"
    and jail: "blank jail \<or> is_abs jail" and home: "home = [] \<or> is_abs home"
    and wd: "fst (OsFS_Setwd (Clean (map_at (te_data (NewTestEnv jail home user)) ''PWD''))
      (OsFS_SetJail (CleanJail jail) fs, p_host (s_proc y))) = Inr ()"
    and opts: "deps_only f opts"
  shows "\<exists>rt y'. NewTestRuntime jail home user opts y = (Inr rt, y')"
proof -
  let ?pwd = "map_at (te_data (NewTestEnv jail home user)) ''PWD''"
  have c: "clean_abs (Clean ?pwd)" using NewTestEnv_fields [OF home] clean_abs_Clean by blast
  obtain s2 where s2: "same_jail s2" "rt_jail (the (fst s2)) = CleanJail jail" "fst s2 \<noteq> None"
    "view s2 = (OsFS_SetJail (CleanJail jail) fs, p_host (s_proc y))"
    and e: "NewTestRuntime jail home user opts y =
      (case bindE (applyWorkingDir (Clean ?pwd)) (\<lambda>_. Validate) s2 of
         (Inl err, s) \<Rightarrow> (Inl err, snd s) | (Inr _, s) \<Rightarrow> (Inr (the (fst s)), snd s))"
    and k: "rt_clock (the (fst s2)) = f (Some (Sched (TestClockV (length (s_clks y)))))"
      "s_clks (snd s2) = s_clks y @ [NewTestClock test_epoch]"
    by (rule NewTestRuntime_shape [OF fs jail home opts])
  have "applyWorkingDir (Clean ?pwd) s2 = (Inr (), set_wd (Clean ?pwd) s2)"
    using applyWorkingDir_cases [OF s2(1) c] wd s2(4) by auto
  then show ?thesis
    unfolding e using Validate_complete [OF in_stepD [OF set_wd_in_step [OF s2(1) c]]] by (simp add: bindE_def)
qed

end
