(* ===== verification/Runtime_Props.thy ===== *)
theory Runtime_Props
  imports Runtime_New OsFS_Props
begin

text \<open>The properties of \<open>Runtime\<close>, with concrete instances.\<close>

section \<open>A runtime on the small host\<close>

definition demo_proc :: proc where
  "demo_proc = \<lparr>p_host = demo_world, p_vars = [], p_account = Inr (''ann'', ''Ann'')\<rparr>"

definition demo_sys0 :: sys where
  "demo_sys0 = \<lparr>s_proc = demo_proc, s_envs = [], s_fss = [], s_streams = [], s_clks = [],
     stdin_mode = Inr 0, stdout_term = False\<rparr>"

definition demo_rt :: runtime where
  "demo_rt = \<lparr>rt_env = Some 0, rt_fs = Some 0, rt_clock = Some (Sched OsClockV), rt_logger = Some DiscardLogger,
     rt_stream = Some 0, rt_hasher = Some MD5Hasher, rt_process = None, rt_jail = ''/srv/jail'', rt_wd = ''/d''\<rparr>"

definition demo_env :: testenv where
  "demo_env = put_data ''PWD'' ''/d'' (TestEnv_SetJail ''/srv/jail'' (NewTestEnv ''/srv/jail'' ''/home/ann'' ''ann''))"

definition demo_rts :: rts where
  "demo_rts = (Some demo_rt, demo_sys0\<lparr>s_envs := [TestEnvV demo_env], s_fss := [demo_fs],
     s_streams := [DefaultStream demo_sys0]\<rparr>)"

lemma demo_in_step: "in_step demo_rts"
proof -
  have f: "fst demo_rts = Some demo_rt" "fs_of demo_rts = demo_fs" "env_of demo_rts = TestEnvV demo_env"
    by (simp_all add: demo_rts_def fs_of_def env_of_def demo_rt_def)
  have t: "the_te demo_rts = demo_env" by (simp add: the_te_def f)
  have l: "length (s_envs (snd demo_rts)) = 1" "length (s_fss (snd demo_rts)) = 1"
    by (simp_all add: demo_rts_def)
  have w: "wd_ok demo_fs" by (simp add: wd_ok_def) code_simp
  have c: "complete demo_rt" by (simp add: complete_def demo_rt_def)
  have e: "te_jail demo_env = ''/srv/jail''" "map_at (te_data demo_env) ''PWD'' = ''/d''" by code_simp+
  show ?thesis by (simp add: in_step_def same_jail_def f t l w c e) (simp add: demo_rt_def demo_fs_def)
qed

lemma demo_host: "host_of demo_rts = demo_world"
  by (simp add: demo_rts_def host_of_def demo_sys0_def demo_proc_def)

lemma demo_view: "view demo_rts = (demo_fs, demo_world)"
  by (simp add: view_def demo_host) (simp add: demo_rts_def fs_of_def demo_rt_def)

section \<open>One jail and one working directory\<close>

text \<open>The four setters of dependencies; each refuses a nil value.\<close>

datatype rtdep = DClock "gclock option" | DLogger "logger option" | DStream "nat option" | DHasher "hasher option"

fun set_dependency :: "rtdep \<Rightarrow> unit rtio" where
  "set_dependency (DClock c) = Runtime_SetClock c"
| "set_dependency (DLogger l) = Runtime_SetLogger l"
| "set_dependency (DStream st) = Runtime_SetStream st"
| "set_dependency (DHasher h) = Runtime_SetHasher h"

text \<open>
  Any sequence of methods - on files, directories, variables, home, user, jail and dependencies -, but
  for unsetting \<open>PWD\<close>; a new jail is blank or absolute.
\<close>

inductive rt_run :: "rts \<Rightarrow> rts \<Rightarrow> bool" where
  run_refl: "rt_run s s"
| run_step: "rt_run s t \<Longrightarrow> op \<noteq> RUnset ''PWD'' \<Longrightarrow>
    (\<And>j. op = RSetJail j \<Longrightarrow> blank j \<or> is_abs j) \<Longrightarrow> rt_run s (run_rt op t)"
| run_dep: "rt_run s t \<Longrightarrow> rt_run s (snd (set_dependency d t))"

text \<open>The receiver keeps its pointers to environment and file system, and no other environment changes.\<close>

definition keeps_env :: "rts \<Rightarrow> rts \<Rightarrow> bool" where
  "keeps_env s s' \<longleftrightarrow>
     rt_env (the (fst s')) = rt_env (the (fst s)) \<and> rt_fs (the (fst s')) = rt_fs (the (fst s)) \<and>
     (\<forall>i. i \<noteq> the (rt_env (the (fst s))) \<longrightarrow> s_envs (snd s') ! i = s_envs (snd s) ! i)"

lemma keeps_env_refl [simp]: "keeps_env s s"
  by (simp add: keeps_env_def)

lemma keeps_env_trans: "keeps_env s t \<Longrightarrow> keeps_env t u \<Longrightarrow> keeps_env s u"
  by (simp add: keeps_env_def)

lemma own_keeps_env: "own_env s t \<Longrightarrow> keeps_env s t"
  by (simp add: own_env_def keeps_env_def)

lemma set_dependency_result:
  assumes "fst s = Some rt" and "complete rt"
  shows "\<exists>rt1. snd (set_dependency d s) = (Some rt1, snd s) \<and> complete rt1 \<and> rt_env rt1 = rt_env rt \<and>
    rt_fs rt1 = rt_fs rt \<and> rt_jail rt1 = rt_jail rt \<and> rt_wd rt1 = rt_wd rt \<and>
    ((\<forall>c. d \<noteq> DClock c) \<longrightarrow> rt_clock rt1 = rt_clock rt)"
proof -
  have "s = (Some rt, snd s)" using assms(1) by (simp add: prod_eq_iff)
  then show ?thesis
    using assms
    by (cases d) (auto simp: Runtime_SetClock_def Runtime_SetLogger_def Runtime_SetStream_def Runtime_SetHasher_def
        with_rt_def set_dep_def WithRuntimeClock_def WithRuntimeLogger_def WithRuntimeStream_def
        WithRuntimeHasher_def complete_def split: option.splits)
qed

lemma set_dependency_in_step:
  assumes s: "in_step s" and s': "s' = snd (set_dependency d s)"
  shows "in_step s'" "keeps_env s s'" "view s' = view s" "(\<And>c. d \<noteq> DClock c) \<Longrightarrow> own_env s s'"
proof -
  obtain rt where rt: "fst s = Some rt" "complete rt"
    using s by (cases "fst s") (auto simp: in_step_def same_jail_def)
  obtain rt1 where r: "s' = (Some rt1, snd s)" "complete rt1" "rt_env rt1 = rt_env rt"
    "rt_fs rt1 = rt_fs rt" "rt_jail rt1 = rt_jail rt" "rt_wd rt1 = rt_wd rt"
    "(\<forall>c. d \<noteq> DClock c) \<longrightarrow> rt_clock rt1 = rt_clock rt"
    using set_dependency_result [OF rt, of d] s' by auto
  have f: "fs_of s' = fs_of s" "env_of s' = env_of s" using r(1,3,4) rt(1) by (simp_all add: fs_of_def env_of_def)
  then have "the_te s' = the_te s" by (simp add: the_te_def)
  then show "in_step s'" using s f r rt by (simp add: in_step_def same_jail_def)
  show "keeps_env s s'" using r rt by (simp add: keeps_env_def)
  show "view s' = view s" using f r(1) by (simp add: view_def host_of_def)
  show "(\<And>c. d \<noteq> DClock c) \<Longrightarrow> own_env s s'" using r rt by (simp add: own_env_def)
qed

lemma own_env_SetJail:
  assumes "in_step s" and "blank j \<or> is_abs j"
  shows "own_env s (snd (Runtime_SetJail j s))"
proof -
  let ?s1 = "set_jail (CleanJail j) s"
  have p: "has_parts s" using in_stepD [OF assms(1)] by (rule same_jail_parts)
  note f = set_jail_same [OF p CleanJail_value [OF assms(2)]]
  have i1: "in_step ?s1" using assms(1) f by (simp add: in_step_def)
  have o1: "own_env s ?s1" using p by (cases "fst s") (auto simp: own_env_def set_jail_def has_parts_def)
  have "own_env ?s1 t" if "t = ?s1 \<or> t = set_wd d ?s1" for t d
    using that own_env_set_wd [OF i1] by auto
  then have o: "own_env s t" if "t = ?s1 \<or> (\<exists>d. t = set_wd d ?s1)" for t
    using that own_env_trans [OF o1] by blast
  then show ?thesis using SetJail_result [OF assms] by blast
qed

lemma rt_step_in_step:
  assumes s: "in_step s" and op: "op \<noteq> RUnset ''PWD''" "\<And>j. op = RSetJail j \<Longrightarrow> blank j \<or> is_abs j"
  shows "in_step (run_rt op s) \<and> own_env s (run_rt op s)"
proof (cases "\<exists>j. op = RSetJail j")
  case True
  then show ?thesis using op(2) SetJail_in_step [OF s] own_env_SetJail [OF s] by auto
next
  case False
  then show ?thesis using run_rt_tame [OF s, of False "[]" op] op(1) by (auto simp: tame_def)
qed

lemma rt_run_in_step: "rt_run s t \<Longrightarrow> in_step s \<Longrightarrow> in_step t \<and> keeps_env s t"
proof (induction rule: rt_run.induct)
  case (run_step s t op)
  then have "in_step (run_rt op t) \<and> own_env t (run_rt op t)" by (intro rt_step_in_step) auto
  then show ?case using run_step keeps_env_trans own_keeps_env by blast
next
  case (run_dep s t d)
  then show ?case using set_dependency_in_step(1,2) [OF _ refl] keeps_env_trans by blast
qed simp

text \<open>
  C26. A runtime made by \<open>NewTestRuntime\<close> (with a blank or absolute jail, an absolute home directory
  and options that set only clock, logger, stream or hasher) starts in the home directory. After any
  sequence of its methods, successful or not, the runtime, its environment and its file system agree
  on the jail and on the working directory, a clean absolute path. The methods are those on files,
  directories, variables, home, user, jail and dependencies; left out are \<open>SetJail\<close> of a relative path
  and \<open>Unset("PWD")\<close>, which takes \<open>PWD\<close> from the environment alone.
\<close>

theorem runtime_in_step:
  assumes "NewTestRuntime jail home user opts y = (Inr rt, y')" and "deps_only f opts"
    and "blank jail \<or> is_abs jail" and "is_abs home" and "rt_run (Some rt, y') t"
  shows "rt_jail rt = CleanJail jail \<and> rt_wd rt = Clean home \<and>
    (\<exists>rt' te. fst t = Some rt' \<and> env_of t = TestEnvV te \<and>
      fs_jail (fs_of t) = rt_jail rt' \<and> te_jail te = rt_jail rt' \<and>
      fs_wd (fs_of t) = rt_wd rt' \<and> TestEnv_Getwd te = Inr (rt_wd rt') \<and> clean_abs (rt_wd rt'))"
proof -
  have h: "home \<noteq> []" using assms(4) by auto
  have n: "in_step (Some rt, y')" "rt_jail rt = CleanJail jail"
    "rt_wd rt = Clean (map_at (te_data (NewTestEnv jail home user)) ''PWD'')"
    using NewTestRuntime_in_step [OF assms(1,3) _ assms(2)] assms(4) by auto
  have "map_at (te_data (NewTestEnv jail home user)) ''PWD'' = home" using h by (simp add: NewTestEnv_def Let_def)
  moreover have t: "in_step t" using rt_run_in_step [OF assms(5) n(1)] by blast
  moreover obtain rt' where "fst t = Some rt'" using t by (cases "fst t") (auto simp: in_step_def same_jail_def)
  ultimately show ?thesis
    using n(2,3) in_step_wd [OF t] clean_abs_not_blank [OF in_step_wd [OF t]]
    by (auto simp: in_step_def same_jail_def TestEnv_Getwd_def)
qed

text \<open>Unsetting \<open>PWD\<close> leaves runtime and file system where they were and the environment without a directory.\<close>

lemma unset_pwd_out_of_step:
  "let s = run_rt (RUnset ''PWD'') demo_rts
   in fst (Runtime_Getwd s) = Inr ''/d'' \<and> Runtime_Get ''PWD'' s = [] \<and> \<not> in_step s"
proof -
  have "fst (Runtime_Getwd (run_rt (RUnset ''PWD'') demo_rts)) = Inr ''/d''"
    "Runtime_Get ''PWD'' (run_rt (RUnset ''PWD'') demo_rts) = []"
    "map_at (te_data (the_te (run_rt (RUnset ''PWD'') demo_rts))) ''PWD'' = []"
    "rt_wd (the (fst (run_rt (RUnset ''PWD'') demo_rts))) = ''/d''"
    by code_simp+
  then show ?thesis by (simp add: in_step_def)
qed

lemma demo_new: "\<exists>rt y'. NewTestRuntime ''/srv/jail'' ''/d'' ''ann'' [] demo_sys0 = (Inr rt, y')"
proof (rule NewTestRuntime_ok)
  show "NewOsFS ''/srv/jail'' (map_at (te_data (NewTestEnv ''/srv/jail'' ''/d'' ''ann'')) ''PWD'')
      (p_host (s_proc demo_sys0)) = Inr demo_fs" by code_simp
  show "fst (OsFS_Setwd (Clean (map_at (te_data (NewTestEnv ''/srv/jail'' ''/d'' ''ann'')) ''PWD''))
      (OsFS_SetJail (CleanJail ''/srv/jail'') demo_fs, p_host (s_proc demo_sys0))) = Inr ()" by code_simp
qed (simp_all, rule deps_only_Nil)

theorem runtime_in_step_witness:
  "\<exists>rt y'. NewTestRuntime ''/srv/jail'' ''/d'' ''ann'' [] demo_sys0 = (Inr rt, y') \<and>
    fs_jail (fs_of (run_rt (RSetJail ''/mnt'') (Some rt, y'))) =
      Runtime_GetJail (run_rt (RSetJail ''/mnt'') (Some rt, y'))"
proof -
  obtain rt y' where n: "NewTestRuntime ''/srv/jail'' ''/d'' ''ann'' [] demo_sys0 = (Inr rt, y')"
    using demo_new by blast
  obtain t where t: "run_rt (RSetJail ''/mnt'') (Some rt, y') = t" by blast
  have "rt_run (Some rt, y') t" unfolding t [symmetric] by (rule run_step [OF run_refl]) auto
  then obtain rt' where "fst t = Some rt'" "fs_jail (fs_of t) = rt_jail rt'"
    using runtime_in_step [OF n deps_only_Nil] by (metis is_abs_Cons)
  then show ?thesis using n t by (auto simp: Runtime_GetJail_def)
qed

section \<open>Confinement\<close>

text \<open>A run that keeps the jail and spares its root directory.\<close>

inductive rt_jailed_run :: "string list \<Rightarrow> rts \<Rightarrow> rts \<Rightarrow> bool" for J where
  jrun_refl: "rt_jailed_run J s s"
| jrun_step: "rt_jailed_run J s t \<Longrightarrow> op \<noteq> RUnset ''PWD'' \<Longrightarrow> rt_spares J op t \<Longrightarrow>
    rt_jailed_run J s (run_rt op t)"
| jrun_dep: "rt_jailed_run J s t \<Longrightarrow> rt_jailed_run J s (snd (set_dependency d t))"

lemma rt_jailed_run_frame:
  "rt_jailed_run J s t \<Longrightarrow> in_step s \<Longrightarrow> in_step t \<and> fs_reach J (view s) (view t)"
proof (induction rule: rt_jailed_run.induct)
  case (jrun_step s t op)
  have "op \<noteq> RSetJail j" for j using jrun_step.hyps(3) by auto
  then have "tame True J t (run_rt op t)"
    using run_rt_tame [of t True J op] jrun_step by blast
  then show ?case using jrun_step fs_reach_trans by (simp add: tame_def) blast
next
  case (jrun_dep s t d)
  then show ?case using set_dependency_in_step(1,3) [OF _ refl] by simp
qed (simp add: fs_refl)

text \<open>
  C27. The jail holds through the runtime, for a runtime on a test environment, in step with it and
  with its file system, whose jail is a real directory of the host, spelled without links: whatever methods run, with
  whatever paths, variables and tildes, no location of the host outside the jail directory changes,
  and the runtime's jail stays what it was. Left out are \<open>SetJail\<close>, removing or atomically writing the
  jail's root itself, and \<open>Unset("PWD")\<close>.
\<close>

theorem runtime_confined:
  assumes "in_step s" and "jailed_host J (view s)" and "rt_jailed_run J s t" and "\<not> prefix J cs"
  shows "node (nodes (host_of t)) cs = node (nodes (host_of s)) cs \<and> Runtime_GetJail t = abs_path J"
proof -
  have r: "in_step t" "fs_reach J (view s) (view t)" using rt_jailed_run_frame [OF assms(3,1)] by auto
  have f: "op_frame J (view s) (view t)" "jailed_host J (view t)" using fs_reach_frame [OF r(2) assms(2)] by auto
  have "node (nodes (host_of t)) cs = node (nodes (host_of s)) cs"
    using f(1) assms(4) by (simp add: op_frame_def confined_def view_def)
  moreover have "Runtime_GetJail t = abs_path J"
    using r(1) f(2) by (cases "fst t")
      (auto simp: in_step_def same_jail_def Runtime_GetJail_def jailed_host_def view_def)
  ultimately show ?thesis by simp
qed

theorem runtime_confined_witness:
  "node (nodes (host_of (run_rt (RFs (FWriteFile ''../../$X/new'' ''b'' 0x1A4)) demo_rts))) [''etc''] =
    node (nodes (host_of demo_rts)) [''etc'']"
proof -
  have "jailed_host demo_J (view demo_rts)" unfolding demo_view by (rule demo_jail)
  moreover have "rt_jailed_run demo_J demo_rts (run_rt (RFs (FWriteFile ''../../$X/new'' ''b'' 0x1A4)) demo_rts)"
    by (rule jrun_step [OF jrun_refl]) simp_all
  moreover have "\<not> prefix demo_J [''etc'']" by (simp add: demo_J_def)
  ultimately show ?thesis using runtime_confined [OF demo_in_step] by blast
qed

section \<open>Clones\<close>

lemma Clone_result:
  assumes "in_step (Some rt, y)" and "Runtime_Clone (Some rt) y = (Some rt', y')"
  shows "in_step (Some rt', y')" "rt_env rt' = Some (length (s_envs y))" "rt_fs rt' = rt_fs rt"
    "rt_jail rt' = rt_jail rt" "rt_wd rt' = rt_wd rt" "s_fss y' = s_fss y" "s_proc y' = s_proc y"
    "s_envs y' = s_envs y @ [TestEnvV (the_te (Some rt, y))]" "env_of (Some rt, y') = env_of (Some rt, y)"
proof -
  obtain i j where e: "rt_env rt = Some i" "rt_fs rt = Some j" "i < length (s_envs y)" "j < length (s_fss y)"
    "s_envs y ! i = TestEnvV (the_te (Some rt, y))" "fs_of (Some rt, y) = s_fss y ! j"
    "complete rt"
    using in_stepD [OF assms(1)] by (elim same_jailE) auto
  obtain st where st: "rt_stream rt = Some st" using e(7) by (auto simp: complete_def)
  obtain te where te: "the_te (Some rt, y) = te" by blast
  have c: "rt' = rt\<lparr>rt_env := Some (length (s_envs y)), rt_stream := Some (length (s_streams y))\<rparr> \<and>
    y' = y\<lparr>s_envs := s_envs y @ [TestEnvV te], s_streams := s_streams y @ [s_streams y ! st]\<rparr>"
    using assms(2) e(1,5) st te
    by (auto simp: Runtime_Clone_def new_env_def new_stream_def Let_def Env_CloneEnv_def TestEnv_Clone_def)
  then show "rt_env rt' = Some (length (s_envs y))" "rt_fs rt' = rt_fs rt"
    "rt_jail rt' = rt_jail rt" "rt_wd rt' = rt_wd rt" "s_fss y' = s_fss y" "s_proc y' = s_proc y"
    "s_envs y' = s_envs y @ [TestEnvV (the_te (Some rt, y))]" by (simp_all add: te)
  show "env_of (Some rt, y') = env_of (Some rt, y)" using c e(1,3) by (simp add: env_of_def nth_append)
  obtain s where s: "(Some rt', y') = s" by blast
  have f: "fst s = Some rt'" "fs_of s = s_fss y ! j" "env_of s = TestEnvV te" "length (s_envs (snd s)) = Suc (length (s_envs y))"
    "s_fss (snd s) = s_fss y"
    using c e(2) unfolding s [symmetric] by (simp_all add: fs_of_def env_of_def)
  then have "the_te s = te" by (simp add: the_te_def)
  moreover have "complete rt'" using c e(7) by (simp add: complete_def)
  moreover have "fs_jail (s_fss y ! j) = rt_jail rt" "wd_ok (s_fss y ! j)" "te_jail te = rt_jail rt"
    "fs_wd (s_fss y ! j) = rt_wd rt" "map_at (te_data te) ''PWD'' = rt_wd rt"
    using assms(1) e(6) te by (simp_all add: in_step_def same_jail_def)
  ultimately have "in_step s" using f e(2,4) c by (simp add: in_step_def same_jail_def)
  then show "in_step (Some rt', y')" using s by simp
qed

lemma Clone_exists:
  "in_step (Some rt, y) \<Longrightarrow> \<exists>rt' y'. Runtime_Clone (Some rt) y = (Some rt', y')"
  by (auto simp: Runtime_Clone_def split: option.split prod.split)

text \<open>
  C28. A clone of a runtime on a test environment has an environment of its own: it starts as a copy,
  in step with the clone's jail and directory, and nothing a sequence of methods does through the
  clone (but for \<open>Unset("PWD")\<close> and \<open>SetJail\<close> of a relative path) changes the environment of the
  original or takes the clone's own out of step. (On an \<open>OsEnv\<close> both would use the process environment.)
\<close>

theorem runtime_clone_env:
  assumes "in_step (Some rt, y)" and "Runtime_Clone (Some rt) y = (Some rt', y')"
    and "rt_run (Some rt', y') t"
  shows "env_of (Some rt', y') = env_of (Some rt, y) \<and> in_step t \<and>
    env_of (Some rt, snd t) = env_of (Some rt, y)"
proof -
  note c = Clone_result [OF assms(1,2)]
  have e: "env_of (Some rt, y) = TestEnvV (the_te (Some rt, y))" "the (rt_env rt) < length (s_envs y)"
    using assms(1) by (simp_all add: in_step_def same_jail_def)
  have t: "in_step t" "keeps_env (Some rt', y') t" using rt_run_in_step [OF assms(3) c(1)] by auto
  have "s_envs (snd t) ! the (rt_env rt) = s_envs y' ! the (rt_env rt)"
    using t(2) c(2) e(2) by (auto simp: keeps_env_def)
  then have "env_of (Some rt, snd t) = env_of (Some rt, y')" by (simp add: env_of_def)
  moreover have "env_of (Some rt', y') = env_of (Some rt, y)" using c(2,8) e(1) by (simp add: env_of_def)
  ultimately show ?thesis using t c(9) by simp
qed

lemma demo_clone: "\<exists>rt' y'. Runtime_Clone (Some demo_rt) (snd demo_rts) = (Some rt', y')"
  using Clone_exists [of demo_rt "snd demo_rts"] demo_in_step by (simp add: demo_rts_def)

theorem runtime_clone_env_witness:
  "\<exists>rt' y'. Runtime_Clone (Some demo_rt) (snd demo_rts) = (Some rt', y') \<and>
    env_of (Some demo_rt, snd (run_rt (RSet ''K'' ''v'') (Some rt', y'))) = env_of demo_rts"
proof -
  obtain rt' y' where c: "Runtime_Clone (Some demo_rt) (snd demo_rts) = (Some rt', y')"
    using demo_clone by blast
  have d: "(Some demo_rt, snd demo_rts) = demo_rts" by (simp add: demo_rts_def)
  have "rt_run (Some rt', y') (run_rt (RSet ''K'' ''v'') (Some rt', y'))" by (rule run_step [OF run_refl]) auto
  then have "env_of (Some demo_rt, snd (run_rt (RSet ''K'' ''v'') (Some rt', y'))) = env_of (Some demo_rt, snd demo_rts)"
    using runtime_clone_env [of demo_rt "snd demo_rts" rt' y'] demo_in_step c d by simp
  then show ?thesis using c d by auto
qed

text \<open>
  C29. The file system is not cloned: clearing the jail of a clone takes the jail off the file system
  of the original, which still reports its jail; from then on the original's paths are host paths.
\<close>

theorem runtime_clone_shares_fs:
  assumes "in_step (Some rt, y)" and "Runtime_Clone (Some rt) y = (Some rt', y')"
    and "snd (Runtime_SetJail [] (Some rt', y')) = t"
  shows "Runtime_GetJail (Some rt, snd t) = Runtime_GetJail (Some rt, y) \<and>
    fs_jail (fs_of (Some rt, snd t)) = [] \<and> hostPath (fs_of (Some rt, snd t)) p = Clean p"
proof -
  note c = Clone_result [OF assms(1,2)]
  have "in_step t" "Runtime_GetJail t = []"
    using SetJail_in_step [OF c(1), of "[]"] assms(3) by auto
  moreover have "own_env (Some rt', y') t"
    using own_env_SetJail [OF c(1), of "[]"] assms(3) by simp
  ultimately have "fs_jail (fs_of t) = []" "rt_fs (the (fst t)) = rt_fs rt"
    using c(3) by (cases "fst t"; auto simp: in_step_def same_jail_def Runtime_GetJail_def own_env_def)+
  then have "fs_jail (fs_of (Some rt, snd t)) = []" by (simp add: fs_of_def)
  then show ?thesis by (simp add: Runtime_GetJail_def hostPath_def OsFS_GetJail_def)
qed

theorem runtime_clone_shares_fs_witness:
  "\<exists>rt' y'. Runtime_Clone (Some demo_rt) (snd demo_rts) = (Some rt', y') \<and>
    hostPath (fs_of (Some demo_rt, snd (snd (Runtime_SetJail [] (Some rt', y'))))) ''/etc/passwd'' = Clean ''/etc/passwd''"
proof -
  obtain rt' y' where c: "Runtime_Clone (Some demo_rt) (snd demo_rts) = (Some rt', y')"
    using demo_clone by blast
  have "in_step (Some demo_rt, snd demo_rts)" using demo_in_step by (simp add: demo_rts_def)
  then show ?thesis using runtime_clone_shares_fs [OF _ c refl] c by blast
qed

section \<open>Paths\<close>

lemma AbsPath_in_step:
  assumes "in_step s" and "\<not> blank p"
  shows "Runtime_AbsPath p s = (case fst (expand_abs p s) of Inl e \<Rightarrow> Inl e | Inr q \<Rightarrow> Inr (Clean q), s)"
proof -
  obtain r where "expand_abs p s = (r, s)" using expand_abs_in_step [OF assms(1)] by blast
  then show ?thesis using assms
    by (cases r) (simp_all add: Runtime_AbsPath_def validated_in_step bindE_def ret_def)
qed

lemma expand_abs_dot:
  assumes s: "in_step s" shows "expand_abs ''.'' s = (Inr (rt_wd (the (fst s))), s)"
proof -
  obtain cs where cs: "names_ok cs" "rt_wd (the (fst s)) = abs_path cs"
    using in_step_wd [OF s] by (auto elim: clean_absE)
  have "Join [abs_path cs, ''.''] = abs_path cs" using Join_pair [of "abs_path cs" "''.''"] cs(1) by simp
  moreover have "rt_ExpandPath (rt_ExpandEnv ''.'' s) s = (Inr ''.'', s)"
    by (simp add: rt_ExpandPath_def rt_ExpandEnv_def ExpandEnv_def ExpandPath_def)
  ultimately show ?thesis
    using Runtime_Getwd_in_step [OF s] cs(2) by (simp add: expand_abs_def bindE_def ret_def)
qed

text \<open>
  C30. The two ways of resolving a path agree: for every non-blank path (variables, tildes and \<open>..\<close>
  included), \<open>ResolvePath\<close> without following links is \<open>AbsPath\<close> - a clean absolute path - followed by
  the jail's lexical test, and neither changes the state.
\<close>

theorem runtime_resolve_abs:
  assumes s: "in_step s" and p: "\<not> blank p" and J: "Runtime_GetJail s = abs_path J" "names_ok J"
  shows "(\<exists>e. Runtime_AbsPath p s = (Inl e, s) \<and> Runtime_ResolvePath p False s = (Inl e, s)) \<or>
    (\<exists>vs. names_ok vs \<and> Runtime_AbsPath p s = (Inr (abs_path vs), s) \<and>
      Runtime_ResolvePath p False s =
        (if dotdot_head vs then Inl (escape_err (abs_path (J @ vs))) else Inr (abs_path vs), s))"
proof -
  obtain r where r: "expand_abs p s = (r, s)" "\<forall>q. r = Inr q \<longrightarrow> is_abs q"
    using expand_abs_in_step [OF s] by blast
  have i: "(if blank p \<or> p = ''.'' then Runtime_Getwd else expand_abs p) s = (r, s)"
    using r(1) p expand_abs_dot [OF s] Runtime_Getwd_in_step [OF s] by auto
  show ?thesis
  proof (cases r)
    case (Inl e)
    then show ?thesis
      using i r AbsPath_in_step [OF s p] by (simp add: Runtime_ResolvePath_def validated_in_step s bindE_def)
  next
    case (Inr q)
    obtain vs where vs: "names_ok vs" "Clean q = abs_path vs" "is_abs q"
      using r(2) Inr clean_abs_Clean [of q] by (auto elim: clean_absE)
    have j: "fs_jail (fs_of s) = abs_path J"
      using s J(1) by (cases "fst s") (auto simp: in_step_def same_jail_def Runtime_GetJail_def)
    have v: "virtual_path (fs_of s) (abs_path vs) = abs_path vs" using virtual_path_abs vs(1) by simp
    have "wd_ok (fs_of s)" "view s = (fs_of s, host_of s)" using in_step_view [OF s] by auto
    then have "fst (OsFS_ResolvePath (abs_path vs) False (view s)) =
        (if dotdot_head vs then Inl (escape_err (abs_path (J @ vs))) else Inr (abs_path vs))"
      using resolveVirtual_plain [OF _ j J(2) v vs(1)] by (simp add: OsFS_ResolvePath_def)
    then have "Runtime_ResolvePath p False s =
        (if dotdot_head vs then Inl (escape_err (abs_path (J @ vs))) else Inr (abs_path vs), s)"
      using i Inr vs(2) on_fs_ResolvePath [OF s]
      by (simp add: Runtime_ResolvePath_def validated_in_step s bindE_def)
    moreover have "Runtime_AbsPath p s = (Inr (abs_path vs), s)"
      using AbsPath_in_step [OF s p] r Inr vs(2) by simp
    ultimately show ?thesis using vs(1) by blast
  qed
qed

lemma demo_GetJail: "Runtime_GetJail demo_rts = abs_path demo_J"
  by (simp add: Runtime_GetJail_def demo_rts_def demo_rt_def demo_J_def abs_path_def)

theorem runtime_resolve_abs_witness:
  "(\<exists>e. Runtime_AbsPath ''~/../$USER'' demo_rts = (Inl e, demo_rts) \<and>
      Runtime_ResolvePath ''~/../$USER'' False demo_rts = (Inl e, demo_rts)) \<or>
    (\<exists>vs. names_ok vs \<and> Runtime_AbsPath ''~/../$USER'' demo_rts = (Inr (abs_path vs), demo_rts) \<and>
      Runtime_ResolvePath ''~/../$USER'' False demo_rts =
        (if dotdot_head vs then Inl (escape_err (abs_path (demo_J @ vs))) else Inr (abs_path vs), demo_rts))"
proof (rule runtime_resolve_abs [OF demo_in_step _ demo_GetJail])
  show "\<not> blank ''~/../$USER''" by (rule slash_not_blank) simp
  show "names_ok demo_J" by (simp add: demo_J_def name_ok_def)
qed

lemma SetHome_te:
  assumes s: "in_step s" and h: "TestEnv_SetHome (host_of s) h (the_te s) = (r, te)"
  shows "fst (Runtime_SetHome h s) = r" "env_of (snd (Runtime_SetHome h s)) = TestEnvV te"
    "Runtime_GetJail (snd (Runtime_SetHome h s)) = Runtime_GetJail s"
proof -
  from in_stepD [OF s] have "fst (Runtime_SetHome h s) = r \<and> env_of (snd (Runtime_SetHome h s)) = TestEnvV te \<and>
    Runtime_GetJail (snd (Runtime_SetHome h s)) = Runtime_GetJail s"
  proof (cases rule: same_jailE)
    case (1 rt y i j)
    have e: "env_of s = TestEnvV (the_te s)" using 1(1,3,7) by (simp add: env_of_def)
    have v: "Runtime_SetHome h s = on_env (Env_SetHome h) s"
      by (simp add: Runtime_SetHome_def validated_in_step [OF s])
    have "on_env (Env_SetHome h) s = (r, (Some rt, y\<lparr>s_envs := (s_envs y)[i := TestEnvV te]\<rparr>))"
      using 1(1,3) h e by (simp add: on_env_def Env_SetHome_def on_test_def host_of_def)
    then show ?thesis
      unfolding v using 1(1,3,5) by (simp add: env_of_def Runtime_GetJail_def)
  qed
  then show "fst (Runtime_SetHome h s) = r" "env_of (snd (Runtime_SetHome h s)) = TestEnvV te"
    "Runtime_GetJail (snd (Runtime_SetHome h s)) = Runtime_GetJail s" by auto
qed

lemma env_reads:
  assumes "in_step s" and "env_of s = TestEnvV te"
  shows "Runtime_Get k s = TestEnv_Get k te" "Runtime_GetHome s = (TestEnv_GetHome te, s)"
  using assms in_stepD [OF assms(1)]
  by (auto simp: Runtime_Get_def Runtime_GetHome_def validated_in_step ask_env_def Env_Get_def Env_GetHome_def
      elim: same_jailE)

text \<open>
  C31. In a runtime on a test environment with a jail set, after \<open>SetHome\<close>, \<open>~\<close> and \<open>$HOME\<close> are two
  different places: \<open>~\<close> is the virtual home directory that \<open>GetHome\<close> returns, \<open>$HOME\<close> the host path of it,
  which the runtime takes for a virtual path once more, so that the jail is in front of it twice on
  the host; the two agree exactly when the jail is the root directory.
\<close>

theorem runtime_home_variable:
  assumes s: "in_step s" and J: "Runtime_GetJail s = abs_path J" "names_ok J"
  shows "\<exists>q s'. Runtime_SetHome h s = (Inr (), s') \<and> names_ok q \<and> fst (Runtime_GetHome s') = Inr (abs_path q) \<and>
    Runtime_AbsPath ''~'' s' = (Inr (abs_path q), s') \<and>
    Runtime_AbsPath ''$HOME'' s' = (Inr (abs_path (J @ q)), s') \<and>
    (abs_path (J @ q) = abs_path q \<longleftrightarrow> Runtime_GetJail s = ''/'')"
proof -
  have j: "te_jail (the_te s) = abs_path J" "clean_abs (map_at (te_data (the_te s)) ''PWD'')"
    using s J(1) in_step_wd [OF s] by (cases "fst s"; auto simp: in_step_def same_jail_def Runtime_GetJail_def)+
  obtain q te where q: "names_ok q" "TestEnv_SetHome (host_of s) h (the_te s) = (Inr (), te)"
    "TestEnv_GetHome te = Inr (abs_path q)" "TestEnv_Get ''HOME'' te = abs_path (J @ q)"
    using home_roundtrip [OF j(1) J(2) j(2), of h "host_of s"] by blast
  obtain s' where s': "Runtime_SetHome h s = (Inr (), s')" "env_of s' = TestEnvV te"
    using SetHome_te [OF s q(2)] by (cases "Runtime_SetHome h s") auto
  have i: "in_step s'" using SetHome_tame [OF s, of False "[]" h] s'(1) by (simp add: tame_def)
  note r = env_reads [OF i s'(2)]
  have "expand_abs ''~'' s' = (Inr (abs_path q), s')"
    using r(2) q(1,3)
    by (simp add: expand_abs_def rt_ExpandPath_def rt_ExpandEnv_def ExpandEnv_def ExpandPath_def tilde_form_def
        rt_arg_def env_or_os_def bindE_def ret_def)
  moreover have v: "os_Expand (\<lambda>k. Runtime_Get k s') ''$HOME'' = abs_path (J @ q)"
    using os_Expand_var [of "''HOME''" "[]" "\<lambda>k. Runtime_Get k s'"] r(1) q(4)
    by (simp add: var_name_def isAlphaNum_def isShellSpecialVar_def byte_in_def)
  have "hd (abs_path (J @ q)) \<noteq> CHR ''~''" by (simp add: abs_path_def)
  then have "expand_abs ''$HOME'' s' = (Inr (abs_path (J @ q)), s')"
    using v by (simp add: expand_abs_def rt_ExpandPath_def rt_ExpandEnv_def ExpandEnv_def ExpandPath_def
        bindE_def ret_def)
  moreover have "\<not> blank ''~''" "\<not> blank ''$HOME''" by code_simp+
  ultimately have "Runtime_AbsPath ''~'' s' = (Inr (abs_path q), s')"
    "Runtime_AbsPath ''$HOME'' s' = (Inr (abs_path (J @ q)), s')"
    using AbsPath_in_step [OF i] q(1) J(2) by simp_all
  moreover have "abs_path (J @ q) = abs_path q \<longleftrightarrow> J = []"
    using abs_path_inj [of "J @ q" q] J(2) q(1) by auto
  moreover have "Runtime_GetJail s = ''/'' \<longleftrightarrow> J = []"
    using abs_path_inj [of J "[]"] J by (auto simp: abs_path_Nil)
  ultimately show ?thesis using s'(1) q r(2) by auto
qed

theorem runtime_home_variable_witness:
  "\<exists>q s'. Runtime_SetHome ''/home/bob'' demo_rts = (Inr (), s') \<and> names_ok q \<and>
    fst (Runtime_GetHome s') = Inr (abs_path q) \<and>
    Runtime_AbsPath ''~'' s' = (Inr (abs_path q), s') \<and>
    Runtime_AbsPath ''$HOME'' s' = (Inr (abs_path (demo_J @ q)), s') \<and>
    (abs_path (demo_J @ q) = abs_path q \<longleftrightarrow> Runtime_GetJail demo_rts = ''/'')"
  by (rule runtime_home_variable [OF demo_in_step demo_GetJail]) (simp add: demo_J_def name_ok_def)

end
