(* ===== verification/Cascade.thy ===== *)
theory Cascade
  imports GoErrors GoStrings "HOL-Library.Multiset" "HOL-Library.AList"
begin

text \<open>
  The layered configuration cascade (\<open>src/cfgcascade\<close>): providers, \<open>Cascade.Resolve\<close> and the
  environment provider.

  A provider is an interface value, modelled by its two methods. \<open>Load\<close> may run any code of the
  application (a \<open>FuncProvider\<close> wraps a closure), so it is a computation over an arbitrary state
  \<open>'s\<close>; the lookup function it receives is a closure reading that state, or nil. \<open>MergeFn\<close> is
  the application's own function. \<open>sort.Slice\<close> promises a permutation that is sorted, and
  not that equal elements keep their order: it is the parameter \<open>srt\<close> of the definitions, and
  its promise is the locale \<open>slice_sort\<close>.
\<close>

section \<open>Providers\<close>

type_synonym 's getenv = "(string \<Rightarrow> 's \<Rightarrow> string) option"

record ('s, 't) provider =
  Load :: "'s getenv \<Rightarrow> ('s, goerr, 't) io"
  ProviderName :: string

definition DefaultProvider :: "string \<Rightarrow> 't \<Rightarrow> ('s, 't) provider" where
  "DefaultProvider name d = \<lparr>Load = (\<lambda>_. ret d), ProviderName = name\<rparr>"

definition FuncProvider :: "string \<Rightarrow> ('s getenv \<Rightarrow> ('s, goerr, 't) io) \<Rightarrow> ('s, 't) provider" where
  "FuncProvider name fn = \<lparr>Load = fn, ProviderName = name\<rparr>"

definition MissingProvider :: "string \<Rightarrow> ('s, 't) provider" where
  "MissingProvider name = \<lparr>Load = (\<lambda>_. fail ErrNotExist), ProviderName = name\<rparr>"

text \<open>
  \<open>EnvProvider\<close> builds a Go map, here an association list without duplicate keys. The
  parameters are \<open>os.Getenv\<close> and the non-ASCII part of \<open>strings.ToLower\<close>.
\<close>

fun env_loop ::
  "(string \<Rightarrow> string) \<Rightarrow> (string \<Rightarrow> string) \<Rightarrow> string \<Rightarrow> string list \<Rightarrow> (string \<times> string) list \<Rightarrow>
    (string \<times> string) list" where
  "env_loop ulower get prefx [] result = result"
| "env_loop ulower get prefx (key # keys) result =
     (let val = get (prefx @ key)
      in if val \<noteq> [] then env_loop ulower get prefx keys (AList.update (ToLower ulower key) val result)
         else env_loop ulower get prefx keys result)"

definition getenv_or_os :: "(string \<Rightarrow> 's \<Rightarrow> string) \<Rightarrow> 's getenv \<Rightarrow> string \<Rightarrow> 's \<Rightarrow> string" where
  "getenv_or_os os_Getenv getenv = (case getenv of None \<Rightarrow> os_Getenv | Some g \<Rightarrow> g)"

definition EnvProvider_Load ::
  "(string \<Rightarrow> 's \<Rightarrow> string) \<Rightarrow> (string \<Rightarrow> string) \<Rightarrow> string \<Rightarrow> string list \<Rightarrow> 's getenv \<Rightarrow>
    ('s, goerr, (string \<times> string) list) io" where
  "EnvProvider_Load os_Getenv ulower prefx keys getenv s =
     (let result = env_loop ulower (\<lambda>k. getenv_or_os os_Getenv getenv k s) prefx keys []
      in if result = [] then (Inl ErrNotExist, s) else (Inr result, s))"

definition EnvProvider ::
  "(string \<Rightarrow> 's \<Rightarrow> string) \<Rightarrow> (string \<Rightarrow> string) \<Rightarrow> string \<Rightarrow> string \<Rightarrow> string list \<Rightarrow>
    ('s, (string \<times> string) list) provider" where
  "EnvProvider os_Getenv ulower name prefx keys =
     \<lparr>Load = EnvProvider_Load os_Getenv ulower prefx keys, ProviderName = name\<rparr>"

section \<open>Resolve\<close>

record ('s, 't) layer =
  Rank :: int
  Provider :: "('s, 't) provider"

datatype provider_error = ProviderError (pe_name: string) (pe_err: goerr)

text \<open>Its methods; \<open>text\<close> is the method \<open>Error\<close> of the error inside.\<close>

definition ProviderError_Error :: "(goerr \<Rightarrow> string) \<Rightarrow> provider_error \<Rightarrow> string" where
  "ProviderError_Error text pe = pe_name pe @ '': '' @ text (pe_err pe)"

definition ProviderError_Unwrap :: "provider_error \<Rightarrow> goerr" where
  "ProviderError_Unwrap pe = pe_err pe"

record 't resolved =
  Value :: 't
  Sources :: "string list"
  Errors :: "provider_error list"

record ('s, 't) cascade =
  Layers :: "('s, 't) layer list"
  MergeFn :: "'t \<Rightarrow> 't \<Rightarrow> 't"

text \<open>One iteration of the loop over the sorted layers, given what \<open>Load\<close> returned.\<close>

definition resolve_one ::
  "('t \<Rightarrow> 't \<Rightarrow> 't) \<Rightarrow> string \<Rightarrow> goerr + 't \<Rightarrow> 't resolved \<times> bool \<Rightarrow> 't resolved \<times> bool" where
  "resolve_one mergeFn name r acc =
     (case acc of (rv, haveBase) \<Rightarrow>
        (case r of
           Inl err \<Rightarrow>
             if errors_is err ErrNotExist then (rv, haveBase)
             else (rv\<lparr>Errors := Errors rv @ [ProviderError name err]\<rparr>, haveBase)
         | Inr val \<Rightarrow>
             let rv1 = (if \<not> haveBase then rv\<lparr>Value := val\<rparr>
                        else rv\<lparr>Value := mergeFn (Value rv) val\<rparr>)
             in (rv1\<lparr>Sources := Sources rv1 @ [name]\<rparr>, True)))"

fun resolve_loop ::
  "('t \<Rightarrow> 't \<Rightarrow> 't) \<Rightarrow> 's getenv \<Rightarrow> ('s, 't) layer list \<Rightarrow> 't resolved \<times> bool \<Rightarrow> 's \<Rightarrow>
    't resolved \<times> 's" where
  "resolve_loop mergeFn getenv [] acc s = (fst acc, s)"
| "resolve_loop mergeFn getenv (l # ls) acc s =
     (case Load (Provider l) getenv s of
        (r, s1) \<Rightarrow>
          resolve_loop mergeFn getenv ls (resolve_one mergeFn (ProviderName (Provider l)) r acc) s1)"

text \<open>The in-place reversal with two indices that meet in the middle.\<close>

function reverse_loop :: "int \<Rightarrow> int \<Rightarrow> 'a list \<Rightarrow> 'a list" where
  "reverse_loop i j xs =
     (if i < j
      then reverse_loop (i + 1) (j - 1) (xs[nat i := xs ! nat j, nat j := xs ! nat i])
      else xs)"
  by pat_completeness auto
termination
  by (relation "measure (\<lambda>(i, j, xs). nat (j - i))") auto

declare reverse_loop.simps [simp del]

lemma reverse_loop_step:
  "i < j \<Longrightarrow> reverse_loop i j xs =
     reverse_loop (i + 1) (j - 1) (xs[nat i := xs ! nat j, nat j := xs ! nat i])"
  by (rule trans [OF reverse_loop.simps]) (rule if_P)

lemma reverse_loop_stop: "\<not> i < j \<Longrightarrow> reverse_loop i j xs = xs"
  by (rule trans [OF reverse_loop.simps]) (rule if_not_P)

definition Resolve ::
  "(('s, 't) layer list \<Rightarrow> ('s, 't) layer list) \<Rightarrow> 't \<Rightarrow> ('s, 't) cascade \<Rightarrow> 's getenv \<Rightarrow> 's \<Rightarrow>
    't resolved \<times> 's" where
  "Resolve srt zero c getenv s =
     (case resolve_loop (MergeFn c) getenv (srt (Layers c))
             (\<lparr>Value = zero, Sources = [], Errors = []\<rparr>, False) s of
        (rv, s1) \<Rightarrow>
          (rv\<lparr>Sources := reverse_loop 0 (int (length (Sources rv)) - 1) (Sources rv)\<rparr>, s1))"

section \<open>The reversal is a reversal\<close>

lemma length_reverse_loop [simp]: "length (reverse_loop i j xs) = length xs"
proof (induction i j xs rule: reverse_loop.induct)
  case (1 i j xs)
  show ?case
  proof (cases "i < j")
    case True
    show ?thesis unfolding reverse_loop_step [OF True] "1.IH" [OF True] by simp
  next
    case False
    show ?thesis unfolding reverse_loop_stop [OF False] by (rule refl)
  qed
qed

lemma swap_nth:
  assumes "m < length xs" and "n < length xs" and "k < length xs"
  shows "xs[m := xs ! n, n := xs ! m] ! k = (if k = n then xs ! m else if k = m then xs ! n else xs ! k)"
  using assms by (simp add: nth_list_update)

lemma reverse_loop_nth:
  assumes "0 \<le> i" and "j < int (length xs)" and "k < length xs"
  shows "reverse_loop i j xs ! k =
    (if i \<le> int k \<and> int k \<le> j then xs ! nat (i + j - int k) else xs ! k)"
  using assms
proof (induction i j xs rule: reverse_loop.induct)
  case (1 i j xs)
  show ?case
  proof (cases "i < j")
    case True
    define ys where "ys = xs[nat i := xs ! nat j, nat j := xs ! nat i]"
    have b: "nat i < length xs" "nat j < length xs" and len: "length ys = length xs"
      using True "1.prems" by (auto simp: ys_def)
    have ys: "ys ! n = (if n = nat j then xs ! nat i else if n = nat i then xs ! nat j else xs ! n)"
      if "n < length xs" for n
      unfolding ys_def by (rule swap_nth [OF b that])
    have ih: "reverse_loop (i + 1) (j - 1) ys ! k =
        (if i + 1 \<le> int k \<and> int k \<le> j - 1 then ys ! nat (i + 1 + (j - 1) - int k) else ys ! k)"
      unfolding ys_def by (rule "1.IH" [OF True]) (use "1.prems" in auto)
    have step: "reverse_loop i j xs = reverse_loop (i + 1) (j - 1) ys"
      unfolding ys_def by (rule reverse_loop_step [OF True])
    have e: "i + 1 + (j - 1) - int k = i + j - int k" by simp
    consider "int k = i" | "int k = j" | "i < int k" "int k < j" | "int k < i \<or> j < int k" by linarith
    then show ?thesis
    proof cases
      case 1
      with True have "nat i = k" "nat i \<noteq> nat j" by auto
      with 1 True show ?thesis unfolding step ih e by (simp add: ys "1.prems")
    next
      case 2
      with True have "nat j = k" by auto
      with 2 True show ?thesis unfolding step ih e by (simp add: ys "1.prems")
    next
      case 3
      then have m: "nat (i + j - int k) < length xs" "nat (i + j - int k) \<noteq> nat i"
        "nat (i + j - int k) \<noteq> nat j"
        using "1.prems" by auto
      from 3 show ?thesis unfolding step ih e by (simp add: ys m)
    next
      case 4
      with "1.prems" True have "k \<noteq> nat i" "k \<noteq> nat j" by auto
      with 4 show ?thesis unfolding step ih e by (auto simp: ys "1.prems")
    qed
  next
    case False
    have "nat (i + j - int k) = k" if "i \<le> int k" "int k \<le> j" using that False by auto
    then show ?thesis unfolding reverse_loop_stop [OF False] by simp
  qed
qed

lemma reverse_loop_rev: "reverse_loop 0 (int (length xs) - 1) xs = rev xs"
proof (rule nth_equalityI)
  fix k
  assume "k < length (reverse_loop 0 (int (length xs) - 1) xs)"
  then have k: "k < length xs" by simp
  then have "nat (int (length xs) - 1 - int k) = length xs - Suc k" by auto
  with k show "reverse_loop 0 (int (length xs) - 1) xs ! k = rev xs ! k"
    by (simp add: reverse_loop_nth rev_nth)
qed simp

end
