(* ===== verification/Cascade_Facts.thy ===== *)
theory Cascade_Facts
  imports Cascade
begin

text \<open>
  What the cascade computes: the declarative reading of the loop of \<open>Resolve\<close>, the contract of
  \<open>sort.Slice\<close> with the facts that follow from it, and the table the environment provider builds.
\<close>

section \<open>The declarative reading\<close>

text \<open>All layers are loaded, one after the other, in the order of the list.\<close>

fun run_loads :: "'s getenv \<Rightarrow> ('s, 't) layer list \<Rightarrow> 's \<Rightarrow> (goerr + 't) list \<times> 's" where
  "run_loads getenv [] s = ([], s)"
| "run_loads getenv (l # ls) s =
     (let (r, s1) = Load (Provider l) getenv s; (rs, s2) = run_loads getenv ls s1
      in (r # rs, s2))"

definition merge_all :: "('t \<Rightarrow> 't \<Rightarrow> 't) \<Rightarrow> 't \<Rightarrow> 't list \<Rightarrow> 't" where
  "merge_all mergeFn zero vs = (case vs of [] \<Rightarrow> zero | v # us \<Rightarrow> foldl mergeFn v us)"

definition layer_name :: "('s, 't) layer \<Rightarrow> string" where
  "layer_name l = ProviderName (Provider l)"

definition loaded :: "('s, 't) layer list \<Rightarrow> (goerr + 't) list \<Rightarrow> (string \<times> 't) list" where
  "loaded ls rs = [(layer_name l, v). (l, Inr v) \<leftarrow> zip ls rs]"

definition failed :: "('s, 't) layer list \<Rightarrow> (goerr + 't) list \<Rightarrow> provider_error list" where
  "failed ls rs = [ProviderError (layer_name l) e. (l, Inl e) \<leftarrow> zip ls rs, \<not> errors_is e ErrNotExist]"

definition cascade_spec ::
  "('t \<Rightarrow> 't \<Rightarrow> 't) \<Rightarrow> 't \<Rightarrow> ('s, 't) layer list \<Rightarrow> (goerr + 't) list \<Rightarrow> 't resolved" where
  "cascade_spec mergeFn zero ls rs =
     \<lparr>Value = merge_all mergeFn zero (map snd (loaded ls rs)),
      Sources = rev (map fst (loaded ls rs)), Errors = failed ls rs\<rparr>"

lemma loaded_simps [simp]:
  "loaded [] rs = []"
  "loaded (l # ls) (Inr v # rs) = (layer_name l, v) # loaded ls rs"
  "loaded (l # ls) (Inl e # rs) = loaded ls rs"
  by (simp_all add: loaded_def)

lemma failed_simps [simp]:
  "failed [] rs = []"
  "failed (l # ls) (Inr v # rs) = failed ls rs"
  "failed (l # ls) (Inl e # rs) =
     (if errors_is e ErrNotExist then failed ls rs else ProviderError (layer_name l) e # failed ls rs)"
  by (simp_all add: failed_def)

lemma length_run_loads: "length (fst (run_loads g ls s)) = length ls"
proof (induction ls arbitrary: s)
  case (Cons l ls)
  obtain r s1 where "Load (Provider l) g s = (r, s1)" by (cases "Load (Provider l) g s")
  then show ?case using Cons [of s1] by (simp add: case_prod_unfold Let_def)
qed simp

text \<open>The loop's accumulator, started with a base or without one.\<close>

lemma resolve_loop_base:
  "resolve_loop f g ls (rv, True) s =
    (case run_loads g ls s of (rs, t) \<Rightarrow>
       (\<lparr>Value = foldl f (Value rv) (map snd (loaded ls rs)),
         Sources = Sources rv @ map fst (loaded ls rs), Errors = Errors rv @ failed ls rs\<rparr>, t))"
proof (induction ls arbitrary: rv s)
  case (Cons l ls)
  obtain r s1 where l: "Load (Provider l) g s = (r, s1)" by (cases "Load (Provider l) g s")
  obtain rs t where rs: "run_loads g ls s1 = (rs, t)" by (cases "run_loads g ls s1")
  show ?case
    by (cases r) (simp_all add: l rs resolve_one_def Cons.IH layer_name_def)
qed simp

lemma resolve_loop_start:
  "resolve_loop f g ls (rv, False) s =
    (case run_loads g ls s of (rs, t) \<Rightarrow>
       (\<lparr>Value = merge_all f (Value rv) (map snd (loaded ls rs)),
         Sources = Sources rv @ map fst (loaded ls rs), Errors = Errors rv @ failed ls rs\<rparr>, t))"
proof (induction ls arbitrary: rv s)
  case (Cons l ls)
  obtain r s1 where l: "Load (Provider l) g s = (r, s1)" by (cases "Load (Provider l) g s")
  obtain rs t where rs: "run_loads g ls s1 = (rs, t)" by (cases "run_loads g ls s1")
  show ?case
    by (cases r)
      (simp_all add: l rs resolve_one_def Cons.IH resolve_loop_base layer_name_def merge_all_def)
qed (simp add: merge_all_def)

lemma Resolve_spec:
  "Resolve srt zero c g s =
    (case run_loads g (srt (Layers c)) s of (rs, t) \<Rightarrow>
       (cascade_spec (MergeFn c) zero (srt (Layers c)) rs, t))"
  by (simp add: Resolve_def resolve_loop_start cascade_spec_def reverse_loop_rev split: prod.splits)

section \<open>Sorting the layers\<close>

text \<open>
  \<open>sort.Slice(sorted, func(i, j int) bool { return sorted[i].Rank < sorted[j].Rank })\<close>: the
  result is a permutation with ascending ranks. Layers of equal rank come in any order.
\<close>

locale slice_sort =
  fixes srt :: "('s, 't) layer list \<Rightarrow> ('s, 't) layer list"
  assumes mset_srt: "mset (srt ls) = mset ls"
    and ranks_srt: "sorted (map Rank (srt ls))"
begin

lemma set_srt: "set (srt ls) = set ls"
  using mset_srt by (metis set_mset_mset)

lemma distinct_ranks:
  assumes "distinct (map Rank ls)"
  shows "srt ls = sort_key Rank ls"
  using sort_key_inj_key_eq [OF mset_srt [symmetric] _ ranks_srt, of ls] assms
  by (simp add: distinct_map)

lemma split_at:
  assumes "l \<in> set ls"
  obtains us vs where "srt ls = us @ l # vs" and "l \<notin> set vs" and "set us \<union> set vs \<union> {l} = set ls"
    and "\<And>x. x \<in> set vs \<Longrightarrow> Rank l \<le> Rank x"
proof -
  have "l \<in> set (srt ls)" using assms by (simp add: set_srt)
  then obtain us vs where e: "srt ls = us @ l # vs" and n: "l \<notin> set vs" by (auto dest: split_list_last)
  have "set us \<union> set vs \<union> {l} = set ls" using set_srt [of ls] by (auto simp: e)
  moreover have "\<And>x. x \<in> set vs \<Longrightarrow> Rank l \<le> Rank x" using ranks_srt [of ls] by (auto simp: e sorted_append)
  ultimately show thesis using e n that by blast
qed

end

text \<open>The insertion sort \<open>sort.Slice\<close> uses for short slices satisfies the contract.\<close>

interpretation rank_sort: slice_sort "sort_key Rank"
  by unfold_locales auto

section \<open>Overriding\<close>

text \<open>
  A setting is something the application reads from its configuration; a merge function overlays
  it when the overlay wins wherever it sets the setting.
\<close>

definition overlays :: "('t \<Rightarrow> 't \<Rightarrow> 't) \<Rightarrow> ('t \<Rightarrow> 'v option) \<Rightarrow> bool" where
  "overlays f get \<longleftrightarrow> (\<forall>a b. get (f a b) = (case get b of None \<Rightarrow> get a | Some v \<Rightarrow> Some v))"

lemma overlaysD: "overlays f get \<Longrightarrow> get (f a b) = (case get b of None \<Rightarrow> get a | Some v \<Rightarrow> Some v)"
  by (simp add: overlays_def)

lemma overlays_foldl:
  assumes "overlays f get"
  shows "(\<forall>b \<in> set bs. get b = None) \<Longrightarrow> get (foldl f a bs) = get a"
  by (induction bs arbitrary: a) (auto simp: overlaysD [OF assms])

lemma overlays_last:
  assumes f: "overlays f get" and w: "get w = Some v" and bs: "\<forall>b \<in> set bs. get b = None"
  shows "get (merge_all f zero (us @ w # bs)) = Some v"
proof (cases us)
  case Nil
  then show ?thesis using overlays_foldl [OF f bs] w by (simp add: merge_all_def)
next
  case (Cons u us')
  have "get (f (foldl f u us') w) = Some v" by (simp add: overlaysD [OF f] w)
  then show ?thesis using overlays_foldl [OF f bs] Cons by (simp add: merge_all_def)
qed

text \<open>Providers that read and leave the state alone.\<close>

definition pure_load :: "'s getenv \<Rightarrow> (('s, 't) layer \<Rightarrow> goerr + 't) \<Rightarrow> ('s, 't) layer \<Rightarrow> 's \<Rightarrow> bool" where
  "pure_load g ld l s \<longleftrightarrow> Load (Provider l) g s = (ld l, s)"

lemma run_loads_pure:
  "(\<And>l. l \<in> set ls \<Longrightarrow> pure_load g ld l s) \<Longrightarrow> run_loads g ls s = (map ld ls, s)"
  by (induction ls) (auto simp: pure_load_def)

lemma loaded_append:
  "length rs = length ls \<Longrightarrow> loaded (ls @ ls') (rs @ rs') = loaded ls rs @ loaded ls' rs'"
  by (simp add: loaded_def)

lemma loaded_values: "v \<in> snd ` set (loaded ls (map ld ls)) \<Longrightarrow> \<exists>l \<in> set ls. ld l = Inr v"
proof (induction ls)
  case (Cons l ls)
  then show ?case by (cases "ld l") auto
qed simp

text \<open>An absent source is never reported as an error, also not through \<open>errors.Is\<close> and \<open>Unwrap\<close>.\<close>

lemma resolve_loop_errors:
  "\<forall>pe \<in> set (Errors (fst acc)). \<not> errors_is (ProviderError_Unwrap pe) ErrNotExist \<Longrightarrow>
   \<forall>pe \<in> set (Errors (fst (resolve_loop f g ls acc s))). \<not> errors_is (ProviderError_Unwrap pe) ErrNotExist"
proof (induction ls arbitrary: acc s)
  case (Cons l ls)
  obtain r s1 where l: "Load (Provider l) g s = (r, s1)" by fastforce
  have "\<forall>pe \<in> set (Errors (fst (resolve_one f (ProviderName (Provider l)) r acc))).
      \<not> errors_is (ProviderError_Unwrap pe) ErrNotExist"
    using Cons.prems
    by (auto simp: resolve_one_def ProviderError_Unwrap_def Let_def split: prod.split sum.split)
  then show ?case using Cons.IH by (simp add: l)
qed simp

lemma Resolve_errors:
  "pe \<in> set (Errors (fst (Resolve srt zero c g s))) \<Longrightarrow> \<not> errors_is (ProviderError_Unwrap pe) ErrNotExist"
  using resolve_loop_errors [of "(\<lparr>Value = zero, Sources = [], Errors = []\<rparr>, False)" "MergeFn c" g "srt (Layers c)" s]
  by (auto simp: Resolve_def split: prod.splits)

section \<open>The environment provider\<close>

lemma env_loop_map:
  "map_of (env_loop lw get p keys al) k =
    (case filter (\<lambda>key. ToLower lw key = k \<and> get (p @ key) \<noteq> []) keys of
       [] \<Rightarrow> map_of al k | ks \<Rightarrow> Some (get (p @ last ks)))"
proof (induction keys arbitrary: al)
  case (Cons key keys)
  let ?P = "\<lambda>key. ToLower lw key = k \<and> get (p @ key) \<noteq> []"
  show ?case
    by (cases "filter ?P keys") (auto simp: Cons.IH Let_def update_conv')
qed simp

lemma env_loop_empty:
  "env_loop lw get p keys al = [] \<longleftrightarrow> al = [] \<and> (\<forall>key \<in> set keys. get (p @ key) = [])"
proof (induction keys arbitrary: al)
  case (Cons key keys)
  have "AList.update (ToLower lw key) v al \<noteq> []" for v by (cases al) auto
  then show ?case by (auto simp: Cons.IH Let_def)
qed simp

lemma distinct_env_loop:
  "distinct (map fst al) \<Longrightarrow> distinct (map fst (env_loop lw get p keys al))"
  by (induction keys arbitrary: al) (auto simp: Let_def distinct_update)

end
