(* ===== verification/Cascade_Props.thy ===== *)
theory Cascade_Props
  imports Cascade_Facts
begin

text \<open>
  Properties of the configuration cascade.
\<close>

section \<open>A cascade to run the properties on\<close>

text \<open>Settings are association lists, the more specific one in front.\<close>

abbreviation over :: "(string \<times> string) list \<Rightarrow> (string \<times> string) list \<Rightarrow> (string \<times> string) list" where
  "over base ov \<equiv> ov @ base"

definition demo_getenv :: "string \<Rightarrow> unit \<Rightarrow> string" where
  "demo_getenv k s = (if k = ''TAP_LOG'' then ''debug'' else [])"

definition demo_env :: "(unit, (string \<times> string) list) layer" where
  "demo_env = \<lparr>Rank = 20, Provider = EnvProvider (\<lambda>_ _. []) (\<lambda>s. s) ''env'' ''TAP_'' [''LOG'', ''PORT'']\<rparr>"

definition demo_cascade :: "(unit, (string \<times> string) list) cascade" where
  "demo_cascade = \<lparr>Layers = [demo_env,
      \<lparr>Rank = 0, Provider = DefaultProvider ''defaults'' [(''log'', ''info''), (''port'', ''80'')]\<rparr>,
      \<lparr>Rank = 5, Provider = MissingProvider ''user''\<rparr>,
      \<lparr>Rank = 10, Provider = FuncProvider ''project'' (\<lambda>_. fail (ErrMsg ''corrupt''))\<rparr>],
    MergeFn = over\<rparr>"

lemma demo_sorted: "map Rank (sort_key Rank (Layers demo_cascade)) = [0, 5, 10, 20]"
  by code_simp

section \<open>Resolve\<close>

text \<open>
  C32. When no two layers have the same rank, \<open>Resolve\<close> does not depend on how \<open>sort.Slice\<close>
  works: it loads every layer once, in ascending order of rank (the effects of the loads on the
  state happen in this order too); the value is the left fold of \<open>MergeFn\<close> over the values that
  were loaded, the zero value if there are none; the sources are the names of the providers that
  loaded, the most specific one first; and the errors are exactly those that are not
  \<open>os.ErrNotExist\<close>, in ascending order of rank.
\<close>

theorem cascade_resolve_exact:
  assumes "slice_sort srt" and "distinct (map Rank (Layers c))"
  shows "Resolve srt zero c getenv s =
    (case run_loads getenv (sort_key Rank (Layers c)) s of
       (rs, t) \<Rightarrow> (cascade_spec (MergeFn c) zero (sort_key Rank (Layers c)) rs, t))"
  using slice_sort.distinct_ranks [OF assms] by (simp add: Resolve_spec)

theorem cascade_resolve_exact_witness:
  "Resolve (sort_key Rank) [] demo_cascade (Some demo_getenv) () =
    (\<lparr>Value = [(''log'', ''debug''), (''log'', ''info''), (''port'', ''80'')],
      Sources = [''env'', ''defaults''], Errors = [ProviderError ''project'' (ErrMsg ''corrupt'')]\<rparr>, ())"
proof -
  have "Resolve (sort_key Rank) [] demo_cascade (Some demo_getenv) () =
    (case run_loads (Some demo_getenv) (sort_key Rank (Layers demo_cascade)) () of
       (rs, t) \<Rightarrow> (cascade_spec (MergeFn demo_cascade) [] (sort_key Rank (Layers demo_cascade)) rs, t))"
    by (rule cascade_resolve_exact [OF rank_sort.slice_sort_axioms]) (simp add: demo_cascade_def demo_env_def)
  also have "\<dots> = (\<lparr>Value = [(''log'', ''debug''), (''log'', ''info''), (''port'', ''80'')],
      Sources = [''env'', ''defaults''], Errors = [ProviderError ''project'' (ErrMsg ''corrupt'')]\<rparr>, ())"
    by code_simp
  finally show ?thesis .
qed

text \<open>
  C33. The more specific layer wins, whatever \<open>sort.Slice\<close> does with equal ranks: for a setting
  that the merge function overlays, if a layer loads and sets it, and every layer of the same or a
  higher rank fails to load or does not set it, then the resolved value has the layer's setting.
\<close>

theorem cascade_override:
  assumes "slice_sort srt" and "overlays (MergeFn c) get"
    and "\<And>x. x \<in> set (Layers c) \<Longrightarrow> pure_load getenv ld x s"
    and "l \<in> set (Layers c)" and "ld l = Inr w" and "get w = Some v"
    and "\<And>x u. x \<in> set (Layers c) \<Longrightarrow> x \<noteq> l \<Longrightarrow> Rank l \<le> Rank x \<Longrightarrow> ld x = Inr u \<Longrightarrow> get u = None"
  shows "get (Value (fst (Resolve srt zero c getenv s))) = Some v"
proof -
  obtain us vs where e: "srt (Layers c) = us @ l # vs" and n: "l \<notin> set vs"
    and set: "set us \<union> set vs \<union> {l} = set (Layers c)" and hi: "\<And>x. x \<in> set vs \<Longrightarrow> Rank l \<le> Rank x"
    using slice_sort.split_at [OF assms(1,4)] by blast
  have "run_loads getenv (us @ l # vs) s = (map ld (us @ l # vs), s)"
    by (rule run_loads_pure) (rule assms(3), use set in auto)
  moreover have "get u = None" if "u \<in> set (map snd (loaded vs (map ld vs)))" for u
  proof -
    from that obtain x where "x \<in> set vs" "ld x = Inr u" using loaded_values [of u vs ld] by auto
    then show ?thesis using assms(7) set n hi by blast
  qed
  ultimately show ?thesis
    using overlays_last [OF assms(2,6), of "map snd (loaded vs (map ld vs))" zero]
    by (simp add: Resolve_spec e cascade_spec_def loaded_append assms(5))
qed

lemma over_overlays: "overlays over (\<lambda>al. map_of al k)"
  by (simp add: overlays_def map_add_def)

definition demo_load :: "(unit, (string \<times> string) list) layer \<Rightarrow> goerr + (string \<times> string) list" where
  "demo_load l = fst (Load (Provider l) (Some demo_getenv) ())"

theorem cascade_override_witness:
  "map_of (Value (fst (Resolve (sort_key Rank) [] demo_cascade (Some demo_getenv) ()))) ''log'' =
    Some ''debug''"
proof (rule cascade_override [where ld = demo_load and l = demo_env and w = "[(''log'', ''debug'')]"])
  show "slice_sort (sort_key Rank)" by (rule rank_sort.slice_sort_axioms)
  show "overlays (MergeFn demo_cascade) (\<lambda>al. map_of al ''log'')"
    unfolding demo_cascade_def by (simp add: over_overlays del: overlays_def)
  show "pure_load (Some demo_getenv) demo_load x ()" for x
    by (simp add: pure_load_def demo_load_def prod_eq_iff)
  show "demo_load demo_env = Inr [(''log'', ''debug'')]" by code_simp
  show "get u = None" if "x \<in> set (Layers demo_cascade)" "x \<noteq> demo_env" "Rank demo_env \<le> Rank x" for x u get
    using that by (auto simp: demo_cascade_def demo_env_def)
qed (simp_all add: demo_cascade_def)

section \<open>The environment as a layer\<close>

text \<open>
  The environment provider: its table has no duplicate keys and holds, for a lower-cased name,
  the value of the last configured key with this name whose variable is set to something; it
  answers \<open>os.ErrNotExist\<close>, so that the cascade skips it, exactly when none of them is set. With a
  nil lookup it reads the process environment.
\<close>

lemma env_provider_exact:
  "case EnvProvider_Load os_Getenv ulower prefx keys getenv s of
     (Inl e, t) \<Rightarrow> e = ErrNotExist \<and> t = s \<and>
        list_all (\<lambda>key. getenv_or_os os_Getenv getenv (prefx @ key) s = []) keys
   | (Inr m, t) \<Rightarrow> t = s \<and> m \<noteq> [] \<and> distinct (map fst m) \<and>
        map_of m = (\<lambda>k.
          case filter (\<lambda>key. ToLower ulower key = k \<and>
                 getenv_or_os os_Getenv getenv (prefx @ key) s \<noteq> []) keys of
            [] \<Rightarrow> None
          | ks \<Rightarrow> Some (getenv_or_os os_Getenv getenv (prefx @ last ks) s))"
  by (auto simp: EnvProvider_Load_def Let_def env_loop_empty env_loop_map distinct_env_loop list_all_iff
      intro!: ext split: list.split)

end
