(* ===== verification/Mylog.thy ===== *)
theory Mylog
  imports GoErrors GoStrings "HOL-Library.AList"
begin

text \<open>
  Logging (\<open>src/mylog\<close>): level names, logger construction, the line-splitting \<open>SlogWriter\<close>, and
  the capturing \<open>TestHandler\<close> with its search functions.

  A handler is a pointer into a store, because derived handlers point to their parent and all of
  them append to the root's \<open>Entries\<close>. \<open>log/slog\<close> is the standard library: a logger is its
  handler, \<open>With\<close> with attributes is the handler's \<open>WithAttrs\<close>, \<open>WithGroup\<close> with a name its
  \<open>WithGroup\<close>, and \<open>Log\<close> asks \<open>Enabled\<close> and hands a record to \<open>Handle\<close>.
\<close>

section \<open>Levels\<close>

definition LevelDebug :: int where "LevelDebug = -4"
definition LevelInfo :: int where "LevelInfo = 0"
definition LevelWarn :: int where "LevelWarn = 4"
definition LevelError :: int where "LevelError = 8"

definition ParseLevel :: "(string \<Rightarrow> string) \<Rightarrow> string \<Rightarrow> int" where
  "ParseLevel ulower s =
     (let t = ToLower ulower (TrimSpace s)
      in if t = ''debug'' then LevelDebug
         else if t = ''info'' \<or> t = [] then LevelInfo
         else if t = ''warn'' \<or> t = ''warning'' then LevelWarn
         else if t = ''error'' then LevelError
         else LevelInfo)"

section \<open>Attributes, records, entries\<close>

datatype 'v attrval = StringVal string | IntVal int | AnyVal 'v

type_synonym 'v attr = "string \<times> 'v attrval"

record 'v slog_record =
  r_Time :: int
  r_Level :: int
  r_Message :: string
  r_PC :: nat
  r_Attrs :: "'v attr list"

record 'v logged_entry =
  e_Time :: int
  e_Level :: int
  e_Msg :: string
  e_Attrs :: "(string \<times> 'v attrval) list"
  e_Source :: "(string \<times> int) option"
  e_PC :: nat

section \<open>The configured logger\<close>

datatype log_output = Stdout | Writer nat

record logger_config =
  cfg_Version :: string
  cfg_Out :: "log_output option"
  cfg_Level :: int
  cfg_JSON :: bool
  cfg_Source :: bool
  cfg_Host :: string
  cfg_PID :: int

text \<open>\<open>slog.NewJSONHandler\<close> and \<open>slog.NewTextHandler\<close> with their options.\<close>

datatype out_handler =
    JSONHandler (oh_out: log_output) (oh_level: int) (oh_source: bool)
  | TextHandler (oh_out: log_output) (oh_level: int) (oh_source: bool)

definition NewLogger :: "string \<Rightarrow> int \<Rightarrow> logger_config \<Rightarrow> out_handler \<times> 'v attr list" where
  "NewLogger os_Hostname os_Getpid cfg =
     (let out = (case cfg_Out cfg of None \<Rightarrow> Stdout | Some w \<Rightarrow> w);
          handler = (if cfg_JSON cfg then JSONHandler out (cfg_Level cfg) (cfg_Source cfg)
                     else TextHandler out (cfg_Level cfg) (cfg_Source cfg));
          host = (if cfg_Host cfg = [] then os_Hostname else cfg_Host cfg);
          pid = (if cfg_PID cfg = 0 then os_Getpid else cfg_PID cfg)
      in (handler, [(''version'', StringVal (cfg_Version cfg)), (''host'', StringVal host), (''pid'', IntVal pid)]))"

section \<open>The test handler\<close>

text \<open>
  \<open>T\<close> is a non-nil \<open>testingT\<close> or not; what it is told by \<open>Logf\<close> is the list \<open>s_logf\<close> of the
  store. \<open>filter\<close> is a nil or a non-nil function.
\<close>

record 'v test_handler =
  th_Entries :: "'v logged_entry list"
  th_T :: bool
  th_attrs :: "'v attr list"
  th_filter :: "('v logged_entry \<Rightarrow> bool) option"
  th_parent :: "nat option"

record 'v log_store =
  s_handlers :: "'v test_handler list"
  s_logf :: "'v logged_entry list"

definition new_handler :: "'v test_handler \<Rightarrow> 'v log_store \<Rightarrow> nat \<times> 'v log_store" where
  "new_handler h s = (length (s_handlers s), s\<lparr>s_handlers := s_handlers s @ [h]\<rparr>)"

definition NewTestHandler :: "bool \<Rightarrow> 'v log_store \<Rightarrow> nat \<times> 'v log_store" where
  "NewTestHandler t =
     new_handler \<lparr>th_Entries = [], th_T = t, th_attrs = [], th_filter = None, th_parent = None\<rparr>"

definition TestHandler_Enabled :: "nat \<Rightarrow> int \<Rightarrow> bool" where
  "TestHandler_Enabled h level = True"

text \<open>Following the parents could go on forever if they formed a cycle; not returning is \<open>None\<close>.\<close>

partial_function (option) TestHandler_root :: "'v test_handler list \<Rightarrow> nat \<Rightarrow> nat option" where
  "TestHandler_root hs h =
     (case th_parent (hs ! h) of None \<Rightarrow> Some h | Some p \<Rightarrow> TestHandler_root hs p)"

definition put_attrs :: "'v attr list \<Rightarrow> (string \<times> 'v attrval) list \<Rightarrow> (string \<times> 'v attrval) list" where
  "put_attrs as m = fold (\<lambda>a m. AList.update (fst a) (snd a) m) as m"

definition record_entry ::
  "(nat \<Rightarrow> (string \<times> int) option) \<Rightarrow> 'v attr list \<Rightarrow> 'v slog_record \<Rightarrow> 'v logged_entry" where
  "record_entry source_of attrs r =
     \<lparr>e_Time = r_Time r, e_Level = r_Level r, e_Msg = r_Message r,
      e_Attrs = put_attrs (r_Attrs r) (put_attrs attrs []),
      e_Source = source_of (r_PC r), e_PC = r_PC r\<rparr>"

definition upd_handler :: "nat \<Rightarrow> ('v test_handler \<Rightarrow> 'v test_handler) \<Rightarrow> 'v log_store \<Rightarrow> 'v log_store" where
  "upd_handler h f s = s\<lparr>s_handlers := (s_handlers s)[h := f (s_handlers s ! h)]\<rparr>"

definition TestHandler_Handle ::
  "(nat \<Rightarrow> (string \<times> int) option) \<Rightarrow> nat \<Rightarrow> 'v slog_record \<Rightarrow> 'v log_store \<Rightarrow> 'v log_store option" where
  "TestHandler_Handle source_of h r s =
     (let e = record_entry source_of (th_attrs (s_handlers s ! h)) r
      in case TestHandler_root (s_handlers s) h of
           None \<Rightarrow> None
         | Some root \<Rightarrow>
             let s1 = upd_handler root (\<lambda>x. x\<lparr>th_Entries := th_Entries x @ [e]\<rparr>) s;
                 s2 = (case th_filter (s_handlers s1 ! root) of
                         None \<Rightarrow> upd_handler root (\<lambda>x. x\<lparr>th_filter := Some (\<lambda>_. False)\<rparr>) s1
                       | Some _ \<Rightarrow> s1)
             in case th_filter (s_handlers s2 ! root) of
                  None \<Rightarrow> Some s2
                | Some flt \<Rightarrow>
                    Some (if th_T (s_handlers s2 ! root) \<and> flt e then s2\<lparr>s_logf := s_logf s2 @ [e]\<rparr>
                          else s2))"

definition TestHandler_WithAttrs :: "nat \<Rightarrow> 'v attr list \<Rightarrow> 'v log_store \<Rightarrow> nat \<times> 'v log_store" where
  "TestHandler_WithAttrs h attrs s =
     new_handler \<lparr>th_Entries = [], th_T = th_T (s_handlers s ! h),
       th_attrs = th_attrs (s_handlers s ! h) @ attrs, th_filter = None, th_parent = Some h\<rparr> s"

definition TestHandler_WithGroup :: "nat \<Rightarrow> string \<Rightarrow> 'v log_store \<Rightarrow> nat \<times> 'v log_store" where
  "TestHandler_WithGroup h name s =
     new_handler \<lparr>th_Entries = [], th_T = th_T (s_handlers s ! h),
       th_attrs = th_attrs (s_handlers s ! h), th_filter = None, th_parent = Some h\<rparr> s"

text \<open>The part of \<open>slog.Logger\<close> in front of a test handler.\<close>

definition Logger_With :: "'v attr list \<Rightarrow> nat \<Rightarrow> 'v log_store \<Rightarrow> nat \<times> 'v log_store" where
  "Logger_With attrs l s = (if attrs = [] then (l, s) else TestHandler_WithAttrs l attrs s)"

definition Logger_WithGroup :: "string \<Rightarrow> nat \<Rightarrow> 'v log_store \<Rightarrow> nat \<times> 'v log_store" where
  "Logger_WithGroup name l s = (if name = [] then (l, s) else TestHandler_WithGroup l name s)"

definition Logger_Log ::
  "(nat \<Rightarrow> (string \<times> int) option) \<Rightarrow> 'v slog_record \<Rightarrow> nat \<Rightarrow> 'v log_store \<Rightarrow> 'v log_store option" where
  "Logger_Log source_of r l s =
     (if TestHandler_Enabled l (r_Level r) then TestHandler_Handle source_of l r s else Some s)"

text \<open>The logger and the handler of \<open>NewTestLogger\<close>.\<close>

definition NewTestLogger :: "bool \<Rightarrow> int \<Rightarrow> 'v log_store \<Rightarrow> (nat \<times> nat) \<times> 'v log_store" where
  "NewTestLogger t level s =
     (let (th, s1) = NewTestHandler t s;
          (lg, s2) = Logger_With [(''test'', StringVal ''true'')] th s1
      in ((lg, th), s2))"

section \<open>Searching the entries\<close>

definition FindEntries :: "nat \<Rightarrow> ('v logged_entry \<Rightarrow> bool) \<Rightarrow> 'v log_store \<Rightarrow> 'v logged_entry list" where
  "FindEntries th pred s = [e \<leftarrow> th_Entries (s_handlers s ! th). pred e]"

text \<open>
  \<open>RequireEntry\<close> polls while other goroutines append entries. Each round sees the entries under
  the lock, whether the deadline has passed, and the entries it dumps when it has; the rounds are
  the list argument, and a list that is used up is a call that has not returned.
\<close>

datatype 'v required = EntryFound "'v logged_entry" | FatalMissing "'v logged_entry list"

fun RequireEntry ::
  "('v logged_entry \<Rightarrow> bool) \<Rightarrow> ('v logged_entry list \<times> bool \<times> 'v logged_entry list) list \<Rightarrow>
    'v required option" where
  "RequireEntry pred [] = None"
| "RequireEntry pred ((seen, after, dump) # polls) =
     (case find pred seen of
        Some e \<Rightarrow> Some (EntryFound e)
      | None \<Rightarrow> if after then Some (FatalMissing dump) else RequireEntry pred polls)"

section \<open>The line writer\<close>

text \<open>
  \<open>SlogWriter\<close> logs through any \<open>*slog.Logger\<close>: the parameter \<open>lg\<close> is the logger's
  \<open>With(attrs).Log(level, msg)\<close>, \<open>runtime_Caller\<close> the call stack.
\<close>

record slog_writer =
  w_level :: int
  w_CallerDepth :: int

definition NewSlogWriter :: "int \<Rightarrow> slog_writer" where
  "NewSlogWriter level = \<lparr>w_level = level, w_CallerDepth = 5\<rparr>"

definition TrimRight :: "char \<Rightarrow> string \<Rightarrow> string" where
  "TrimRight c s = rev (dropWhile (\<lambda>x. x = c) (rev s))"

fun write_lines ::
  "(int \<Rightarrow> string option) \<Rightarrow> ('v attr list \<Rightarrow> int \<Rightarrow> string \<Rightarrow> 's \<Rightarrow> 's) \<Rightarrow> slog_writer \<Rightarrow> string list \<Rightarrow>
    's \<Rightarrow> 's" where
  "write_lines runtime_Caller lg w [] s = s"
| "write_lines runtime_Caller lg w (line # lines) s =
     (if line = [] then write_lines runtime_Caller lg w lines s
      else if w_CallerDepth w > 0 then
        (case runtime_Caller (w_CallerDepth w) of
           Some caller \<Rightarrow>
             write_lines runtime_Caller lg w lines (lg [(''caller'', StringVal caller)] (w_level w) line s)
         | None \<Rightarrow> write_lines runtime_Caller lg w lines (lg [] (w_level w) line s))
      else write_lines runtime_Caller lg w lines (lg [] (w_level w) line s))"

definition SlogWriter_Write ::
  "(int \<Rightarrow> string option) \<Rightarrow> ('v attr list \<Rightarrow> int \<Rightarrow> string \<Rightarrow> 's \<Rightarrow> 's) \<Rightarrow> slog_writer \<Rightarrow> string \<Rightarrow>
    's \<Rightarrow> nat \<times> 's" where
  "SlogWriter_Write runtime_Caller lg w p s =
     (length p, write_lines runtime_Caller lg w (split_on (CHR 0x0A) (TrimRight (CHR 0x0A) p)) s)"

end
