(* ===== verification/Mylog_Props.thy ===== *)
theory Mylog_Props
  imports Mylog
begin

text \<open>
  Properties of logging: the tree of handlers derived from one test logger and the log it keeps,
  and the line writer.
\<close>

section \<open>The handler tree\<close>

text \<open>
  What a test does with the loggers it holds: derive one by attributes or by a group, log a record.
  A logger is a pointer to a handler that exists.
\<close>

datatype 'v log_event =
    EvWith "'v attr list" nat
  | EvGroup string nat
  | EvLog "'v slog_record" nat

definition log_step ::
  "(nat \<Rightarrow> (string \<times> int) option) \<Rightarrow> 'v log_event \<Rightarrow> 'v log_store \<Rightarrow> 'v log_store option" where
  "log_step source_of ev s =
     (case ev of
        EvWith as l \<Rightarrow> Some (snd (Logger_With as l s))
      | EvGroup name l \<Rightarrow> Some (snd (Logger_WithGroup name l s))
      | EvLog r l \<Rightarrow> Logger_Log source_of r l s)"

fun ev_logger :: "'v log_event \<Rightarrow> nat" where
  "ev_logger (EvWith as l) = l"
| "ev_logger (EvGroup name l) = l"
| "ev_logger (EvLog r l) = l"

inductive log_run ::
  "(nat \<Rightarrow> (string \<times> int) option) \<Rightarrow> bool \<Rightarrow> int \<Rightarrow> 'v log_event list \<Rightarrow> 'v log_store \<Rightarrow> bool"
  for source_of :: "nat \<Rightarrow> (string \<times> int) option" and t :: bool and level :: int
where
  log_start: "log_run source_of t level [] (snd (NewTestLogger t level \<lparr>s_handlers = [], s_logf = []\<rparr>))"
| log_more: "log_run source_of t level evs s \<Longrightarrow> ev_logger ev < length (s_handlers s) \<Longrightarrow>
    log_step source_of ev s = Some s' \<Longrightarrow> log_run source_of t level (evs @ [ev]) s'"

text \<open>
  The abstract log: the attributes each logger carries, and what was logged, in order and whichever
  logger it came through: each record with the attributes of its logger.
\<close>

type_synonym 'v alog = "'v attr list list \<times> ('v attr list \<times> 'v slog_record) list"

definition alog_start :: "'v alog" where
  "alog_start = ([[], [(''test'', StringVal ''true'')]], [])"

definition alog_step :: "'v log_event \<Rightarrow> 'v alog \<Rightarrow> 'v alog" where
  "alog_step ev A =
     (case A of (attrs, es) \<Rightarrow>
       (case ev of
          EvWith as l \<Rightarrow> (if as = [] then A else (attrs @ [attrs ! l @ as], es))
        | EvGroup name l \<Rightarrow> (if name = [] then A else (attrs @ [attrs ! l], es))
        | EvLog r l \<Rightarrow> (attrs, es @ [(attrs ! l, r)])))"

definition alog :: "'v log_event list \<Rightarrow> 'v alog" where
  "alog evs = fold alog_step evs alog_start"

text \<open>
  An entry tells of a record logged through a logger with the attributes \<open>attrs\<close>: it has the record's
  fields, one value for each key given by the logger or the record, and that value is the last one
  given when the logger's attributes come before the record's.
\<close>

definition last_value :: "'v attr list \<Rightarrow> string \<Rightarrow> 'v attrval option" where
  "last_value as k = map_of (rev as) k"

definition tells ::
  "(nat \<Rightarrow> (string \<times> int) option) \<Rightarrow> 'v logged_entry \<Rightarrow> 'v attr list \<times> 'v slog_record \<Rightarrow> bool" where
  "tells source_of e x \<longleftrightarrow>
     (case x of (attrs, r) \<Rightarrow>
        e_Time e = r_Time r \<and> e_Level e = r_Level r \<and> e_Msg e = r_Message r \<and> e_PC e = r_PC r \<and>
        e_Source e = source_of (r_PC r) \<and> distinct (map fst (e_Attrs e)) \<and>
        (\<forall>k. map_of (e_Attrs e) k = last_value (attrs @ r_Attrs r) k))"

lemma put_attrs_map: "map_of (put_attrs as m) = map_of (rev as @ m)"
  by (induction as rule: rev_induct) (simp_all add: put_attrs_def update_conv')

lemma put_attrs_distinct: "distinct (map fst m) \<Longrightarrow> distinct (map fst (put_attrs as m))"
  by (induction as rule: rev_induct) (simp_all add: put_attrs_def distinct_update)

lemma record_entry_tells: "tells source_of (record_entry source_of attrs r) (attrs, r)"
  by (simp add: tells_def record_entry_def put_attrs_map put_attrs_distinct last_value_def map_add_assoc)

text \<open>
  The invariant: handler 0 is the root, every other handler was derived from an older one, only the
  root holds entries, and no filter ever lets an entry be echoed.
\<close>

definition tree_ok :: "'v test_handler list \<Rightarrow> bool" where
  "tree_ok hs \<longleftrightarrow> hs \<noteq> [] \<and> th_parent (hs ! 0) = None \<and>
     (\<forall>h < length hs. 0 < h \<longrightarrow> th_Entries (hs ! h) = [] \<and> (\<exists>p < h. th_parent (hs ! h) = Some p))"

definition mute :: "'v test_handler list \<Rightarrow> bool" where
  "mute hs \<longleftrightarrow> (\<forall>x \<in> set hs. \<forall>flt. th_filter x = Some flt \<longrightarrow> flt = (\<lambda>_. False))"

definition sim :: "(nat \<Rightarrow> (string \<times> int) option) \<Rightarrow> 'v log_store \<Rightarrow> 'v alog \<Rightarrow> bool" where
  "sim source_of s A \<longleftrightarrow> tree_ok (s_handlers s) \<and> mute (s_handlers s) \<and>
     map th_attrs (s_handlers s) = fst A \<and> list_all2 (tells source_of) (th_Entries (s_handlers s ! 0)) (snd A) \<and>
     s_logf s = []"

lemma root_is_0:
  "tree_ok hs \<Longrightarrow> h < length hs \<Longrightarrow> TestHandler_root hs h = Some 0"
proof (induction h rule: less_induct)
  case (less h)
  show ?case
  proof (cases "h = 0")
    case True
    with less.prems have "th_parent (hs ! 0) = None" by (simp add: tree_ok_def)
    then show ?thesis unfolding True by (subst TestHandler_root.simps) simp
  next
    case False
    then obtain p where p: "p < h" "th_parent (hs ! h) = Some p" using less.prems by (auto simp: tree_ok_def)
    have "TestHandler_root hs p = Some 0" by (rule less.IH) (use p less.prems in auto)
    then show ?thesis by (simp add: TestHandler_root.simps [of hs h] p)
  qed
qed

lemma sim_length: "sim source_of s A \<Longrightarrow> length (fst A) = length (s_handlers s)"
  by (auto simp: sim_def dest: arg_cong [of _ _ length])

lemma sim_attrs: "sim source_of s A \<Longrightarrow> l < length (s_handlers s) \<Longrightarrow> th_attrs (s_handlers s ! l) = fst A ! l"
  by (metis nth_map sim_def)

text \<open>A new handler below an existing one.\<close>

lemma sim_derive:
  assumes s: "sim source_of s A" and l: "l < length (s_handlers s)"
    and h: "th_Entries h = []" "th_filter h = None" "th_parent h = Some l"
  shows "sim source_of (snd (new_handler h s)) (fst A @ [th_attrs h], snd A)"
proof -
  have ne: "s_handlers s \<noteq> []" using l by auto
  have "tree_ok (s_handlers s @ [h])"
    using s l h by (auto simp: sim_def tree_ok_def nth_append less_Suc_eq)
  moreover have "mute (s_handlers s @ [h])" using s h by (auto simp: sim_def mute_def)
  ultimately show ?thesis using s ne by (simp add: sim_def new_handler_def nth_append)
qed

lemma sim_WithAttrs:
  assumes s: "sim source_of s A" and l: "l < length (s_handlers s)"
  shows "sim source_of (snd (TestHandler_WithAttrs l as s)) (fst A @ [fst A ! l @ as], snd A)"
  using sim_derive [OF s l, of "\<lparr>th_Entries = [], th_T = th_T (s_handlers s ! l),
    th_attrs = fst A ! l @ as, th_filter = None, th_parent = Some l\<rparr>"]
  by (simp add: TestHandler_WithAttrs_def sim_attrs [OF s l])

lemma sim_WithGroup:
  assumes s: "sim source_of s A" and l: "l < length (s_handlers s)"
  shows "sim source_of (snd (TestHandler_WithGroup l name s)) (fst A @ [fst A ! l], snd A)"
  using sim_derive [OF s l, of "\<lparr>th_Entries = [], th_T = th_T (s_handlers s ! l),
    th_attrs = fst A ! l, th_filter = None, th_parent = Some l\<rparr>"]
  by (simp add: TestHandler_WithGroup_def sim_attrs [OF s l])

text \<open>A record handled anywhere in the tree.\<close>

lemma sim_log:
  assumes s: "sim source_of s A" and l: "l < length (s_handlers s)"
  shows "\<exists>s'. Logger_Log source_of r l s = Some s' \<and>
    sim source_of s' (fst A, snd A @ [(fst A ! l, r)])"
proof -
  obtain x xs where hs: "s_handlers s = x # xs" using l by (cases "s_handlers s") auto
  have root: "TestHandler_root (s_handlers s) l = Some 0"
    by (rule root_is_0) (use s l in \<open>auto simp: sim_def\<close>)
  define e where "e = record_entry source_of (fst A ! l) r"
  define x' where "x' = x\<lparr>th_Entries := th_Entries x @ [e], th_filter := Some (\<lambda>_. False)\<rparr>"
  have flt: "th_filter x = None \<or> th_filter x = Some (\<lambda>_. False)"
    using s by (cases "th_filter x") (auto simp: sim_def mute_def hs)
  have "Logger_Log source_of r l s = Some (s\<lparr>s_handlers := x' # xs\<rparr>)"
    using flt root
    by (auto simp: Logger_Log_def TestHandler_Enabled_def TestHandler_Handle_def Let_def hs
        upd_handler_def sim_attrs [OF s l, unfolded hs] e_def [symmetric] x'_def)
  moreover have "tree_ok (x' # xs)"
    using s by (auto simp: sim_def tree_ok_def hs x'_def nth_Cons split: nat.splits)
  moreover have "mute (x' # xs)" using s by (auto simp: sim_def mute_def hs x'_def)
  moreover have "tells source_of e (fst A ! l, r)" unfolding e_def by (rule record_entry_tells)
  ultimately show ?thesis using s by (auto simp: sim_def hs x'_def list_all2_appendI)
qed

lemma sim_step:
  assumes s: "sim source_of s A" and l: "ev_logger ev < length (s_handlers s)" and st: "log_step source_of ev s = Some s'"
  shows "sim source_of s' (alog_step ev A)"
proof (cases ev)
  case (EvWith as h)
  then show ?thesis using s l st sim_WithAttrs [OF s, of h as]
    by (simp add: log_step_def Logger_With_def alog_step_def case_prod_unfold split: if_splits)
next
  case (EvGroup name h)
  then show ?thesis using s l st sim_WithGroup [OF s, of h name]
    by (simp add: log_step_def Logger_WithGroup_def alog_step_def case_prod_unfold split: if_splits)
next
  case (EvLog r h)
  then show ?thesis using l st sim_log [OF s, of h r]
    by (auto simp: log_step_def alog_step_def case_prod_unfold)
qed

lemma sim_start: "sim source_of (snd (NewTestLogger t level \<lparr>s_handlers = [], s_logf = []\<rparr>)) alog_start"
  by (simp add: sim_def tree_ok_def mute_def alog_start_def NewTestLogger_def NewTestHandler_def
      Logger_With_def TestHandler_WithAttrs_def new_handler_def less_Suc_eq)

lemma log_run_sim: "log_run source_of t level evs s \<Longrightarrow> sim source_of s (alog evs)"
proof (induction rule: log_run.induct)
  case log_start
  then show ?case by (simp add: alog_def sim_start)
next
  case (log_more evs s ev s')
  then show ?case using sim_step by (simp add: alog_def)
qed

lemma step_total:
  assumes "log_run source_of t level evs s" and "ev_logger ev < length (s_handlers s)"
  shows "\<exists>s'. log_step source_of ev s = Some s'"
proof (cases ev)
  case (EvLog r h)
  then show ?thesis using sim_log [OF log_run_sim [OF assms(1)], of h r] assms(2)
    by (auto simp: log_step_def)
qed (auto simp: log_step_def)

section \<open>The captured log\<close>

lemma alog_snoc: "alog (evs @ [ev]) = alog_step ev (alog evs)"
  by (simp add: alog_def)

text \<open>
  C34. A test logger and every logger derived from it, by \<open>With\<close> and \<open>WithGroup\<close> in any order,
  write one log: the entries of the handler \<open>NewTestLogger\<close> returned are the records logged through
  any of them, in the order they were logged, each with the record's time, level, message, program
  counter and source and with one value for each key: the last one given, the attributes of the record
  coming after those of its logger (so the record's win), and later \<open>With\<close>s after earlier ones.
  Whatever the level given to \<open>NewTestLogger\<close>, no record is dropped. The next step always returns
  (the search for the root ends).
\<close>

theorem test_log_refines:
  assumes "log_run source_of t level evs s" and "ev_logger ev < length (s_handlers s)"
  shows "list_all2 (tells source_of) (th_Entries (s_handlers s ! 0)) (snd (alog evs)) \<and>
    (\<exists>s'. log_step source_of ev s = Some s' \<and>
       list_all2 (tells source_of) (th_Entries (s_handlers s' ! 0)) (snd (alog_step ev (alog evs))))"
proof -
  obtain s' where s': "log_step source_of ev s = Some s'" using step_total [OF assms] by blast
  have "list_all2 (tells source_of) (th_Entries (s_handlers s' ! 0)) (snd (alog_step ev (alog evs)))"
    using log_run_sim [OF log_more [OF assms s']] by (simp add: alog_snoc sim_def)
  then show ?thesis using log_run_sim [OF assms(1)] s' by (auto simp: sim_def)
qed

text \<open>A record that overrides the attribute \<open>test\<close> of its logger.\<close>

definition demo_record :: "nat slog_record" where
  "demo_record = \<lparr>r_Time = 0, r_Level = LevelDebug, r_Message = ''hi'', r_PC = 0,
     r_Attrs = [(''k'', IntVal 1), (''test'', StringVal ''no'')]\<rparr>"

theorem test_log_refines_witness:
  "\<exists>s'. log_step (\<lambda>_. None) (EvLog demo_record 1)
          (snd (NewTestLogger True LevelError \<lparr>s_handlers = [], s_logf = []\<rparr>)) = Some s' \<and>
     map (\<lambda>e. map_of (e_Attrs e) ''test'') (th_Entries (s_handlers s' ! 0)) = [Some (StringVal ''no'')]"
proof -
  let ?new = "snd (NewTestLogger True LevelError \<lparr>s_handlers = [], s_logf = []\<rparr>) :: nat log_store"
  have "log_run (\<lambda>_. None) True LevelError [] ?new" by (rule log_start)
  moreover have "ev_logger (EvLog demo_record 1) < length (s_handlers ?new)" by code_simp
  ultimately obtain s' where s': "log_step (\<lambda>_. None) (EvLog demo_record 1) ?new = Some s'"
    "list_all2 (tells (\<lambda>_. None)) (th_Entries (s_handlers s' ! 0)) (snd (alog_step (EvLog demo_record 1) (alog [])))"
    using test_log_refines by blast
  have "snd (alog_step (EvLog demo_record 1) (alog [])) = [([(''test'', StringVal ''true'')], demo_record)]"
    by (simp add: alog_def alog_step_def alog_start_def)
  moreover have "last_value ([(''test'', StringVal ''true'')] @ r_Attrs demo_record) ''test'' = Some (StringVal ''no'')"
    by code_simp
  ultimately show ?thesis using s' by (auto simp: list_all2_Cons2 tells_def)
qed

text \<open>
  What the doc comments of the test handler promise beyond this does not hold: a non-nil
  \<open>testing.T\<close> is never told anything, since a nil filter is replaced by one that rejects every entry
  and nothing else sets it; and the \<open>Entries\<close> of a derived handler are not shared with the root:
  searching them finds nothing.
\<close>

theorem test_log_silent:
  assumes "log_run source_of t level evs s" and "0 < h" and "h < length (s_handlers s)"
  shows "s_logf s = [] \<and> FindEntries h pred s = []"
  using log_run_sim [OF assms(1)] assms(2,3) by (simp add: sim_def tree_ok_def FindEntries_def)

theorem test_log_silent_witness:
  "FindEntries 1 (\<lambda>_. True) (snd (NewTestLogger True LevelInfo \<lparr>s_handlers = [], s_logf = []\<rparr>) :: nat log_store) = []"
  using test_log_silent [OF log_start, of 1 True LevelInfo "\<lambda>_. True"]
  by (simp add: NewTestLogger_def NewTestHandler_def Logger_With_def TestHandler_WithAttrs_def new_handler_def)

section \<open>The line writer\<close>

lemma split_trim_lines:
  "filter (\<lambda>l. l \<noteq> []) (split_on c (TrimRight c p)) = filter (\<lambda>l. l \<noteq> []) (split_on c p)"
proof (induction p rule: rev_induct)
  case (snoc x p)
  show ?case
  proof (cases "x = c")
    case True
    then have "TrimRight c (p @ [x]) = TrimRight c p" by (simp add: TrimRight_def)
    moreover have "split_on c (p @ [x]) = split_on c p @ [[]]"
      using split_on_append_sep [of c p "[]"] True by simp
    ultimately show ?thesis using snoc.IH by simp
  qed (simp add: TrimRight_def)
qed (simp add: TrimRight_def)

definition caller_attrs :: "(int \<Rightarrow> string option) \<Rightarrow> slog_writer \<Rightarrow> 'v attr list" where
  "caller_attrs runtime_Caller w =
     (if w_CallerDepth w > 0
      then (case runtime_Caller (w_CallerDepth w) of Some c \<Rightarrow> [(''caller'', StringVal c)] | None \<Rightarrow> [])
      else [])"

lemma write_lines_fold:
  "write_lines runtime_Caller lg w ls s =
     fold (lg (caller_attrs runtime_Caller w) (w_level w)) (filter (\<lambda>l. l \<noteq> []) ls) s"
  by (induction ls arbitrary: s) (auto simp: caller_attrs_def split: option.splits)

text \<open>
  \<open>SlogWriter.Write\<close> reports all bytes as written and logs every non-empty line of them as one
  record, in order, at the writer's level; trimming the trailing newlines first changes nothing,
  as empty lines are dropped anyway.
\<close>

lemma slog_writer_lines:
  "SlogWriter_Write runtime_Caller lg w p s =
     (length p, fold (lg (caller_attrs runtime_Caller w) (w_level w))
        (filter (\<lambda>l. l \<noteq> []) (split_on (CHR 0x0A) p)) s)"
  by (simp add: SlogWriter_Write_def write_lines_fold split_trim_lines)

section \<open>Level names\<close>

lemma ParseLevel_range:
  "ParseLevel ulower s \<in> {LevelDebug, LevelInfo, LevelWarn, LevelError}"
  by (simp add: ParseLevel_def Let_def)

lemma RequireEntry_first:
  assumes "RequireEntry pred (p # polls) = Some (EntryFound e)" and "\<not> fst (snd p)"
  shows "find pred (fst p) = Some e \<or> RequireEntry pred polls = Some (EntryFound e)"
  using assms by (cases p) (auto split: option.splits)

lemma RequireEntry_found: "RequireEntry pred polls = Some (EntryFound e) \<Longrightarrow> pred e"
  by (induction pred polls rule: RequireEntry.induct)
    (auto split: option.splits if_splits simp: find_Some_iff)

end
