(* ===== verification/AppCtx.thy ===== *)
theory AppCtx
  imports Runtime Mylog
begin

text \<open>
  Application paths (\<open>src/appctx\<close>): the search for the root of a git work tree and the directories an
  application uses. The git program is the parameter \<open>git\<close>: what \<open>Output()\<close> of the command with the
  given arguments returns. What the functions log is returned beside their result.
\<close>

section \<open>Finding the root of the work tree\<close>

text \<open>
  The error of a command: its text and, when it is an \<open>*exec.ExitError\<close>, what the command wrote to
  its standard error and its exit code.
\<close>

record exec_error =
  x_text :: string
  x_exit :: "(string \<times> int) option"

definition Contains :: "string \<Rightarrow> string \<Rightarrow> bool" where
  "Contains s sub = sublist sub s"

definition isExpectedGitFallbackErr :: "(string \<Rightarrow> string) \<Rightarrow> exec_error option \<Rightarrow> bool" where
  "isExpectedGitFallbackErr ulower err =
     (case err of
        None \<Rightarrow> False
      | Some e \<Rightarrow>
          (let lower = ToLower ulower (x_text e)
           in if Contains lower ''not a git repository'' then True
              else if Contains lower ''no such file or directory'' then True
              else (case x_exit e of
                      None \<Rightarrow> False
                    | Some (err_out, code) \<Rightarrow>
                        (let stderr = ToLower ulower (TrimSpace err_out)
                         in if Contains stderr ''not a git repository'' then True
                            else if Contains stderr ''no such file or directory'' then True
                            else code = 128))))"

definition is_git_entry :: "goerr + inode \<Rightarrow> bool" where
  "is_git_entry r = (case r of Inl _ \<Rightarrow> False
     | Inr fi \<Rightarrow> (case kind fi of KDir \<Rightarrow> True | KFile _ \<Rightarrow> True | KLink _ \<Rightarrow> False))"

text \<open>The walk towards the root of the file system; it ends as \<open>filepath.Dir\<close> shortens the path.\<close>

function git_walk :: "string \<Rightarrow> rts \<Rightarrow> string option \<times> rts" where
  "git_walk p s =
     (case Runtime_Stat (Join [p, ''.git'']) False s of
        (r, s1) \<Rightarrow>
          if is_git_entry r then (Some p, s1)
          else (let parent = Dir p in if parent = p then (None, s1) else git_walk parent s1))"
  by pat_completeness auto
termination
  by (relation "measure (\<lambda>(p, s). climb_measure p)") (auto intro: Dir_decreases)

declare git_walk.simps [simp del]

definition start_dir :: "goerr + inode \<Rightarrow> string \<Rightarrow> string" where
  "start_dir r start =
     (case r of Inl _ \<Rightarrow> start | Inr fi \<Rightarrow> if kind fi \<noteq> KDir then Dir start else start)"

type_synonym logged = "(int \<times> string) list"

definition git_fallback :: "string \<Rightarrow> logged \<Rightarrow> rts \<Rightarrow> (string \<times> logged) \<times> rts" where
  "git_fallback start logs s =
     (case git_walk start s of
        (Some p, s1) \<Rightarrow> ((p, logs @ [(LevelDebug, ''found .git entry'')]), s1)
      | (None, s1) \<Rightarrow> (([], logs @ [(LevelDebug, ''git root not found'')]), s1))"

definition FindGitRoot ::
  "(string list \<Rightarrow> exec_error + string) \<Rightarrow> (string \<Rightarrow> string) \<Rightarrow> string \<Rightarrow> rts \<Rightarrow> (string \<times> logged) \<times> rts" where
  "FindGitRoot git ulower start s =
     (if fst s = None then (([], []), s)
      else
        (case Runtime_Stat start False s of
           (r, s1) \<Rightarrow>
             (let dir = start_dir r start
              in case git [''-C'', dir, ''rev-parse'', ''--show-toplevel''] of
                   Inr out \<Rightarrow>
                     (let p = TrimSpace out
                      in if p \<noteq> [] then ((p, [(LevelDebug, ''git rev-parse succeeded'')]), s1)
                         else git_fallback dir [(LevelDebug, ''git rev-parse returned empty output'')] s1)
                 | Inl err \<Rightarrow>
                     git_fallback dir
                       [(if isExpectedGitFallbackErr ulower (Some err) then LevelDebug else LevelWarn,
                         ''git rev-parse failed, falling back'')] s1)))"

section \<open>Application paths\<close>

record app_paths =
  Appname :: string
  Root :: string
  ConfigRoot :: string
  StateRoot :: string
  DataRoot :: string
  CacheRoot :: string
  LocalConfigRoot :: string

definition app_dir :: "string \<Rightarrow> string \<Rightarrow> goerr + string \<Rightarrow> goerr + string" where
  "app_dir msg appname r = (case r of Inl e \<Rightarrow> Inl (Wrapped msg e) | Inr path \<Rightarrow> Inr (Join [path, appname]))"

definition NewAppPaths :: "string \<Rightarrow> string \<Rightarrow> app_paths rtio" where
  "NewAppPaths root appname s =
     (if fst s = None then (Inl (ErrMsg ''runtime is nil''), s)
      else
        (let env = rt_arg s; p = s_proc (snd s); rootc = Clean root
         in bindE (liftE (app_dir ''unable to find user config path'' appname (UserConfigPath env p))) (\<lambda>config.
              bindE (liftE (app_dir ''unable to find user data path'' appname (UserDataPath env p))) (\<lambda>data.
                bindE (liftE (app_dir ''unable to find user state root'' appname (UserStatePath env p))) (\<lambda>state.
                  bindE (liftE (app_dir ''unable to find user cache root'' appname (UserCachePath env p))) (\<lambda>cache.
                    ret \<lparr>Appname = appname, Root = rootc, ConfigRoot = config, StateRoot = state,
                      DataRoot = data, CacheRoot = cache,
                      LocalConfigRoot = Join [rootc, CHR ''.'' # appname]\<rparr>)))) s))"

definition NewGitAppPaths ::
  "(string list \<Rightarrow> exec_error + string) \<Rightarrow> (string \<Rightarrow> string) \<Rightarrow> string \<Rightarrow> app_paths rtio" where
  "NewGitAppPaths git ulower appname s =
     (if fst s = None then (Inl (ErrMsg ''runtime is nil''), s)
      else bindE Runtime_Getwd (\<lambda>cwd s.
             case FindGitRoot git ulower cwd s of ((root, logs), s1) \<Rightarrow> NewAppPaths root appname s1) s)"

end
