(* ===== verification/AppCtx_Props.thy ===== *)
theory AppCtx_Props
  imports AppCtx Runtime_Props
begin

text \<open>
  Properties of the application paths: which directory the search for a work tree ends in, and
  what becomes of the paths when there is none.
\<close>

section \<open>Stat reads\<close>

lemma OsFS_Stat_reads:
  assumes "wd_ok fs" shows "snd (OsFS_Stat p False (fs, w)) = (fs, w)"
proof -
  obtain r fs' w' where r: "resolveHostForCreate p (fs, w) = (r, (fs', w'))" by (metis prod.exhaust)
  have "w' = w" "fs' = fs" using resolveHostForCreate_frame [OF r] wd_resolveHostForCreate [OF r assms] by auto
  then show ?thesis using r by (cases r) (simp_all add: OsFS_Stat_def bindE_def os_query_def)
qed

lemma Runtime_Stat_in_step:
  assumes s: "in_step s" shows "Runtime_Stat p False s = (fst (Runtime_Stat p False s), s)"
proof -
  obtain r where r: "Runtime_ResolvePath p False s = (r, s)" using Runtime_ResolvePath_in_step [OF s] by blast
  have "on_fs (OsFS_Stat q False) s = (fst (OsFS_Stat q False (view s)), s)" for q
    using in_step_view [OF s] in_stepD [OF s] by (intro on_fs_query) (auto simp: OsFS_Stat_reads)
  then show ?thesis
    using r by (cases r) (simp_all add: Runtime_Stat_def at_path_def validated_in_step [OF s] bindE_def)
qed

section \<open>The walk\<close>

definition has_git :: "rts \<Rightarrow> string list \<Rightarrow> bool" where
  "has_git s ds = is_git_entry (fst (Runtime_Stat (Join [abs_path ds, ''.git'']) False s))"

definition nearest_git :: "rts \<Rightarrow> string list \<Rightarrow> string list option" where
  "nearest_git s cs = find (has_git s) (rev (prefixes cs))"

lemma git_walk_step:
  assumes s: "in_step s"
  shows "git_walk p s =
    (if is_git_entry (fst (Runtime_Stat (Join [p, ''.git'']) False s)) then (Some p, s)
     else if Dir p = p then (None, s) else git_walk (Dir p) s)"
proof -
  obtain r where "Runtime_Stat (Join [p, ''.git'']) False s = (r, s)" using Runtime_Stat_in_step [OF s] by metis
  then show ?thesis by (subst git_walk.simps) (simp add: Let_def)
qed

lemma git_walk_nearest:
  assumes s: "in_step s"
  shows "names_ok cs \<Longrightarrow> git_walk (abs_path cs) s = (map_option abs_path (nearest_git s cs), s)"
proof (induction cs rule: rev_induct)
  case Nil
  have "Dir ''/'' = ''/''" by code_simp
  then show ?case
    using git_walk_step [OF s, of "''/''"] by (simp add: nearest_git_def has_git_def abs_path_Nil)
next
  case (snoc c cs)
  have d: "Dir (abs_path (cs @ [c])) = abs_path cs" using snoc.prems by (rule Dir_abs_path)
  have "names_ok cs" using snoc.prems by simp
  moreover have "abs_path cs \<noteq> abs_path (cs @ [c])"
    using snoc.prems by (metis acomps_abs_path butlast_snoc calculation not_Cons_self2 self_append_conv)
  ultimately show ?case
    using git_walk_step [OF s, of "abs_path (cs @ [c])"] snoc.IH
    by (simp add: d nearest_git_def has_git_def)
qed

lemma nearest_git_Some:
  "nearest_git s cs = Some ds \<longleftrightarrow>
    prefix ds cs \<and> has_git s ds \<and> (\<forall>es. prefix es cs \<and> length ds < length es \<longrightarrow> \<not> has_git s es)"
proof (induction cs rule: rev_induct)
  case Nil
  show ?case by (auto simp: nearest_git_def)
next
  case (snoc c cs)
  have "nearest_git s (cs @ [c]) = (if has_git s (cs @ [c]) then Some (cs @ [c]) else nearest_git s cs)"
    by (simp add: nearest_git_def)
  moreover have "length es < length (cs @ [c])" if "prefix es cs" for es
    using prefix_length_le [OF that] by simp
  ultimately show ?case using snoc.IH unfolding prefix_snoc by (cases "has_git s (cs @ [c])") fastforce+
qed

lemma nearest_git_None: "nearest_git s cs = None \<longleftrightarrow> (\<forall>es. prefix es cs \<longrightarrow> \<not> has_git s es)"
  by (auto simp: nearest_git_def find_None_iff)

section \<open>FindGitRoot\<close>

text \<open>The git program cannot tell: it fails, or prints nothing.\<close>

definition git_blind :: "(string list \<Rightarrow> exec_error + string) \<Rightarrow> bool" where
  "git_blind git \<longleftrightarrow> (\<forall>args out. git args = Inr out \<longrightarrow> blank out)"

definition start_comps :: "rts \<Rightarrow> string list \<Rightarrow> string list" where
  "start_comps s cs =
     (case fst (Runtime_Stat (abs_path cs) False s) of
        Inl _ \<Rightarrow> cs | Inr fi \<Rightarrow> if kind fi \<noteq> KDir then butlast cs else cs)"

lemma start_dir_comps:
  assumes "names_ok cs"
  shows "start_dir (fst (Runtime_Stat (abs_path cs) False s)) (abs_path cs) = abs_path (start_comps s cs)"
proof -
  have "Dir ''/'' = ''/''" by code_simp
  then have "Dir (abs_path cs) = abs_path (butlast cs)"
    using Dir_abs_path assms by (cases cs rule: rev_cases) (auto simp: abs_path_Nil)
  then show ?thesis by (simp add: start_dir_def start_comps_def split: sum.split)
qed

lemma FindGitRoot_blind:
  assumes s: "in_step s" and g: "git_blind git" and cs: "names_ok cs"
  shows "\<exists>logs. FindGitRoot git ulower (abs_path cs) s =
    ((case nearest_git s (start_comps s cs) of None \<Rightarrow> [] | Some ds \<Rightarrow> abs_path ds, logs), s)"
proof -
  obtain r where r: "Runtime_Stat (abs_path cs) False s = (r, s)" using Runtime_Stat_in_step [OF s] by metis
  define dir where "dir = abs_path (start_comps s cs)"
  have d: "start_dir r (abs_path cs) = dir" using start_dir_comps [OF cs, of s] r by (simp add: dir_def)
  have "names_ok (butlast cs)" using cs by (cases cs rule: rev_cases) simp_all
  then have n: "names_ok (start_comps s cs)" using cs by (simp add: start_comps_def split: sum.split)
  obtain rt where f: "fst s = Some rt" using s by (cases "fst s") (auto simp: in_step_def same_jail_def)
  have w: "git_walk dir s = (map_option abs_path (nearest_git s (start_comps s cs)), s)"
    unfolding dir_def by (rule git_walk_nearest [OF s n])
  have fb: "\<exists>l. git_fallback dir logs s =
      ((case nearest_git s (start_comps s cs) of None \<Rightarrow> [] | Some ds \<Rightarrow> abs_path ds, l), s)" for logs
    by (cases "nearest_git s (start_comps s cs)") (simp_all add: git_fallback_def w)
  show ?thesis
  proof (cases "git [''-C'', dir, ''rev-parse'', ''--show-toplevel'']")
    case (Inl e)
    then show ?thesis using f r d fb by (simp add: FindGitRoot_def Let_def)
  next
    case (Inr out)
    then have "blank out" using g by (auto simp: git_blind_def)
    then show ?thesis using f r d fb Inr by (simp add: FindGitRoot_def Let_def)
  qed
qed

text \<open>
  C22. When the git program does not answer, \<open>FindGitRoot\<close> of a clean absolute path, on a runtime in
  step with its test environment and file system, returns the deepest of the start directory (its parent, when the path is a file) and its
  ancestors that contains a \<open>.git\<close> directory or regular file, and the empty string exactly when none of
  them does. It only reads. (From a relative path the walk ends at \<open>.\<close>, the working directory.)
\<close>

theorem find_git_root_nearest:
  assumes "in_step s" and "git_blind git" and "names_ok cs"
    and "FindGitRoot git ulower (abs_path cs) s = ((root, logs), t)"
  shows "t = s \<and>
    (root = [] \<longleftrightarrow> (\<forall>es. prefix es (start_comps s cs) \<longrightarrow> \<not> has_git s es)) \<and>
    (root \<noteq> [] \<longrightarrow> (\<exists>ds. root = abs_path ds \<and> prefix ds (start_comps s cs) \<and> has_git s ds \<and>
       (\<forall>es. prefix es (start_comps s cs) \<and> length ds < length es \<longrightarrow> \<not> has_git s es)))"
proof -
  have r: "t = s" "root = (case nearest_git s (start_comps s cs) of None \<Rightarrow> [] | Some ds \<Rightarrow> abs_path ds)"
    using FindGitRoot_blind [OF assms(1-3), of ulower] assms(4) by auto
  show ?thesis
  proof (cases "nearest_git s (start_comps s cs)")
    case None
    then show ?thesis using r nearest_git_None [of s "start_comps s cs"] by simp
  next
    case (Some ds)
    have "abs_path ds \<noteq> []" by (simp add: abs_path_def)
    then show ?thesis using r Some nearest_git_Some [of s "start_comps s cs" ds] by auto
  qed
qed

text \<open>The small host with a \<open>.git\<close> directory in the jail's root.\<close>

definition demo_git_rts :: rts where
  "demo_git_rts = (fst demo_rts, set_host
     (demo_world\<lparr>nodes := (demo_J @ [''.git''], demo_inode KDir) # demo_tree\<rparr>)
     (snd demo_rts))"

lemma in_step_set_host: "in_step (rt, set_host w y) \<longleftrightarrow> in_step (rt, y)"
proof -
  have "fs_of (rt, set_host w y) = fs_of (rt, y)" "env_of (rt, set_host w y) = env_of (rt, y)"
    by (simp_all add: fs_of_def env_of_def set_host_def)
  then show ?thesis
    unfolding in_step_def same_jail_def the_te_def by (cases rt) (simp_all add: set_host_def)
qed

lemma demo_git_in_step: "in_step demo_git_rts"
  using demo_in_step unfolding demo_git_rts_def in_step_set_host by simp

definition no_git :: "string list \<Rightarrow> exec_error + string" where
  "no_git args = Inl \<lparr>x_text = ''exit status 128'', x_exit = Some (''fatal'', 128)\<rparr>"

lemma no_git_blind: "git_blind no_git"
  by (simp add: git_blind_def no_git_def)

theorem find_git_root_nearest_witness:
  "\<exists>logs. FindGitRoot no_git (\<lambda>s. s) ''/d'' demo_git_rts = ((''/'', logs), demo_git_rts)"
proof -
  have d: "''/d'' = abs_path [''d'']" "names_ok [''d'']" by code_simp+
  have g: "start_comps demo_git_rts [''d''] = [''d'']" "\<not> has_git demo_git_rts [''d'']" "has_git demo_git_rts []"
    by code_simp+
  obtain root logs t where f: "FindGitRoot no_git (\<lambda>s. s) (abs_path [''d'']) demo_git_rts = ((root, logs), t)"
    by (metis prod.exhaust)
  note r = find_git_root_nearest [OF demo_git_in_step no_git_blind d(2) f]
  have "root \<noteq> []" using r g(3) by auto
  then obtain ds where ds: "root = abs_path ds" "prefix ds [''d'']" "has_git demo_git_rts ds" using r g(1) by auto
  then have "ds = []" using g(2) by (auto simp: prefix_Cons)
  then show ?thesis using f ds(1) r d(1) by (auto simp: abs_path_Nil)
qed

text \<open>From \<open>.\<close> the work tree around the working directory \<open>/d\<close> is not found, from \<open>/d\<close> it is.\<close>

lemma git_root_relative:
  "fst (fst (FindGitRoot no_git (\<lambda>s. s) ''.'' demo_git_rts)) = [] \<and>
   Runtime_Getwd demo_git_rts = (Inr ''/d'', demo_git_rts) \<and>
   fst (fst (FindGitRoot no_git (\<lambda>s. s) ''/d'' demo_git_rts)) = ''/''"
proof (intro conjI)
  note s = demo_git_in_step
  have g: "\<not> is_git_entry (fst (Runtime_Stat (Join [''.'', ''.git'']) False demo_git_rts))" by code_simp
  have "Dir ''.'' = ''.''" by code_simp
  then have w: "git_walk ''.'' demo_git_rts = (None, demo_git_rts)"
    using git_walk_step [OF s, of "''.''"] g by simp
  have "start_dir (fst (Runtime_Stat ''.'' False demo_git_rts)) ''.'' = ''.''" by code_simp
  then show "fst (fst (FindGitRoot no_git (\<lambda>s. s) ''.'' demo_git_rts)) = []"
    using w Runtime_Stat_in_step [OF s, of "''.''"]
    by (auto simp: FindGitRoot_def Let_def no_git_def git_fallback_def demo_git_rts_def split: prod.splits)
  show "Runtime_Getwd demo_git_rts = (Inr ''/d'', demo_git_rts)"
    using Runtime_Getwd_in_step [OF s] by (simp add: demo_git_rts_def demo_rts_def demo_rt_def)
  have d: "''/d'' = abs_path [''d'']" "names_ok [''d'']" by code_simp+
  have "nearest_git demo_git_rts (start_comps demo_git_rts [''d'']) = Some []" by code_simp
  then show "fst (fst (FindGitRoot no_git (\<lambda>s. s) ''/d'' demo_git_rts)) = ''/''"
    using FindGitRoot_blind [OF s no_git_blind d(2), of "\<lambda>s. s"] d(1) by (auto simp: abs_path_Nil)
qed

section \<open>Application paths\<close>

text \<open>
  C37. With no work tree to be found, the paths of \<open>NewGitAppPaths\<close> are relative: \<open>Root\<close> is \<open>.\<close> and
  the local configuration \<open>.<app>\<close>, whatever the working directory of the runtime is. (The comment
  says that an unset root is inferred from \<open>Runtime.Getwd()\<close>.)
\<close>

theorem git_app_paths_no_root:
  assumes "in_step s" and "git_blind git"
    and "\<And>es. prefix es (start_comps s (acomps (rt_wd (the (fst s))))) \<Longrightarrow> \<not> has_git s es"
    and "NewGitAppPaths git ulower appname s = (Inr p, t)"
  shows "Root p = ''.'' \<and> LocalConfigRoot p = Join [''.'', CHR ''.'' # appname] \<and> t = s"
proof -
  obtain cs where cs: "names_ok cs" "rt_wd (the (fst s)) = abs_path cs" "acomps (rt_wd (the (fst s))) = cs"
    using in_step_wd [OF assms(1)] by (rule clean_absE)
  obtain logs where f: "FindGitRoot git ulower (abs_path cs) s = (([], logs), s)"
    using FindGitRoot_blind [OF assms(1,2) cs(1), of ulower] assms(3) nearest_git_None [of s "start_comps s cs"] cs(3)
    by auto
  have n: "fst s \<noteq> None" using assms(1) by (cases "fst s") (auto simp: in_step_def same_jail_def)
  have "NewAppPaths [] appname s = (Inr p, t)"
    using assms(4) n f cs(2) Runtime_Getwd_in_step [OF assms(1)] by (simp add: NewGitAppPaths_def bindE_def)
  moreover have "Clean [] = ''.''" by code_simp
  ultimately show ?thesis
    using n by (auto simp: NewAppPaths_def Let_def bindE_def liftE_def ret_def split: sum.splits)
qed

theorem git_app_paths_no_root_witness:
  "\<exists>p. NewGitAppPaths no_git (\<lambda>s. s) ''tap'' demo_rts = (Inr p, demo_rts) \<and> Root p = ''.''"
proof -
  have wd: "rt_wd (the (fst demo_rts)) = ''/d''" "acomps ''/d'' = [''d'']" by code_simp+
  have g: "start_comps demo_rts [''d''] = [''d'']" "\<not> has_git demo_rts [''d'']" "\<not> has_git demo_rts []"
    by code_simp+
  have n: "\<not> has_git demo_rts es" if "prefix es (start_comps demo_rts (acomps (rt_wd (the (fst demo_rts)))))" for es
    using that g wd by (auto simp: prefix_Cons)
  obtain p t where p: "NewGitAppPaths no_git (\<lambda>s. s) ''tap'' demo_rts = (Inr p, t)"
  proof -
    have "(case fst (NewGitAppPaths no_git (\<lambda>s. s) ''tap'' demo_rts) of Inl e \<Rightarrow> False | Inr p \<Rightarrow> True)"
      by code_simp
    then show thesis using that
      by (cases "NewGitAppPaths no_git (\<lambda>s. s) ''tap'' demo_rts") (auto split: sum.splits)
  qed
  then show ?thesis using git_app_paths_no_root [OF demo_in_step no_git_blind n p] by simp
qed

end
