(* ===== verification/Process.thy ===== *)
theory Process
  imports Runtime
begin

text \<open>
  Processes and pipelines of the test sandbox (\<open>src/sandbox/process.go\<close>, \<open>pipeline.go\<close>).

  A \<open>Runner\<close> is the application's code. What matters of it here is how it behaves towards its
  streams and its runtime, one interaction after another, possibly forever: a coinductive tree. Its
  goroutine is a thread; the goroutines of a pipeline interleave, a step of one at a time. An
  \<open>io.Pipe\<close> has no buffer: a write waits for reads that take all of it, a read waits for a write
  or for the writing end to be closed. Readers, writers and pipes are objects of a store.
\<close>

section \<open>Runners\<close>

datatype outfd = FdOut | FdErr

text \<open>
  Return with an exit code and an error; write and learn whether the write failed; read at most
  \<open>n\<close> bytes, where \<open>None\<close> is the end of the input; use the runtime, whose state the rest depends on.
\<close>

codatatype runner =
    Return int "goerr option"
  | WriteTo outfd string "bool \<Rightarrow> runner"
  | ReadIn nat "string option \<Rightarrow> runner"
  | Call "rts \<Rightarrow> rts" "rts \<Rightarrow> runner"

text \<open>A producer of lines; the pause between two lines takes time and nothing else.\<close>

fun producer :: "string list \<Rightarrow> runner" where
  "producer [] = Return 0 None"
| "producer (l # ls) = WriteTo FdOut (l @ [CHR 0x0A]) (\<lambda>_. producer ls)"

section \<open>Objects and processes\<close>

text \<open>
  A buffer (\<open>bytes.Buffer\<close>, or another reader or writer that never blocks) with its contents, and
  the two ends of a pipe. The first three objects are the standard streams.
\<close>

datatype ioobj = Buffer string | PipeReader nat | PipeWriter nat

record process =
  pc_args :: "string list"
  pc_isTTY :: bool
  pc_runner :: "runner option"
  pc_in :: "nat option"
  pc_out :: "nat option"
  pc_err :: "nat option"
  pc_stdoutPipe :: "nat option"
  pc_stdoutW :: "nat option"
  pc_stderrPipe :: "nat option"
  pc_stderrW :: "nat option"
  pc_stdinPipe :: "nat option"
  pc_stdinW :: "nat option"
  pc_outBuf :: "nat option"
  pc_errBuf :: "nat option"

text \<open>\<open>bx_closed ! q\<close>: the writing end of pipe \<open>q\<close> has been closed.\<close>

record box =
  bx_sys :: sys
  bx_objs :: "ioobj list"
  bx_closed :: "bool list"
  bx_procs :: "process list"

definition new_obj :: "ioobj \<Rightarrow> box \<Rightarrow> nat \<times> box" where
  "new_obj x b = (length (bx_objs b), b\<lparr>bx_objs := bx_objs b @ [x]\<rparr>)"

definition io_Pipe :: "box \<Rightarrow> (nat \<times> nat) \<times> box" where
  "io_Pipe b =
     (let q = length (bx_closed b); r = length (bx_objs b)
      in ((r, r + 1), b\<lparr>bx_closed := bx_closed b @ [False],
            bx_objs := bx_objs b @ [PipeReader q, PipeWriter q]\<rparr>))"

definition upd_obj :: "nat \<Rightarrow> ioobj \<Rightarrow> box \<Rightarrow> box" where
  "upd_obj i x b = b\<lparr>bx_objs := (bx_objs b)[i := x]\<rparr>"

text \<open>\<open>Close\<close> of a writing end that may be nil.\<close>

definition close_writer :: "nat option \<Rightarrow> box \<Rightarrow> box" where
  "close_writer w b =
     (case w of None \<Rightarrow> b
      | Some i \<Rightarrow> (case bx_objs b ! i of
                    PipeWriter q \<Rightarrow> b\<lparr>bx_closed := (bx_closed b)[q := True]\<rparr> | _ \<Rightarrow> b))"

definition proc_of :: "nat \<Rightarrow> box \<Rightarrow> process" where
  "proc_of p b = bx_procs b ! p"

definition upd_proc :: "nat \<Rightarrow> (process \<Rightarrow> process) \<Rightarrow> box \<Rightarrow> box" where
  "upd_proc p f b = b\<lparr>bx_procs := (bx_procs b)[p := f (bx_procs b ! p)]\<rparr>"

definition fresh_process :: "runner option \<Rightarrow> bool \<Rightarrow> process" where
  "fresh_process runner isTTY =
     \<lparr>pc_args = [], pc_isTTY = isTTY, pc_runner = runner, pc_in = None, pc_out = None, pc_err = None,
      pc_stdoutPipe = None, pc_stdoutW = None, pc_stderrPipe = None, pc_stderrW = None,
      pc_stdinPipe = None, pc_stdinW = None, pc_outBuf = None, pc_errBuf = None\<rparr>"

definition NewProcess :: "runner option \<Rightarrow> bool \<Rightarrow> box \<Rightarrow> nat \<times> box" where
  "NewProcess runner isTTY b =
     (length (bx_procs b), b\<lparr>bx_procs := bx_procs b @ [fresh_process runner isTTY]\<rparr>)"

definition NewProducer :: "string list \<Rightarrow> box \<Rightarrow> nat \<times> box" where
  "NewProducer lines = NewProcess (Some (producer lines)) False"

section \<open>Configuring a process\<close>

definition Process_StdoutPipe :: "nat \<Rightarrow> box \<Rightarrow> nat \<times> box" where
  "Process_StdoutPipe p b =
     (case pc_stdoutPipe (proc_of p b) of
        Some r \<Rightarrow> (r, b)
      | None \<Rightarrow> (let ((r, w), b1) = io_Pipe b
                 in (r, upd_proc p (\<lambda>x. x\<lparr>pc_stdoutPipe := Some r, pc_stdoutW := Some w\<rparr>) b1)))"

definition Process_CaptureStdout :: "nat \<Rightarrow> box \<Rightarrow> nat \<times> box" where
  "Process_CaptureStdout p b =
     (case pc_outBuf (proc_of p b) of
        Some i \<Rightarrow> (i, b)
      | None \<Rightarrow> (let (i, b1) = new_obj (Buffer []) b in (i, upd_proc p (\<lambda>x. x\<lparr>pc_outBuf := Some i\<rparr>) b1)))"

definition Process_StderrPipe :: "nat \<Rightarrow> box \<Rightarrow> nat \<times> box" where
  "Process_StderrPipe p b =
     (case pc_stderrPipe (proc_of p b) of
        Some r \<Rightarrow> (r, b)
      | None \<Rightarrow> (let ((r, w), b1) = io_Pipe b
                 in (r, upd_proc p (\<lambda>x. x\<lparr>pc_stderrPipe := Some r, pc_stderrW := Some w\<rparr>) b1)))"

definition Process_CaptureStderr :: "nat \<Rightarrow> box \<Rightarrow> nat \<times> box" where
  "Process_CaptureStderr p b =
     (case pc_errBuf (proc_of p b) of
        Some i \<Rightarrow> (i, b)
      | None \<Rightarrow> (let (i, b1) = new_obj (Buffer []) b in (i, upd_proc p (\<lambda>x. x\<lparr>pc_errBuf := Some i\<rparr>) b1)))"

definition Process_SetStdin :: "nat \<Rightarrow> nat option \<Rightarrow> box \<Rightarrow> box" where
  "Process_SetStdin p r = upd_proc p (\<lambda>x. x\<lparr>pc_in := r\<rparr>)"

definition Process_SetStderr :: "nat \<Rightarrow> nat option \<Rightarrow> box \<Rightarrow> box" where
  "Process_SetStderr p w = upd_proc p (\<lambda>x. x\<lparr>pc_err := w\<rparr>)"

definition Process_SetStdout :: "nat \<Rightarrow> nat option \<Rightarrow> box \<Rightarrow> box" where
  "Process_SetStdout p w = upd_proc p (\<lambda>x. x\<lparr>pc_out := w\<rparr>)"

definition Process_SetArgs :: "nat \<Rightarrow> string list \<Rightarrow> box \<Rightarrow> box" where
  "Process_SetArgs p args = upd_proc p (\<lambda>x. x\<lparr>pc_args := args\<rparr>)"

text \<open>\<open>Write\<close> makes the pipe of standard input if there is none, then writes to it (the object returned).\<close>

definition Process_Write :: "nat \<Rightarrow> box \<Rightarrow> nat \<times> box" where
  "Process_Write p b =
     (case pc_stdinW (proc_of p b) of
        Some w \<Rightarrow> (w, b)
      | None \<Rightarrow> (let ((r, w), b1) = io_Pipe b
                 in (w, upd_proc p (\<lambda>x. x\<lparr>pc_stdinPipe := Some r, pc_stdinW := Some w, pc_in := Some r\<rparr>) b1)))"

definition Process_Close :: "nat \<Rightarrow> box \<Rightarrow> box" where
  "Process_Close p b = close_writer (pc_stdinW (proc_of p b)) b"

section \<open>Run\<close>

record process_result =
  pr_Err :: "goerr option"
  pr_ExitCode :: int
  pr_Stdout :: string
  pr_Stderr :: string

definition run_error :: "goerr \<Rightarrow> process_result" where
  "run_error e = \<lparr>pr_Err = Some e, pr_ExitCode = 1, pr_Stdout = [], pr_Stderr = []\<rparr>"

text \<open>The choice of the three streams.\<close>

definition select_in :: "nat \<Rightarrow> box \<Rightarrow> (nat \<times> bool) \<times> box" where
  "select_in p b =
     (case pc_in (proc_of p b) of
        Some i \<Rightarrow> ((i, True), b)
      | None \<Rightarrow>
          (let b1 = (if pc_stdinPipe (proc_of p b) = None \<or> pc_stdinW (proc_of p b) = None
                     then (let ((r, w), b1) = io_Pipe b
                           in upd_proc p (\<lambda>x. x\<lparr>pc_stdinPipe := Some r, pc_stdinW := Some w\<rparr>) b1)
                     else b);
               i = the (pc_stdinPipe (proc_of p b1))
           in ((i, False), upd_proc p (\<lambda>x. x\<lparr>pc_in := Some i\<rparr>) b1)))"

definition select_out :: "nat \<Rightarrow> box \<Rightarrow> nat \<times> box" where
  "select_out p b =
     (case pc_out (proc_of p b) of
        Some i \<Rightarrow> (i, b)
      | None \<Rightarrow>
          (case pc_outBuf (proc_of p b) of
             Some i \<Rightarrow> (i, b)
           | None \<Rightarrow>
               (case pc_stdoutW (proc_of p b) of
                  Some i \<Rightarrow> (i, b)
                | None \<Rightarrow> (let (i, b1) = new_obj (Buffer []) b
                           in (i, upd_proc p (\<lambda>x. x\<lparr>pc_outBuf := Some i\<rparr>) b1)))))"

definition select_err :: "nat \<Rightarrow> box \<Rightarrow> nat \<times> box" where
  "select_err p b =
     (case pc_err (proc_of p b) of
        Some i \<Rightarrow> (i, b)
      | None \<Rightarrow>
          (case pc_errBuf (proc_of p b) of
             Some i \<Rightarrow> (i, b)
           | None \<Rightarrow>
               (case pc_stderrW (proc_of p b) of
                  Some i \<Rightarrow> (i, b)
                | None \<Rightarrow> (let (i, b1) = new_obj (Buffer []) b
                           in (i, upd_proc p (\<lambda>x. x\<lparr>pc_errBuf := Some i\<rparr>) b1)))))"

text \<open>\<open>Run\<close> up to the call of the runner: the runner, its runtime and its streams, or the early return.\<close>

definition run_begin ::
  "runtime option \<Rightarrow> nat \<Rightarrow> box \<Rightarrow> (process_result + runtime \<times> (nat \<times> nat \<times> nat) \<times> runner) \<times> box" where
  "run_begin rt p b =
     (case pc_runner (proc_of p b) of
        None \<Rightarrow> (Inl (run_error (ErrMsg ''Run: no runner configured'')), b)
      | Some r \<Rightarrow>
          if rt = None then (Inl (run_error (ErrMsg ''Run: runtime is nil'')), b)
          else
            (case Runtime_Clone rt (bx_sys b) of
               (None, y) \<Rightarrow> (Inl (run_error (ErrMsg ''Run: failed to clone runtime'')), b\<lparr>bx_sys := y\<rparr>)
             | (Some procRt, y) \<Rightarrow>
                 (let ((i, isPiped), b1) = select_in p (b\<lparr>bx_sys := y\<rparr>);
                      (out, b2) = select_out p b1;
                      (errOut, b3) = select_err p b2;
                      (st, y1) = new_stream \<lparr>st_In = i, st_Out = out, st_Err = errOut, IsPiped = isPiped,
                                   IsTTY = pc_isTTY (proc_of p b3)\<rparr> (bx_sys b3)
                  in case Runtime_SetStream (Some st) (Some procRt, y1) of
                       (Inl err, s) \<Rightarrow> (Inl (run_error err), b3\<lparr>bx_sys := snd s\<rparr>)
                     | (Inr _, s) \<Rightarrow>
                         (Inr (the (fst s), (i, out, errOut), r), b3\<lparr>bx_sys := snd s\<rparr>))))"

definition buf_contents :: "nat option \<Rightarrow> box \<Rightarrow> string" where
  "buf_contents i b =
     (case i of None \<Rightarrow> [] | Some i \<Rightarrow> (case bx_objs b ! i of Buffer s \<Rightarrow> s | _ \<Rightarrow> []))"

text \<open>\<open>Run\<close> after the runner has returned: the writing ends are closed, the result is built.\<close>

definition run_end :: "nat \<Rightarrow> int \<Rightarrow> goerr option \<Rightarrow> box \<Rightarrow> process_result \<times> box" where
  "run_end p code err b =
     (let x = proc_of p b;
          b1 = close_writer (pc_stdinW x) (close_writer (pc_stderrW x) (close_writer (pc_stdoutW x) b))
      in (\<lparr>pr_Err = err, pr_ExitCode = code, pr_Stdout = buf_contents (pc_outBuf x) b1,
           pr_Stderr = buf_contents (pc_errBuf x) b1\<rparr>, b1))"

section \<open>Threads\<close>

text \<open>A goroutine that runs a process: before, inside and after its runner.\<close>

datatype thread =
    Starting nat
  | Running nat runtime "nat \<times> nat \<times> nat" runner
  | Finished nat process_result

text \<open>\<open>c_errs\<close>: the errors in the order in which the goroutines sent them.\<close>

record config =
  c_rt :: "runtime option"
  c_box :: box
  c_threads :: "thread list"
  c_errs :: "goerr option list"

datatype choice = Go nat | Pair nat nat

definition set_thread :: "nat \<Rightarrow> thread \<Rightarrow> box \<Rightarrow> config \<Rightarrow> config" where
  "set_thread i t b c = c\<lparr>c_threads := (c_threads c)[i := t], c_box := b\<rparr>"

definition finish_thread :: "nat \<Rightarrow> nat \<Rightarrow> process_result \<Rightarrow> box \<Rightarrow> config \<Rightarrow> config" where
  "finish_thread i p res b c =
     (set_thread i (Finished p res) b c)\<lparr>c_errs := c_errs c @ [pr_Err res]\<rparr>"

fun out_obj :: "outfd \<Rightarrow> nat \<times> nat \<times> nat \<Rightarrow> nat" where
  "out_obj FdOut (i, out, err) = out"
| "out_obj FdErr (i, out, err) = err"

text \<open>What a running thread can do on its own; \<open>None\<close> when it has to wait for another one.\<close>

definition own_step :: "nat \<Rightarrow> nat \<Rightarrow> runtime \<Rightarrow> nat \<times> nat \<times> nat \<Rightarrow> runner \<Rightarrow> config \<Rightarrow> config option" where
  "own_step i p prt io r c =
     (let b = c_box c
      in case r of
           Return code err \<Rightarrow>
             (let (res, b1) = run_end p code err b in Some (finish_thread i p res b1 c))
         | Call m k \<Rightarrow>
             (let s = m (Some prt, bx_sys b)
              in Some (set_thread i (Running p (the (fst s)) io (k s)) (b\<lparr>bx_sys := snd s\<rparr>) c))
         | WriteTo fd d k \<Rightarrow>
             (case bx_objs b ! out_obj fd io of
                Buffer s \<Rightarrow>
                  Some (set_thread i (Running p prt io (k True)) (upd_obj (out_obj fd io) (Buffer (s @ d)) b) c)
              | PipeWriter q \<Rightarrow>
                  if bx_closed b ! q then Some (set_thread i (Running p prt io (k False)) b c) else None
              | PipeReader q \<Rightarrow> None)
         | ReadIn n k \<Rightarrow>
             (case bx_objs b ! fst io of
                Buffer s \<Rightarrow>
                  if s = [] then Some (set_thread i (Running p prt io (k None)) b c)
                  else Some (set_thread i (Running p prt io (k (Some (take n s))))
                               (upd_obj (fst io) (Buffer (drop n s)) b) c)
              | PipeReader q \<Rightarrow>
                  if bx_closed b ! q then Some (set_thread i (Running p prt io (k None)) b c) else None
              | PipeWriter q \<Rightarrow> None))"

text \<open>A write and a read that meet at a pipe: the read takes what it has room for, the write goes on with the rest.\<close>

definition pair_step :: "nat \<Rightarrow> nat \<Rightarrow> config \<Rightarrow> config option" where
  "pair_step i j c =
     (case (c_threads c ! i, c_threads c ! j) of
        (Running p prt io (WriteTo fd d k), Running p' prt' io' (ReadIn n f)) \<Rightarrow>
          (case (bx_objs (c_box c) ! out_obj fd io, bx_objs (c_box c) ! fst io') of
             (PipeWriter q, PipeReader q') \<Rightarrow>
               if q = q' \<and> \<not> bx_closed (c_box c) ! q
               then Some (set_thread j (Running p' prt' io' (f (Some (take n d)))) (c_box c)
                      (set_thread i (Running p prt io
                          (if drop n d = [] then k True else WriteTo fd (drop n d) k)) (c_box c) c))
               else None
           | _ \<Rightarrow> None)
      | _ \<Rightarrow> None)"

definition thread_step :: "choice \<Rightarrow> config \<Rightarrow> config option" where
  "thread_step a c =
     (case a of
        Go i \<Rightarrow>
          if length (c_threads c) \<le> i then None
          else (case c_threads c ! i of
             Starting p \<Rightarrow>
               (case run_begin (c_rt c) p (c_box c) of
                  (Inl res, b) \<Rightarrow> Some (finish_thread i p res b c)
                | (Inr (prt, io, r), b) \<Rightarrow> Some (set_thread i (Running p prt io r) b c))
           | Running p prt io r \<Rightarrow> own_step i p prt io r c
           | Finished p res \<Rightarrow> None)
      | Pair i j \<Rightarrow>
          if length (c_threads c) \<le> i \<or> length (c_threads c) \<le> j \<or> i = j then None
          else pair_step i j c)"

definition all_finished :: "config \<Rightarrow> bool" where
  "all_finished c = list_all (\<lambda>t. case t of Finished p res \<Rightarrow> True | _ \<Rightarrow> False) (c_threads c)"

end
