(* ===== verification/Pipeline.thy ===== *)
theory Pipeline
  imports Process
begin

text \<open>
  Pipelines (\<open>src/sandbox/pipeline.go\<close>): their stages, the wiring \<open>Run\<close> sets up, the goroutines it
  starts and waits for, and its result.
\<close>

record stage =
  sg_name :: string
  sg_runner :: "runner option"
  sg_process :: "nat option"

record pipeline =
  pl_stages :: "stage list"
  pl_outBuf :: "nat option"
  pl_errBuf :: "nat option"

record pipeline_result =
  pp_Err :: "goerr option"
  pp_ExitCode :: int
  pp_Stdout :: string
  pp_Stderr :: string

definition Stage :: "string \<Rightarrow> runner option \<Rightarrow> stage" where
  "Stage name runner = \<lparr>sg_name = name, sg_runner = runner, sg_process = None\<rparr>"

definition StageWithName :: "string \<Rightarrow> nat \<Rightarrow> box \<Rightarrow> stage" where
  "StageWithName name p b = \<lparr>sg_name = name, sg_runner = pc_runner (proc_of p b), sg_process = Some p\<rparr>"

definition NewPipeline :: "stage list \<Rightarrow> pipeline" where
  "NewPipeline stages = \<lparr>pl_stages = stages, pl_outBuf = None, pl_errBuf = None\<rparr>"

definition Pipeline_CaptureStdout :: "pipeline \<Rightarrow> box \<Rightarrow> (nat \<times> pipeline) \<times> box" where
  "Pipeline_CaptureStdout pl b =
     (case pl_outBuf pl of
        Some i \<Rightarrow> ((i, pl), b)
      | None \<Rightarrow> (let (i, b1) = new_obj (Buffer []) b in ((i, pl\<lparr>pl_outBuf := Some i\<rparr>), b1)))"

definition Pipeline_CaptureStderr :: "pipeline \<Rightarrow> box \<Rightarrow> (nat \<times> pipeline) \<times> box" where
  "Pipeline_CaptureStderr pl b =
     (case pl_errBuf pl of
        Some i \<Rightarrow> ((i, pl), b)
      | None \<Rightarrow> (let (i, b1) = new_obj (Buffer []) b in ((i, pl\<lparr>pl_errBuf := Some i\<rparr>), b1)))"

text \<open>The processes of the stages: the given one, or a new one.\<close>

fun stage_procs :: "stage list \<Rightarrow> box \<Rightarrow> nat list \<times> box" where
  "stage_procs [] b = ([], b)"
| "stage_procs (s # ss) b =
     (let (p, b1) = (case sg_process s of Some p \<Rightarrow> (p, b) | None \<Rightarrow> NewProcess (sg_runner s) False b);
          (ps, b2) = stage_procs ss b1
      in (p # ps, b2))"

text \<open>Standard output of every process but the last piped to standard input of the next.\<close>

fun wire_procs :: "nat list \<Rightarrow> box \<Rightarrow> box" where
  "wire_procs (p # p' # ps) b =
     (let (r, b1) = Process_StdoutPipe p b in wire_procs (p' # ps) (Process_SetStdin p' (Some r) b1))"
| "wire_procs ps b = b"

definition pipeline_error :: "string \<Rightarrow> pipeline_result" where
  "pipeline_error msg = \<lparr>pp_Err = Some (ErrMsg msg), pp_ExitCode = 1, pp_Stdout = [], pp_Stderr = []\<rparr>"

text \<open>
  \<open>Run\<close> up to the start of the goroutines: the early return, or the pipeline with its buffers and the
  configuration in which every goroutine is about to run its process.
\<close>

definition pipeline_begin ::
  "runtime option \<Rightarrow> pipeline \<Rightarrow> box \<Rightarrow> pipeline_result + pipeline \<times> config" where
  "pipeline_begin rt pl b =
     (if rt = None then Inl (pipeline_error ''pipeline: runtime is nil'')
      else if pl_stages pl = [] then Inl (pipeline_error ''pipeline: no stages'')
      else
        (let ((ob, pl1), b1) = Pipeline_CaptureStdout pl b;
             ((eb, pl2), b2) = Pipeline_CaptureStderr pl1 b1;
             (procs, b3) = stage_procs (pl_stages pl2) b2;
             b4 = wire_procs procs b3;
             b5 = upd_proc (last procs) (\<lambda>x. x\<lparr>pc_outBuf := Some ob, pc_errBuf := Some eb\<rparr>) b4
         in Inr (pl2, \<lparr>c_rt = rt, c_box = b5, c_threads = map Starting procs, c_errs = []\<rparr>)))"

text \<open>\<open>Run\<close> after \<open>wg.Wait()\<close>.\<close>

definition pipeline_end :: "pipeline \<Rightarrow> config \<Rightarrow> pipeline_result" where
  "pipeline_end pl c =
     (let errs = [e. Some e \<leftarrow> c_errs c]
      in \<lparr>pp_Err = (if errs \<noteq> [] then Some (Joined errs) else None),
          pp_ExitCode = (if errs \<noteq> [] then 1 else 0),
          pp_Stdout = buf_contents (pl_outBuf pl) (c_box c),
          pp_Stderr = buf_contents (pl_errBuf pl) (c_box c)\<rparr>)"

text \<open>The goroutines run in some interleaving.\<close>

inductive threads_run :: "config \<Rightarrow> config \<Rightarrow> bool" where
  run_done: "threads_run c c"
| run_next: "threads_run c d \<Longrightarrow> thread_step a d = Some e \<Longrightarrow> threads_run c e"

text \<open>\<open>Run\<close> returns a result when all goroutines have finished; a deadline on the context wakes none of them.\<close>

inductive Pipeline_Run :: "runtime option \<Rightarrow> pipeline \<Rightarrow> box \<Rightarrow> pipeline_result \<Rightarrow> bool" where
  pipeline_early: "pipeline_begin rt pl b = Inl res \<Longrightarrow> Pipeline_Run rt pl b res"
| pipeline_done: "pipeline_begin rt pl b = Inr (pl', c) \<Longrightarrow> threads_run c d \<Longrightarrow> all_finished d \<Longrightarrow>
    Pipeline_Run rt pl b (pipeline_end pl' d)"

text \<open>A process on its own: one goroutine.\<close>

definition process_start :: "runtime option \<Rightarrow> nat \<Rightarrow> box \<Rightarrow> config" where
  "process_start rt p b = \<lparr>c_rt = rt, c_box = b, c_threads = [Starting p], c_errs = []\<rparr>"

inductive Process_Run :: "runtime option \<Rightarrow> nat \<Rightarrow> box \<Rightarrow> process_result \<Rightarrow> box \<Rightarrow> bool" where
  process_done: "threads_run (process_start rt p b) d \<Longrightarrow> c_threads d = [Finished p res] \<Longrightarrow>
    Process_Run rt p b res (c_box d)"

definition Process_RunWithIO :: "runtime option \<Rightarrow> nat \<Rightarrow> nat option \<Rightarrow> box \<Rightarrow> process_result \<Rightarrow> box \<Rightarrow> bool" where
  "Process_RunWithIO rt p r b res b' = Process_Run rt p (Process_SetStdin p r b) res b'"

definition Pipeline_RunWithTimeout :: "runtime option \<Rightarrow> pipeline \<Rightarrow> int \<Rightarrow> box \<Rightarrow> pipeline_result \<Rightarrow> bool" where
  "Pipeline_RunWithTimeout rt pl timeout b res = Pipeline_Run rt pl b res"

end
