(* ===== verification/Pipeline_Facts.thy ===== *)
theory Pipeline_Facts
  imports Pipeline
begin

text \<open>
  The invariant of a pipeline whose stages are fresh runners: how processes, pipes and buffers are
  wired, that every goroutine plays its own runner, and that what a stage has written is what the
  next one has read.
\<close>

section \<open>Invariants of a schedule\<close>

text \<open>What every step of every goroutine keeps holds whatever the interleaving.\<close>

locale schedule_invariant =
  fixes inv :: "config \<Rightarrow> bool"
  assumes step: "inv c \<Longrightarrow> thread_step a c = Some d \<Longrightarrow> inv d"
begin

lemma run: "threads_run c d \<Longrightarrow> inv c \<Longrightarrow> inv d"
  by (induction rule: threads_run.induct) (auto intro: step)

end

section \<open>Playing a runner\<close>

datatype lev = Wrote outfd string | GotChunk string | GotEof | Used

text \<open>\<open>played r0 tr r\<close>: a runner that began as \<open>r0\<close> has had the interactions \<open>tr\<close> and is now \<open>r\<close>.\<close>

inductive played :: "runner \<Rightarrow> lev list \<Rightarrow> runner \<Rightarrow> bool" for r0 where
  play_start: "played r0 [] r0"
| play_part: "played r0 tr (WriteTo fd d k) \<Longrightarrow> played r0 (tr @ [Wrote fd (take n d)]) (WriteTo fd (drop n d) k)"
| play_full: "played r0 tr (WriteTo fd d k) \<Longrightarrow> played r0 (tr @ [Wrote fd d]) (k True)"
| play_read: "played r0 tr (ReadIn n k) \<Longrightarrow> length d \<le> n \<Longrightarrow> played r0 (tr @ [GotChunk d]) (k (Some d))"
| play_eof: "played r0 tr (ReadIn n k) \<Longrightarrow> played r0 (tr @ [GotEof]) (k None)"
| play_use: "played r0 tr (Call m k) \<Longrightarrow> played r0 (tr @ [Used]) (k s)"

definition sent :: "lev list \<Rightarrow> string" where
  "sent tr = concat [d. Wrote FdOut d \<leftarrow> tr]"

definition recv :: "lev list \<Rightarrow> string" where
  "recv tr = concat [d. GotChunk d \<leftarrow> tr]"

lemma sent_simps [simp]:
  "sent [] = []" "sent (tr @ [Wrote FdOut d]) = sent tr @ d" "sent (tr @ [Wrote FdErr d]) = sent tr"
  "sent (tr @ [GotChunk d]) = sent tr" "sent (tr @ [GotEof]) = sent tr" "sent (tr @ [Used]) = sent tr"
  by (simp_all add: sent_def)

lemma recv_simps [simp]:
  "recv [] = []" "recv (tr @ [Wrote fd d]) = recv tr"
  "recv (tr @ [GotChunk d]) = recv tr @ d" "recv (tr @ [GotEof]) = recv tr" "recv (tr @ [Used]) = recv tr"
  by (simp_all add: recv_def)

section \<open>Layout\<close>

text \<open>
  The objects of a pipeline: the number of stages and their runners, the first of its processes and
  of its pipes, the object of the first pipe's reading end, and the two capture buffers.
\<close>

record layout =
  L_n :: nat
  L_run :: "nat \<Rightarrow> runner"
  L_P :: nat
  L_Q :: nat
  L_O :: nat
  L_ob :: nat
  L_eb :: nat

definition Pp :: "layout \<Rightarrow> nat \<Rightarrow> nat" where "Pp L i = L_P L + i"
definition Pq :: "layout \<Rightarrow> nat \<Rightarrow> nat" where "Pq L i = L_Q L + i"
definition Rd :: "layout \<Rightarrow> nat \<Rightarrow> nat" where "Rd L i = L_O L + 2 * i"
definition Wr :: "layout \<Rightarrow> nat \<Rightarrow> nat" where "Wr L i = L_O L + 2 * i + 1"

lemma layout_inj [simp]:
  "Pp L i = Pp L j \<longleftrightarrow> i = j" "Pq L i = Pq L j \<longleftrightarrow> i = j"
  by (simp_all add: Pp_def Pq_def)

definition is_buffer :: "ioobj \<Rightarrow> bool" where
  "is_buffer x = (case x of Buffer s \<Rightarrow> True | _ \<Rightarrow> False)"

lemma is_bufferE: "is_buffer x \<Longrightarrow> (\<And>s. x = Buffer s \<Longrightarrow> P) \<Longrightarrow> P"
  by (cases x) (auto simp: is_buffer_def)

lemma is_buffer_simps [simp]:
  "is_buffer (Buffer s)" "\<not> is_buffer (PipeReader q)" "\<not> is_buffer (PipeWriter q)"
  by (simp_all add: is_buffer_def)

definition box_wired :: "layout \<Rightarrow> box \<Rightarrow> bool" where
  "box_wired L b \<longleftrightarrow>
     Pp L (L_n L) \<le> length (bx_procs b) \<and> Pq L (L_n L - 1) \<le> length (bx_closed b) \<and>
     Rd L (L_n L - 1) \<le> length (bx_objs b) \<and>
     (\<forall>i. i + 1 < L_n L \<longrightarrow>
        bx_objs b ! Rd L i = PipeReader (Pq L i) \<and> bx_objs b ! Wr L i = PipeWriter (Pq L i)) \<and>
     L_ob L < length (bx_objs b) \<and> L_eb L < length (bx_objs b) \<and> L_ob L \<noteq> L_eb L \<and>
     is_buffer (bx_objs b ! L_ob L) \<and> is_buffer (bx_objs b ! L_eb L)"

text \<open>The process of stage \<open>i\<close> before its goroutine starts.\<close>

definition initial_proc :: "layout \<Rightarrow> nat \<Rightarrow> process" where
  "initial_proc L i =
     (fresh_process (Some (L_run L i)) False)
       \<lparr>pc_in := if 0 < i then Some (Rd L (i - 1)) else None,
        pc_stdoutPipe := if i + 1 < L_n L then Some (Rd L i) else None,
        pc_stdoutW := if i + 1 < L_n L then Some (Wr L i) else None,
        pc_outBuf := if i + 1 < L_n L then None else Some (L_ob L),
        pc_errBuf := if i + 1 < L_n L then None else Some (L_eb L)\<rparr>"

text \<open>The pipe the first stage reads, which nobody writes: not one of the links, and open.\<close>

definition stdin_pipe :: "layout \<Rightarrow> nat \<Rightarrow> nat \<Rightarrow> box \<Rightarrow> bool" where
  "stdin_pipe L r w b \<longleftrightarrow>
     (\<exists>q. r < length (bx_objs b) \<and> w < length (bx_objs b) \<and> bx_objs b ! r = PipeReader q \<and>
        bx_objs b ! w = PipeWriter q \<and> Pq L (L_n L - 1) \<le> q \<and> q < length (bx_closed b) \<and>
        \<not> bx_closed b ! q)"

definition running_ok :: "layout \<Rightarrow> nat \<Rightarrow> box \<Rightarrow> process \<Rightarrow> nat \<times> nat \<times> nat \<Rightarrow> bool" where
  "running_ok L i b x io \<longleftrightarrow>
     pc_stdoutW x = (if i + 1 < L_n L then Some (Wr L i) else None) \<and> pc_stderrW x = None \<and>
     pc_outBuf x = (if i + 1 < L_n L then None else Some (L_ob L)) \<and>
     (case io of (rd, out, err) \<Rightarrow>
        out = (if i + 1 < L_n L then Wr L i else L_ob L) \<and>
        err < length (bx_objs b) \<and> is_buffer (bx_objs b ! err) \<and> err \<noteq> L_ob L \<and>
        (if i = 0 then (\<exists>w. pc_stdinW x = Some w \<and> stdin_pipe L rd w b)
         else rd = Rd L (i - 1) \<and> pc_stdinW x = None))"

definition thread_ok :: "layout \<Rightarrow> nat \<Rightarrow> box \<Rightarrow> thread \<Rightarrow> bool" where
  "thread_ok L i b t =
     (case t of
        Starting p \<Rightarrow> p = Pp L i \<and> proc_of p b = initial_proc L i
      | Running p prt io r \<Rightarrow> p = Pp L i \<and> running_ok L i b (proc_of p b) io
      | Finished p res \<Rightarrow> p = Pp L i)"

definition is_finished :: "thread \<Rightarrow> bool" where
  "is_finished t = (case t of Finished p res \<Rightarrow> True | _ \<Rightarrow> False)"

lemma is_finished_simps [simp]:
  "\<not> is_finished (Starting p)" "\<not> is_finished (Running p prt io r)" "is_finished (Finished p res)"
  by (simp_all add: is_finished_def)

definition trace_ok :: "layout \<Rightarrow> nat \<Rightarrow> thread \<Rightarrow> lev list \<Rightarrow> bool" where
  "trace_ok L i t tr =
     (case t of
        Starting p \<Rightarrow> tr = []
      | Running p prt io r \<Rightarrow> played (L_run L i) tr r
      | Finished p res \<Rightarrow> played (L_run L i) tr (Return (pr_ExitCode res) (pr_Err res)))"

definition results :: "thread list \<Rightarrow> goerr option set" where
  "results ts = {pr_Err res |p res. Finished p res \<in> set ts}"

definition pipe_inv :: "layout \<Rightarrow> string \<Rightarrow> config \<Rightarrow> lev list list \<Rightarrow> bool" where
  "pipe_inv L out0 c trs \<longleftrightarrow>
     0 < L_n L \<and> length (c_threads c) = L_n L \<and> length trs = L_n L \<and> c_rt c \<noteq> None \<and>
     box_wired L (c_box c) \<and>
     (\<forall>i < L_n L. thread_ok L i (c_box c) (c_threads c ! i) \<and> trace_ok L i (c_threads c ! i) (trs ! i)) \<and>
     (\<forall>i. i + 1 < L_n L \<longrightarrow> bx_closed (c_box c) ! Pq L i = is_finished (c_threads c ! i) \<and>
        sent (trs ! i) = recv (trs ! (i + 1))) \<and>
     bx_objs (c_box c) ! L_ob L = Buffer (out0 @ sent (trs ! (L_n L - 1))) \<and>
     set (c_errs c) = results (c_threads c)"

section \<open>A step of one thread\<close>

text \<open>What a step of thread \<open>i\<close> on its own leaves alone.\<close>

definition box_frame :: "layout \<Rightarrow> nat \<Rightarrow> box \<Rightarrow> box \<Rightarrow> bool" where
  "box_frame L i b b' \<longleftrightarrow>
     length (bx_objs b) \<le> length (bx_objs b') \<and> length (bx_closed b) \<le> length (bx_closed b') \<and>
     length (bx_procs b') = length (bx_procs b) \<and>
     (\<forall>x < length (bx_objs b). if is_buffer (bx_objs b ! x) then is_buffer (bx_objs b' ! x)
        else bx_objs b' ! x = bx_objs b ! x) \<and>
     (\<forall>p. p \<noteq> Pp L i \<longrightarrow> bx_procs b' ! p = bx_procs b ! p) \<and>
     (\<forall>q < length (bx_closed b). bx_closed b' ! q \<noteq> bx_closed b ! q \<longrightarrow>
        q = Pq L i \<and> i + 1 < L_n L \<or> i = 0 \<and> Pq L (L_n L - 1) \<le> q)"

lemma box_frame_refl [simp]: "box_frame L i b b"
  by (simp add: box_frame_def)

lemma box_frame_trans:
  assumes 1: "box_frame L i a b" and 2: "box_frame L i b d"
  shows "box_frame L i a d"
proof -
  have "if is_buffer (bx_objs a ! x) then is_buffer (bx_objs d ! x) else bx_objs d ! x = bx_objs a ! x"
    if "x < length (bx_objs a)" for x
  proof -
    have "x < length (bx_objs b)" using that 1 by (simp add: box_frame_def)
    then show ?thesis using that 1 2 unfolding box_frame_def by (metis (full_types))
  qed
  moreover have "q = Pq L i \<and> i + 1 < L_n L \<or> i = 0 \<and> Pq L (L_n L - 1) \<le> q"
    if "q < length (bx_closed a)" "bx_closed d ! q \<noteq> bx_closed a ! q" for q
  proof -
    have "q < length (bx_closed b)" using that 1 by (simp add: box_frame_def)
    then show ?thesis using that 1 2 unfolding box_frame_def by (metis (full_types))
  qed
  ultimately show ?thesis using 1 2 unfolding box_frame_def by auto
qed

lemma link_bounds:
  assumes "box_wired L b" and "i + 1 < L_n L"
  shows "Rd L i < length (bx_objs b)" "Wr L i < length (bx_objs b)" "Pq L i < length (bx_closed b)"
    "Pq L i < Pq L (L_n L - 1)"
  using assms by (auto simp: box_wired_def Rd_def Wr_def Pq_def)

lemma box_frame_wired:
  assumes w: "box_wired L b" and f: "box_frame L i b b'"
  shows "box_wired L b'"
proof -
  have "bx_objs b' ! Rd L j = PipeReader (Pq L j) \<and> bx_objs b' ! Wr L j = PipeWriter (Pq L j)"
    if "j + 1 < L_n L" for j
  proof -
    have o: "bx_objs b ! Rd L j = PipeReader (Pq L j)" "bx_objs b ! Wr L j = PipeWriter (Pq L j)"
      using w that by (auto simp: box_wired_def)
    then show ?thesis using f link_bounds [OF w that] unfolding box_frame_def by (metis is_buffer_simps(2,3))
  qed
  moreover have "is_buffer (bx_objs b' ! x)" if "x < length (bx_objs b)" "is_buffer (bx_objs b ! x)" for x
    using f that by (simp add: box_frame_def)
  ultimately show ?thesis using w f by (auto simp: box_wired_def box_frame_def)
qed

lemma stdin_pipe_frame:
  assumes s: "stdin_pipe L r w b" and f: "box_frame L i b b'" and i: "i \<noteq> 0"
  shows "stdin_pipe L r w b'"
proof -
  obtain q where q: "r < length (bx_objs b)" "w < length (bx_objs b)" "bx_objs b ! r = PipeReader q"
    "bx_objs b ! w = PipeWriter q" "Pq L (L_n L - 1) \<le> q" "q < length (bx_closed b)" "\<not> bx_closed b ! q"
    using s by (auto simp: stdin_pipe_def)
  have "bx_objs b' ! r = PipeReader q" "bx_objs b' ! w = PipeWriter q"
    using f q(1-4) unfolding box_frame_def by (metis is_buffer_simps(2,3))+
  moreover have "\<not> bx_closed b' ! q"
  proof
    assume "bx_closed b' ! q"
    then have "q = Pq L i \<and> i + 1 < L_n L" using f q(6,7) i unfolding box_frame_def by blast
    then show False using q(5) by (auto simp: Pq_def)
  qed
  moreover have "length (bx_objs b) \<le> length (bx_objs b')" "length (bx_closed b) \<le> length (bx_closed b')"
    using f by (auto simp: box_frame_def)
  ultimately show ?thesis using q by (auto simp: stdin_pipe_def)
qed

lemma running_ok_frame:
  assumes r: "running_ok L j b x io" and f: "box_frame L i b b'" and j: "j = 0 \<Longrightarrow> i \<noteq> 0"
  shows "running_ok L j b' x io"
proof -
  obtain rd out err where io: "io = (rd, out, err)" by (cases io) auto
  have "err < length (bx_objs b)" "is_buffer (bx_objs b ! err)" using r by (auto simp: running_ok_def io)
  then have "is_buffer (bx_objs b' ! err)" "err < length (bx_objs b')" using f by (auto simp: box_frame_def)
  moreover have "\<exists>w. pc_stdinW x = Some w \<and> stdin_pipe L rd w b'" if "j = 0"
    using r stdin_pipe_frame [OF _ f] j that by (auto simp: running_ok_def io)
  ultimately show ?thesis using r by (auto simp: running_ok_def io)
qed

lemma thread_ok_frame:
  assumes t: "thread_ok L j b t" and f: "box_frame L i b b'" and j: "j \<noteq> i"
  shows "thread_ok L j b' t"
proof -
  have "proc_of (Pp L j) b' = proc_of (Pp L j) b" using f j by (simp add: box_frame_def proc_of_def)
  then show ?thesis using t running_ok_frame [OF _ f] j by (auto simp: thread_ok_def split: thread.splits)
qed

end
