(* ===== verification/Pipeline_Steps.thy ===== *)
theory Pipeline_Steps
  imports Pipeline_Facts
begin

text \<open>
  Every step of a thread, alone or with another one, preserves the invariant of a pipeline.
\<close>

section \<open>A thread that steps on its own\<close>

definition result_of :: "thread \<Rightarrow> goerr option set" where
  "result_of t = (case t of Finished p res \<Rightarrow> {pr_Err res} | _ \<Rightarrow> {})"

lemma results_update:
  assumes "i < length ts" and "\<not> is_finished (ts ! i)"
  shows "results (ts[i := t]) = results ts \<union> result_of t"
proof -
  have r: "results xs = (\<Union>x \<in> set xs. result_of x)" for xs
    by (force simp: results_def result_of_def split: thread.splits)
  have "result_of (ts ! i) = {}" using assms(2) by (cases "ts ! i") (auto simp: result_of_def)
  moreover have "ts = take i ts @ ts ! i # drop (Suc i) ts" using assms(1) by (rule id_take_nth_drop)
  moreover have "ts[i := t] = take i ts @ t # drop (Suc i) ts" using assms(1) by (rule upd_conv_take_nth_drop)
  ultimately have "results (ts[i := t]) = (\<Union>x \<in> set (take i ts). result_of x) \<union> result_of t \<union>
      (\<Union>x \<in> set (drop (Suc i) ts). result_of x)"
    "results ts = (\<Union>x \<in> set (take i ts). result_of x) \<union> (\<Union>x \<in> set (drop (Suc i) ts). result_of x)"
    unfolding r by (metis (no_types, lifting) UN_Un UN_insert Un_assoc list.simps(15) set_append,
      metis (no_types, lifting) UN_Un UN_insert Un_empty_left list.simps(15) set_append)
  then show ?thesis by auto
qed

text \<open>The invariant survives when a thread moves on and keeps what it has sent and received in step.\<close>

lemma pipe_inv_own:
  assumes inv: "pipe_inv L out0 c trs" and i: "i < L_n L" "\<not> is_finished (c_threads c ! i)"
    and f: "box_frame L i (c_box c) b" and t: "thread_ok L i b t" and tr: "trace_ok L i t tr"
    and cl: "i + 1 < L_n L \<Longrightarrow> bx_closed b ! Pq L i = is_finished t"
    and s: "i + 1 < L_n L \<Longrightarrow> sent tr = sent (trs ! i)" and r: "recv tr = recv (trs ! i)"
    and ob: "bx_objs b ! L_ob L = Buffer (out0 @ sent (if i + 1 < L_n L then trs ! (L_n L - 1) else tr))"
    and es: "set es = set (c_errs c) \<union> result_of t"
  shows "pipe_inv L out0 (c\<lparr>c_threads := (c_threads c)[i := t], c_box := b, c_errs := es\<rparr>) (trs[i := tr])"
proof -
  have len: "length (c_threads c) = L_n L" "length trs = L_n L" using inv by (auto simp: pipe_inv_def)
  have "thread_ok L j b ((c_threads c)[i := t] ! j) \<and> trace_ok L j ((c_threads c)[i := t] ! j) (trs[i := tr] ! j)"
    if "j < L_n L" for j
    using inv that t tr thread_ok_frame [OF _ f, of j] i len
    by (cases "j = i") (auto simp: pipe_inv_def)
  moreover have "bx_closed b ! Pq L j = is_finished ((c_threads c)[i := t] ! j)" if j: "j + 1 < L_n L" for j
  proof (cases "j = i")
    case True
    then show ?thesis using cl j len i by simp
  next
    case False
    have w: "box_wired L (c_box c)" using inv by (simp add: pipe_inv_def)
    have "bx_closed b ! Pq L j = bx_closed (c_box c) ! Pq L j"
    proof (rule ccontr)
      assume "bx_closed b ! Pq L j \<noteq> bx_closed (c_box c) ! Pq L j"
      then have "Pq L j = Pq L i \<or> Pq L (L_n L - 1) \<le> Pq L j"
        using f link_bounds(3) [OF w j] unfolding box_frame_def by blast
      then show False using False link_bounds(4) [OF w j] by auto
    qed
    then show ?thesis using inv j False by (auto simp: pipe_inv_def)
  qed
  moreover have "sent (trs[i := tr] ! j) = recv (trs[i := tr] ! (j + 1))" if "j + 1 < L_n L" for j
    using inv that s r len i by (auto simp: pipe_inv_def nth_list_update)
  moreover have "trs[i := tr] ! (L_n L - 1) = (if i + 1 < L_n L then trs ! (L_n L - 1) else tr)"
    using i len by (auto simp: nth_list_update)
  moreover have "results ((c_threads c)[i := t]) = results (c_threads c) \<union> result_of t"
    using results_update i len by simp
  ultimately show ?thesis
    using inv box_frame_wired [OF _ f] ob es len by (auto simp: pipe_inv_def)
qed

section \<open>The start\<close>

text \<open>The effects of the three choices of streams, under the layout.\<close>

lemma upd_proc_frame:
  "box_frame L i b (upd_proc (Pp L i) g b)"
  by (simp add: box_frame_def upd_proc_def)

lemma new_obj_frame: "box_frame L i b (snd (new_obj x b))"
  by (auto simp: box_frame_def new_obj_def nth_append)

lemma io_Pipe_frame: "box_frame L i b (snd (io_Pipe b))"
  by (auto simp: box_frame_def io_Pipe_def Let_def nth_append)

lemma sys_frame [simp]: "box_frame L i (b\<lparr>bx_sys := y\<rparr>) b' = box_frame L i b b'"
  "box_frame L i b (b'\<lparr>bx_sys := y\<rparr>) = box_frame L i b b'"
  by (simp_all add: box_frame_def)

lemma sys_proc [simp]: "proc_of p (b\<lparr>bx_sys := y\<rparr>) = proc_of p b"
  by (simp add: proc_of_def)

lemma sys_stdin [simp]: "stdin_pipe L r w (b\<lparr>bx_sys := y\<rparr>) = stdin_pipe L r w b"
  by (simp add: stdin_pipe_def)

lemma sys_running [simp]: "running_ok L i (b\<lparr>bx_sys := y\<rparr>) x io = running_ok L i b x io"
  by (cases io) (simp add: running_ok_def)

lemma proc_upd_proc [simp]:
  "p < length (bx_procs b) \<Longrightarrow> proc_of p (upd_proc p g b) = g (proc_of p b)"
  by (simp add: proc_of_def upd_proc_def)

lemma SetStream_Some: "Runtime_SetStream (Some st) (Some rt, y) = (Inr (), (Some (rt\<lparr>rt_stream := Some st\<rparr>), y))"
  by (simp add: Runtime_SetStream_def with_rt_def WithRuntimeStream_def set_dep_def)

lemma Clone_Some: "\<exists>rt' y'. Runtime_Clone (Some rt) y = (Some rt', y')"
  by (auto simp: Runtime_Clone_def split: option.split prod.split)

text \<open>\<open>b'\<close> has everything \<open>b\<close> has, unchanged but for the process \<open>p\<close>.\<close>

definition box_more :: "nat \<Rightarrow> box \<Rightarrow> box \<Rightarrow> bool" where
  "box_more p b b' \<longleftrightarrow>
     (\<exists>xs qs. bx_objs b' = bx_objs b @ xs \<and> bx_closed b' = bx_closed b @ qs) \<and>
     length (bx_procs b') = length (bx_procs b) \<and> (\<forall>x. x \<noteq> p \<longrightarrow> bx_procs b' ! x = bx_procs b ! x)"

lemma box_more_refl [simp]: "box_more p b b"
  by (simp add: box_more_def)

lemma box_more_trans: "box_more p a b \<Longrightarrow> box_more p b d \<Longrightarrow> box_more p a d"
  by (auto simp: box_more_def)

lemma box_more_frame: "box_more (Pp L i) b b' \<Longrightarrow> box_frame L i b b'"
  by (auto simp: box_more_def box_frame_def nth_append)

lemma box_more_ops:
  "box_more p b (upd_proc p g b)" "box_more p b (snd (new_obj x b))" "box_more p b (snd (io_Pipe b))"
  "box_more p b (b'\<lparr>bx_sys := y\<rparr>) = box_more p b b'"
  by (simp_all add: box_more_def upd_proc_def new_obj_def io_Pipe_def Let_def)

lemma box_more_nth:
  assumes "box_more p b b'"
  shows "x < length (bx_objs b) \<Longrightarrow> bx_objs b' ! x = bx_objs b ! x"
    "q < length (bx_closed b) \<Longrightarrow> bx_closed b' ! q = bx_closed b ! q"
    "length (bx_objs b) \<le> length (bx_objs b')"
  using assms by (auto simp: box_more_def nth_append)

lemma select_in_ok:
  assumes w: "box_wired L b" and i: "i < L_n L" and x: "proc_of (Pp L i) b = initial_proc L i"
  obtains rd isP sp sw b' where "select_in (Pp L i) b = ((rd, isP), b')" "box_more (Pp L i) b b'"
    "proc_of (Pp L i) b' = (initial_proc L i)\<lparr>pc_in := Some rd, pc_stdinPipe := sp, pc_stdinW := sw\<rparr>"
    "if i = 0 then \<exists>w. sw = Some w \<and> stdin_pipe L rd w b' else rd = Rd L (i - 1) \<and> sw = None"
proof (cases "i = 0")
  case False
  then have "select_in (Pp L i) b = ((Rd L (i - 1), True), b)"
    by (simp add: select_in_def x initial_proc_def)
  moreover have "initial_proc L i =
      (initial_proc L i)\<lparr>pc_in := Some (Rd L (i - 1)), pc_stdinPipe := None, pc_stdinW := None\<rparr>"
    using False by (simp add: initial_proc_def fresh_process_def)
  ultimately show thesis using that [of "Rd L (i - 1)" True b None None] False x by simp
next
  case True
  have P: "Pp L 0 < length (bx_procs b)" using w i by (auto simp: box_wired_def Pp_def)
  define r where "r = length (bx_objs b)"
  define b1 where "b1 = upd_proc (Pp L 0) (\<lambda>x. x\<lparr>pc_stdinPipe := Some r, pc_stdinW := Some (r + 1)\<rparr>) (snd (io_Pipe b))"
  define b2 where "b2 = upd_proc (Pp L 0) (\<lambda>x. x\<lparr>pc_in := Some r\<rparr>) b1"
  have x0: "proc_of (Pp L 0) b = initial_proc L 0" using x True by simp
  have P1: "Pp L 0 < length (bx_procs b1)" "Pp L 0 < length (bx_procs (snd (io_Pipe b)))"
    using P by (simp_all add: b1_def upd_proc_def io_Pipe_def Let_def)
  have "proc_of (Pp L 0) (snd (io_Pipe b)) = initial_proc L 0"
    using x0 by (simp add: io_Pipe_def Let_def proc_of_def)
  then have p1: "proc_of (Pp L 0) b1 =
      (initial_proc L 0)\<lparr>pc_stdinPipe := Some r, pc_stdinW := Some (r + 1)\<rparr>"
    using P1 by (simp add: b1_def)
  have e: "(let ((r, w), b1) = io_Pipe b
      in upd_proc (Pp L 0) (\<lambda>x. x\<lparr>pc_stdinPipe := Some r, pc_stdinW := Some w\<rparr>) b1) = b1"
    by (simp add: b1_def io_Pipe_def Let_def r_def)
  have n: "pc_in (proc_of (Pp L 0) b) = None" "pc_stdinPipe (proc_of (Pp L 0) b) = None"
    by (simp_all add: x0 initial_proc_def fresh_process_def)
  have "the (pc_stdinPipe (proc_of (Pp L 0) b1)) = r" by (simp add: p1)
  then have sel: "select_in (Pp L 0) b = ((r, False), b2)"
    by (simp only: select_in_def n option.case e simp_thms if_True Let_def [of b1] Let_def [of r] b2_def)
  have m: "box_more (Pp L 0) b b2"
    unfolding b2_def b1_def by (blast intro: box_more_trans box_more_ops)
  have p2: "proc_of (Pp L 0) b2 =
      (initial_proc L 0)\<lparr>pc_in := Some r, pc_stdinPipe := Some r, pc_stdinW := Some (r + 1)\<rparr>"
    using p1 P1 by (simp add: b2_def)
  define q where "q = length (bx_closed b)"
  have o: "bx_objs b2 = bx_objs b @ [PipeReader q, PipeWriter q]" "bx_closed b2 = bx_closed b @ [False]"
    by (simp_all add: b2_def b1_def upd_proc_def io_Pipe_def Let_def q_def)
  have "Pq L (L_n L - 1) \<le> q" using w by (simp add: box_wired_def q_def)
  then have sp: "stdin_pipe L r (r + 1) b2"
    unfolding stdin_pipe_def o by (intro exI [of _ q]) (simp add: r_def q_def nth_append)
  show thesis
    by (rule that [where rd = r and isP = False and b' = b2 and sp = "Some r" and sw = "Some (r + 1)"]) (use sel m p2 sp True in simp_all)
qed

lemma select_err_ok:
  assumes w: "box_wired L b" and i: "i < L_n L"
    and x: "proc_of (Pp L i) b = (initial_proc L i)\<lparr>pc_in := rd, pc_stdinPipe := sp, pc_stdinW := sw\<rparr>"
  obtains err b' where "select_err (Pp L i) b = (err, b')" "box_more (Pp L i) b b'"
    "err < length (bx_objs b')" "is_buffer (bx_objs b' ! err)" "err \<noteq> L_ob L"
    "pc_stdoutW (proc_of (Pp L i) b') = pc_stdoutW (initial_proc L i)"
    "pc_stderrW (proc_of (Pp L i) b') = None"
    "pc_outBuf (proc_of (Pp L i) b') = pc_outBuf (initial_proc L i)"
    "pc_stdinW (proc_of (Pp L i) b') = sw"
proof (cases "i + 1 < L_n L")
  case True
  have P: "Pp L i < length (bx_procs b)" using w i by (simp add: box_wired_def Pp_def)
  define e where "e = length (bx_objs b)"
  define b2 where "b2 = upd_proc (Pp L i) (\<lambda>x. x\<lparr>pc_errBuf := Some e\<rparr>) (snd (new_obj (Buffer []) b))"
  have "select_err (Pp L i) b = (e, b2)"
    using True by (simp add: select_err_def x initial_proc_def fresh_process_def new_obj_def e_def b2_def)
  moreover have "box_more (Pp L i) b b2"
    unfolding b2_def by (blast intro: box_more_trans box_more_ops)
  moreover have "e < length (bx_objs b2)" "is_buffer (bx_objs b2 ! e)"
    by (simp_all add: b2_def upd_proc_def new_obj_def e_def)
  moreover have "e \<noteq> L_ob L" using w by (auto simp: box_wired_def e_def)
  moreover have "proc_of (Pp L i) b2 = (proc_of (Pp L i) b)\<lparr>pc_errBuf := Some e\<rparr>"
    using P by (simp add: b2_def proc_of_def upd_proc_def new_obj_def)
  ultimately show thesis using that [of e b2] x by (simp add: initial_proc_def fresh_process_def)
next
  case False
  then have "select_err (Pp L i) b = (L_eb L, b)"
    by (simp add: select_err_def x initial_proc_def fresh_process_def)
  then show thesis using that [of "L_eb L" b] w x
    by (simp add: box_wired_def initial_proc_def fresh_process_def)
qed

lemma run_begin_ok:
  assumes w: "box_wired L b" and i: "i < L_n L" and x: "proc_of (Pp L i) b = initial_proc L i" and rt: "rt \<noteq> None"
  obtains prt io b' where "run_begin rt (Pp L i) b = (Inr (prt, io, L_run L i), b')"
    "box_more (Pp L i) b b'" "running_ok L i b' (proc_of (Pp L i) b') io"
proof -
  obtain rt0 where rt0: "rt = Some rt0" using rt by blast
  obtain prt y where cl: "Runtime_Clone rt (bx_sys b) = (Some prt, y)" using Clone_Some rt0 by blast
  have w0: "box_wired L (b\<lparr>bx_sys := y\<rparr>)" using w by (simp add: box_wired_def)
  obtain rd isP sp sw b1 where b1: "select_in (Pp L i) (b\<lparr>bx_sys := y\<rparr>) = ((rd, isP), b1)"
    "box_more (Pp L i) (b\<lparr>bx_sys := y\<rparr>) b1"
    "proc_of (Pp L i) b1 = (initial_proc L i)\<lparr>pc_in := Some rd, pc_stdinPipe := sp, pc_stdinW := sw\<rparr>"
    "if i = 0 then \<exists>w. sw = Some w \<and> stdin_pipe L rd w b1 else rd = Rd L (i - 1) \<and> sw = None"
    using select_in_ok [OF w0 i] x by (metis sys_proc)
  define out where "out = (if i + 1 < L_n L then Wr L i else L_ob L)"
  have so: "select_out (Pp L i) b1 = (out, b1)"
    by (simp add: select_out_def b1(3) initial_proc_def fresh_process_def out_def)
  have m1: "box_more (Pp L i) b b1" using b1(2) by (auto simp: box_more_def)
  note w1 = box_frame_wired [OF w box_more_frame [OF m1]]
  obtain err b2 where b2: "select_err (Pp L i) b1 = (err, b2)" "box_more (Pp L i) b1 b2"
    "err < length (bx_objs b2)" "is_buffer (bx_objs b2 ! err)" "err \<noteq> L_ob L"
    "pc_stdoutW (proc_of (Pp L i) b2) = pc_stdoutW (initial_proc L i)"
    "pc_stderrW (proc_of (Pp L i) b2) = None"
    "pc_outBuf (proc_of (Pp L i) b2) = pc_outBuf (initial_proc L i)"
    "pc_stdinW (proc_of (Pp L i) b2) = sw"
    using select_err_ok [OF w1 i b1(3)] by metis
  have sp: "stdin_pipe L rd w' b2" if "stdin_pipe L rd w' b1" for w'
    using that b2(2) by (auto simp: stdin_pipe_def box_more_def nth_append)
  define y1 where "y1 = snd (new_stream \<lparr>st_In = rd, st_Out = out, st_Err = err, IsPiped = isP,
    IsTTY = pc_isTTY (proc_of (Pp L i) b2)\<rparr> (bx_sys b2))"
  define prt' where "prt' = prt\<lparr>rt_stream := Some (length (s_streams (bx_sys b2)))\<rparr>"
  have r: "pc_runner (proc_of (Pp L i) b) = Some (L_run L i)" by (simp add: x initial_proc_def fresh_process_def)
  have "run_begin rt (Pp L i) b = (Inr (prt', (rd, out, err), L_run L i), b2\<lparr>bx_sys := y1\<rparr>)"
    using r rt cl b1(1) so b2(1)
    by (simp add: run_begin_def SetStream_Some new_stream_def y1_def prt'_def)
  moreover have "box_more (Pp L i) b (b2\<lparr>bx_sys := y1\<rparr>)"
    using box_more_trans [OF m1 b2(2)] by (simp add: box_more_ops)
  moreover have "running_ok L i b2 (proc_of (Pp L i) b2) (rd, out, err)"
    using b1(4) b2 sp by (auto simp: running_ok_def initial_proc_def fresh_process_def out_def)
  ultimately show thesis using that by simp
qed

section \<open>The end\<close>

lemma close_writer_same [simp]:
  "bx_objs (close_writer w b) = bx_objs b" "bx_procs (close_writer w b) = bx_procs b"
  "length (bx_closed (close_writer w b)) = length (bx_closed b)"
  by (simp_all add: close_writer_def split: option.split ioobj.split)

lemma close_writer_None [simp]: "close_writer None b = b"
  by (simp add: close_writer_def)

lemma close_writer_pipe:
  "bx_objs b ! w = PipeWriter q \<Longrightarrow> bx_closed (close_writer (Some w) b) = (bx_closed b)[q := True]"
  by (simp add: close_writer_def)

lemma run_end_ok:
  assumes w: "box_wired L b" and i: "i < L_n L" and x: "running_ok L i b (proc_of (Pp L i) b) io"
    and r: "run_end (Pp L i) code err b = (res, b')"
  shows "box_frame L i b b'" "i + 1 < L_n L \<Longrightarrow> bx_closed b' ! Pq L i" "bx_objs b' = bx_objs b"
    "pr_Err res = err" "pr_ExitCode res = code"
proof -
  let ?x = "proc_of (Pp L i) b"
  let ?b1 = "close_writer (pc_stdoutW ?x) b"
  have b': "b' = close_writer (pc_stdinW ?x) ?b1" and res: "pr_Err res = err" "pr_ExitCode res = code"
    using r x by (auto simp: run_end_def Let_def running_ok_def)
  then show "pr_Err res = err" "pr_ExitCode res = code" "bx_objs b' = bx_objs b" by auto
  have c1: "bx_closed ?b1 = (if i + 1 < L_n L then (bx_closed b)[Pq L i := True] else bx_closed b)"
  proof (cases "i + 1 < L_n L")
    case True
    then have "pc_stdoutW ?x = Some (Wr L i)" "bx_objs b ! Wr L i = PipeWriter (Pq L i)"
      using x w by (auto simp: running_ok_def box_wired_def)
    then show ?thesis using True by (simp add: close_writer_pipe)
  next
    case False
    then show ?thesis using x by (simp add: running_ok_def)
  qed
  obtain q where q: "bx_closed b' = (if i = 0 then (bx_closed ?b1)[q := True] else bx_closed ?b1)"
    "i = 0 \<Longrightarrow> Pq L (L_n L - 1) \<le> q"
  proof (cases "i = 0")
    case True
    then obtain w' where w': "pc_stdinW ?x = Some w'" "stdin_pipe L (fst io) w' b"
      using x by (cases io) (auto simp: running_ok_def)
    then obtain q where "bx_objs b ! w' = PipeWriter q" "Pq L (L_n L - 1) \<le> q" by (auto simp: stdin_pipe_def)
    then show thesis using that [of q] w' True by (simp add: b' close_writer_pipe)
  next
    case False
    then have "pc_stdinW ?x = None" using x by (cases io) (auto simp: running_ok_def)
    then show thesis using that False by (simp add: b')
  qed
  show "i + 1 < L_n L \<Longrightarrow> bx_closed b' ! Pq L i"
    using q c1 link_bounds [OF w, of i] by (auto simp: nth_list_update)
  have p: "bx_procs b' = bx_procs b" and o: "bx_objs b' = bx_objs b"
    and l: "length (bx_closed b') = length (bx_closed b)" by (simp_all add: b')
  have "q' = Pq L i \<and> i + 1 < L_n L \<or> i = 0 \<and> Pq L (L_n L - 1) \<le> q'"
    if "q' < length (bx_closed b)" "bx_closed b' ! q' \<noteq> bx_closed b ! q'" for q'
    using that q c1 by (auto simp: upd_nth split: if_splits)
  then show "box_frame L i b b'" unfolding box_frame_def p o l by simp
qed

section \<open>Steps keep the invariant\<close>

lemma pipe_inv_thread:
  assumes "pipe_inv L out0 c trs" and "i < length (c_threads c)"
  shows "i < L_n L" "thread_ok L i (c_box c) (c_threads c ! i)" "trace_ok L i (c_threads c ! i) (trs ! i)"
    "box_wired L (c_box c)" "c_rt c \<noteq> None"
    "bx_objs (c_box c) ! L_ob L = Buffer (out0 @ sent (trs ! (L_n L - 1)))"
  using assms by (auto simp: pipe_inv_def)

lemma ob_keep:
  assumes "bx_objs b ! L_ob L = Buffer (out0 @ sent (trs ! (L_n L - 1)))" and "i < L_n L"
    and "sent tr = sent (trs ! i)"
  shows "bx_objs b ! L_ob L = Buffer (out0 @ sent (if i + 1 < L_n L then trs ! (L_n L - 1) else tr))"
proof (cases "i + 1 < L_n L")
  case False
  then have "L_n L - 1 = i" using assms(2) by simp
  then show ?thesis using assms False by simp
qed (use assms in simp)

text \<open>A thread that goes from running to running, or starts, and does not touch any buffer that matters.\<close>

lemma inv_running:
  assumes inv: "pipe_inv L out0 c trs" and i: "i < length (c_threads c)" "\<not> is_finished (c_threads c ! i)"
    and f: "box_frame L i (c_box c) b" and x: "running_ok L i b (proc_of (Pp L i) b) io"
    and tr: "played (L_run L i) tr r" and s: "sent tr = sent (trs ! i)" and rc: "recv tr = recv (trs ! i)"
    and cl: "i + 1 < L_n L \<Longrightarrow> bx_closed b ! Pq L i = bx_closed (c_box c) ! Pq L i"
    and ob: "bx_objs b ! L_ob L = bx_objs (c_box c) ! L_ob L"
  shows "pipe_inv L out0 (set_thread i (Running (Pp L i) prt io r) b c) (trs[i := tr])"
proof -
  note t = pipe_inv_thread [OF inv i(1)]
  have c0: "bx_closed b ! Pq L i = is_finished (Running (Pp L i) prt io r)" if "i + 1 < L_n L"
    using cl that inv i by (auto simp: pipe_inv_def)
  have "pipe_inv L out0 (c\<lparr>c_threads := (c_threads c)[i := Running (Pp L i) prt io r], c_box := b,
      c_errs := c_errs c\<rparr>) (trs[i := tr])"
  proof (rule pipe_inv_own [OF inv t(1) i(2) f _ _ c0])
    show "thread_ok L i b (Running (Pp L i) prt io r)" using x by (simp add: thread_ok_def)
    show "trace_ok L i (Running (Pp L i) prt io r) tr" using tr by (simp add: trace_ok_def)
    show "bx_objs b ! L_ob L = Buffer (out0 @ sent (if i + 1 < L_n L then trs ! (L_n L - 1) else tr))"
      using ob t(6) t(1) s by (intro ob_keep) simp_all
  qed (simp_all add: s rc result_of_def)
  then show ?thesis by (simp add: set_thread_def)
qed

lemma step_start:
  assumes inv: "pipe_inv L out0 c trs" and i: "i < length (c_threads c)" and t: "c_threads c ! i = Starting p"
    and st: "thread_step (Go i) c = Some d"
  shows "\<exists>trs'. pipe_inv L out0 d trs'"
proof -
  note ti = pipe_inv_thread [OF inv i]
  have p: "p = Pp L i" "proc_of (Pp L i) (c_box c) = initial_proc L i" "trs ! i = []"
    using ti(2,3) by (auto simp: t thread_ok_def trace_ok_def)
  obtain prt io b where b: "run_begin (c_rt c) (Pp L i) (c_box c) = (Inr (prt, io, L_run L i), b)"
    "box_more (Pp L i) (c_box c) b" "running_ok L i b (proc_of (Pp L i) b) io"
    using run_begin_ok [OF ti(4,1) p(2) ti(5)] by blast
  have d: "d = set_thread i (Running (Pp L i) prt io (L_run L i)) b c"
    using st i b(1) by (simp add: thread_step_def t p(1))
  have "L_ob L < length (bx_objs (c_box c))" using ti(4) by (simp add: box_wired_def)
  then have ob: "bx_objs b ! L_ob L = bx_objs (c_box c) ! L_ob L" by (rule box_more_nth(1) [OF b(2)])
  have "pipe_inv L out0 d (trs[i := []])"
    unfolding d
    by (rule inv_running [OF inv i _ box_more_frame [OF b(2)] b(3) play_start _ _ _ ob])
      (simp_all add: t p(3) box_more_nth(2) [OF b(2)] link_bounds(3) [OF ti(4)])
  then show ?thesis by blast
qed

lemma step_return:
  assumes inv: "pipe_inv L out0 c trs" and i: "i < length (c_threads c)"
    and t: "c_threads c ! i = Running p prt io (Return code err)"
    and st: "thread_step (Go i) c = Some d"
  shows "\<exists>trs'. pipe_inv L out0 d trs'"
proof -
  note ti = pipe_inv_thread [OF inv i]
  have p: "p = Pp L i" "running_ok L i (c_box c) (proc_of (Pp L i) (c_box c)) io"
    "played (L_run L i) (trs ! i) (Return code err)"
    using ti(2,3) by (auto simp: t thread_ok_def trace_ok_def)
  obtain res b where r: "run_end (Pp L i) code err (c_box c) = (res, b)" by (cases "run_end (Pp L i) code err (c_box c)")
  note re = run_end_ok [OF ti(4,1) p(2) r]
  have d: "d = c\<lparr>c_threads := (c_threads c)[i := Finished (Pp L i) res], c_box := b, c_errs := c_errs c @ [pr_Err res]\<rparr>"
    using st i r by (simp add: thread_step_def t p(1) own_step_def finish_thread_def set_thread_def)
  have "pipe_inv L out0 d (trs[i := trs ! i])"
    unfolding d
  proof (rule pipe_inv_own [OF inv ti(1) _ re(1)])
    show "bx_objs b ! L_ob L = Buffer (out0 @ sent (if i + 1 < L_n L then trs ! (L_n L - 1) else trs ! i))"
      using ti(6,1) by (intro ob_keep) (simp_all add: re(3))
  qed (use re(2,4,5) p(3) in \<open>simp_all add: t thread_ok_def trace_ok_def result_of_def\<close>)
  then show ?thesis by blast
qed

text \<open>The objects a running thread reads and writes.\<close>

lemma io_objects:
  assumes inv: "pipe_inv L out0 c trs" and i: "i < length (c_threads c)"
    and t: "c_threads c ! i = Running p prt io r"
  shows "bx_objs (c_box c) ! out_obj FdErr io = Buffer s \<or> is_buffer (bx_objs (c_box c) ! out_obj FdErr io)"
    and "out_obj FdErr io < length (bx_objs (c_box c))" "is_buffer (bx_objs (c_box c) ! out_obj FdErr io)"
    "out_obj FdErr io \<noteq> L_ob L"
    and "i + 1 < L_n L \<Longrightarrow> bx_objs (c_box c) ! out_obj FdOut io = PipeWriter (Pq L i) \<and> \<not> bx_closed (c_box c) ! Pq L i"
    and "\<not> i + 1 < L_n L \<Longrightarrow> out_obj FdOut io = L_ob L"
    and "0 < i \<Longrightarrow> bx_objs (c_box c) ! fst io = PipeReader (Pq L (i - 1))"
    and "i = 0 \<Longrightarrow> \<exists>q. bx_objs (c_box c) ! fst io = PipeReader q \<and> \<not> bx_closed (c_box c) ! q \<and> Pq L (L_n L - 1) \<le> q"
    and "p = Pp L i" "running_ok L i (c_box c) (proc_of (Pp L i) (c_box c)) io" "played (L_run L i) (trs ! i) r"
proof -
  note ti = pipe_inv_thread [OF inv i]
  obtain rd out err where io: "io = (rd, out, err)" by (cases io) auto
  show p: "p = Pp L i" "running_ok L i (c_box c) (proc_of (Pp L i) (c_box c)) io" "played (L_run L i) (trs ! i) r"
    using ti(2,3) by (auto simp: t thread_ok_def trace_ok_def)
  then show e: "out_obj FdErr io < length (bx_objs (c_box c))" "is_buffer (bx_objs (c_box c) ! out_obj FdErr io)"
    "out_obj FdErr io \<noteq> L_ob L" by (auto simp: running_ok_def io)
  then show "bx_objs (c_box c) ! out_obj FdErr io = Buffer s \<or> is_buffer (bx_objs (c_box c) ! out_obj FdErr io)"
    by simp
  show "\<not> i + 1 < L_n L \<Longrightarrow> out_obj FdOut io = L_ob L" using p(2) by (auto simp: running_ok_def io)
  show "bx_objs (c_box c) ! out_obj FdOut io = PipeWriter (Pq L i) \<and> \<not> bx_closed (c_box c) ! Pq L i"
    if "i + 1 < L_n L"
    using p(2) that ti(4) inv by (auto simp: running_ok_def io box_wired_def pipe_inv_def t)
  show "bx_objs (c_box c) ! fst io = PipeReader (Pq L (i - 1))" if "0 < i"
    using p(2) that ti(1,4) by (auto simp: running_ok_def io box_wired_def)
  show "\<exists>q. bx_objs (c_box c) ! fst io = PipeReader q \<and> \<not> bx_closed (c_box c) ! q \<and> Pq L (L_n L - 1) \<le> q" if "i = 0"
    using p(2) that by (auto simp: running_ok_def io stdin_pipe_def)
qed

lemma buffer_frame:
  "x < length (bx_objs b) \<Longrightarrow> is_buffer (bx_objs b ! x) \<Longrightarrow> box_frame L i b (upd_obj x (Buffer s) b)"
  by (simp add: box_frame_def upd_obj_def upd_nth)

text \<open>A write that does not wait goes to a buffer: the result of the pipeline, or an error buffer.\<close>

lemma step_write:
  assumes inv: "pipe_inv L out0 c trs" and i: "i < length (c_threads c)"
    and t: "c_threads c ! i = Running p prt io (WriteTo fd dat k)" and st: "thread_step (Go i) c = Some d"
  shows "\<exists>trs'. pipe_inv L out0 d trs'"
proof -
  note o = io_objects [OF inv i t]
  note ti = pipe_inv_thread [OF inv i]
  have nf: "\<not> is_finished (c_threads c ! i)" by (simp add: t)
  have st': "own_step i (Pp L i) prt io (WriteTo fd dat k) c = Some d" using st i by (simp add: thread_step_def t o(9))
  let ?x = "out_obj fd io"
  have play: "played (L_run L i) (trs ! i @ [Wrote fd dat]) (k True)" by (rule play_full) (use o(11) in simp)
  have nl: "\<not> (fd = FdOut \<and> i + 1 < L_n L)" using st' o(5) by (auto simp: own_step_def Let_def)
  have b: "is_buffer (bx_objs (c_box c) ! ?x)" "?x < length (bx_objs (c_box c))"
    using nl o(2,3,6) ti(4,6) by (cases fd; auto simp: box_wired_def)+
  from b(1) obtain s where s: "bx_objs (c_box c) ! ?x = Buffer s" by (rule is_bufferE)
  define b' where "b' = upd_obj ?x (Buffer (s @ dat)) (c_box c)"
  have d: "d = set_thread i (Running (Pp L i) prt io (k True)) b' c"
    using st' by (simp add: own_step_def Let_def s b'_def)
  have f: "box_frame L i (c_box c) b'" unfolding b'_def by (rule buffer_frame) (use b in auto)
  have x: "proc_of (Pp L i) b' = proc_of (Pp L i) (c_box c)" "bx_closed b' = bx_closed (c_box c)"
    by (simp_all add: b'_def upd_obj_def proc_of_def)
  have "stdin_pipe L rd w b'" if "stdin_pipe L rd w (c_box c)" for rd w
    using that s by (auto simp: stdin_pipe_def b'_def upd_obj_def upd_nth)
  then have ru: "running_ok L i b' (proc_of (Pp L i) b') io"
    using o(10) f unfolding x by (cases io) (auto simp: running_ok_def box_frame_def)
  show ?thesis
  proof (cases fd)
    case FdErr
    have ob: "bx_objs b' ! L_ob L = bx_objs (c_box c) ! L_ob L"
      using o(4) FdErr by (simp add: b'_def upd_obj_def)
    have "pipe_inv L out0 d (trs[i := trs ! i @ [Wrote fd dat]])"
      unfolding d by (rule inv_running [OF inv i nf f ru play _ _ _ ob]) (use FdErr x(2) in simp_all)
    then show ?thesis by blast
  next
    case FdOut
    then have last: "\<not> i + 1 < L_n L" "L_n L - 1 = i" "?x = L_ob L" using nl ti(1) o(6) by auto
    have "pipe_inv L out0 (c\<lparr>c_threads := (c_threads c)[i := Running (Pp L i) prt io (k True)], c_box := b',
        c_errs := c_errs c\<rparr>) (trs[i := trs ! i @ [Wrote FdOut dat]])"
    proof (rule pipe_inv_own [OF inv ti(1) nf f])
      show "bx_objs b' ! L_ob L = Buffer (out0 @ sent (if i + 1 < L_n L then trs ! (L_n L - 1) else trs ! i @ [Wrote FdOut dat]))"
        using last s b(2) ti(6) by (simp add: b'_def upd_obj_def)
    qed (use last ru play FdOut in \<open>simp_all add: thread_ok_def trace_ok_def result_of_def\<close>)
    then show ?thesis unfolding d set_thread_def by auto
  qed
qed

lemma step_own_running:
  assumes inv: "pipe_inv L out0 c trs" and i: "i < length (c_threads c)"
    and t: "c_threads c ! i = Running p prt io r" and r: "\<And>code err. r \<noteq> Return code err"
    and st: "thread_step (Go i) c = Some d"
  shows "\<exists>trs'. pipe_inv L out0 d trs'"
proof -
  note o = io_objects [OF inv i t]
  note ti = pipe_inv_thread [OF inv i]
  have nf: "\<not> is_finished (c_threads c ! i)" by (simp add: t)
  have st': "own_step i (Pp L i) prt io r c = Some d" using st i by (simp add: thread_step_def t o(9))
  show ?thesis
  proof (cases r)
    case (Return code err)
    then show ?thesis using r by blast
  next
    case (Call m k)
    obtain s where s: "s = m (Some prt, bx_sys (c_box c))" by blast
    have d: "d = set_thread i (Running (Pp L i) (the (fst s)) io (k s)) ((c_box c)\<lparr>bx_sys := snd s\<rparr>) c"
      using st' by (simp add: own_step_def Call s Let_def)
    have "played (L_run L i) (trs ! i @ [Used]) (k s)" by (rule play_use) (use o(11) Call in simp)
    then have "pipe_inv L out0 d (trs[i := trs ! i @ [Used]])"
      unfolding d by (rule inv_running [OF inv i nf, rotated 2]) (use o(10) in simp_all)
    then show ?thesis by blast
  next
    case (ReadIn n k)
    obtain q where q: "bx_objs (c_box c) ! fst io = PipeReader q" using o(7,8) by (cases "i = 0") auto
    then have d: "d = set_thread i (Running (Pp L i) prt io (k None)) (c_box c) c"
      using st' by (simp add: own_step_def ReadIn Let_def split: if_splits)
    have "played (L_run L i) (trs ! i @ [GotEof]) (k None)" by (rule play_eof) (use o(11) ReadIn in simp)
    then have "pipe_inv L out0 d (trs[i := trs ! i @ [GotEof]])"
      unfolding d by (rule inv_running [OF inv i nf, rotated 2]) (use o(10) in simp_all)
    then show ?thesis by blast
  next
    case (WriteTo fd dat k)
    then show ?thesis using step_write [OF inv i _ st] t by blast
  qed
qed

text \<open>A write meets a read: they are neighbours, and both sides of the link grow by the same bytes.\<close>

lemma pair_neighbours:
  assumes inv: "pipe_inv L out0 c trs" and i: "i < length (c_threads c)" "j < length (c_threads c)"
    and t: "c_threads c ! i = Running p prt io (WriteTo fd dat k)"
      "c_threads c ! j = Running p' prt' io' (ReadIn n f)"
    and m: "bx_objs (c_box c) ! out_obj fd io = PipeWriter q" "bx_objs (c_box c) ! fst io' = PipeReader q"
  shows "fd = FdOut" "j = i + 1" "i + 1 < L_n L"
proof -
  note oi = io_objects [OF inv i(1) t(1)] and oj = io_objects [OF inv i(2) t(2)]
  note ti = pipe_inv_thread [OF inv i(1)]
  show fd: "fd = FdOut" using oi(3) m(1) by (cases fd) auto
  have "is_buffer (bx_objs (c_box c) ! L_ob L)" using ti(4) by (simp add: box_wired_def)
  then show l: "i + 1 < L_n L" using oi(6) m(1) fd by (cases "i + 1 < L_n L") auto
  have q: "q = Pq L i" using oi(5) [OF l] m(1) fd by simp
  show "j = i + 1"
  proof (cases "j = 0")
    case True
    then have "Pq L (L_n L - 1) \<le> q" using oj(8) m(2) by auto
    then show ?thesis using q link_bounds(4) [OF ti(4) l] by simp
  next
    case False
    then show ?thesis using oj(7) m(2) q by auto
  qed
qed

lemma step_pairE:
  assumes "thread_step (Pair i j) c = Some d"
  obtains p prt io fd dat k p' prt' io' n f q where
    "i < length (c_threads c)" "j < length (c_threads c)" "i \<noteq> j"
    "c_threads c ! i = Running p prt io (WriteTo fd dat k)" "c_threads c ! j = Running p' prt' io' (ReadIn n f)"
    "bx_objs (c_box c) ! out_obj fd io = PipeWriter q" "bx_objs (c_box c) ! fst io' = PipeReader q"
    "d = set_thread j (Running p' prt' io' (f (Some (take n dat)))) (c_box c)
        (set_thread i (Running p prt io (if drop n dat = [] then k True else WriteTo fd (drop n dat) k)) (c_box c) c)"
proof -
  have i: "i < length (c_threads c)" "j < length (c_threads c)" "i \<noteq> j" and ps: "pair_step i j c = Some d"
    using assms by (auto simp: thread_step_def split: if_splits)
  obtain p prt io fd dat k where ti: "c_threads c ! i = Running p prt io (WriteTo fd dat k)"
    using ps by (auto simp: pair_step_def split: thread.splits runner.splits)
  obtain p' prt' io' n f where tj: "c_threads c ! j = Running p' prt' io' (ReadIn n f)"
    using ps by (auto simp: pair_step_def ti split: thread.splits runner.splits)
  obtain q where "bx_objs (c_box c) ! out_obj fd io = PipeWriter q" "bx_objs (c_box c) ! fst io' = PipeReader q"
    "d = set_thread j (Running p' prt' io' (f (Some (take n dat)))) (c_box c)
        (set_thread i (Running p prt io (if drop n dat = [] then k True else WriteTo fd (drop n dat) k)) (c_box c) c)"
    using ps by (auto simp: pair_step_def ti tj split: ioobj.splits if_splits)
  then show thesis using that i ti tj by blast
qed

lemma step_pair:
  assumes inv: "pipe_inv L out0 c trs" and st: "thread_step (Pair i j) c = Some d"
  shows "\<exists>trs'. pipe_inv L out0 d trs'"
proof -
  from st obtain p prt io fd dat k p' prt' io' n f q where i: "i < length (c_threads c)" "j < length (c_threads c)" "i \<noteq> j"
    and ti: "c_threads c ! i = Running p prt io (WriteTo fd dat k)"
    and tj: "c_threads c ! j = Running p' prt' io' (ReadIn n f)"
    and q: "bx_objs (c_box c) ! out_obj fd io = PipeWriter q" "bx_objs (c_box c) ! fst io' = PipeReader q"
    and d: "d = set_thread j (Running p' prt' io' (f (Some (take n dat)))) (c_box c)
        (set_thread i (Running p prt io (if drop n dat = [] then k True else WriteTo fd (drop n dat) k)) (c_box c) c)"
    by (rule step_pairE)
  note nb = pair_neighbours [OF inv i(1,2) ti tj q]
  note oi = io_objects [OF inv i(1) ti] and oj = io_objects [OF inv i(2) tj]
  define tri where "tri = trs ! i @ [Wrote FdOut (take n dat)]"
  define trj where "trj = trs ! j @ [GotChunk (take n dat)]"
  define ri where "ri = (if drop n dat = [] then k True else WriteTo FdOut (drop n dat) k)"
  have pi: "played (L_run L i) tri ri"
  proof (cases "drop n dat = []")
    case True
    then show ?thesis using play_full oi(11) nb(1) by (simp add: tri_def ri_def)
  next
    case False
    then show ?thesis using play_part oi(11) nb(1) by (simp add: tri_def ri_def)
  qed
  have pj: "played (L_run L j) trj (f (Some (take n dat)))"
    unfolding trj_def by (rule play_read [OF oj(11)]) simp
  have len: "length (c_threads c) = L_n L" "length trs = L_n L" using inv by (auto simp: pipe_inv_def)
  let ?ts = "(c_threads c)[i := Running (Pp L i) prt io ri, j := Running (Pp L j) prt' io' (f (Some (take n dat)))]"
  let ?trs = "trs[i := tri, j := trj]"
  have dd: "d = c\<lparr>c_threads := ?ts\<rparr>"
    using d oi(9) oj(9) nb(1) by (simp add: set_thread_def ri_def)
  have fin: "is_finished (?ts ! x) = is_finished (c_threads c ! x)" for x
    using ti tj by (simp add: upd_nth)
  have res: "results ?ts = results (c_threads c)"
    using i by (simp add: results_update ti tj result_of_def)
  have link: "sent (?trs ! x) = recv (?trs ! (x + 1))" if "x + 1 < L_n L" for x
  proof -
    have "sent (trs ! x) = recv (trs ! (x + 1))" using inv that by (simp add: pipe_inv_def)
    then show ?thesis using nb(2) i len by (auto simp: upd_nth tri_def trj_def)
  qed
  have last: "sent (?trs ! (L_n L - 1)) = sent (trs ! (L_n L - 1))"
    using nb(2,3) by (auto simp: upd_nth trj_def)
  have th: "thread_ok L x (c_box c) (?ts ! x) \<and> trace_ok L x (?ts ! x) (?trs ! x)" if "x < L_n L" for x
  proof -
    consider "x = j" | "x = i" "x \<noteq> j" | "x \<noteq> i" "x \<noteq> j" by blast
    then show ?thesis
    proof cases
      case 1
      then show ?thesis using that len pj oj(10) by (simp add: thread_ok_def trace_ok_def)
    next
      case 2
      then show ?thesis using that len pi oi(10) by (simp add: thread_ok_def trace_ok_def)
    next
      case 3
      then show ?thesis using inv that by (simp add: pipe_inv_def)
    qed
  qed
  have "pipe_inv L out0 (c\<lparr>c_threads := ?ts\<rparr>) ?trs"
    using inv th fin res link last unfolding pipe_inv_def by simp
  then show ?thesis using dd by blast
qed

lemma step_inv:
  assumes inv: "pipe_inv L out0 c trs" and st: "thread_step a c = Some d"
  shows "\<exists>trs'. pipe_inv L out0 d trs'"
proof (cases a)
  case (Pair i j)
  then show ?thesis using step_pair [OF inv] st by blast
next
  case (Go i)
  then have i: "i < length (c_threads c)" using st by (simp add: thread_step_def split: if_splits)
  show ?thesis
  proof (cases "c_threads c ! i")
    case (Starting p)
    then show ?thesis using step_start [OF inv i] st Go by blast
  next
    case (Finished p res)
    then show ?thesis using st Go i by (simp add: thread_step_def)
  next
    case (Running p prt io r)
    then show ?thesis
      using step_return [OF inv i] step_own_running [OF inv i] st Go by (cases r) blast+
  qed
qed

interpretation wired: schedule_invariant "\<lambda>c. \<exists>trs. pipe_inv L out0 c trs" for L out0
  by unfold_locales (auto dest: step_inv)

end
