(* ===== verification/Pipeline_Setup.thy ===== *)
theory Pipeline_Setup
  imports Pipeline_Steps
begin

text \<open>
  What \<open>Pipeline.Run\<close> sets up for a pipeline of fresh runners: the invariant holds when the goroutines
  start.
\<close>

section \<open>Processes\<close>

definition runner_stages :: "(string \<times> runner) list \<Rightarrow> stage list" where
  "runner_stages rs = map (\<lambda>(name, r). Stage name (Some r)) rs"

lemma stage_procs_fresh:
  "stage_procs (runner_stages rs) b =
    ([length (bx_procs b)..<length (bx_procs b) + length rs],
     b\<lparr>bx_procs := bx_procs b @ map (\<lambda>x. fresh_process (Some (snd x)) False) rs\<rparr>)"
proof (induction rs arbitrary: b)
  case Nil
  then show ?case by (simp add: runner_stages_def)
next
  case (Cons x rs)
  let ?b = "b\<lparr>bx_procs := bx_procs b @ [fresh_process (Some (snd x)) False]\<rparr>"
  have "stage_procs (runner_stages (x # rs)) b =
      (let (ps, b2) = stage_procs (runner_stages rs) ?b in (length (bx_procs b) # ps, b2))"
    by (simp add: runner_stages_def Stage_def NewProcess_def case_prod_unfold)
  also have "\<dots> = (length (bx_procs b) # [Suc (length (bx_procs b))..<Suc (length (bx_procs b)) + length rs],
      ?b\<lparr>bx_procs := bx_procs ?b @ map (\<lambda>x. fresh_process (Some (snd x)) False) rs\<rparr>)"
    using Cons.IH [of ?b] by simp
  finally show ?case by (simp add: upt_conv_Cons del: upt_Suc)
qed

section \<open>Links\<close>

text \<open>The process of stage \<open>j\<close> when the first \<open>m\<close> links have been made.\<close>

definition linked_proc :: "layout \<Rightarrow> nat \<Rightarrow> nat \<Rightarrow> process" where
  "linked_proc L m j =
     (fresh_process (Some (L_run L j)) False)
       \<lparr>pc_in := if 0 < j \<and> j \<le> m then Some (Rd L (j - 1)) else None,
        pc_stdoutPipe := if j < m then Some (Rd L j) else None,
        pc_stdoutW := if j < m then Some (Wr L j) else None\<rparr>"

definition linked :: "layout \<Rightarrow> nat \<Rightarrow> box \<Rightarrow> bool" where
  "linked L m b \<longleftrightarrow>
     length (bx_objs b) = Rd L m \<and> length (bx_closed b) = Pq L m \<and>
     length (bx_procs b) = Pp L (L_n L) \<and> (\<forall>j < L_n L. proc_of (Pp L j) b = linked_proc L m j) \<and>
     (\<forall>j < m. bx_objs b ! Rd L j = PipeReader (Pq L j) \<and> bx_objs b ! Wr L j = PipeWriter (Pq L j) \<and>
        \<not> bx_closed b ! Pq L j) \<and>
     L_ob L < L_O L \<and> L_eb L < L_O L \<and> L_ob L \<noteq> L_eb L \<and>
     bx_objs b ! L_ob L = Buffer [] \<and> bx_objs b ! L_eb L = Buffer []"

lemma link_one:
  assumes l: "linked L m b" and m: "m + 1 < L_n L"
  shows "linked L (m + 1)
    (Process_SetStdin (Pp L (m + 1)) (Some (fst (Process_StdoutPipe (Pp L m) b))) (snd (Process_StdoutPipe (Pp L m) b)))"
    (is "linked L (m + 1) ?b")
proof -
  have len: "length (bx_objs b) = Rd L m" "length (bx_closed b) = Pq L m" "length (bx_procs b) = Pp L (L_n L)"
    and pr: "\<And>j. j < L_n L \<Longrightarrow> bx_procs b ! Pp L j = linked_proc L m j"
    using l by (auto simp: linked_def proc_of_def)
  have so: "Process_StdoutPipe (Pp L m) b =
      (Rd L m, upd_proc (Pp L m) (\<lambda>x. x\<lparr>pc_stdoutPipe := Some (Rd L m), pc_stdoutW := Some (Wr L m)\<rparr>)
        (b\<lparr>bx_closed := bx_closed b @ [False], bx_objs := bx_objs b @ [PipeReader (Pq L m), PipeWriter (Pq L m)]\<rparr>))"
    using pr [of m] m len
    by (simp add: Process_StdoutPipe_def proc_of_def linked_proc_def fresh_process_def io_Pipe_def Let_def Rd_def Wr_def)
  have P: "Pp L m < length (bx_procs b)" "Pp L (m + 1) < length (bx_procs b)" using m len by (simp_all add: Pp_def)
  have o: "bx_objs ?b = bx_objs b @ [PipeReader (Pq L m), PipeWriter (Pq L m)]" "bx_closed ?b = bx_closed b @ [False]"
    "length (bx_procs ?b) = length (bx_procs b)"
    by (simp_all add: so Process_SetStdin_def upd_proc_def)
  have p: "bx_procs ?b ! Pp L j = linked_proc L (m + 1) j" if "j < L_n L" for j
  proof -
    consider "j = m" | "j = m + 1" | "j < m" | "m + 1 < j" by linarith
    then show ?thesis
      by cases (use P pr that in \<open>simp_all add: so Process_SetStdin_def upd_proc_def linked_proc_def fresh_process_def upd_nth\<close>)
  qed
  have old: "bx_objs ?b ! x = bx_objs b ! x" if "x < Rd L m" for x
    unfolding o using that len by (simp add: nth_append)
  have lk: "bx_objs ?b ! Rd L j = PipeReader (Pq L j) \<and> bx_objs ?b ! Wr L j = PipeWriter (Pq L j) \<and>
      \<not> bx_closed ?b ! Pq L j" if "j < m + 1" for j
  proof (cases "j = m")
    case True
    then show ?thesis unfolding o using len by (simp add: nth_append Rd_def Wr_def)
  next
    case False
    then have j: "j < m" using that by simp
    then have "Rd L j < Rd L m" "Wr L j < Rd L m" "Pq L j < Pq L m" by (auto simp: Rd_def Wr_def Pq_def)
    then show ?thesis unfolding o using l j len by (simp add: nth_append linked_def)
  qed
  have "L_ob L < Rd L m" "L_eb L < Rd L m" using l by (auto simp: linked_def Rd_def)
  then have "bx_objs ?b ! L_ob L = Buffer []" "bx_objs ?b ! L_eb L = Buffer []"
    using old l by (auto simp: linked_def)
  moreover have "length (bx_objs ?b) = Rd L (m + 1)" "length (bx_closed ?b) = Pq L (m + 1)"
    unfolding o using len by (simp_all add: Rd_def Pq_def)
  moreover have "length (bx_procs ?b) = Pp L (L_n L)" unfolding o(3) by (rule len(3))
  ultimately show ?thesis using lk p l unfolding linked_def proc_of_def by blast
qed

lemma wire_procs_linked:
  "m < L_n L \<Longrightarrow> linked L m b \<Longrightarrow> linked L (L_n L - 1) (wire_procs (map (Pp L) [m..<L_n L]) b)"
proof (induction "L_n L - m" arbitrary: m b)
  case (Suc x)
  show ?case
  proof (cases "m + 1 < L_n L")
    case True
    have e: "map (Pp L) [m..<L_n L] = Pp L m # Pp L (m + 1) # map (Pp L) [m + 2..<L_n L]"
      "map (Pp L) [m + 1..<L_n L] = Pp L (m + 1) # map (Pp L) [m + 2..<L_n L]"
      using True by (simp_all add: upt_conv_Cons)
    let ?b = "Process_SetStdin (Pp L (m + 1)) (Some (fst (Process_StdoutPipe (Pp L m) b)))
      (snd (Process_StdoutPipe (Pp L m) b))"
    have "linked L (L_n L - 1) (wire_procs (map (Pp L) [m + 1..<L_n L]) ?b)"
      using Suc.hyps True link_one [OF Suc.prems(2) True] by simp
    then show ?thesis unfolding e by (simp add: case_prod_unfold Let_def)
  next
    case False
    then have "m = L_n L - 1" "map (Pp L) [m..<L_n L] = [Pp L m]" using Suc.prems(1) by (simp_all add: upt_conv_Cons)
    then show ?thesis using Suc.prems(2) by simp
  qed
qed simp

section \<open>The start of a pipeline\<close>

definition pipe_layout :: "(string \<times> runner) list \<Rightarrow> box \<Rightarrow> layout" where
  "pipe_layout rs b =
     \<lparr>L_n = length rs, L_run = (\<lambda>i. snd (rs ! i)), L_P = length (bx_procs b), L_Q = length (bx_closed b),
      L_O = length (bx_objs b) + 2, L_ob = length (bx_objs b), L_eb = length (bx_objs b) + 1\<rparr>"

lemma pipeline_begin_inv:
  assumes rs: "rs \<noteq> []"
  obtains pl c where "pipeline_begin (Some rt) (NewPipeline (runner_stages rs)) b = Inr (pl, c)"
    "pl_outBuf pl = Some (L_ob (pipe_layout rs b))"
    "pipe_inv (pipe_layout rs b) [] c (replicate (length rs) [])"
    "c_threads c = map (\<lambda>i. Starting (Pp (pipe_layout rs b) i)) [0..<length rs]" "c_errs c = []"
proof -
  define L where "L = pipe_layout rs b"
  note L = L_def [unfolded pipe_layout_def]
  have n: "L_n L = length rs" "0 < L_n L" using rs by (simp_all add: L)
  define b3 where "b3 = b\<lparr>bx_objs := bx_objs b @ [Buffer [], Buffer []],
    bx_procs := bx_procs b @ map (\<lambda>x. fresh_process (Some (snd x)) False) rs\<rparr>"
  define ps where "ps = map (Pp L) [0..<L_n L]"
  define b4 where "b4 = wire_procs ps b3"
  define b5 where "b5 = upd_proc (last ps) (\<lambda>x. x\<lparr>pc_outBuf := Some (L_ob L), pc_errBuf := Some (L_eb L)\<rparr>) b4"
  define c where "c = \<lparr>c_rt = Some rt, c_box = b5, c_threads = map Starting ps, c_errs = []\<rparr>"
  define pl where "pl = \<lparr>pl_stages = runner_stages rs, pl_outBuf = Some (L_ob L), pl_errBuf = Some (L_eb L)\<rparr>"
  have ps: "ps = [length (bx_procs b)..<length (bx_procs b) + length rs]"
    by (rule nth_equalityI) (simp_all add: ps_def L Pp_def)
  have ne: "runner_stages rs \<noteq> []" using rs by (simp add: runner_stages_def)
  have beg: "pipeline_begin (Some rt) (NewPipeline (runner_stages rs)) b = Inr (pl, c)"
    by (simp add: pipeline_begin_def NewPipeline_def ne Pipeline_CaptureStdout_def Pipeline_CaptureStderr_def
        new_obj_def stage_procs_fresh ps [symmetric] pl_def c_def b5_def b4_def b3_def L)
  have "linked_proc L 0 j = fresh_process (Some (snd (rs ! j))) False" for j
    by (cases j) (simp_all add: linked_proc_def fresh_process_def L)
  then have "linked L 0 b3"
    using n by (simp add: linked_def b3_def L Rd_def Pq_def Pp_def proc_of_def nth_append)
  then have l4: "linked L (L_n L - 1) b4" unfolding b4_def ps_def using wire_procs_linked n(2) by blast
  have last: "last ps = Pp L (L_n L - 1)" using n(2) by (simp add: ps_def last_map)
  have b5: "bx_objs b5 = bx_objs b4" "bx_closed b5 = bx_closed b4" "length (bx_procs b5) = length (bx_procs b4)"
    by (simp_all add: b5_def upd_proc_def)
  have pr: "proc_of (Pp L j) b5 = initial_proc L j" if "j < L_n L" for j
  proof -
    have "bx_procs b4 ! Pp L j = linked_proc L (L_n L - 1) j" "length (bx_procs b4) = Pp L (L_n L)"
      using l4 that by (auto simp: linked_def proc_of_def)
    moreover have "Pp L j < Pp L (L_n L)" using that by (simp add: Pp_def)
    ultimately show ?thesis
      using that by (auto simp: b5_def last proc_of_def upd_proc_def upd_nth linked_proc_def initial_proc_def fresh_process_def)
  qed
  have w: "box_wired L b5"
    using l4 b5 n(2) by (auto simp: box_wired_def linked_def Rd_def)
  have inv: "pipe_inv L [] c (replicate (length rs) [])"
    unfolding pipe_inv_def
  proof (intro conjI allI impI)
    show "thread_ok L i (c_box c) (c_threads c ! i)" if "i < L_n L" for i
      using that pr by (simp add: c_def ps_def thread_ok_def)
    show "bx_closed (c_box c) ! Pq L i = is_finished (c_threads c ! i)" if "i + 1 < L_n L" for i
      using that l4 by (simp add: c_def ps_def b5 linked_def)
    show "bx_objs (c_box c) ! L_ob L = Buffer ([] @ sent (replicate (length rs) [] ! (L_n L - 1)))"
      using l4 n by (simp add: c_def b5 linked_def)
  qed (use n w in \<open>simp_all add: c_def ps_def trace_ok_def results_def image_iff\<close>)
  have "c_threads c = map (\<lambda>i. Starting (Pp L i)) [0..<length rs]" by (simp add: c_def ps_def n(1))
  then show thesis using that beg inv by (simp add: pl_def c_def L_def)
qed

end
