(* ===== verification/Pipeline_Confined.thy ===== *)
theory Pipeline_Confined
  imports Pipeline_Steps Runtime_Props
begin

text \<open>
  Application code under the test sandbox: the goroutines of processes, each with a clone of the
  runtime and all with one file system, in any interleaving, and what they can do to the host.
\<close>

section \<open>Methods that keep the runtime's own fields\<close>

text \<open>Every method but those that move the jail or the working directory.\<close>

fun calm :: "rtop \<Rightarrow> bool" where
  "calm (RFs (FSetwd p)) = False"
| "calm (RSet k v) = (k \<noteq> ''PWD'')"
| "calm (RUnset k) = (k \<noteq> ''PWD'')"
| "calm (RSetJail j) = False"
| "calm _ = True"

definition same_shape :: "rts \<Rightarrow> rts \<Rightarrow> bool" where
  "same_shape s t \<longleftrightarrow> fst t = fst s \<and> length (s_envs (snd t)) = length (s_envs (snd s)) \<and>
     length (s_fss (snd t)) = length (s_fss (snd s))"

lemma same_shape_refl [simp]: "same_shape s s"
  by (simp add: same_shape_def)

lemma same_shape_on_fs: "same_shape s t \<Longrightarrow> same_shape s (snd (on_fs m t))"
  by (simp add: same_shape_def)

lemma same_shape_on_env [simp]: "same_shape s (snd (on_env m s))"
  by (simp add: same_shape_def on_env_def split: prod.split)

lemma same_shape_parent:
  "same_shape s t \<Longrightarrow> same_shape s (snd (bindE (mkdir_parent q) (\<lambda>_. on_fs m) t))"
proof -
  assume "same_shape s t"
  then have "same_shape s (snd (mkdir_parent q t))" unfolding mkdir_parent_def by (rule same_shape_on_fs)
  then show ?thesis
    by (cases "mkdir_parent q t") (auto simp: bindE_def split: sum.split intro: same_shape_on_fs)
qed

lemma same_shape_resolve:
  assumes "in_step s" and "\<And>q. same_shape s (snd (k q s))"
  shows "same_shape s (snd (bindE (Runtime_ResolvePath p f) k s))"
  using Runtime_ResolvePath_in_step [OF assms(1), of p f] assms(2) by (auto simp: bindE_def split: sum.split)

lemma same_shape_at_path:
  assumes "in_step s" and "\<And>q. same_shape s (snd (k q s))"
  shows "same_shape s (snd (at_path p f k s))"
  unfolding at_path_def validated_in_step [OF assms(1)] by (rule same_shape_resolve) (rule assms)+

lemma file_op_shape:
  assumes s: "in_step s" and n: "\<And>p. op \<noteq> FSetwd p"
  shows "same_shape s (run_rt (RFs op) s)"
proof (cases op)
  case FGetwd
  then show ?thesis using Runtime_Getwd_in_step [OF s] by simp
next
  case (FResolvePath p f)
  then show ?thesis using Runtime_ResolvePath_in_step [OF s, of p f] by auto
next
  case (FSetwd p)
  then show ?thesis using n by simp
qed (simp_all only: run_rt.simps file_methods,
  (intro same_shape_at_path same_shape_resolve same_shape_parent same_shape_on_fs s same_shape_refl)+)

lemma run_rt_shape:
  assumes s: "in_step s" and c: "calm op" shows "same_shape s (run_rt op s)"
proof (cases op)
  case (RFs f)
  then show ?thesis using file_op_shape [OF s, of f] c by (cases f) auto
next
  case (RUnset k)
  have "has_env s" using in_stepD [OF s] by (elim same_jailE) (simp add: has_env_def)
  then show ?thesis by (simp add: RUnset Runtime_Unset_def)
qed (use c in \<open>auto simp: Runtime_Set_def Runtime_SetHome_def Runtime_SetUser_def validated_in_step [OF s]\<close>)

text \<open>What another holder of the file system sees of such a step.\<close>

lemma in_step_fs:
  "in_step s \<Longrightarrow> fs_of s = \<lparr>fs_jail = rt_jail (the (fst s)), fs_wd = rt_wd (the (fst s))\<rparr>"
  by (cases "fst s") (auto simp: in_step_def same_jail_def)

lemma in_step_other:
  assumes s: "in_step (Some rt, y)" and o: "in_step (Some rt1, y)" "rt_fs rt1 = rt_fs rt" "rt_env rt1 \<noteq> rt_env rt"
    and t: "in_step (Some rt, y')" "own_env (Some rt, y) (Some rt, y')" "same_shape (Some rt, y) (Some rt, y')"
  shows "in_step (Some rt1, y')"
proof -
  have fs: "fs_of (Some rt1, y') = fs_of (Some rt1, y)"
    using in_step_fs [OF s] in_step_fs [OF t(1)] o(2) by (simp add: fs_of_def)
  have "the (rt_env rt1) \<noteq> the (rt_env rt)"
    using s o by (auto simp: in_step_def same_jail_def complete_def)
  then have env: "env_of (Some rt1, y') = env_of (Some rt1, y)"
    using t(2) by (simp add: own_env_def env_of_def)
  then have te: "the_te (Some rt1, y') = the_te (Some rt1, y)" by (rule the_te_cong)
  show ?thesis using o(1) t(3) fs env te by (simp add: in_step_def same_jail_def same_shape_def)
qed

section \<open>Polite runners\<close>

text \<open>
  Application code that uses its runtime through calm methods, chosen freely from what it has seen,
  and that neither removes the root of the jail nor writes atomically onto it.
\<close>

definition polite_use :: "string list \<Rightarrow> rts \<Rightarrow> rts \<Rightarrow> bool" where
  "polite_use J s t \<longleftrightarrow> t = s \<or> (\<exists>op. calm op \<and> rt_spares J op s \<and> t = run_rt op s)"

coinductive polite :: "string list \<Rightarrow> runner \<Rightarrow> bool" for J where
  polite_return: "polite J (Return code err)"
| polite_write: "(\<And>ok. polite J (k ok)) \<Longrightarrow> polite J (WriteTo fd d k)"
| polite_read: "(\<And>d. polite J (k d)) \<Longrightarrow> polite J (ReadIn n k)"
| polite_call: "(\<And>s. in_step s \<Longrightarrow> polite_use J s (m s)) \<Longrightarrow> (\<And>s. polite J (k s)) \<Longrightarrow> polite J (Call m k)"

inductive_simps polite_simps:
  "polite J (WriteTo fd d k)" "polite J (ReadIn n k)" "polite J (Call m k)"

lemma polite_producer: "polite J (producer ls)"
  by (induction ls) (auto intro: polite.intros)

lemma polite_use_tame:
  assumes s: "in_step s" and u: "polite_use J s t"
  shows "tame True J s t \<and> same_shape s t"
  using u unfolding polite_use_def
proof
  assume "\<exists>op. calm op \<and> rt_spares J op s \<and> t = run_rt op s"
  then obtain op where op: "calm op" "rt_spares J op s" "t = run_rt op s" by blast
  then have "op \<noteq> RUnset ''PWD''" "\<And>j. op \<noteq> RSetJail j" by auto
  then show ?thesis using run_rt_tame [OF s] run_rt_shape [OF s] op by blast
qed (simp add: tame_refl [OF s])

section \<open>The invariant\<close>

definition polite_proc :: "string list \<Rightarrow> box \<Rightarrow> nat \<Rightarrow> bool" where
  "polite_proc J b p \<longleftrightarrow> p < length (bx_procs b) \<and> (\<forall>r. pc_runner (proc_of p b) = Some r \<longrightarrow> polite J r)"

text \<open>A goroutine that runs holds a runtime in step on the common file system, with an environment of its own.\<close>

definition polite_thread :: "string list \<Rightarrow> runtime \<Rightarrow> box \<Rightarrow> thread \<Rightarrow> bool" where
  "polite_thread J rt b t =
     (case t of
        Starting p \<Rightarrow> polite_proc J b p
      | Running p prt io r \<Rightarrow> polite J r \<and> in_step (Some prt, bx_sys b) \<and> rt_fs prt = rt_fs rt \<and>
          rt_env prt \<noteq> rt_env rt
      | Finished p res \<Rightarrow> True)"

definition env_used :: "thread \<Rightarrow> nat option" where
  "env_used t = (case t of Running p prt io r \<Rightarrow> rt_env prt | _ \<Rightarrow> None)"

definition own_envs :: "thread list \<Rightarrow> bool" where
  "own_envs ts \<longleftrightarrow>
     (\<forall>i < length ts. \<forall>j < length ts. i \<noteq> j \<longrightarrow> env_used (ts ! i) \<noteq> None \<longrightarrow> env_used (ts ! i) \<noteq> env_used (ts ! j))"

text \<open>\<open>y0\<close> is the state in which the runtime \<open>rt\<close> was handed to the processes.\<close>

definition polite_inv :: "string list \<Rightarrow> runtime \<Rightarrow> sys \<Rightarrow> config \<Rightarrow> bool" where
  "polite_inv J rt y0 c \<longleftrightarrow>
     c_rt c = Some rt \<and> in_step (Some rt, bx_sys (c_box c)) \<and>
     fs_reach J (view (Some rt, y0)) (view (Some rt, bx_sys (c_box c))) \<and>
     env_of (Some rt, bx_sys (c_box c)) = env_of (Some rt, y0) \<and>
     (\<forall>t \<in> set (c_threads c). polite_thread J rt (c_box c) t) \<and> own_envs (c_threads c)"

lemma own_envs_update:
  assumes "own_envs ts" and "env_used t = None \<or> env_used t = env_used (ts ! i) \<or>
      (\<forall>u \<in> set ts. env_used u \<noteq> env_used t)"
  shows "own_envs (ts[i := t])"
proof -
  have "env_used (ts[i := t] ! a) \<noteq> env_used (ts[i := t] ! b)"
    if "a < length ts" "b < length ts" "a \<noteq> b" "env_used (ts[i := t] ! a) \<noteq> None" for a b
  proof -
    have o: "env_used (ts ! a) \<noteq> None \<Longrightarrow> env_used (ts ! a) \<noteq> env_used (ts ! b)"
      "env_used (ts ! b) \<noteq> None \<Longrightarrow> env_used (ts ! b) \<noteq> env_used (ts ! a)"
      using assms(1) that(1-3) by (auto simp: own_envs_def)
    have m: "ts ! a \<in> set ts" "ts ! b \<in> set ts" using that by simp_all
    consider "a = i" | "b = i" | "a \<noteq> i" "b \<noteq> i" by blast
    then show ?thesis
    proof cases
      case 1
      then show ?thesis using assms(2) that o m by auto
    next
      case 2
      then show ?thesis using assms(2) that o m by auto
    next
      case 3
      then show ?thesis using o that by simp
    qed
  qed
  then show ?thesis by (simp add: own_envs_def)
qed

text \<open>What a box keeps: its processes' runners; the state of the runtimes may have moved on.\<close>

definition same_runners :: "box \<Rightarrow> box \<Rightarrow> bool" where
  "same_runners b b' \<longleftrightarrow> map pc_runner (bx_procs b') = map pc_runner (bx_procs b)"

lemma same_runners_refl [simp]: "same_runners b b"
  by (simp add: same_runners_def)

lemma same_runners_trans: "same_runners a b \<Longrightarrow> same_runners b d \<Longrightarrow> same_runners a d"
  by (simp add: same_runners_def)

lemma polite_proc_same: "same_runners b b' \<Longrightarrow> polite_proc J b' p = polite_proc J b p"
  unfolding same_runners_def polite_proc_def proc_of_def
  by (metis length_map nth_map)

section \<open>Starting a process\<close>

lemma same_runners_upd: "(\<And>x. pc_runner (g x) = pc_runner x) \<Longrightarrow> same_runners b (upd_proc p g b)"
  unfolding same_runners_def upd_proc_def
  by (cases "p < length (bx_procs b)") (auto intro!: nth_equalityI simp: nth_list_update)

lemma new_obj_runners: "new_obj x b = (i, b') \<Longrightarrow> same_runners b b' \<and> bx_sys b' = bx_sys b"
  by (auto simp: same_runners_def new_obj_def)

lemma io_Pipe_runners: "io_Pipe b = (rw, b') \<Longrightarrow> same_runners b b' \<and> bx_sys b' = bx_sys b"
  by (auto simp: same_runners_def io_Pipe_def Let_def)

lemma upd_proc_sys [simp]: "bx_sys (upd_proc p g b) = bx_sys b"
  by (simp add: upd_proc_def)

lemma select_runners:
  "same_runners b (snd (select_in p b)) \<and> bx_sys (snd (select_in p b)) = bx_sys b"
  "same_runners b (snd (select_out p b)) \<and> bx_sys (snd (select_out p b)) = bx_sys b"
  "same_runners b (snd (select_err p b)) \<and> bx_sys (snd (select_err p b)) = bx_sys b"
proof -
  note steps = same_runners_upd same_runners_trans [OF _ same_runners_upd]
  show "same_runners b (snd (select_in p b)) \<and> bx_sys (snd (select_in p b)) = bx_sys b"
    by (auto simp: select_in_def Let_def split: option.split prod.split dest!: io_Pipe_runners intro!: steps)
  show "same_runners b (snd (select_out p b)) \<and> bx_sys (snd (select_out p b)) = bx_sys b"
    by (auto simp: select_out_def Let_def split: option.split prod.split dest!: new_obj_runners intro!: steps)
  show "same_runners b (snd (select_err p b)) \<and> bx_sys (snd (select_err p b)) = bx_sys b"
    by (auto simp: select_err_def Let_def split: option.split prod.split dest!: new_obj_runners intro!: steps)
qed

lemma run_begin_result:
  assumes "run_begin (Some rt) p b = (res, b')"
  obtains (no_runner) e where "pc_runner (proc_of p b) = None" "res = Inl e" "b' = b"
  | (clone) rt1 y st x io r where "pc_runner (proc_of p b) = Some r"
    "Runtime_Clone (Some rt) (bx_sys b) = (Some rt1, y)" "res = Inr (rt1\<lparr>rt_stream := Some st\<rparr>, io, r)"
    "same_runners b b'" "bx_sys b' = y\<lparr>s_streams := s_streams y @ [x]\<rparr>"
proof (cases "pc_runner (proc_of p b)")
  case None
  then show ?thesis using no_runner assms by (auto simp: run_begin_def)
next
  case (Some r)
  obtain rt1 y where cl: "Runtime_Clone (Some rt) (bx_sys b) = (Some rt1, y)" using Clone_Some by blast
  obtain i pd b1 where 1: "select_in p (b\<lparr>bx_sys := y\<rparr>) = ((i, pd), b1)" by (metis surj_pair)
  obtain out b2 where 2: "select_out p b1 = (out, b2)" by fastforce
  obtain err b3 where 3: "select_err p b2 = (err, b3)" by fastforce
  have r: "same_runners b b3" "bx_sys b3 = y"
    using select_runners(1) [of "b\<lparr>bx_sys := y\<rparr>" p] select_runners(2) [of b1 p] select_runners(3) [of b2 p] 1 2 3
    by (auto simp: same_runners_def)
  show ?thesis
    by (rule clone [OF Some cl])
      (use assms Some cl 1 2 3 r in \<open>auto simp: run_begin_def SetStream_Some new_stream_def same_runners_def\<close>)
qed

text \<open>More environments and streams disturb no runtime.\<close>

lemma in_step_grow:
  assumes s: "in_step (Some rt, y)" and y: "s_envs y' = s_envs y @ es" "s_fss y' = s_fss y" "s_proc y' = s_proc y"
  shows "in_step (Some rt, y')" "env_of (Some rt, y') = env_of (Some rt, y)" "view (Some rt, y') = view (Some rt, y)"
proof -
  have "the (rt_env rt) < length (s_envs y)" using s by (simp add: in_step_def same_jail_def)
  then show e: "env_of (Some rt, y') = env_of (Some rt, y)" using y(1) by (simp add: env_of_def nth_append)
  have f: "fs_of (Some rt, y') = fs_of (Some rt, y)" using y(2) by (simp add: fs_of_def)
  then show "view (Some rt, y') = view (Some rt, y)" using y(3) by (simp add: view_def host_of_def)
  show "in_step (Some rt, y')"
    using s y e f the_te_cong [OF e] by (simp add: in_step_def same_jail_def)
qed

lemma in_step_stream: "in_step (Some rt, y) \<Longrightarrow> in_step (Some (rt\<lparr>rt_stream := Some st\<rparr>), y)"
  using the_te_cong [of "(Some (rt\<lparr>rt_stream := Some st\<rparr>), y)" "(Some rt, y)"]
  by (simp add: in_step_def same_jail_def fs_of_def env_of_def complete_def)

section \<open>Steps\<close>

lemma polite_thread_same:
  assumes "same_runners b b'" and "bx_sys b' = bx_sys b"
  shows "polite_thread J rt b' t = polite_thread J rt b t"
  using assms polite_proc_same [OF assms(1)] by (simp add: polite_thread_def split: thread.split)

text \<open>A step that leaves the runtimes alone.\<close>

lemma polite_io:
  assumes c: "polite_inv J rt y0 c" and b: "same_runners (c_box c) b" "bx_sys b = bx_sys (c_box c)"
    and t: "polite_thread J rt (c_box c) t" "env_used t = None \<or> env_used t = env_used (c_threads c ! i)"
  shows "polite_inv J rt y0 (set_thread i t b c)"
proof -
  have "polite_thread J rt b u" if "u \<in> set ((c_threads c)[i := t])" for u
    using set_update_subset_insert [of "c_threads c" i t] that c t(1) polite_thread_same [OF b]
    by (auto simp: polite_inv_def)
  moreover have "own_envs ((c_threads c)[i := t])"
    using c t(2) by (intro own_envs_update) (auto simp: polite_inv_def)
  ultimately show ?thesis using c b(2) by (simp add: polite_inv_def set_thread_def)
qed

lemma polite_finish:
  "polite_inv J rt y0 c \<Longrightarrow> same_runners (c_box c) b \<Longrightarrow> bx_sys b = bx_sys (c_box c) \<Longrightarrow>
   polite_inv J rt y0 (finish_thread i p res b c)"
  using polite_io [of J rt y0 c b "Finished p res" i]
  by (simp add: finish_thread_def polite_thread_def env_used_def polite_inv_def)

lemma in_step_env: "in_step (Some rt, y) \<Longrightarrow> rt_env rt \<noteq> None"
  by (simp add: in_step_def same_jail_def complete_def)

lemma env_used_bound:
  "polite_thread J rt b t \<Longrightarrow> env_used t = Some e \<Longrightarrow> e < length (s_envs (bx_sys b))"
  by (cases t) (auto simp: polite_thread_def env_used_def in_step_def same_jail_def)

lemma polite_start:
  assumes c: "polite_inv J rt y0 c" and i: "c_threads c ! i = Starting p" "i < length (c_threads c)"
    and st: "thread_step (Go i) c = Some d"
  shows "polite_inv J rt y0 d"
proof -
  let ?b = "c_box c" and ?y = "bx_sys (c_box c)"
  have rt: "c_rt c = Some rt" "in_step (Some rt, ?y)" "env_of (Some rt, ?y) = env_of (Some rt, y0)"
    "fs_reach J (view (Some rt, y0)) (view (Some rt, ?y))" "own_envs (c_threads c)"
    and ts: "\<And>t. t \<in> set (c_threads c) \<Longrightarrow> polite_thread J rt ?b t" using c by (auto simp: polite_inv_def)
  have pp: "polite_proc J ?b p" using ts [OF nth_mem [OF i(2)]] i(1) by (simp add: polite_thread_def)
  obtain res b' where r: "run_begin (Some rt) p ?b = (res, b')" by fastforce
  from r show ?thesis
  proof (cases rule: run_begin_result)
    case (no_runner e)
    then show ?thesis using st r i rt(1) polite_finish [OF c, of ?b i p e] by (simp add: thread_step_def)
  next
    case (clone rt1 y s x io rn)
    note k = Clone_result [OF rt(2) clone(2)]
    let ?prt = "rt1\<lparr>rt_stream := Some s\<rparr>" and ?t = "Running p (rt1\<lparr>rt_stream := Some s\<rparr>) io rn"
    have y: "s_envs (bx_sys b') = s_envs ?y @ [TestEnvV (the_te (Some rt, ?y))]"
      "s_fss (bx_sys b') = s_fss ?y" "s_proc (bx_sys b') = s_proc ?y" using k clone(5) by simp_all
    have "in_step (Some ?prt, bx_sys b')"
      using in_step_grow(1) [of rt1 y "bx_sys b'" "[]"] k(1) clone(5) in_step_stream by simp
    moreover have e: "the (rt_env rt) < length (s_envs ?y)" "rt_env rt \<noteq> None"
      using rt(2) by (auto simp: in_step_def same_jail_def complete_def)
    ultimately have t: "polite_thread J rt b' ?t"
      using k(2,3) pp clone(1) by (auto simp: polite_thread_def polite_proc_def)
    have o: "polite_thread J rt b' u" if "u \<in> set (c_threads c)" for u
      using ts [OF that] polite_proc_same [OF clone(4), of J] in_step_grow(1) [OF _ y]
      by (auto simp: polite_thread_def split: thread.splits)
    have d: "d = set_thread i ?t b' c" using st r i rt(1) clone(3) by (simp add: thread_step_def)
    have "polite_thread J rt b' u" if "u \<in> set ((c_threads c)[i := ?t])" for u
      using set_update_subset_insert [of "c_threads c" i ?t] that o t by blast
    moreover have "own_envs ((c_threads c)[i := ?t])"
      using rt(5) ts env_used_bound k(2) by (intro own_envs_update) (fastforce simp: env_used_def)+
    ultimately show ?thesis using rt in_step_grow [OF rt(2) y] d by (simp add: polite_inv_def set_thread_def)
  qed
qed

lemma polite_call_step:
  assumes c: "polite_inv J rt y0 c" and i: "c_threads c ! i = Running p prt io (Call m k)" "i < length (c_threads c)"
    and st: "thread_step (Go i) c = Some d"
  shows "polite_inv J rt y0 d"
proof -
  let ?b = "c_box c" and ?y = "bx_sys (c_box c)"
  have rt: "c_rt c = Some rt" "in_step (Some rt, ?y)" "env_of (Some rt, ?y) = env_of (Some rt, y0)"
    "fs_reach J (view (Some rt, y0)) (view (Some rt, ?y))" "own_envs (c_threads c)"
    and ts: "\<And>t. t \<in> set (c_threads c) \<Longrightarrow> polite_thread J rt ?b t" using c by (auto simp: polite_inv_def)
  have me: "polite J (Call m k)" "in_step (Some prt, ?y)" "rt_fs prt = rt_fs rt" "rt_env prt \<noteq> rt_env rt"
    using ts [OF nth_mem [OF i(2)]] i(1) by (simp_all add: polite_thread_def)
  obtain q y where m: "m (Some prt, ?y) = (q, y)" by (cases "m (Some prt, ?y)")
  have t: "tame True J (Some prt, ?y) (q, y)" "same_shape (Some prt, ?y) (q, y)"
    using polite_use_tame [OF me(2), of J "(q, y)"] me(1,2) m by (simp_all add: polite_simps) (metis m)+
  then have q: "q = Some prt" by (simp add: same_shape_def)
  note step = t [unfolded q tame_def]
  have s: "in_step (Some prt, y)" "own_env (Some prt, ?y) (Some prt, y)"
    "fs_reach J (view (Some prt, ?y)) (view (Some prt, y))" using step by simp_all
  have other: "in_step (Some r, y)" if "in_step (Some r, ?y)" "rt_fs r = rt_fs rt" "rt_env r \<noteq> rt_env prt" for r
    using in_step_other [OF me(2) that(1) _ that(3) s(1,2)] step that(2) me(3) by simp
  let ?t = "Running p prt io (k (Some prt, y))" and ?b' = "?b\<lparr>bx_sys := y\<rparr>"
  have d: "d = set_thread i ?t ?b' c" using st i m q by (simp add: thread_step_def own_step_def)
  have "polite_thread J rt ?b' u" if u: "u \<in> set ((c_threads c)[i := ?t])" for u
  proof -
    obtain j where j: "j < length (c_threads c)" "u = (c_threads c)[i := ?t] ! j"
      using u by (metis in_set_conv_nth length_list_update)
    show ?thesis
    proof (cases "j = i")
      case True
      then show ?thesis using j me s(1) by (simp add: polite_thread_def polite_simps)
    next
      case False
      then have u: "u = c_threads c ! j" "polite_thread J rt ?b u" using j ts by simp_all
      have "env_used u = None \<or> env_used u \<noteq> rt_env prt"
        using rt(5) j i False u(1) unfolding own_envs_def by (metis env_used_def thread.simps(11))
      then show ?thesis using u(2) other
        by (cases u) (auto simp: polite_thread_def env_used_def polite_proc_def proc_of_def dest: in_step_env)
    qed
  qed
  moreover have "own_envs ((c_threads c)[i := ?t])"
    by (rule own_envs_update [OF rt(5)]) (simp add: env_used_def i(1))
  moreover have "env_of (Some rt, y) = env_of (Some rt, ?y)"
  proof -
    have "the (rt_env rt) \<noteq> the (rt_env prt)"
      using rt(2) me(2,4) by (auto simp: in_step_def same_jail_def complete_def)
    then show ?thesis using s(2) by (simp add: own_env_def env_of_def)
  qed
  moreover have v: "view (Some prt, z) = view (Some rt, z)" for z
    using me(3) by (simp add: view_def fs_of_def host_of_def)
  moreover have "in_step (Some rt, y)" using other [OF rt(2) refl] me(4) by simp
  ultimately show ?thesis
    using rt s(3) fs_reach_trans d by (simp add: polite_inv_def set_thread_def)
qed

lemma polite_pair_step:
  assumes c: "polite_inv J rt y0 c" and st: "thread_step (Pair i j) c = Some d"
  shows "polite_inv J rt y0 d"
proof -
  from st obtain p prt io fd dat k p' prt' io' n f q where
    b: "i < length (c_threads c)" "j < length (c_threads c)" "i \<noteq> j" and
    i: "c_threads c ! i = Running p prt io (WriteTo fd dat k)" and
    j: "c_threads c ! j = Running p' prt' io' (ReadIn n f)" and
    d: "d = set_thread j (Running p' prt' io' (f (Some (take n dat)))) (c_box c)
        (set_thread i (Running p prt io (if drop n dat = [] then k True else WriteTo fd (drop n dat) k)) (c_box c) c)"
    by (rule step_pairE)
  have ts: "\<And>t. t \<in> set (c_threads c) \<Longrightarrow> polite_thread J rt (c_box c) t" using c by (simp add: polite_inv_def)
  let ?t = "Running p prt io (if drop n dat = [] then k True else WriteTo fd (drop n dat) k)"
  have "polite_thread J rt (c_box c) ?t"
    using ts [OF nth_mem [OF b(1)]] by (simp add: i polite_thread_def polite_simps)
  then have 1: "polite_inv J rt y0 (set_thread i ?t (c_box c) c)"
    using polite_io [OF c, of "c_box c" ?t i] by (simp add: env_used_def i)
  have "polite_thread J rt (c_box c) (Running p' prt' io' (f (Some (take n dat))))"
    using ts [OF nth_mem [OF b(2)]] by (simp add: j polite_thread_def polite_simps)
  then show ?thesis
    using polite_io [OF 1, of "c_box c" _ j] b(3) unfolding d by (simp add: env_used_def j set_thread_def)
qed

lemma close_writer_sys [simp]: "bx_sys (close_writer w b) = bx_sys b"
  by (simp add: close_writer_def split: option.split ioobj.split)

lemma polite_own_step:
  assumes c: "polite_inv J rt y0 c" and i: "c_threads c ! i = Running p prt io r" "i < length (c_threads c)"
    and st: "thread_step (Go i) c = Some d"
  shows "polite_inv J rt y0 d"
proof -
  have me: "polite J r" "in_step (Some prt, bx_sys (c_box c))" "rt_fs prt = rt_fs rt" "rt_env prt \<noteq> rt_env rt"
    using c nth_mem [OF i(2)] by (auto simp: polite_inv_def polite_thread_def i(1))
  have own: "own_step i p prt io r c = Some d" using st i by (simp add: thread_step_def)
  have go: "polite_inv J rt y0 (set_thread i (Running p prt io r') b c)"
    if "polite J r'" "same_runners (c_box c) b" "bx_sys b = bx_sys (c_box c)" for r' b
    by (rule polite_io [OF c that(2,3)]) (use that(1) me i in \<open>simp_all add: polite_thread_def env_used_def\<close>)
  have upd: "same_runners (c_box c) (upd_obj x v (c_box c))" "bx_sys (upd_obj x v (c_box c)) = bx_sys (c_box c)" for x v
    by (simp_all add: upd_obj_def same_runners_def)
  show ?thesis
  proof (cases r)
    case (Return code err)
    obtain res b where e: "run_end p code err (c_box c) = (res, b)" by fastforce
    then have "same_runners (c_box c) b" "bx_sys b = bx_sys (c_box c)"
      by (auto simp: run_end_def Let_def same_runners_def)
    then show ?thesis using polite_finish [OF c] own e by (auto simp: own_step_def Return)
  next
    case (WriteTo fd dat k)
    then show ?thesis using own me(1) go upd
      by (auto simp: own_step_def polite_simps Let_def split: ioobj.splits if_splits)
  next
    case (ReadIn n k)
    then show ?thesis using own me(1) go upd
      by (auto simp: own_step_def polite_simps Let_def split: ioobj.splits if_splits)
  next
    case (Call m k)
    then show ?thesis using polite_call_step [OF c _ i(2) st] i(1) by simp
  qed
qed

lemma polite_step:
  assumes c: "polite_inv J rt y0 c" and st: "thread_step a c = Some d"
  shows "polite_inv J rt y0 d"
proof (cases a)
  case (Go i)
  then have i: "i < length (c_threads c)" using st by (auto simp: thread_step_def split: if_splits)
  then show ?thesis
    using polite_start [OF c _ i] polite_own_step [OF c _ i] st
    by (cases "c_threads c ! i") (auto simp: Go thread_step_def)
qed (use polite_pair_step [OF c] st in auto)

interpretation confined: schedule_invariant "polite_inv J rt y0" for J rt y0
  by unfold_locales (rule polite_step)

section \<open>Starting a pipeline\<close>

text \<open>A stage is given a runner, or a process made before.\<close>

definition polite_stage :: "string list \<Rightarrow> box \<Rightarrow> stage \<Rightarrow> bool" where
  "polite_stage J b s =
     (case sg_process s of
        Some p \<Rightarrow> polite_proc J b p
      | None \<Rightarrow> (case sg_runner s of None \<Rightarrow> True | Some r \<Rightarrow> polite J r))"

definition more_procs :: "box \<Rightarrow> box \<Rightarrow> bool" where
  "more_procs b b' \<longleftrightarrow> bx_sys b' = bx_sys b \<and> (\<exists>xs. map pc_runner (bx_procs b') = map pc_runner (bx_procs b) @ xs)"

lemma more_procs_trans: "more_procs a b \<Longrightarrow> more_procs b d \<Longrightarrow> more_procs a d"
  by (auto simp: more_procs_def)

lemma more_procs_same: "same_runners b b' \<Longrightarrow> bx_sys b' = bx_sys b \<Longrightarrow> more_procs b b'"
  by (simp add: more_procs_def same_runners_def)

lemma polite_proc_more: "more_procs b b' \<Longrightarrow> polite_proc J b p \<Longrightarrow> polite_proc J b' p"
proof -
  assume m: "more_procs b b'" and p: "polite_proc J b p"
  then obtain xs where xs: "map pc_runner (bx_procs b') = map pc_runner (bx_procs b) @ xs" by (auto simp: more_procs_def)
  have l: "p < length (bx_procs b)" using p by (simp add: polite_proc_def)
  moreover have "length (bx_procs b) \<le> length (bx_procs b')" using arg_cong [OF xs, of length] by simp
  moreover have "map pc_runner (bx_procs b') ! p = map pc_runner (bx_procs b) ! p" using l by (simp add: xs nth_append)
  ultimately show ?thesis using p by (simp add: polite_proc_def proc_of_def)
qed

lemma polite_stage_more: "more_procs b b' \<Longrightarrow> polite_stage J b s \<Longrightarrow> polite_stage J b' s"
  by (auto simp: polite_stage_def polite_proc_more split: option.splits)

lemma stage_procs_polite:
  "list_all (polite_stage J b) ss \<Longrightarrow> stage_procs ss b = (ps, b') \<Longrightarrow>
   more_procs b b' \<and> (\<forall>p \<in> set ps. polite_proc J b' p)"
proof (induction ss arbitrary: b ps)
  case Nil
  then show ?case by (simp add: more_procs_def)
next
  case (Cons s ss)
  obtain p b1 where 1: "(case sg_process s of Some p \<Rightarrow> (p, b) | None \<Rightarrow> NewProcess (sg_runner s) False b) = (p, b1)"
    by fastforce
  obtain qs where 2: "stage_procs ss b1 = (qs, b')" "ps = p # qs"
    using Cons.prems(2) 1 by (auto split: prod.splits)
  have m: "more_procs b b1 \<and> polite_proc J b1 p"
    using 1 Cons.prems(1)
    by (auto simp: more_procs_def polite_stage_def polite_proc_def proc_of_def NewProcess_def fresh_process_def
        nth_append split: option.splits)
  have l: "list_all (polite_stage J b1) ss"
    using Cons.prems(1) m polite_stage_more by (auto simp: list_all_iff)
  show ?case
    using Cons.IH [OF l 2(1)] m more_procs_trans [of b b1 b'] polite_proc_more [of b1 b' J p] by (auto simp: 2(2))
qed

lemma wire_procs_more: "more_procs b (wire_procs ps b)"
proof (induction ps b rule: wire_procs.induct)
  case (1 p p' ps b)
  obtain r b1 where w: "Process_StdoutPipe p b = (r, b1)" by fastforce
  have "more_procs b b1"
    using w by (auto simp: Process_StdoutPipe_def Let_def split: option.splits prod.splits dest!: io_Pipe_runners
        intro!: more_procs_same intro: same_runners_trans [OF _ same_runners_upd])
  moreover have "more_procs b1 (Process_SetStdin p' (Some r) b1)"
    by (intro more_procs_same) (simp_all add: Process_SetStdin_def same_runners_upd)
  ultimately have "more_procs b (wire_procs (p' # ps) (Process_SetStdin p' (Some r) b1))"
    using 1 [OF w [symmetric] refl] by (blast intro: more_procs_trans)
  then show ?case by (simp add: w)
qed (simp_all add: more_procs_def)

lemma polite_begin:
  assumes "pipeline_begin (Some rt) pl b = Inr (pl', c)" and "list_all (polite_stage J b) (pl_stages pl)"
    and "in_step (Some rt, bx_sys b)"
  shows "polite_inv J rt (bx_sys b) c"
proof -
  obtain ob pl1 b1 where 1: "Pipeline_CaptureStdout pl b = ((ob, pl1), b1)" by (metis surj_pair)
  obtain eb pl2 b2 where 2: "Pipeline_CaptureStderr pl1 b1 = ((eb, pl2), b2)" by (metis surj_pair)
  obtain ps b3 where 3: "stage_procs (pl_stages pl2) b2 = (ps, b3)" by fastforce
  have "more_procs b b1 \<and> pl_stages pl1 = pl_stages pl"
    using 1 by (auto simp: Pipeline_CaptureStdout_def split: option.splits prod.splits dest!: new_obj_runners
        intro: more_procs_same)
  moreover have "more_procs b1 b2 \<and> pl_stages pl2 = pl_stages pl1"
    using 2 by (auto simp: Pipeline_CaptureStderr_def split: option.splits prod.splits dest!: new_obj_runners
        intro: more_procs_same)
  ultimately have m: "more_procs b b2" "pl_stages pl2 = pl_stages pl" using more_procs_trans by auto
  then have "list_all (polite_stage J b2) (pl_stages pl2)"
    using assms(2) polite_stage_more by (auto simp: list_all_iff)
  then have p: "more_procs b2 b3" "\<forall>p \<in> set ps. polite_proc J b3 p" using stage_procs_polite 3 by blast+
  let ?g = "\<lambda>x. x\<lparr>pc_outBuf := Some ob, pc_errBuf := Some eb\<rparr>"
  let ?b5 = "upd_proc (last ps) ?g (wire_procs ps b3)"
  have "more_procs (wire_procs ps b3) ?b5" by (intro more_procs_same) (simp_all add: same_runners_upd)
  then have w: "more_procs b3 ?b5" using wire_procs_more more_procs_trans by blast
  then have "bx_sys ?b5 = bx_sys b" using m(1) p(1) by (simp add: more_procs_def)
  moreover have "c = \<lparr>c_rt = Some rt, c_box = ?b5, c_threads = map Starting ps, c_errs = []\<rparr>"
    using assms(1) 1 2 3 by (auto simp: pipeline_begin_def split: if_splits)
  ultimately show ?thesis
    using assms(3) p(2) polite_proc_more [OF w]
    by (auto simp: polite_inv_def polite_thread_def own_envs_def env_used_def fs_refl)
qed

end
