(* ===== verification/Pipeline_Props.thy ===== *)
theory Pipeline_Props
  imports Pipeline_Setup Pipeline_Confined
begin

text \<open>
  Properties of pipelines: data flows from stage to stage unchanged, and exactly which pipelines
  never return.
\<close>

section \<open>Steps and the threads they touch\<close>

fun touched :: "choice \<Rightarrow> nat set" where
  "touched (Go i) = {i}"
| "touched (Pair i j) = {i, j}"

lemma step_touches:
  assumes "thread_step a c = Some d" and "x \<notin> touched a"
  shows "c_threads d ! x = c_threads c ! x"
proof (cases a)
  case (Go i)
  then have "i \<noteq> x" using assms(2) by auto
  then show ?thesis using assms(1) Go
    by (auto simp: thread_step_def own_step_def set_thread_def finish_thread_def Let_def
        split: if_splits thread.splits sum.splits prod.splits runner.splits ioobj.splits)
next
  case (Pair i j)
  then have "i \<noteq> x" "j \<noteq> x" using assms(2) by auto
  moreover have "thread_step (Pair i j) c = Some d" using assms(1) Pair by simp
  ultimately show ?thesis by (elim step_pairE) (simp add: set_thread_def)
qed

lemma finished_stays:
  assumes "thread_step a c = Some d" and "is_finished (c_threads c ! x)"
  shows "c_threads d ! x = c_threads c ! x"
proof (rule step_touches [OF assms(1)])
  obtain p res where x: "c_threads c ! x = Finished p res"
    using assms(2) by (auto simp: is_finished_def split: thread.splits)
  show "x \<notin> touched a"
    using assms(1) x by (cases a) (auto simp: thread_step_def pair_step_def split: if_splits thread.splits runner.splits)
qed

section \<open>Waiting\<close>

definition stuck :: "config \<Rightarrow> bool" where
  "stuck c \<longleftrightarrow> (\<forall>a. thread_step a c = None)"

text \<open>
  The first stage reads standard input, or a stage has something to write for a next stage that has
  returned.
\<close>

definition reading :: "config \<Rightarrow> nat \<Rightarrow> bool" where
  "reading c i \<longleftrightarrow> (\<exists>p prt io n k. c_threads c ! i = Running p prt io (ReadIn n k))"

definition writing :: "config \<Rightarrow> nat \<Rightarrow> bool" where
  "writing c i \<longleftrightarrow> (\<exists>p prt io d k. c_threads c ! i = Running p prt io (WriteTo FdOut d k))"

definition waits :: "config \<Rightarrow> bool" where
  "waits c \<longleftrightarrow> reading c 0 \<or>
     (\<exists>i. i + 1 < length (c_threads c) \<and> writing c i \<and> is_finished (c_threads c ! (i + 1)))"

lemma all_finished_iff: "all_finished c \<longleftrightarrow> (\<forall>i < length (c_threads c). is_finished (c_threads c ! i))"
  unfolding all_finished_def list_all_length is_finished_def by (rule refl)

lemma waits_unfinished:
  assumes "waits c" and "c_threads c \<noteq> []" shows "\<not> all_finished c"
proof -
  from assms(1) consider "reading c 0" | i where "i + 1 < length (c_threads c)" "writing c i"
    by (auto simp: waits_def)
  then obtain i where "i < length (c_threads c)" "reading c i \<or> writing c i"
    using assms(2) by cases (auto dest: Suc_lessD)
  then show ?thesis by (auto simp: all_finished_iff reading_def writing_def)
qed

text \<open>An unfinished thread of a stuck pipeline reads or writes a link.\<close>

lemma stuck_thread:
  assumes inv: "pipe_inv L out0 c trs" and st: "stuck c" and i: "i < length (c_threads c)"
    and nf: "\<not> is_finished (c_threads c ! i)"
  shows "reading c i \<or> (writing c i \<and> i + 1 < length (c_threads c))"
proof (cases "c_threads c ! i")
  case (Starting p)
  then have "thread_step (Go i) c \<noteq> None"
    using i by (auto simp: thread_step_def split: prod.split sum.split)
  then show ?thesis using st by (auto simp: stuck_def)
next
  case (Finished p res)
  then show ?thesis using nf by simp
next
  case (Running p prt io r)
  have no: "own_step i p prt io r c = None"
    using st i Running by (auto simp: stuck_def thread_step_def dest: spec [of _ "Go i"])
  note o = io_objects [OF inv i Running] and ti = pipe_inv_thread [OF inv i]
  have len: "length (c_threads c) = L_n L" using inv by (simp add: pipe_inv_def)
  show ?thesis
  proof (cases r)
    case (WriteTo fd d k)
    have nb: "\<not> is_buffer (bx_objs (c_box c) ! out_obj fd io)"
      using no by (auto simp: own_step_def WriteTo is_buffer_def split: ioobj.splits)
    then have fd: "fd = FdOut" using o(3) by (cases fd) simp_all
    have "is_buffer (bx_objs (c_box c) ! L_ob L)" using ti(4) by (simp add: box_wired_def)
    then have "i + 1 < L_n L" using nb o(6) unfolding fd by metis
    then show ?thesis using Running WriteTo len fd by (cases io) (simp add: writing_def)
  next
    case (ReadIn n k)
    then show ?thesis using Running by (cases io) (simp add: reading_def)
  next
    case (Return code err)
    then have "own_step i p prt io r c \<noteq> None" by (simp add: own_step_def Let_def case_prod_unfold)
    then show ?thesis using no by blast
  next
    case (Call m k)
    then have "own_step i p prt io r c \<noteq> None" by (simp add: own_step_def Let_def)
    then show ?thesis using no by blast
  qed
qed

lemma stuck_reading:
  assumes inv: "pipe_inv L out0 c trs" and st: "stuck c"
  shows "reading c i \<Longrightarrow> i < length (c_threads c) \<Longrightarrow> reading c 0"
proof (induction i)
  case (Suc i)
  obtain p prt io n k where t: "c_threads c ! Suc i = Running p prt io (ReadIn n k)"
    using Suc.prems(1) by (auto simp: reading_def)
  note o = io_objects [OF inv Suc.prems(2) t]
  have len: "length (c_threads c) = L_n L" using inv by (simp add: pipe_inv_def)
  have rd: "bx_objs (c_box c) ! fst io = PipeReader (Pq L i)" using o(7) by simp
  have "own_step (Suc i) p prt io (ReadIn n k) c = None"
    using st Suc.prems(2) t by (auto simp: stuck_def thread_step_def dest: spec [of _ "Go (Suc i)"])
  then have op: "\<not> bx_closed (c_box c) ! Pq L i" using rd by (auto simp: own_step_def split: if_splits)
  then have nf: "\<not> is_finished (c_threads c ! i)" using inv Suc.prems(2) len by (auto simp: pipe_inv_def)
  have i: "i < length (c_threads c)" using Suc.prems(2) by simp
  have "\<not> writing c i"
  proof
    assume "writing c i"
    then obtain p' prt' io' d k' where t': "c_threads c ! i = Running p' prt' io' (WriteTo FdOut d k')"
      by (auto simp: writing_def)
    have "bx_objs (c_box c) ! out_obj FdOut io' = PipeWriter (Pq L i)"
      using io_objects(5) [OF inv i t'] Suc.prems(2) len by simp
    then have "thread_step (Pair i (Suc i)) c \<noteq> None"
      using i Suc.prems(2) t t' rd op by (simp add: thread_step_def pair_step_def)
    then show False using st by (simp add: stuck_def)
  qed
  then have "reading c i" using stuck_thread [OF inv st i nf] by blast
  then show ?case using Suc.IH i by blast
qed

lemma stuck_waits:
  assumes inv: "pipe_inv L out0 c trs" and st: "stuck c" and nf: "\<not> all_finished c"
  shows "waits c"
proof -
  let ?U = "{i. i < length (c_threads c) \<and> \<not> is_finished (c_threads c ! i)}"
  define m where "m = Max ?U"
  have "?U \<noteq> {}" using nf by (auto simp: all_finished_iff)
  then have m: "m \<in> ?U" unfolding m_def by (intro Max_in) auto
  have top: "is_finished (c_threads c ! (m + 1))" if "m + 1 < length (c_threads c)"
  proof (rule ccontr)
    assume "\<not> is_finished (c_threads c ! (m + 1))"
    then have "m + 1 \<in> ?U" using that by simp
    then have "m + 1 \<le> Max ?U" by (intro Max_ge) auto
    then show False using m_def by simp
  qed
  show ?thesis
    using stuck_thread [OF inv st, of m] stuck_reading [OF inv st, of m] m top by (auto simp: waits_def)
qed

text \<open>The first stage goes on waiting for input; a stage goes on waiting for a reader that has returned.\<close>

lemma reading_stays:
  assumes inv: "pipe_inv L out0 c trs" and w: "reading c 0" and st: "thread_step a c = Some d"
  shows "c_threads d ! 0 = c_threads c ! 0"
proof -
  have ne: "0 < length (c_threads c)" using inv by (auto simp: pipe_inv_def)
  obtain p prt io n k where t: "c_threads c ! 0 = Running p prt io (ReadIn n k)" using w by (auto simp: reading_def)
  obtain q where q: "bx_objs (c_box c) ! fst io = PipeReader q" "\<not> bx_closed (c_box c) ! q"
    using io_objects(8) [OF inv ne t] by auto
  have "a \<noteq> Go 0" using st ne t q by (auto simp: thread_step_def own_step_def Let_def)
  moreover have "a \<noteq> Pair 0 j" for j using st t by (auto simp: thread_step_def pair_step_def split: if_splits)
  moreover have "a \<noteq> Pair i 0" for i
  proof
    assume "a = Pair i 0"
    with st have "thread_step (Pair i 0) c = Some d" by simp
    then show False
    proof (rule step_pairE)
      fix p1 prt1 io1 fd dat k1 p' prt' io' n' f q'
      assume *: "i < length (c_threads c)" "c_threads c ! i = Running p1 prt1 io1 (WriteTo fd dat k1)"
        "c_threads c ! 0 = Running p' prt' io' (ReadIn n' f)"
        "bx_objs (c_box c) ! out_obj fd io1 = PipeWriter q'" "bx_objs (c_box c) ! fst io' = PipeReader q'"
      have "0 = i + 1" by (rule pair_neighbours(2) [OF inv *(1) ne *(2-5)])
      then show False by simp
    qed
  qed
  ultimately have "0 \<notin> touched a" by (cases a) auto
  then show ?thesis using step_touches [OF st] by blast
qed

lemma writing_stays:
  assumes inv: "pipe_inv L out0 c trs" and i: "i + 1 < length (c_threads c)" and w: "writing c i"
    and fin: "is_finished (c_threads c ! (i + 1))" and st: "thread_step a c = Some d"
  shows "c_threads d ! i = c_threads c ! i"
proof -
  have il: "i < length (c_threads c)" using i by simp
  obtain p prt io dat k where t: "c_threads c ! i = Running p prt io (WriteTo FdOut dat k)"
    using w by (auto simp: writing_def)
  have o: "bx_objs (c_box c) ! out_obj FdOut io = PipeWriter (Pq L i)" "\<not> bx_closed (c_box c) ! Pq L i"
    using io_objects(5) [OF inv il t] i inv by (auto simp: pipe_inv_def)
  have "a \<noteq> Go i" using st il t o by (auto simp: thread_step_def own_step_def Let_def)
  moreover have "a \<noteq> Pair j i" for j
    using st t by (auto simp: thread_step_def pair_step_def split: if_splits thread.splits runner.splits)
  moreover have "a \<noteq> Pair i j" for j
  proof
    assume "a = Pair i j"
    with st have "thread_step (Pair i j) c = Some d" by simp
    then show False
    proof (rule step_pairE)
      fix p1 prt1 io1 fd dat' k1 p' prt' io' n' f q'
      assume *: "j < length (c_threads c)" "c_threads c ! i = Running p1 prt1 io1 (WriteTo fd dat' k1)"
        "c_threads c ! j = Running p' prt' io' (ReadIn n' f)"
        "bx_objs (c_box c) ! out_obj fd io1 = PipeWriter q'" "bx_objs (c_box c) ! fst io' = PipeReader q'"
      then have "j = i + 1" using pair_neighbours(2) [OF inv il] by blast
      then show False using *(3) fin by simp
    qed
  qed
  ultimately have "i \<notin> touched a" by (cases a) auto
  then show ?thesis using step_touches [OF st] by blast
qed

lemma waits_step:
  assumes inv: "pipe_inv L out0 c trs" and w: "waits c" and st: "thread_step a c = Some d"
  shows "waits d"
proof -
  obtain trs' where inv': "pipe_inv L out0 d trs'" using step_inv [OF inv st] by blast
  then have len: "length (c_threads d) = length (c_threads c)" using inv by (simp add: pipe_inv_def)
  from w consider "reading c 0"
    | i where "i + 1 < length (c_threads c)" "writing c i" "is_finished (c_threads c ! (i + 1))"
    by (auto simp: waits_def)
  then show ?thesis
  proof cases
    case 1
    then show ?thesis using reading_stays [OF inv 1 st] by (simp add: waits_def reading_def)
  next
    case (2 i)
    then show ?thesis
      using writing_stays [OF inv 2 st] finished_stays [OF st 2(3)] len by (auto simp: waits_def writing_def)
  qed
qed

interpretation waiting: schedule_invariant "\<lambda>c. waits c \<and> (\<exists>trs. pipe_inv L out0 c trs)" for L out0
  by unfold_locales (use waits_step step_inv in blast)

lemma waits_forever:
  assumes inv: "pipe_inv L out0 c trs" and w: "waits c" and run: "threads_run c d"
  shows "\<not> all_finished d"
proof -
  have "waits d \<and> (\<exists>trs. pipe_inv L out0 d trs)" using waiting.run [OF run] inv w by blast
  moreover then have "c_threads d \<noteq> []" by (auto simp: pipe_inv_def)
  ultimately show ?thesis using waits_unfinished by blast
qed

section \<open>A pipeline to run\<close>

text \<open>An interleaving, as the list of the choices made.\<close>

fun run_choices :: "choice list \<Rightarrow> config \<Rightarrow> config option" where
  "run_choices [] c = Some c"
| "run_choices (a # as) c = (case thread_step a c of None \<Rightarrow> None | Some d \<Rightarrow> run_choices as d)"

lemma threads_run_trans: "threads_run d e \<Longrightarrow> threads_run c d \<Longrightarrow> threads_run c e"
  by (induction rule: threads_run.induct) (auto intro: threads_run.intros)

lemma run_choices_run: "run_choices as c = Some d \<Longrightarrow> threads_run c d"
proof (induction as arbitrary: c)
  case (Cons a as)
  then obtain e where e: "thread_step a c = Some e" "run_choices as e = Some d" by (auto split: option.splits)
  then show ?case using Cons.IH threads_run_trans run_next [OF run_done e(1)] by blast
qed (simp add: run_done)

text \<open>A stage that copies one chunk and a stage that returns at once.\<close>

definition copy_chunk :: runner where
  "copy_chunk = ReadIn 10 (\<lambda>d. WriteTo FdOut (case d of None \<Rightarrow> [] | Some d \<Rightarrow> d) (\<lambda>_. Return 0 None))"

definition demo_box :: box where
  "demo_box = \<lparr>bx_sys = snd demo_rts, bx_objs = [Buffer [], Buffer [], Buffer []], bx_closed = [], bx_procs = []\<rparr>"

definition demo_stages :: "(string \<times> runner) list" where
  "demo_stages = [(''producer'', producer [''a'']), (''copy'', copy_chunk)]"

definition demo_choices :: "choice list" where
  "demo_choices = [Go 1, Go 0, Pair 0 1, Go 1, Go 0, Go 1]"

lemma demo_pipeline_run:
  "case pipeline_begin (Some demo_rt) (NewPipeline (runner_stages demo_stages)) demo_box of
     Inl _ \<Rightarrow> False
   | Inr (pl, c) \<Rightarrow> (case run_choices demo_choices c of None \<Rightarrow> False
       | Some d \<Rightarrow> all_finished d \<and> pp_Stdout (pipeline_end pl d) = [CHR ''a'', CHR 0x0A])"
  by code_simp

section \<open>Data flow\<close>

text \<open>
  C38. When \<open>Run\<close> of a pipeline of runners returns, whatever the interleaving was, every stage has
  played its runner from the start to its return; every stage but the first has read exactly the
  bytes the stage before it wrote to standard output, in order, nothing lost or doubled, however
  writes and reads cut them up; the result's \<open>Stdout\<close> is exactly what the last stage wrote; and the
  result has no error and exit code 0 if no stage returned an error, an error and exit code 1 if one did.
\<close>

theorem pipeline_data_flow:
  assumes "rs \<noteq> []" and "Pipeline_Run (Some rt) (NewPipeline (runner_stages rs)) b res"
  shows "\<exists>trs out. length trs = length rs \<and> length out = length rs \<and>
    (\<forall>i < length rs. played (snd (rs ! i)) (trs ! i) (Return (fst (out ! i)) (snd (out ! i)))) \<and>
    (\<forall>i. i + 1 < length rs \<longrightarrow> recv (trs ! (i + 1)) = sent (trs ! i)) \<and>
    pp_Stdout res = sent (last trs) \<and>
    pp_ExitCode res = (if \<forall>x \<in> set out. snd x = None then 0 else 1) \<and>
    (pp_Err res = None \<longleftrightarrow> (\<forall>x \<in> set out. snd x = None))"
proof -
  define L where "L = pipe_layout rs b"
  have n: "L_n L = length rs" "\<And>i. L_run L i = snd (rs ! i)" by (simp_all add: L_def pipe_layout_def)
  obtain pl c where pl: "pipeline_begin (Some rt) (NewPipeline (runner_stages rs)) b = Inr (pl, c)"
    "pl_outBuf pl = Some (L_ob L)" "pipe_inv L [] c (replicate (length rs) [])"
    unfolding L_def by (rule pipeline_begin_inv [OF assms(1), of rt b]) simp
  obtain d where d: "res = pipeline_end pl d" "threads_run c d" "all_finished d"
    using assms(2) pl(1) by (auto elim: Pipeline_Run.cases)
  obtain trs where inv: "pipe_inv L [] d trs" using wired.run [OF d(2)] pl(3) by blast
  have len: "length (c_threads d) = length rs" "length trs = length rs" using inv n by (auto simp: pipe_inv_def)
  define res_of where "res_of = (\<lambda>t. case t of Finished p r \<Rightarrow> (pr_ExitCode r, pr_Err r) | _ \<Rightarrow> (0, None))"
  define out where "out = map res_of (c_threads d)"
  have play: "played (snd (rs ! i)) (trs ! i) (Return (fst (out ! i)) (snd (out ! i)))" if "i < length rs" for i
  proof -
    have "trace_ok L i (c_threads d ! i) (trs ! i)" using inv that n by (simp add: pipe_inv_def)
    moreover have "is_finished (c_threads d ! i)" using d(3) that len by (simp add: all_finished_iff)
    ultimately show ?thesis
      using that len n by (cases "c_threads d ! i") (auto simp: out_def res_of_def trace_ok_def)
  qed
  have "set (c_errs d) = snd ` set out"
  proof -
    have "set (c_errs d) = results (c_threads d)" using inv by (simp add: pipe_inv_def)
    also have "\<dots> = snd ` set out"
      using d(3) by (force simp: results_def out_def res_of_def all_finished_def list_all_iff split: thread.splits)
    finally show ?thesis .
  qed
  then have errs: "[e. Some e \<leftarrow> c_errs d] = [] \<longleftrightarrow> (\<forall>x \<in> set out. snd x = None)"
    by (force simp: concat_eq_Nil_conv split: option.splits)
  have "trs \<noteq> []" using len assms(1) by auto
  then have "sent (trs ! (length rs - 1)) = sent (last trs)" using len by (simp add: last_conv_nth)
  then have "pp_Stdout res = sent (last trs)"
    using inv pl(2) n by (simp add: d(1) pipeline_end_def Let_def buf_contents_def pipe_inv_def)
  then show ?thesis
    using len play inv n errs
    by (intro exI [of _ trs] exI [of _ out]) (simp add: d(1) pipeline_end_def Let_def pipe_inv_def out_def)
qed

lemma demo_returns:
  "\<exists>res. Pipeline_Run (Some demo_rt) (NewPipeline (runner_stages demo_stages)) demo_box res \<and>
     pp_Stdout res = [CHR ''a'', CHR 0x0A]"
proof -
  obtain pl c d where "pipeline_begin (Some demo_rt) (NewPipeline (runner_stages demo_stages)) demo_box = Inr (pl, c)"
    "run_choices demo_choices c = Some d" "all_finished d" "pp_Stdout (pipeline_end pl d) = [CHR ''a'', CHR 0x0A]"
    using demo_pipeline_run by (auto split: sum.splits prod.splits option.splits)
  then show ?thesis using pipeline_done run_choices_run by blast
qed

theorem pipeline_data_flow_witness:
  "\<exists>res trs. Pipeline_Run (Some demo_rt) (NewPipeline (runner_stages demo_stages)) demo_box res \<and>
    pp_Stdout res = [CHR ''a'', CHR 0x0A] \<and> length trs = 2 \<and> recv (trs ! 1) = sent (trs ! 0)"
proof -
  obtain res where r: "Pipeline_Run (Some demo_rt) (NewPipeline (runner_stages demo_stages)) demo_box res"
    "pp_Stdout res = [CHR ''a'', CHR 0x0A]" using demo_returns by blast
  have "demo_stages \<noteq> []" "length demo_stages = 2" by (simp_all add: demo_stages_def)
  then obtain trs where "length trs = 2" "recv (trs ! (0 + 1)) = sent (trs ! 0)"
    using pipeline_data_flow [OF _ r(1)] by (metis One_nat_def add_0 lessI numeral_2_eq_2)
  then show ?thesis using r by auto
qed

section \<open>Which pipelines return\<close>

text \<open>
  C24. A pipeline of runners in which no goroutine can take a step has finished, or it waits: its
  first stage reads standard input, which nobody writes or closes, or a stage has output for a next
  stage that has returned. Once it waits it never finishes: \<open>Run\<close> does not return, with or without a
  deadline.
\<close>

theorem pipeline_stuck_exact:
  assumes "rs \<noteq> []" and "pipeline_begin (Some rt) (NewPipeline (runner_stages rs)) b = Inr (pl, c)"
    and "threads_run c d"
  shows "(stuck d \<longrightarrow> all_finished d \<or> waits d) \<and> (waits d \<longrightarrow> (\<forall>e. threads_run d e \<longrightarrow> \<not> all_finished e))"
proof -
  obtain pl' c' where "pipeline_begin (Some rt) (NewPipeline (runner_stages rs)) b = Inr (pl', c')"
    "pipe_inv (pipe_layout rs b) [] c' (replicate (length rs) [])"
    by (rule pipeline_begin_inv [OF assms(1), of rt b])
  then obtain trs where "pipe_inv (pipe_layout rs b) [] d trs" using assms(2) wired.run [OF assms(3)] by auto
  then show ?thesis using stuck_waits waits_forever by blast
qed

text \<open>The first stage reads: the pipeline waits after one step.\<close>

theorem pipeline_stuck_exact_witness:
  "\<exists>pl c d. pipeline_begin (Some demo_rt) (NewPipeline (runner_stages [(''copy'', copy_chunk)])) demo_box = Inr (pl, c) \<and>
    thread_step (Go 0) c = Some d \<and> (\<forall>e. threads_run d e \<longrightarrow> \<not> all_finished e)"
proof -
  have "case pipeline_begin (Some demo_rt) (NewPipeline (runner_stages [(''copy'', copy_chunk)])) demo_box of
      Inl _ \<Rightarrow> False
    | Inr (pl, c) \<Rightarrow> (case thread_step (Go 0) c of None \<Rightarrow> False
        | Some d \<Rightarrow> (case c_threads d ! 0 of Running p prt io r \<Rightarrow> (case r of ReadIn n k \<Rightarrow> True | _ \<Rightarrow> False)
                                   | _ \<Rightarrow> False))"
    by code_simp
  then obtain pl c d p prt io n k where
    b: "pipeline_begin (Some demo_rt) (NewPipeline (runner_stages [(''copy'', copy_chunk)])) demo_box = Inr (pl, c)"
    and d: "thread_step (Go 0) c = Some d" and t: "c_threads d ! 0 = Running p prt io (ReadIn n k)"
    by (auto split: sum.splits prod.splits option.splits thread.splits runner.splits)
  have "waits d" using t by (cases io) (simp add: waits_def reading_def)
  then have "\<forall>e. threads_run d e \<longrightarrow> \<not> all_finished e"
    using pipeline_stuck_exact [OF _ b run_next [OF run_done d]] by simp
  then show ?thesis using b d by blast
qed

text \<open>
  C18. A stage that returns without reading all of its input hangs the pipeline: if every way stage
  \<open>i\<close> can play to its end writes more than \<open>n\<close> bytes and every way the next stage can reads at most
  \<open>n\<close>, then \<open>RunWithTimeout\<close> returns no result, whatever the timeout is - although it is documented to
  execute the pipeline with a deadline.
\<close>

theorem pipeline_unread_hangs:
  assumes "i + 1 < length rs"
    and "\<And>tr code e. played (snd (rs ! i)) tr (Return code e) \<Longrightarrow> n < length (sent tr)"
    and "\<And>tr code e. played (snd (rs ! (i + 1))) tr (Return code e) \<Longrightarrow> length (recv tr) \<le> n"
  shows "\<not> Pipeline_RunWithTimeout (Some rt) (NewPipeline (runner_stages rs)) timeout b res"
proof
  assume "Pipeline_RunWithTimeout (Some rt) (NewPipeline (runner_stages rs)) timeout b res"
  then have run: "Pipeline_Run (Some rt) (NewPipeline (runner_stages rs)) b res"
    by (simp add: Pipeline_RunWithTimeout_def)
  have ne: "rs \<noteq> []" using assms(1) by auto
  obtain pl c where pl: "pipeline_begin (Some rt) (NewPipeline (runner_stages rs)) b = Inr (pl, c)"
    "pipe_inv (pipe_layout rs b) [] c (replicate (length rs) [])"
    by (rule pipeline_begin_inv [OF ne, of rt b])
  obtain d where d: "threads_run c d" "all_finished d" using run pl(1) by (auto elim: Pipeline_Run.cases)
  obtain trs where inv: "pipe_inv (pipe_layout rs b) [] d trs" using wired.run [OF d(1)] pl(2) by blast
  have n: "L_n (pipe_layout rs b) = length rs" "L_run (pipe_layout rs b) j = snd (rs ! j)" for j
    by (simp_all add: pipe_layout_def)
  have play: "\<exists>code e. played (snd (rs ! j)) (trs ! j) (Return code e)" if "j < length rs" for j
  proof -
    have "trace_ok (pipe_layout rs b) j (c_threads d ! j) (trs ! j)" "length (c_threads d) = length rs"
      using inv that n by (simp_all add: pipe_inv_def)
    moreover then have "is_finished (c_threads d ! j)" using d(2) that by (simp add: all_finished_iff)
    ultimately show ?thesis using n by (cases "c_threads d ! j") (auto simp: trace_ok_def)
  qed
  have "sent (trs ! i) = recv (trs ! (i + 1))" using inv assms(1) n by (simp add: pipe_inv_def)
  then show False using play [of i] play [of "i + 1"] assms by (metis Suc_eq_plus1 Suc_lessD not_less)
qed

lemma sent_append: "sent (tr @ tr') = sent tr @ sent tr'"
  by (simp add: sent_def)

lemma sent_single: "sent [Wrote FdOut d] = d"
  by (simp add: sent_def)

lemma played_WriteTo:
  "played (WriteTo FdOut d k) tr r \<Longrightarrow>
     (\<exists>d'. r = WriteTo FdOut d' k \<and> d = sent tr @ d') \<or> prefix d (sent tr)"
proof (induction rule: played.induct)
  case (play_part tr fd d' k' n)
  then show ?case by (auto simp: sent_append sent_single prefix_def)
next
  case (play_full tr fd d' k')
  then show ?case by (auto simp: sent_append sent_single prefix_def)
qed (auto simp: sent_append prefix_def)

lemma played_Return: "played (Return code e) tr r \<Longrightarrow> tr = []"
proof (induction rule: played.induct)
  case play_start
  then show ?case by simp
qed (auto elim: played.cases)

theorem pipeline_unread_hangs_witness:
  "\<nexists>res. Pipeline_RunWithTimeout (Some demo_rt)
       (NewPipeline (runner_stages [(''producer'', producer [''a'']), (''true'', Return 0 None)])) 5 demo_box res"
proof (rule notI, elim exE, rule notE [OF pipeline_unread_hangs [where i = 0 and n = 0]])
  fix tr code e
  assume "played (snd ([(''producer'', producer [''a'']), (''true'', Return 0 None)] ! 0)) tr (Return code e)"
  then have "prefix [CHR ''a'', CHR 0x0A] (sent tr)" using played_WriteTo by force
  then show "0 < length (sent tr)" by (auto simp: prefix_def)
next
  fix tr code e
  assume "played (snd ([(''producer'', producer [''a'']), (''true'', Return 0 None)] ! (0 + 1))) tr (Return code e)"
  then have "tr = []" using played_Return by simp
  then show "length (recv tr) \<le> 0" by simp
qed simp

section \<open>Confinement\<close>

text \<open>
  C39. The jail holds for application code in a pipeline. Whatever its stages are (runners, or processes
  made before), when they use the runtime they are given by its methods, with whatever paths, without
  moving the jail or the working directory and sparing the root of the jail, then at every moment of
  every interleaving, also of one that never ends, no location of the host outside the jail has changed;
  and the runtime handed to \<open>Run\<close> is still in step, with its environment, jail and directory.
\<close>

theorem pipeline_confined:
  assumes "in_step (Some rt, bx_sys b)" and "jailed_host J (view (Some rt, bx_sys b))"
    and "list_all (polite_stage J b) (pl_stages pl)"
    and "pipeline_begin (Some rt) pl b = Inr (pl', c)" and "threads_run c d" and "\<not> prefix J cs"
  shows "node (nodes (host_of (Some rt, bx_sys (c_box d)))) cs = node (nodes (host_of (Some rt, bx_sys b))) cs \<and>
    in_step (Some rt, bx_sys (c_box d)) \<and>
    env_of (Some rt, bx_sys (c_box d)) = env_of (Some rt, bx_sys b) \<and>
    fs_of (Some rt, bx_sys (c_box d)) = fs_of (Some rt, bx_sys b)"
proof -
  have "polite_inv J rt (bx_sys b) d" using polite_begin [OF assms(4,3,1)] confined.run [OF assms(5)] by blast
  then have d: "in_step (Some rt, bx_sys (c_box d))" "env_of (Some rt, bx_sys (c_box d)) = env_of (Some rt, bx_sys b)"
    "fs_reach J (view (Some rt, bx_sys b)) (view (Some rt, bx_sys (c_box d)))" by (simp_all add: polite_inv_def)
  have "op_frame J (view (Some rt, bx_sys b)) (view (Some rt, bx_sys (c_box d)))"
    using fs_reach_frame [OF d(3) assms(2)] by blast
  then show ?thesis
    using d in_step_fs [OF d(1)] in_step_fs [OF assms(1)] assms(6) by (simp add: op_frame_def confined_def view_def)
qed

text \<open>A stage that tries to leave the jail and says so.\<close>

definition escaping :: runner where
  "escaping = Call (run_rt (RFs (FWriteFile ''../../$X/new'' ''b'' 0x1A4))) (\<lambda>_. Return 0 None)"

definition demo_escape :: pipeline where
  "demo_escape = NewPipeline [Stage ''escaping'' (Some escaping), Stage ''producer'' (Some (producer [''a'']))]"

lemma polite_escaping: "polite J escaping"
  unfolding escaping_def
  by (intro polite_call polite_return)
    (auto simp: polite_use_def intro!: exI [of _ "RFs (FWriteFile ''../../$X/new'' ''b'' 0x1A4)"])

lemma demo_escape_begin:
  "\<exists>pl c. pipeline_begin (Some demo_rt) demo_escape demo_box = Inr (pl, c) \<and> c_rt c = Some demo_rt \<and>
     c_threads c = [Starting 0, Starting 1] \<and> pc_runner (proc_of 0 (c_box c)) = Some escaping"
  by (simp add: pipeline_begin_def demo_escape_def NewPipeline_def Stage_def demo_box_def Pipeline_CaptureStdout_def
      Pipeline_CaptureStderr_def new_obj_def NewProcess_def fresh_process_def Process_StdoutPipe_def proc_of_def
      io_Pipe_def upd_proc_def Process_SetStdin_def Let_def)

text \<open>It runs up to its return.\<close>

lemma escaping_runs:
  assumes "c_rt c = Some rt" and "c_threads c = [Starting 0, Starting 1]" and "pc_runner (proc_of 0 (c_box c)) = Some escaping"
  shows "\<exists>d prt io. threads_run c d \<and> c_threads d ! 0 = Running 0 prt io (Return 0 None)"
proof -
  obtain res b where r: "run_begin (Some rt) 0 (c_box c) = (res, b)" by fastforce
  then obtain prt io where i: "res = Inr (prt, io, escaping)"
    by (cases rule: run_begin_result) (use assms(3) in auto)
  let ?d = "set_thread 0 (Running 0 prt io escaping) b c"
  have 1: "thread_step (Go 0) c = Some ?d" using assms r i by (simp add: thread_step_def)
  have "\<exists>e prt. thread_step (Go 0) ?d = Some e \<and> c_threads e ! 0 = Running 0 prt io (Return 0 None)"
    by (simp add: thread_step_def own_step_def escaping_def set_thread_def assms(2) Let_def)
  then show ?thesis using 1 run_next [OF run_next [OF run_done]] by blast
qed

theorem pipeline_confined_witness:
  "\<exists>pl c d prt io. pipeline_begin (Some demo_rt) demo_escape demo_box = Inr (pl, c) \<and> threads_run c d \<and>
    c_threads d ! 0 = Running 0 prt io (Return 0 None) \<and>
    node (nodes (host_of (Some demo_rt, bx_sys (c_box d)))) [''etc''] = node (nodes (host_of demo_rts)) [''etc'']"
proof -
  obtain pl c where c: "pipeline_begin (Some demo_rt) demo_escape demo_box = Inr (pl, c)" "c_rt c = Some demo_rt"
    "c_threads c = [Starting 0, Starting 1]" "pc_runner (proc_of 0 (c_box c)) = Some escaping"
    using demo_escape_begin by blast
  obtain d prt io where d: "threads_run c d" "c_threads d ! 0 = Running 0 prt io (Return 0 None)"
    using escaping_runs [OF c(2-4)] by blast
  have s: "(Some demo_rt, bx_sys demo_box) = demo_rts" by (simp add: demo_box_def demo_rts_def)
  have i: "in_step (Some demo_rt, bx_sys demo_box)" "jailed_host demo_J (view (Some demo_rt, bx_sys demo_box))"
    unfolding s using demo_in_step demo_jail by (simp_all add: demo_view)
  have p: "list_all (polite_stage demo_J demo_box) (pl_stages demo_escape)"
    using polite_escaping polite_producer by (simp add: demo_escape_def NewPipeline_def Stage_def polite_stage_def del: producer.simps)
  have "\<not> prefix demo_J [''etc'']" by (simp add: demo_J_def)
  from pipeline_confined [OF i p c(1) d(1) this]
  have "node (nodes (host_of (Some demo_rt, bx_sys (c_box d)))) [''etc''] = node (nodes (host_of demo_rts)) [''etc'']"
    unfolding s by (rule conjunct1)
  with c(1) d show ?thesis by blast
qed

end
