(* ===== verification/Sandbox.thy ===== *)
theory Sandbox
  imports Runtime Mylog
begin

text \<open>
  \<open>src/sandbox/sandbox.go\<close>: the test harness \<open>Sandbox\<close>, its construction and its methods.

  A method runs on the struct and the state of the test around it: the runtime's stores, the log
  handlers, what \<open>testing.T\<close> has logged and the temporary directories it gives out. \<open>t.Fatalf\<close> ends
  the test: it is the outcome \<open>Fatal\<close> with the message (the error's own text is kept as a value),
  which no caller handles. The context \<open>t.Context()\<close> is opaque.
\<close>

section \<open>Embedded files\<close>

text \<open>\<open>embed.FS\<close>: a tree whose directories list their entries in name order; the zero value is empty.\<close>

datatype efs = EFile string | EDir "(string \<times> efs) list"

definition ValidPath :: "string \<Rightarrow> bool" where
  "ValidPath name =
     (name = ''.'' \<or> list_all (\<lambda>c. c \<noteq> [] \<and> c \<noteq> ''.'' \<and> c \<noteq> ''..'') (split_on CHR ''/'' name))"

fun efs_at :: "efs \<Rightarrow> string list \<Rightarrow> efs option" where
  "efs_at t [] = Some t"
| "efs_at (EFile b) (c # cs) = None"
| "efs_at (EDir es) (c # cs) = (case map_of es c of None \<Rightarrow> None | Some t \<Rightarrow> efs_at t cs)"

definition efs_Open :: "efs \<Rightarrow> string \<Rightarrow> goerr + efs" where
  "efs_Open fsys name =
     (case (if \<not> ValidPath name then None
            else if name = ''.'' then Some fsys
            else efs_at fsys (split_on CHR ''/'' name)) of
        None \<Rightarrow> Inl (PathErr ''open'' name ErrNotExist)
      | Some t \<Rightarrow> Inr t)"

definition efs_ReadDir :: "efs \<Rightarrow> string \<Rightarrow> goerr + (string \<times> efs) list" where
  "efs_ReadDir fsys name =
     (case efs_Open fsys name of
        Inl e \<Rightarrow> Inl e
      | Inr (EFile b) \<Rightarrow> Inl (PathErr ''read'' name (ErrMsg ''not a directory''))
      | Inr (EDir es) \<Rightarrow> Inr es)"

definition efs_ReadFile :: "efs \<Rightarrow> string \<Rightarrow> goerr + string" where
  "efs_ReadFile fsys name =
     (case efs_Open fsys name of
        Inl e \<Rightarrow> Inl e
      | Inr (EDir es) \<Rightarrow> Inl (PathErr ''read'' name (ErrMsg ''is a directory''))
      | Inr (EFile b) \<Rightarrow> Inr b)"

text \<open>
  The loop of \<open>copyEmbedDir\<close> over the entries of \<open>src\<close>, and the whole function. An entry comes with
  what it holds, so that the recursion is on the tree; \<open>copy_entries_dir\<close> shows that the step on a
  directory is the recursive call on its path.
\<close>

fun copy_entries :: "efs \<Rightarrow> string \<Rightarrow> string \<Rightarrow> (string \<times> efs) list \<Rightarrow> unit os" where
  "copy_entries fsys src dst [] = ret ()"
| "copy_entries fsys src dst ((name, EDir es) # rest) =
     bindE (bindE (os_MkdirAll (Join [dst, name]) 0x1ED)
             (\<lambda>_. copy_entries fsys (Join [src, name]) (Join [dst, name]) es))
       (\<lambda>_. copy_entries fsys src dst rest)"
| "copy_entries fsys src dst ((name, EFile b) # rest) =
     bindE (liftE (efs_ReadFile fsys (Join [src, name]))) (\<lambda>data.
       bindE (os_WriteFile (Join [dst, name]) data 0x1A4) (\<lambda>_. copy_entries fsys src dst rest))"

definition copyEmbedDir :: "efs \<Rightarrow> string \<Rightarrow> string \<Rightarrow> unit os" where
  "copyEmbedDir fsys src dst =
     bindE (liftE (efs_ReadDir fsys src)) (\<lambda>entries.
       bindE (os_MkdirAll dst 0x1ED) (\<lambda>_. copy_entries fsys src dst entries))"

lemma copy_entries_dir:
  "efs_ReadDir fsys (Join [src, name]) = Inr es \<Longrightarrow>
   copy_entries fsys src dst ((name, EDir es) # rest) =
     bindE (copyEmbedDir fsys (Join [src, name]) (Join [dst, name])) (\<lambda>_. copy_entries fsys src dst rest)"
  by (simp add: copyEmbedDir_def bindE_def liftE_def fun_eq_iff)

section \<open>The test and the sandbox\<close>

text \<open>
  \<open>tb_temp n\<close> is the path of the test's n-th temporary directory, \<open>tb_log\<close> what it has logged: each
  line with the error it ends in, if it does.
\<close>

record 'v tstate =
  tb_temp :: "nat \<Rightarrow> string"
  tb_seq :: nat
  tb_ctx :: nat
  tb_log :: "(string \<times> goerr option) list"
  tb_logs :: "'v log_store"
  tb_sys :: sys

record sandbox =
  sb_data :: efs
  sb_ctx :: nat
  sb_rt :: "runtime option"

datatype sberr = SErr goerr | Fatal string "goerr option"

type_synonym ('v, 'a) sbio = "(sandbox \<times> 'v tstate, sberr, 'a) io"

type_synonym 'v sboption = "('v, unit) sbio"

record sbconfig =
  opt_Data :: efs
  opt_Home :: string
  opt_User :: string

definition as_serr :: "goerr + 'a \<Rightarrow> sberr + 'a" where
  "as_serr r = (case r of Inl e \<Rightarrow> Inl (SErr e) | Inr x \<Rightarrow> Inr x)"

text \<open>A call on the runtime, on the host; an error turned into \<open>t.Fatalf\<close>; \<open>t.Logf\<close>.\<close>

definition on_rt :: "'a rtio \<Rightarrow> ('v, 'a) sbio" where
  "on_rt m s =
     (case m (sb_rt (fst s), tb_sys (snd s)) of
        (r, (rt, y)) \<Rightarrow> (as_serr r, ((fst s)\<lparr>sb_rt := rt\<rparr>, (snd s)\<lparr>tb_sys := y\<rparr>)))"

definition host_call :: "'a os \<Rightarrow> 'v tstate \<Rightarrow> (goerr + 'a) \<times> 'v tstate" where
  "host_call m t =
     (case m (p_host (s_proc (tb_sys t))) of (r, w) \<Rightarrow> (r, t\<lparr>tb_sys := set_host w (tb_sys t)\<rparr>))"

definition on_host :: "'a os \<Rightarrow> ('v, 'a) sbio" where
  "on_host m s = (case host_call m (snd s) of (r, t) \<Rightarrow> (as_serr r, (fst s, t)))"

definition must :: "string \<Rightarrow> ('v, 'a) sbio \<Rightarrow> ('v, 'a) sbio" where
  "must msg m s =
     (case m s of
        (Inl (SErr e), s1) \<Rightarrow> (Inl (Fatal msg (Some e)), s1)
      | (r, s1) \<Rightarrow> (r, s1))"

definition logf :: "string \<Rightarrow> goerr option \<Rightarrow> sandbox \<times> 'v tstate \<Rightarrow> sandbox \<times> 'v tstate" where
  "logf line err s = (fst s, (snd s)\<lparr>tb_log := tb_log (snd s) @ [(line, err)]\<rparr>)"

text \<open>\<open>t.TempDir()\<close> creates the next directory, and fails the test when it cannot.\<close>

definition TempDir :: "'v tstate \<Rightarrow> (sberr + string) \<times> 'v tstate" where
  "TempDir t =
     (let dir = tb_temp t (tb_seq t)
      in case host_call (os_MkdirAll dir 0x1FF) (t\<lparr>tb_seq := Suc (tb_seq t)\<rparr>) of
           (Inl e, t1) \<Rightarrow> (Inl (Fatal ''TempDir'' (Some e)), t1)
         | (Inr _, t1) \<Rightarrow> (Inr dir, t1))"

section \<open>Methods\<close>

definition Sandbox_GetJail :: "sandbox \<times> 'v tstate \<Rightarrow> string" where
  "Sandbox_GetJail s =
     (if sb_rt (fst s) = None then [] else Runtime_GetJail (sb_rt (fst s), tb_sys (snd s)))"

definition Sandbox_Context :: "sandbox \<Rightarrow> nat" where
  "Sandbox_Context sb = sb_ctx sb"

definition Sandbox_Runtime :: "sandbox \<Rightarrow> runtime option" where
  "Sandbox_Runtime sb = sb_rt sb"

definition Sandbox_AbsPath :: "string \<Rightarrow> ('v, string) sbio" where
  "Sandbox_AbsPath rel = on_rt (Runtime_AbsPath rel)"

definition Sandbox_ReadFile :: "string \<Rightarrow> ('v, string) sbio" where
  "Sandbox_ReadFile rel = on_rt (Runtime_ReadFile rel)"

definition MustReadFile :: "string \<Rightarrow> ('v, string) sbio" where
  "MustReadFile rel = must (''MustReadFile '' @ rel @ '' failed'') (Sandbox_ReadFile rel)"

definition Sandbox_AtomicWriteFile :: "string \<Rightarrow> string \<Rightarrow> 32 word \<Rightarrow> ('v, unit) sbio" where
  "Sandbox_AtomicWriteFile rel data perm s =
     (if Sandbox_GetJail s = [] then fail (SErr (ErrMsg ''no jail set'')) s
      else on_rt (Runtime_AtomicWriteFile rel data perm) s)"

definition Sandbox_WriteFile :: "string \<Rightarrow> string \<Rightarrow> 32 word \<Rightarrow> ('v, unit) sbio" where
  "Sandbox_WriteFile rel data perm = on_rt (Runtime_WriteFile rel data perm)"

definition MustWriteFile :: "string \<Rightarrow> string \<Rightarrow> 32 word \<Rightarrow> ('v, unit) sbio" where
  "MustWriteFile path data perm =
     must (''MustWriteFile '' @ path @ '' failed'') (Sandbox_WriteFile path data perm)"

definition Sandbox_Mkdir :: "string \<Rightarrow> bool \<Rightarrow> ('v, unit) sbio" where
  "Sandbox_Mkdir rel all = on_rt (Runtime_Mkdir rel 0x1ED all)"

definition Sandbox_ResolvePath :: "string \<Rightarrow> ('v, string) sbio" where
  "Sandbox_ResolvePath rel = on_rt (Runtime_ResolvePath rel False)"

definition cleanup :: "('v, unit) sbio" where
  "cleanup = ret ()"

definition runtimeEnv :: "('v, unit) sbio" where
  "runtimeEnv s =
     (if sb_rt (fst s) = None then fail (Fatal ''sandbox runtime env is nil'' None) s else (Inr (), s))"

definition testClock :: "('v, nat) sbio" where
  "testClock s =
     (case sb_rt (fst s) of
        Some rt \<Rightarrow>
          (case rt_clock rt of
             Some (Sched (TestClockV c)) \<Rightarrow> (Inr c, s)
           | _ \<Rightarrow> fail (Fatal ''sandbox test clock is not available'' None) s)
      | None \<Rightarrow> fail (Fatal ''sandbox test clock is not available'' None) s)"

definition set_clk :: "nat \<Rightarrow> clk \<Rightarrow> sandbox \<times> 'v tstate \<Rightarrow> sandbox \<times> 'v tstate" where
  "set_clk c k s =
     (fst s, (snd s)\<lparr>tb_sys := (tb_sys (snd s))\<lparr>s_clks := (s_clks (tb_sys (snd s)))[c := k]\<rparr>\<rparr>)"

definition clk_at :: "nat \<Rightarrow> sandbox \<times> 'v tstate \<Rightarrow> clk" where
  "clk_at c s = s_clks (tb_sys (snd s)) ! c"

text \<open>\<open>None\<close> when the scheduler does not return.\<close>

definition Sandbox_Advance :: "duration \<Rightarrow> sandbox \<times> 'v tstate \<Rightarrow> ((sberr + unit) \<times> sandbox \<times> 'v tstate) option" where
  "Sandbox_Advance d s =
     (case testClock s of
        (Inl e, s1) \<Rightarrow> Some (Inl e, s1)
      | (Inr c, s1) \<Rightarrow>
          (case TestClock_Advance d (clk_at c s1) of
             None \<Rightarrow> None
           | Some k \<Rightarrow> Some (Inr (), set_clk c k s1)))"

definition Sandbox_Now :: "('v, int) sbio" where
  "Sandbox_Now = bindE testClock (\<lambda>c. getS (\<lambda>s. TestClock_Now (clk_at c s)))"

definition Sandbox_Getwd :: "('v, string) sbio" where
  "Sandbox_Getwd = on_rt Runtime_Getwd"

definition Sandbox_Setwd :: "string \<Rightarrow> ('v, unit) sbio" where
  "Sandbox_Setwd dir = bindE (Sandbox_ResolvePath dir) (\<lambda>path. on_rt (Runtime_Setwd path))"

definition Sandbox_GetHome :: "('v, string) sbio" where
  "Sandbox_GetHome = bindE runtimeEnv (\<lambda>_. on_rt Runtime_GetHome)"

section \<open>Dumping\<close>

text \<open>
  \<open>filepath.WalkDir\<close>. The callback gets the path, whether the entry is a directory, and an error; it
  answers nil (\<open>Continue\<close>), \<open>fs.SkipDir\<close> or another error. The directories are read from the tree
  \<open>t\<close>, which the callback does not change; \<open>cs\<close> is the location of the path \<open>p\<close> (an entry that is a
  directory is no link, so its location is one step below). The process may read every directory.
\<close>

datatype walkret = Continue | SkipDir | Abort goerr

type_synonym 's walkfn = "string \<Rightarrow> bool \<Rightarrow> goerr option \<Rightarrow> 's \<Rightarrow> walkret \<times> 's"

definition keys_below :: "tree \<Rightarrow> string list \<Rightarrow> nat" where
  "keys_below t cs = length [kv \<leftarrow> t. strict_prefix cs (fst kv)]"

lemma keys_below_child:
  assumes "is_dir_at t (cs @ [n])"
  shows "keys_below t (cs @ [n]) < keys_below t cs"
proof -
  obtain i where "map_of t (cs @ [n]) = Some i" using assms by (auto simp: is_dir_at_def split: option.splits)
  then have "(cs @ [n], i) \<in> set t" by (rule map_of_SomeD)
  then have "(cs @ [n], i) \<in> set (filter (\<lambda>kv. strict_prefix cs (fst kv)) t)"
    by (simp add: strict_prefix_def)
  moreover have f: "filter (\<lambda>kv. strict_prefix (cs @ [n]) (fst kv)) t =
      filter (\<lambda>kv. strict_prefix (cs @ [n]) (fst kv)) (filter (\<lambda>kv. strict_prefix cs (fst kv)) t)"
    by (auto intro!: filter_cong simp: strict_prefix_def prefix_def)
  ultimately show ?thesis unfolding keys_below_def f
    by (intro length_filter_less [of "(cs @ [n], i)"]) auto
qed

function walk_dir :: "tree \<Rightarrow> 's walkfn \<Rightarrow> string \<Rightarrow> string list \<Rightarrow> 's \<Rightarrow> walkret \<times> 's"
  and walk_entries :: "tree \<Rightarrow> 's walkfn \<Rightarrow> string \<Rightarrow> string list \<Rightarrow> string list \<Rightarrow> 's \<Rightarrow> walkret \<times> 's" where
  "walk_dir t visit p cs s =
     (case visit p True None s of
        (Continue, s1) \<Rightarrow> walk_entries t visit p cs (sort_strings (children t cs)) s1
      | (SkipDir, s1) \<Rightarrow> (Continue, s1)
      | (Abort e, s1) \<Rightarrow> (Abort e, s1))"
| "walk_entries t visit p cs [] s = (Continue, s)"
| "walk_entries t visit p cs (n # ns) s =
     (case (if is_dir_at t (cs @ [n]) then walk_dir t visit (Join [p, n]) (cs @ [n]) s
            else visit (Join [p, n]) False None s) of
        (Continue, s1) \<Rightarrow> walk_entries t visit p cs ns s1
      | (SkipDir, s1) \<Rightarrow> (Continue, s1)
      | (Abort e, s1) \<Rightarrow> (Abort e, s1))"
  by pat_completeness auto

termination
  by (relation "measures
        [\<lambda>x. case x of Inl (t, visit, p, cs, s) \<Rightarrow> keys_below t cs | Inr (t, visit, p, cs, ns, s) \<Rightarrow> keys_below t cs,
         \<lambda>x. case x of Inl (t, visit, p, cs, s) \<Rightarrow> Suc (length (sort_strings (children t cs)))
             | Inr (t, visit, p, cs, ns, s) \<Rightarrow> length ns]")
    (auto simp: keys_below_child)

declare walk_dir.simps [simp del]

definition walk_root :: "string \<Rightarrow> world \<Rightarrow> 's walkfn \<Rightarrow> 's \<Rightarrow> walkret \<times> 's" where
  "walk_root root w visit s =
     (case os_Lstat root w of
        Inl e \<Rightarrow> visit root False (Some e) s
      | Inr i \<Rightarrow>
          if kind i = KDir then
            (case klookup w False root of
               Inl e \<Rightarrow> (Continue, s)
             | Inr cs \<Rightarrow> walk_dir (nodes w) visit root cs s)
          else visit root False None s)"

definition WalkDir :: "string \<Rightarrow> world \<Rightarrow> 's walkfn \<Rightarrow> 's \<Rightarrow> goerr option \<times> 's" where
  "WalkDir root w visit s =
     (case walk_root root w visit s of
        (r, s1) \<Rightarrow> (case r of Abort e \<Rightarrow> Some e | _ \<Rightarrow> None, s1))"

text \<open>\<open>strings.Count(path, "/") + 1\<close>\<close>

definition path_depth :: "string \<Rightarrow> nat" where
  "path_depth path = length (filter (\<lambda>c. c = CHR ''/'') path) + 1"

text \<open>The callback: it collects the paths, and the directories that hold one that is none.\<close>

record pathInfo =
  pi_path :: string
  pi_isDir :: bool
  pi_depth :: nat

type_synonym 'v dump_state = "(pathInfo list \<times> string list) \<times> sandbox \<times> 'v tstate"

definition dump_path :: "string \<Rightarrow> ('v, string) sbio" where
  "dump_path p s =
     (if p = ''.'' then (Inr ''/'', s)
      else Sandbox_ResolvePath (RemoveJailPrefix (Sandbox_GetJail s) p) s)"

definition dump_visit :: "int \<Rightarrow> 'v dump_state walkfn" where
  "dump_visit maxDepth p isDir err d =
     (let (acc, s) = d
      in case err of
           Some e \<Rightarrow> (Continue, (acc, logf ''  error'' (Some e) s))
         | None \<Rightarrow>
             (case dump_path p s of
                (Inl e, s1) \<Rightarrow>
                  (Continue, (acc, logf (''  resolve error for '' @ p) (case e of SErr g \<Rightarrow> Some g | Fatal m g \<Rightarrow> g) s1))
              | (Inr path, s1) \<Rightarrow>
                  if maxDepth > 0 \<and> int (path_depth path) > maxDepth
                  then (if isDir then SkipDir else Continue, (acc, s1))
                  else if isDir
                  then (Continue, ((fst acc @ [\<lparr>pi_path = path, pi_isDir = True, pi_depth = path_depth path\<rparr>], snd acc), s1))
                  else (Continue, ((fst acc @ [\<lparr>pi_path = path, pi_isDir = False, pi_depth = 0\<rparr>], Dir path # snd acc), s1))))"

text \<open>The lines of the tree: files, and the directories that hold none.\<close>

definition dump_lines :: "pathInfo list \<times> string list \<Rightarrow> string list" where
  "dump_lines acc =
     concat (map (\<lambda>i. if \<not> pi_isDir i then [''  '' @ pi_path i]
                     else if pi_path i \<notin> set (snd acc) then [''  '' @ pi_path i @ ''/''] else [])
               (fst acc))"

definition DumpJailTree :: "int \<Rightarrow> sandbox \<times> 'v tstate \<Rightarrow> sandbox \<times> 'v tstate" where
  "DumpJailTree maxDepth s0 =
     (if Sandbox_GetJail s0 = [] then logf ''DumpJailTree: no jail set'' None s0
      else
        (let s1 = logf (''Jail tree: '' @ Sandbox_GetJail s0) None s0
         in case WalkDir (Sandbox_GetJail s0) (p_host (s_proc (tb_sys (snd s1)))) (dump_visit maxDepth) (([], []), s1) of
              (err, (acc, s2)) \<Rightarrow>
                (let s3 = fold (\<lambda>l. logf l None) (dump_lines acc) s2
                 in case err of None \<Rightarrow> s3 | Some e \<Rightarrow> logf ''DumpJailTree walk error'' (Some e) s3)))"

definition DumpFileContent :: "string \<Rightarrow> sandbox \<times> 'v tstate \<Rightarrow> sandbox \<times> 'v tstate" where
  "DumpFileContent rel s =
     (case Sandbox_ReadFile rel s of
        (Inl e, s1) \<Rightarrow>
          logf (''DumpFileContent '' @ rel @ '' failed'') (case e of SErr g \<Rightarrow> Some g | Fatal m g \<Rightarrow> g) s1
      | (Inr content, s1) \<Rightarrow>
          logf (''File content: '' @ rel @ [CHR 0x0A] @ content) None s1)"

section \<open>Options\<close>

definition WithEnv :: "string \<Rightarrow> string \<Rightarrow> 'v sboption" where
  "WithEnv key val =
     bindE runtimeEnv (\<lambda>_. must (''WithEnv failed to set '' @ key) (on_rt (Runtime_Set key val)))"

definition WithWd :: "string \<Rightarrow> 'v sboption" where
  "WithWd rel =
     bindE (must (''WithWd: resolve '' @ quoted rel @ '' failed'') (Sandbox_ResolvePath rel)) (\<lambda>path.
       must (''WithWd: setwd '' @ quoted path @ '' failed'') (on_rt (Runtime_Setwd path)))"

definition WithClock :: "int \<Rightarrow> 'v sboption" where
  "WithClock t0 = bindE testClock (\<lambda>c. modifyS (\<lambda>s. set_clk c (TestClock_Set t0 (clk_at c s)) s))"

text \<open>The map in the order \<open>range\<close> visits it.\<close>

fun WithEnvMap :: "(string \<times> string) list \<Rightarrow> 'v sboption" where
  "WithEnvMap [] = ret ()"
| "WithEnvMap ((k, v) # m) =
     bindE (bindE runtimeEnv (\<lambda>_. must (''WithEnvMap set '' @ k @ '' failed'') (on_rt (Runtime_Set k v))))
       (\<lambda>_. WithEnvMap m)"

definition WithFixture :: "string \<Rightarrow> string \<Rightarrow> 'v sboption" where
  "WithFixture fixture path s0 =
     (let src = Join [''data'', fixture]
      in bindE (must (''WithFixture: source '' @ src @ '' not found'')
                 (liftE (as_serr (efs_Open (sb_data (fst s0)) src)))) (\<lambda>_.
           bindE (must (''WithFixture: resolve '' @ path @ '' failed'') (Sandbox_ResolvePath path)) (\<lambda>p s.
             (let dst = Join [Sandbox_GetJail s, p]
              in must (''WithFixture: copy '' @ src @ '' -> '' @ dst @ '' failed'')
                   (on_host (copyEmbedDir (sb_data (fst s)) src dst)) s))) s0)"

section \<open>Construction\<close>

fun apply_options :: "'v sboption list \<Rightarrow> 'v sboption" where
  "apply_options [] = ret ()"
| "apply_options (opt # opts) = bindE opt (\<lambda>_. apply_options opts)"

text \<open>\<open>ulower\<close> is \<open>unicode.ToLower\<close> beyond ASCII.\<close>

definition NewSandbox ::
  "(string \<Rightarrow> string) \<Rightarrow> sbconfig option \<Rightarrow> 'v sboption list \<Rightarrow> 'v tstate \<Rightarrow> (sberr + sandbox) \<times> 'v tstate" where
  "NewSandbox ulower options opts t0 =
     (case TempDir t0 of
        (Inl e, t) \<Rightarrow> (Inl e, t)
      | (Inr jail, t1) \<Rightarrow>
          (let (home, user, data) =
                 (case options of None \<Rightarrow> ([], [], EDir []) | Some cfg \<Rightarrow> (opt_Home cfg, opt_User cfg, opt_Data cfg));
               ((lg, th), ls) = NewTestLogger True (ParseLevel ulower ''debug'') (tb_logs t1);
               (clk, y1) = new_clk (NewTestClock test_epoch) (tb_sys t1);
               (st, y2) = new_stream (DefaultStream y1) y1
           in case NewTestRuntime jail home user
                     [Some (WithRuntimeClock (Some (TestClockV clk))),
                      Some (WithRuntimeLogger (Some (LoggerV lg))),
                      Some (WithRuntimeStream (Some st)),
                      Some (WithRuntimeHasher (Some MD5Hasher))] y2 of
                (Inl err, y) \<Rightarrow>
                  (Inl (Fatal ''NewSandbox: runtime init failed'' (Some err)), t1\<lparr>tb_logs := ls, tb_sys := y\<rparr>)
              | (Inr rt, y) \<Rightarrow>
                  (case apply_options opts
                          (\<lparr>sb_data = data, sb_ctx = tb_ctx t1, sb_rt = Some rt\<rparr>, t1\<lparr>tb_logs := ls, tb_sys := y\<rparr>) of
                     (Inl e, s) \<Rightarrow> (Inl e, snd s)
                   | (Inr _, s) \<Rightarrow> (Inr (fst s), snd s))))"

end
