(* ===== verification/Sandbox_Facts.thy ===== *)
theory Sandbox_Facts
  imports Sandbox Runtime_Props Clock_Props
begin

text \<open>
  The sandbox kept well formed: every method and every option of a ready sandbox leaves it ready, and
  ends the test only to report the error of an operation. What \<open>copyEmbedDir\<close> copies.
\<close>

section \<open>Ready sandboxes\<close>

definition rt_st :: "sandbox \<times> 'v tstate \<Rightarrow> rts" where
  "rt_st s = (sb_rt (fst s), tb_sys (snd s))"

text \<open>The runtime is in step, and its clock is a test clock in a state of its scheduler's invariant.\<close>

definition has_test_clock :: "nat \<Rightarrow> sandbox \<times> 'v tstate \<Rightarrow> bool" where
  "has_test_clock c s \<longleftrightarrow> rt_clock (the (sb_rt (fst s))) = Some (Sched (TestClockV c)) \<and>
     c < length (s_clks (tb_sys (snd s))) \<and> clk_ok (clk_at c s)"

definition ready :: "nat \<Rightarrow> sandbox \<times> 'v tstate \<Rightarrow> bool" where
  "ready c s \<longleftrightarrow> in_step (rt_st s) \<and> has_test_clock c s"

lemma ready_runtime: "ready c s \<Longrightarrow> \<exists>rt. sb_rt (fst s) = Some rt"
  by (cases "sb_rt (fst s)") (auto simp: ready_def rt_st_def in_step_def same_jail_def)

text \<open>A computation that keeps a sandbox ready and calls \<open>t.Fatalf\<close> only with an error.\<close>

definition sound :: "nat \<Rightarrow> ('v, 'a) sbio \<Rightarrow> bool" where
  "sound c m \<longleftrightarrow> (\<forall>s. ready c s \<longrightarrow> ready c (snd (m s)) \<and> (\<forall>msg. fst (m s) \<noteq> Inl (Fatal msg None)))"

lemma soundD: "sound c m \<Longrightarrow> ready c s \<Longrightarrow> m s = (r, t) \<Longrightarrow> ready c t \<and> r \<noteq> Inl (Fatal msg None)"
  unfolding sound_def by (metis fst_conv snd_conv)

named_theorems sound_intros \<open>sound computations\<close>

lemma sound_ret [sound_intros]: "sound c (ret x)"
  by (simp add: sound_def ret_def)

lemma sound_getS [sound_intros]: "sound c (getS f)"
  by (simp add: sound_def getS_def)

lemma sound_lift [sound_intros]: "sound c (liftE (as_serr r))"
  by (auto simp: sound_def liftE_def as_serr_def split: sum.split)

lemma sound_bindE [sound_intros]:
  fixes m :: "('v, 'a) sbio"
  assumes "sound c m" and "\<And>x. sound c (k x)"
  shows "sound c (bindE m k)"
  unfolding sound_def
proof (intro allI impI)
  fix s :: "sandbox \<times> 'v tstate" assume s: "ready c s"
  obtain r s1 where m: "m s = (r, s1)" by (cases "m s")
  have r: "ready c s1" "\<And>msg. r \<noteq> Inl (Fatal msg None)" using soundD [OF assms(1) s m] by auto
  show "ready c (snd (bindE m k s)) \<and> (\<forall>msg. fst (bindE m k s) \<noteq> Inl (Fatal msg None))"
    using r assms(2) by (cases r) (auto simp: bindE_def m sound_def simp del: split_paired_All)
qed

lemma sound_must [sound_intros]:
  fixes m :: "('v, 'a) sbio"
  assumes "sound c m"
  shows "sound c (must msg m)"
  unfolding sound_def
proof (intro allI impI)
  fix s :: "sandbox \<times> 'v tstate" assume s: "ready c s"
  obtain r s1 where m: "m s = (r, s1)" by (cases "m s")
  then have "ready c s1" "\<And>msg. r \<noteq> Inl (Fatal msg None)" using soundD [OF assms s m] by auto
  then show "ready c (snd (must msg m s)) \<and> (\<forall>msg'. fst (must msg m s) \<noteq> Inl (Fatal msg' None))"
    by (auto simp: must_def m split: sum.split sberr.split)
qed

lemma sound_state:
  "(\<And>s. ready c s \<Longrightarrow> \<exists>m'. sound c m' \<and> m s = m' s) \<Longrightarrow> sound c m"
  unfolding sound_def by metis

section \<open>Calls\<close>

text \<open>A call on the runtime that keeps it in step.\<close>

definition quiet :: "'a rtio \<Rightarrow> bool" where
  "quiet m \<longleftrightarrow> (\<forall>s. in_step s \<longrightarrow> tame False [] s (snd (m s)))"

lemma on_rt_state: "rt_st (snd (on_rt m s)) = snd (m (rt_st s))"
  "fst (on_rt m s) = as_serr (fst (m (rt_st s)))"
  by (simp_all add: on_rt_def rt_st_def split: prod.split)

lemma sound_on_rt [sound_intros]:
  assumes "quiet m"
  shows "sound c (on_rt m :: ('v, 'a) sbio)"
  unfolding sound_def
proof (intro allI impI)
  fix s :: "sandbox \<times> 'v tstate" assume s: "ready c s"
  obtain t where t: "snd (on_rt m s) = t" by blast
  have e: "snd (m (rt_st s)) = rt_st t" using on_rt_state(1) [of m s] t by simp
  have "tame False [] (rt_st s) (snd (m (rt_st s)))" using assms s by (simp add: quiet_def ready_def del: split_paired_All)
  then have "in_step (rt_st t)" "own_env (rt_st s) (rt_st t)" unfolding e by (auto simp: tame_def)
  then have "ready c t" using s by (simp add: ready_def has_test_clock_def own_env_def rt_st_def clk_at_def)
  moreover have "fst (on_rt m s) \<noteq> Inl (Fatal msg None)" for msg
    by (simp add: on_rt_state as_serr_def split: sum.split)
  ultimately show "ready c (snd (on_rt m s)) \<and> (\<forall>msg. fst (on_rt m s) \<noteq> Inl (Fatal msg None))" using t by simp
qed

lemma in_step_cong:
  assumes "in_step s" and "fst t = fst s" and "s_envs (snd t) = s_envs (snd s)" and "s_fss (snd t) = s_fss (snd s)"
  shows "in_step t"
proof -
  have f: "fs_of t = fs_of s" "env_of t = env_of s" using assms(2-4) by (simp_all add: fs_of_def env_of_def)
  then have "the_te t = the_te s" by (simp add: the_te_def)
  then show ?thesis using assms f by (cases "fst s") (simp_all add: in_step_def same_jail_def)
qed

lemma sound_on_host [sound_intros]: "sound c (on_host m :: ('v, 'a) sbio)"
  unfolding sound_def
proof (intro allI impI)
  fix s :: "sandbox \<times> 'v tstate" assume s: "ready c s"
  obtain r w where m: "m (p_host (s_proc (tb_sys (snd s)))) = (r, w)" by fastforce
  have "in_step (sb_rt (fst s), set_host w (tb_sys (snd s)))"
    using s by (auto intro: in_step_cong [of "rt_st s"] simp: ready_def rt_st_def set_host_def)
  then have "ready c (snd (on_host m s))" using s
    by (simp add: ready_def has_test_clock_def on_host_def host_call_def m rt_st_def clk_at_def set_host_def)
  moreover have "fst (on_host m s) \<noteq> Inl (Fatal msg None)" for msg
    by (simp add: on_host_def host_call_def m as_serr_def split: sum.split)
  ultimately show "ready c (snd (on_host m s)) \<and> (\<forall>msg. fst (on_host m s) \<noteq> Inl (Fatal msg None))" by simp
qed

lemma runtimeEnv_ready: "ready c s \<Longrightarrow> runtimeEnv s = (Inr (), s)"
  by (auto dest: ready_runtime simp: runtimeEnv_def)

lemma testClock_ready: "ready c s \<Longrightarrow> testClock s = (Inr c, s)"
  using ready_runtime [of c s] by (auto simp: testClock_def ready_def has_test_clock_def)

lemma sound_runtimeEnv [sound_intros]: "sound c runtimeEnv"
  by (simp add: sound_def runtimeEnv_ready)

lemma sound_testClock [sound_intros]: "sound c testClock"
  by (simp add: sound_def testClock_ready)

lemma ready_set_clk:
  assumes "ready c s" and "clk_ok k"
  shows "ready c (set_clk c k s)"
proof -
  obtain t where t: "set_clk c k s = t" by blast
  have e: "sb_rt (fst t) = sb_rt (fst s)" "clk_at c t = k"
    "length (s_clks (tb_sys (snd t))) = length (s_clks (tb_sys (snd s)))"
    using assms(1) unfolding t [symmetric] by (simp_all add: set_clk_def clk_at_def ready_def has_test_clock_def)
  have "in_step (rt_st t)"
    using assms(1) in_step_cong [of "rt_st s" "rt_st t"]
    unfolding t [symmetric] by (simp add: ready_def rt_st_def set_clk_def)
  then show ?thesis using assms e unfolding t by (simp add: ready_def has_test_clock_def)
qed

lemma ready_logf: "ready c (logf line err s) = ready c s"
  by (simp add: ready_def has_test_clock_def rt_st_def logf_def clk_at_def)

section \<open>Every method\<close>

lemma quiet_run_rt:
  assumes "\<And>s. snd (m s) = run_rt op s" and "op \<noteq> RUnset ''PWD''"
    and "\<And>j. op = RSetJail j \<Longrightarrow> blank j \<or> is_abs j"
  shows "quiet m"
  unfolding quiet_def
proof (intro allI impI)
  fix s assume s: "in_step s"
  show "tame False [] s (snd (m s))" using rt_step_in_step [OF s assms(2,3)] by (simp add: tame_def assms(1))
qed

lemma quiet_query:
  assumes "\<And>s. in_step s \<Longrightarrow> snd (m s) = s" shows "quiet m"
  using assms tame_refl by (simp add: quiet_def del: split_paired_All)

lemma AbsPath_state: "in_step s \<Longrightarrow> snd (Runtime_AbsPath p s) = s"
  using expand_abs_in_step [of s p]
  by (auto simp: Runtime_AbsPath_def validated_in_step bindE_def ret_def split: sum.split)

lemma quiet_calls [sound_intros]:
  "quiet (Runtime_AbsPath p)" "quiet (Runtime_ReadFile p)" "quiet (Runtime_AtomicWriteFile p d m)"
  "quiet (Runtime_WriteFile p d m)" "quiet (Runtime_Mkdir p m a)" "quiet (Runtime_ResolvePath p f)"
  "quiet (Runtime_Setwd p)" "quiet (Runtime_Set k v)" "quiet Runtime_GetHome" "quiet Runtime_Getwd"
proof -
  show "quiet (Runtime_AbsPath p)" by (rule quiet_query) (rule AbsPath_state)
  show "quiet Runtime_GetHome" by (rule quiet_query) (simp add: Runtime_GetHome_def validated_in_step)
  show "quiet Runtime_Getwd" by (rule quiet_query) (simp add: Runtime_Getwd_in_step)
  show "quiet (Runtime_ReadFile p)" by (rule quiet_run_rt [of _ "RFs (FReadFile p)"]) simp_all
  show "quiet (Runtime_AtomicWriteFile p d m)" by (rule quiet_run_rt [of _ "RFs (FAtomicWriteFile p d m)"]) simp_all
  show "quiet (Runtime_WriteFile p d m)" by (rule quiet_run_rt [of _ "RFs (FWriteFile p d m)"]) simp_all
  show "quiet (Runtime_Mkdir p m a)" by (rule quiet_run_rt [of _ "RFs (FMkdir p m a)"]) simp_all
  show "quiet (Runtime_ResolvePath p f)" by (rule quiet_run_rt [of _ "RFs (FResolvePath p f)"]) simp_all
  show "quiet (Runtime_Setwd p)" by (rule quiet_run_rt [of _ "RFs (FSetwd p)"]) simp_all
  show "quiet (Runtime_Set k v)" by (rule quiet_run_rt [of _ "RSet k v"]) simp_all
qed

lemma sound_Atomic [sound_intros]: "sound c (Sandbox_AtomicWriteFile p d m :: ('v, unit) sbio)"
proof (rule sound_state)
  fix s :: "sandbox \<times> 'v tstate"
  show "\<exists>m'. sound c m' \<and> Sandbox_AtomicWriteFile p d m s = m' s"
  proof (cases "Sandbox_GetJail s = []")
    case True
    have "Sandbox_AtomicWriteFile p d m s = liftE (as_serr (Inl (ErrMsg ''no jail set''))) s"
      using True by (simp add: Sandbox_AtomicWriteFile_def fail_def liftE_def as_serr_def)
    then show ?thesis using sound_lift by blast
  next
    case False
    then have "Sandbox_AtomicWriteFile p d m s = on_rt (Runtime_AtomicWriteFile p d m) s"
      by (simp add: Sandbox_AtomicWriteFile_def)
    then show ?thesis using sound_on_rt [OF quiet_calls(3)] by blast
  qed
qed

lemma sound_Fixture [sound_intros]: "sound c (WithFixture f p :: ('v, unit) sbio)"
proof (rule sound_state)
  fix s :: "sandbox \<times> 'v tstate"
  have k: "sound c (\<lambda>s :: sandbox \<times> 'v tstate. must (msg (Sandbox_GetJail s)) (on_host (m (sb_data (fst s)) (Sandbox_GetJail s))) s)"
    for msg m by (rule sound_state) (blast intro: sound_intros)
  show "\<exists>m'. sound c m' \<and> WithFixture f p s = m' s"
    unfolding WithFixture_def Let_def Sandbox_ResolvePath_def
    by (rule exI, rule conjI [OF _ refl]) (intro sound_intros k)
qed

lemma sound_modify [sound_intros]:
  "(\<And>s. ready c s \<Longrightarrow> ready c (f s)) \<Longrightarrow> sound c (modifyS f)"
  by (simp add: sound_def modifyS_def del: split_paired_All)

lemma sound_WithClock [sound_intros]: "sound c (WithClock t :: ('v, unit) sbio)"
proof (rule sound_state)
  fix s :: "sandbox \<times> 'v tstate" assume s: "ready c s"
  have "WithClock t s = modifyS (set_clk c (TestClock_Set t (clk_at c s))) s"
    using s by (simp add: WithClock_def bindE_def testClock_ready modifyS_def)
  moreover have "clk_ok (TestClock_Set t (clk_at c s))"
    using s by (simp add: ready_def has_test_clock_def clk_ok_Set)
  ultimately show "\<exists>m'. sound c m' \<and> WithClock t s = m' s"
    using sound_modify ready_set_clk by blast
qed

lemma sound_WithEnvMap [sound_intros]: "sound c (WithEnvMap m)"
  by (induction m rule: WithEnvMap.induct) (auto intro!: sound_intros)

lemmas method_defs = Sandbox_AbsPath_def Sandbox_ReadFile_def MustReadFile_def Sandbox_WriteFile_def
  MustWriteFile_def Sandbox_Mkdir_def Sandbox_ResolvePath_def Sandbox_Now_def Sandbox_Getwd_def
  Sandbox_Setwd_def Sandbox_GetHome_def WithEnv_def WithWd_def

text \<open>Walking a tree keeps what the callback keeps.\<close>

definition keeps :: "('s \<Rightarrow> bool) \<Rightarrow> 's walkfn \<Rightarrow> bool" where
  "keeps I visit \<longleftrightarrow> (\<forall>p d e s. I s \<longrightarrow> I (snd (visit p d e s)))"

lemma keepsD: "keeps I visit \<Longrightarrow> I s \<Longrightarrow> visit p d e s = (r, u) \<Longrightarrow> I u"
  unfolding keeps_def by (metis snd_conv)

lemma walk_keeps:
  "keeps I visit \<longrightarrow> I s \<longrightarrow> I (snd (walk_dir t visit p cs s))"
  "keeps I visit \<longrightarrow> I s \<longrightarrow> I (snd (walk_entries t visit p cs ns s))"
proof (induction t visit p cs s and t visit p cs ns s rule: walk_dir_walk_entries.induct)
  case (1 t visit p cs s)
  obtain r u where r: "visit p True None s = (r, u)" by fastforce
  show ?case
    using 1 [of r u] r keepsD [of I visit s p True None r u] by (cases r) (simp_all add: walk_dir.simps)
next
  case (3 t visit p cs n ns s)
  obtain r u where r: "(if is_dir_at t (cs @ [n]) then walk_dir t visit (Join [p, n]) (cs @ [n]) s
    else visit (Join [p, n]) False None s) = (r, u)" by fastforce
  have "keeps I visit \<longrightarrow> I s \<longrightarrow> I u"
    using 3(1) keepsD [of I visit s "Join [p, n]" False None r u] r by (auto split: if_splits)
  then show ?case using 3(2) [of r u] r by (cases r) simp_all
qed simp

lemma WalkDir_keeps:
  assumes v: "keeps I visit" and s: "I s"
  shows "I (snd (WalkDir root w visit s))"
proof -
  have a: "I (snd (visit p d e s))" for p d e using v s by (simp add: keeps_def)
  have b: "I (snd (walk_dir t visit root cs s))" for t cs
    by (rule walk_keeps(1) [rule_format, OF v s])
  have "I (snd (walk_root root w visit s))"
    using a b s by (auto simp: walk_root_def split: sum.split)
  then show ?thesis by (cases "walk_root root w visit s") (simp add: WalkDir_def)
qed

lemma ready_visit:
  fixes a :: "'v dump_state"
  assumes "ready c (snd a)"
  shows "ready c (snd (snd (dump_visit n p d e a)))"
proof -
  have r: "sound c (Sandbox_ResolvePath q :: ('v, string) sbio)" for q
    unfolding Sandbox_ResolvePath_def by (intro sound_intros)
  obtain acc s where a: "a = (acc, s)" by (cases a)
  obtain q u where q: "dump_path p s = (q, u)" by (cases "dump_path p s")
  then have "ready c u"
    using assms soundD [where m = "Sandbox_ResolvePath (RemoveJailPrefix (Sandbox_GetJail s) p)", OF r, of s q u "[]"]
    unfolding a dump_path_def by (auto split: if_splits)
  then show ?thesis using assms a q
    by (cases e; cases q) (simp_all add: dump_visit_def ready_logf)
qed

lemma ready_logs: "ready c s \<Longrightarrow> ready c (fold (\<lambda>l. logf l None) ls s)"
  by (induction ls arbitrary: s) (simp_all add: ready_logf)

lemma ready_dump:
  fixes s :: "sandbox \<times> 'v tstate"
  assumes "ready c s"
  shows "ready c (DumpJailTree n s)"
proof (cases "Sandbox_GetJail s = []")
  case True
  then show ?thesis using assms by (simp add: DumpJailTree_def ready_logf)
next
  case False
  let ?s1 = "logf (''Jail tree: '' @ Sandbox_GetJail s) None s"
  let ?w = "p_host (s_proc (tb_sys (snd ?s1)))"
  obtain err acc u where w: "WalkDir (Sandbox_GetJail s) ?w (dump_visit n) (([], []), ?s1) = (err, (acc, u))"
    by (metis prod.exhaust)
  have "keeps (\<lambda>a. ready c (snd a)) (dump_visit n :: 'v dump_state walkfn)"
    using ready_visit unfolding keeps_def by blast
  then have "ready c u"
    using WalkDir_keeps [of "\<lambda>a. ready c (snd a)" "dump_visit n" "(([], []), ?s1)" "Sandbox_GetJail s" ?w] w assms
    by (simp add: ready_logf)
  then show ?thesis
    using False w by (simp add: DumpJailTree_def Let_def ready_logs ready_logf split: option.split)
qed

lemma ready_dump_file:
  fixes s :: "sandbox \<times> 'v tstate"
  assumes "ready c s"
  shows "ready c (DumpFileContent p s)"
proof -
  obtain r t where r: "Sandbox_ReadFile p s = (r, t)" by (cases "Sandbox_ReadFile p s")
  have "sound c (Sandbox_ReadFile p :: ('v, string) sbio)" unfolding Sandbox_ReadFile_def by (intro sound_intros)
  then have "ready c t" using soundD [where m = "Sandbox_ReadFile p", OF _ assms r] by blast
  then show ?thesis using r by (cases r) (simp_all add: DumpFileContent_def ready_logf)
qed

section \<open>Using a sandbox\<close>

text \<open>
  What a test does with a sandbox: its methods, its options applied later, and the methods of the
  runtime it hands out. A step returns its outcome and the state, or \<open>None\<close> when it does not return.
\<close>

datatype sbop =
    SbAbsPath string
  | SbReadFile string
  | SbMustReadFile string
  | SbAtomicWriteFile string string "32 word"
  | SbWriteFile string string "32 word"
  | SbMustWriteFile string string "32 word"
  | SbMkdir string bool
  | SbResolvePath string
  | SbGetwd
  | SbSetwd string
  | SbGetHome
  | SbNow
  | SbAdvance duration
  | SbDumpJailTree int
  | SbDumpFileContent string
  | SbWithEnv string string
  | SbWithEnvMap "(string \<times> string) list"
  | SbWithWd string
  | SbWithClock int
  | SbWithFixture string string
  | SbRuntime rtop
  | SbSetDep rtdep

definition outcome :: "('v, 'a) sbio \<Rightarrow> sandbox \<times> 'v tstate \<Rightarrow> ((sberr + unit) \<times> sandbox \<times> 'v tstate) option" where
  "outcome m s = Some (bindE m (\<lambda>_. ret ()) s)"

fun run_sb :: "sbop \<Rightarrow> sandbox \<times> 'v tstate \<Rightarrow> ((sberr + unit) \<times> sandbox \<times> 'v tstate) option" where
  "run_sb (SbAbsPath p) = outcome (Sandbox_AbsPath p)"
| "run_sb (SbReadFile p) = outcome (Sandbox_ReadFile p)"
| "run_sb (SbMustReadFile p) = outcome (MustReadFile p)"
| "run_sb (SbAtomicWriteFile p d m) = outcome (Sandbox_AtomicWriteFile p d m)"
| "run_sb (SbWriteFile p d m) = outcome (Sandbox_WriteFile p d m)"
| "run_sb (SbMustWriteFile p d m) = outcome (MustWriteFile p d m)"
| "run_sb (SbMkdir p a) = outcome (Sandbox_Mkdir p a)"
| "run_sb (SbResolvePath p) = outcome (Sandbox_ResolvePath p)"
| "run_sb SbGetwd = outcome Sandbox_Getwd"
| "run_sb (SbSetwd p) = outcome (Sandbox_Setwd p)"
| "run_sb SbGetHome = outcome Sandbox_GetHome"
| "run_sb SbNow = outcome Sandbox_Now"
| "run_sb (SbAdvance d) = Sandbox_Advance d"
| "run_sb (SbDumpJailTree n) = outcome (modifyS (DumpJailTree n))"
| "run_sb (SbDumpFileContent p) = outcome (modifyS (DumpFileContent p))"
| "run_sb (SbWithEnv k v) = outcome (WithEnv k v)"
| "run_sb (SbWithEnvMap m) = outcome (WithEnvMap m)"
| "run_sb (SbWithWd p) = outcome (WithWd p)"
| "run_sb (SbWithClock t) = outcome (WithClock t)"
| "run_sb (SbWithFixture f p) = outcome (WithFixture f p)"
| "run_sb (SbRuntime op) = outcome (on_rt (modifyS (run_rt op)))"
| "run_sb (SbSetDep d) = outcome (on_rt (set_dependency d))"

text \<open>
  Through the runtime, \<open>PWD\<close> is not unset, a new jail is blank or absolute, and the clock is not replaced.
\<close>

fun sbop_ok :: "sbop \<Rightarrow> bool" where
  "sbop_ok (SbRuntime op) =
     (op \<noteq> RUnset ''PWD'' \<and> (case op of RSetJail j \<Rightarrow> blank j \<or> is_abs j | _ \<Rightarrow> True))"
| "sbop_ok (SbSetDep d) = (case d of DClock c \<Rightarrow> False | _ \<Rightarrow> True)"
| "sbop_ok op = True"

lemma outcome_sound:
  assumes "sound c m" and "ready c s"
  shows "\<exists>r t. outcome m s = Some (r, t) \<and> ready c t \<and> (\<forall>msg. r \<noteq> Inl (Fatal msg None))"
proof -
  obtain r t where "bindE m (\<lambda>_. ret ()) s = (r, t)" by (cases "bindE m (\<lambda>_. ret ()) s")
  then show ?thesis
    using soundD [where m = "bindE m (\<lambda>_. ret ())", OF sound_bindE [OF assms(1) sound_ret] assms(2)]
    by (simp add: outcome_def)
qed

lemma Advance_ready:
  assumes "ready c s"
  shows "\<exists>k. Sandbox_Advance d s = Some (Inr (), set_clk c k s) \<and> TestClock_Advance d (clk_at c s) = Some k \<and> clk_ok k"
proof -
  have ok: "clk_ok (clk_at c s)" using assms by (simp add: ready_def has_test_clock_def)
  then obtain k where k: "TestClock_Advance d (clk_at c s) = Some k" using advance_total by blast
  then show ?thesis
    using clk_ok_advance [OF ok k] by (simp add: Sandbox_Advance_def testClock_ready [OF assms])
qed

lemma quiet_rtop:
  assumes "sbop_ok (SbRuntime op)"
  shows "quiet (modifyS (run_rt op))"
  by (rule quiet_run_rt [of _ op]) (use assms in \<open>auto simp: modifyS_def\<close>)

lemma quiet_dep:
  assumes "sbop_ok (SbSetDep d)"
  shows "quiet (set_dependency d)"
  unfolding quiet_def tame_def
  using set_dependency_in_step(1,4) [OF _ refl, of _ d] assms by (auto split: rtdep.splits)

lemma run_sb_ready:
  assumes "ready c s" and "sbop_ok op"
  shows "\<exists>r t. run_sb op s = Some (r, t) \<and> ready c t \<and> (\<forall>msg. r \<noteq> Inl (Fatal msg None))"
proof (cases op)
  case (SbAdvance d)
  obtain k where "Sandbox_Advance d s = Some (Inr (), set_clk c k s)" "clk_ok k"
    using Advance_ready [OF assms(1)] by blast
  then show ?thesis unfolding SbAdvance run_sb.simps using ready_set_clk [OF assms(1)] by blast
next
  case (SbRuntime rop)
  then have "quiet (modifyS (run_rt rop))" using assms(2) quiet_rtop by blast
  then show ?thesis unfolding SbRuntime run_sb.simps by (intro outcome_sound sound_on_rt assms(1))
next
  case (SbSetDep d)
  then have "quiet (set_dependency d)" using assms(2) quiet_dep by blast
  then show ?thesis unfolding SbSetDep run_sb.simps by (intro outcome_sound sound_on_rt assms(1))
next
  case (SbDumpJailTree n)
  then show ?thesis unfolding SbDumpJailTree run_sb.simps by (intro outcome_sound sound_modify ready_dump assms(1))
next
  case (SbDumpFileContent p)
  then show ?thesis unfolding SbDumpFileContent run_sb.simps by (intro outcome_sound sound_modify ready_dump_file assms(1))
qed (simp only: run_sb.simps method_defs, intro outcome_sound sound_intros assms(1))+

text \<open>Options for \<open>NewSandbox\<close>: those of the package, in any number.\<close>

inductive std_option :: "'v sboption \<Rightarrow> bool" where
  "std_option (WithEnv k v)"
| "std_option (WithEnvMap m)"
| "std_option (WithWd p)"
| "std_option (WithClock t)"
| "std_option (WithFixture f p)"

lemma sound_option: "std_option opt \<Longrightarrow> sound c opt"
  by (induction rule: std_option.induct) (unfold WithEnv_def WithWd_def Sandbox_ResolvePath_def, (intro sound_intros)+)

lemma sound_options: "list_all std_option opts \<Longrightarrow> sound c (apply_options opts)"
proof (induction opts)
  case (Cons opt opts)
  then have "sound c opt" "sound c (apply_options opts)" using sound_option by auto
  then show ?case unfolding apply_options.simps by (intro sound_intros)
qed (simp add: sound_ret)

inductive sb_run :: "sandbox \<times> 'v tstate \<Rightarrow> sandbox \<times> 'v tstate \<Rightarrow> bool" where
  sb_refl: "sb_run s s"
| sb_step: "sb_run s t \<Longrightarrow> sbop_ok op \<Longrightarrow> run_sb op t = Some (r, u) \<Longrightarrow> sb_run s u"

lemma sb_run_ready: "sb_run s t \<Longrightarrow> ready c s \<Longrightarrow> ready c t"
proof (induction rule: sb_run.induct)
  case (sb_step s t op r u)
  then show ?case using run_sb_ready [of c t op] by auto
qed

text \<open>The options \<open>NewSandbox\<close> passes on only set dependencies.\<close>

lemma sandbox_deps:
  "deps_only (\<lambda>_. Some (Sched (TestClockV c)))
     [Some (WithRuntimeClock (Some (TestClockV c))), Some (WithRuntimeLogger (Some l)),
      Some (WithRuntimeStream (Some st)), Some (WithRuntimeHasher (Some h))]"
  by (simp add: deps_only_def complete_def WithRuntimeClock_def WithRuntimeLogger_def WithRuntimeStream_def
      WithRuntimeHasher_def set_dep_def ToSchedulingClock_def)

end
