(* ===== verification/OsFS_Missing.thy ===== *)
theory OsFS_Missing
  imports OsFS_Props
begin

text \<open>
  Jails that do not exist yet: what \<open>os.MkdirAll\<close> makes of a path that begins at an existing directory,
  and what an \<open>OsFS\<close> whose jail is such a path creates and refuses to create.
\<close>

section \<open>MkdirAll on a path that does not exist\<close>

lemma MkdirAll_path:
  "os_MkdirAll (abs_path (D @ ms)) perm w = (Inr (), w') \<Longrightarrow> tree_ok (nodes w) \<Longrightarrow> is_dir_at (nodes w) D \<Longrightarrow>
   names_ok (D @ ms) \<Longrightarrow> ms = [] \<or> node (nodes w) (D @ [hd ms]) = None \<Longrightarrow>
   tree_ok (nodes w') \<and> randoms w' = randoms w \<and> is_dir_at (nodes w') (D @ ms) \<and>
   (\<forall>q. \<not> (strict_prefix D q \<and> prefix q (D @ ms)) \<longrightarrow> node (nodes w') q = node (nodes w) q)"
proof (induction ms arbitrary: w' rule: rev_induct)
  case Nil
  then show ?case using MkdirAll_dir [of w D perm] by simp
next
  case (snoc c ms)
  let ?p = "abs_path (D @ ms @ [c])"
  have n: "names_ok ((D @ ms) @ [c])" using snoc.prems(4) by simp
  have d: "Dir ?p = abs_path (D @ ms)" using Dir_abs_path [OF n] by simp
  have ne: "abs_path (D @ ms) \<noteq> ?p" using n abs_path_inj [of "D @ ms" "D @ ms @ [c]"] by simp
  have can: "canonical (nodes w) D" using dir_canonical [OF snoc.prems(2,3)] n by simp
  have miss: "kstat w True ?p \<noteq> Inr i" for i
    using missing_stat [OF snoc.prems(2) can, of "ms @ [c]"] n snoc.prems(5) by simp
  then obtain e where e: "kstat w True ?p = Inl e" by (cases "kstat w True ?p") auto
  obtain r1 w1 where m: "os_MkdirAll (abs_path (D @ ms)) perm w = (r1, w1)" by (metis prod.exhaust)
  have "r1 = Inr ()" using snoc.prems(1) e m d ne
    by (cases r1) (auto simp: os_MkdirAll.simps [of ?p] os_Stat_cases)
  then have m1: "os_MkdirAll (abs_path (D @ ms)) perm w = (Inr (), w1)" using m by simp
  have hdm: "ms = [] \<or> node (nodes w) (D @ [hd ms]) = None" using snoc.prems(5) by (cases ms) auto
  have IH: "tree_ok (nodes w1)" "is_dir_at (nodes w1) (D @ ms)" "randoms w1 = randoms w"
    "\<And>q. \<not> (strict_prefix D q \<and> prefix q (D @ ms)) \<Longrightarrow> node (nodes w1) q = node (nodes w) q"
    using snoc.IH [OF m1 snoc.prems(2,3)] n hdm by auto
  have "node (nodes w) ((D @ [hd (ms @ [c])]) @ tl (ms @ [c])) = None"
    using tree_ok_below [OF snoc.prems(2)] snoc.prems(5) by blast
  then have "node (nodes w) (D @ ms @ [c]) = None" by (cases ms) auto
  then have none: "node (nodes w1) (D @ ms @ [c]) = None"
    using IH(4) [of "D @ ms @ [c]"] by (simp add: prefix_def)
  have kl: "klookup w1 False ?p = Inr (D @ ms @ [c])" using entry_lookup [OF IH(1,2) n] by simp
  obtain r2 w2 where mk: "os_Mkdir ?p perm w1 = (r2, w2)" by (metis prod.exhaust)
  have w': "w' = w2" "r2 = Inr ()"
  proof -
    have l: "os_Lstat ?p w1 \<noteq> Inr i" for i using kl none by (simp add: os_Lstat_cases kstat_def)
    have "w2 = w1" if "r2 = Inl x" for x
      using mk that by (auto simp: os_Mkdir_def Let_def split: option.splits sum.splits if_splits)
    then show "w' = w2" "r2 = Inr ()"
      using snoc.prems(1) e m1 d ne mk l
      by (cases r2; auto simp: os_MkdirAll.simps [of ?p] os_Stat_cases split: sum.splits if_splits)+
  qed
  have put: "w2 = put_w (D @ ms @ [c]) (new_inode w1 KDir perm) w1"
    using mk w'(2) kl by (auto simp: os_Mkdir_def Let_def split: option.splits sum.splits if_splits)
  have "below (D @ ms @ [c]) w1 False ?p" using kl by (simp add: below_def)
  then have "safe (D @ ms @ [c]) w1 w2" using safe_Mkdir [OF mk IH(1)] by simp
  then have "tree_ok (nodes w2)" "randoms w2 = randoms w" using IH(3) by (simp_all add: confined_def)
  moreover have "is_dir_at (nodes w2) (D @ ms @ [c])" by (simp add: put is_dir_at_iff new_inode_def)
  moreover have "node (nodes w2) q = node (nodes w) q"
    if "\<not> (strict_prefix D q \<and> prefix q (D @ ms @ [c]))" for q
  proof -
    have "q \<noteq> D @ ms @ [c]" using that by (auto simp: strict_prefix_def)
    moreover have "\<not> (strict_prefix D q \<and> prefix q (D @ ms))"
      using that by (metis append_assoc prefix_order.trans prefixI)
    ultimately show ?thesis using IH(4) by (simp add: put)
  qed
  ultimately show ?case using w'(1) by blast
qed

lemma MkdirAll_succeeds:
  "tree_ok (nodes w) \<Longrightarrow> is_dir_at (nodes w) D \<Longrightarrow> names_ok (D @ ms) \<Longrightarrow>
   ms = [] \<or> node (nodes w) (D @ [hd ms]) = None \<Longrightarrow> \<forall>p. faults w SysMkdir p = None \<Longrightarrow>
   \<exists>w'. os_MkdirAll (abs_path (D @ ms)) perm w = (Inr (), w') \<and> faults w' = faults w"
proof (induction ms rule: rev_induct)
  case Nil
  then show ?case using MkdirAll_dir [of w D perm] by simp
next
  case (snoc c ms)
  let ?p = "abs_path (D @ ms @ [c])"
  have n: "names_ok ((D @ ms) @ [c])" using snoc.prems(3) by simp
  have d: "Dir ?p = abs_path (D @ ms)" using Dir_abs_path [OF n] by simp
  have ne: "abs_path (D @ ms) \<noteq> ?p" using n abs_path_inj [of "D @ ms" "D @ ms @ [c]"] by simp
  have hdm: "ms = [] \<or> node (nodes w) (D @ [hd ms]) = None" using snoc.prems(4) by (cases ms) auto
  then obtain w1 where w1: "os_MkdirAll (abs_path (D @ ms)) perm w = (Inr (), w1)" "faults w1 = faults w"
    using snoc n by auto
  note mp = MkdirAll_path [OF w1(1) snoc.prems(1,2) _ hdm]
  have "node (nodes w) ((D @ [hd (ms @ [c])]) @ tl (ms @ [c])) = None"
    using tree_ok_below [OF snoc.prems(1)] snoc.prems(4) by blast
  then have none: "node (nodes w1) (D @ ms @ [c]) = None" using mp n by (cases ms) (auto simp: prefix_def)
  have kl: "klookup w1 False ?p = Inr (D @ ms @ [c])" using entry_lookup [OF _ _ n] mp n by simp
  have "canonical (nodes w) D" using dir_canonical [OF snoc.prems(1,2)] n by simp
  then obtain e where e: "kstat w True ?p = Inl e"
    using missing_stat [OF snoc.prems(1), of D "ms @ [c]"] n snoc.prems(4)
    by (cases "kstat w True ?p") auto
  have "os_Mkdir ?p perm w1 = (Inr (), put_w (D @ ms @ [c]) (new_inode w1 KDir perm) w1)"
    using kl none w1(2) snoc.prems(5) by (simp add: os_Mkdir_def faulty_def)
  then have "os_MkdirAll ?p perm w = (Inr (), put_w (D @ ms @ [c]) (new_inode w1 KDir perm) w1)"
    using e w1 d ne by (simp add: os_MkdirAll.simps [of ?p] os_Stat_cases)
  then show ?case using w1(2) by (simp add: put_w_def)
qed

section \<open>Climbing to the deepest ancestor that exists\<close>

lemma missing_lstat:
  assumes ok: "tree_ok (nodes w)" and A: "is_dir_at (nodes w) A" and n: "names_ok (A @ cs)" "cs \<noteq> []"
    and m: "node (nodes w) (A @ [hd cs]) = None"
  shows "kstat w f (abs_path (A @ cs)) = Inl ENOENT"
proof -
  obtain c xs where c: "cs = c # xs" using n(2) by (cases cs) auto
  have nc: "\<not> (c = [] \<or> c = ''.'')" "c \<noteq> ''..''" using n(1) c by (auto simp: name_ok_def)
  have "resolve (nodes w) max_links f [] (A @ cs) = resolve (nodes w) max_links f A cs"
    using resolve_on_dir [of "nodes w" "[]" A] ok A n(1) by simp
  then show ?thesis using nc c m
    by (simp add: kstat_def klookup_abs_path [OF n(1) [unfolded c]] del: list_all_append)
qed

lemma climb_missing:
  assumes ok: "tree_ok (nodes w)" and A: "is_dir_at (nodes w) A"
  shows "names_ok (A @ cs) \<Longrightarrow> cs = [] \<or> node (nodes w) (A @ [hd cs]) = None \<Longrightarrow>
    climb w (abs_path (A @ cs)) ms = Inr (abs_path A, cs @ ms)"
proof (induction cs arbitrary: ms rule: rev_induct)
  case Nil
  obtain i where "kstat w False (abs_path A) = Inr i" using dir_stat [OF ok A] Nil by auto
  then show ?case by (simp add: climb.simps [of w "abs_path A"] os_Lstat_cases)
next
  case (snoc c cs)
  have n: "names_ok ((A @ cs) @ [c])" using snoc.prems(1) by simp
  have d: "Dir (abs_path (A @ cs @ [c])) = abs_path (A @ cs)" "Base (abs_path (A @ cs @ [c])) = c"
    using Dir_abs_path [OF n] Base_abs_path [OF n] by auto
  have ne: "abs_path (A @ cs) \<noteq> abs_path (A @ cs @ [c])"
    using n abs_path_inj [of "A @ cs" "A @ cs @ [c]"] by simp
  have "kstat w False (abs_path (A @ cs @ [c])) = Inl ENOENT"
    using missing_lstat [OF ok A snoc.prems(1)] snoc.prems(2) by simp
  moreover have "cs = [] \<or> node (nodes w) (A @ [hd cs]) = None" using snoc.prems(2) by (cases cs) auto
  ultimately show ?case
    using snoc.IH [of "c # ms"] n d ne
    by (simp add: climb.simps [of w "abs_path (A @ cs @ [c])"] os_Lstat_cases is_not_exist_def underlying_def)
qed

text \<open>The canonical path of a jail that does not exist is the path itself.\<close>

lemma missing_jail_canonical:
  assumes ok: "tree_ok (nodes w)" and A: "is_dir_at (nodes w) A" and n: "names_ok (A @ js)" and js: "js \<noteq> []"
    and m: "node (nodes w) (A @ [hd js]) = None"
  shows "canonical_jail (abs_path (A @ js)) w = abs_path (A @ js)"
proof -
  have "walk w k True [] (A @ js) \<noteq> Inr q" for q k
  proof
    assume a: "walk w k True [] (A @ js) = Inr q"
    obtain b R where q: "q = (b, R)" by (cases q)
    have fw: "b \<and> canonical (nodes w) R \<and> (\<forall>m f rest. rest \<noteq> [] \<or> f \<longrightarrow>
        resolve (nodes w) m f [] ((A @ js) @ rest) = Inl ELOOP \<or>
        (\<exists>m'. resolve (nodes w) m f [] ((A @ js) @ rest) = go_on (nodes w) m' f R rest))"
      by (rule resolve_forward [OF a [unfolded q] TrueI ok located_Nil tree_ok_root [OF ok]
            names_ok_no_slashes [OF n]])
    obtain i where i: "node (nodes w) R = Some i" using fw by (auto simp: canonical_def)
    have "resolve (nodes w) max_links True [] (A @ js) = Inl ELOOP \<or> resolve (nodes w) max_links True [] (A @ js) = Inr R"
      using fw [THEN conjunct2, THEN conjunct2, rule_format, of "[]" True max_links]
      by (auto simp: go_on_def split: if_splits)
    moreover have "resolve (nodes w) max_links True [] (A @ js) = resolve (nodes w) max_links True A js"
      using resolve_on_dir [of "nodes w" "[]" A] ok A n by simp
    moreover obtain c cs where c: "js = c # cs" using js by (cases js) auto
    moreover have "\<not> (c = [] \<or> c = ''.'')" "c \<noteq> ''..''" using n c by (auto simp: name_ok_def)
    ultimately show False using m i by (auto split: if_splits)
  qed
  then show ?thesis by (simp add: canonical_jail_def EvalSymlinks_abs_path [OF n] split: sum.split)
qed

section \<open>The decision\<close>

lemma missing_jail_resolve:
  assumes "tree_ok (nodes w)" and "is_dir_at (nodes w) A" and "names_ok (A @ js)" and "js \<noteq> []"
    and "node (nodes w) (A @ [hd js]) = None" and "fs_jail fs = abs_path (A @ js)" and "wd_ok fs"
    and "virtual_path fs p = abs_path vs" and "names_ok vs"
  shows "resolveHostForCreate p (fs, w) =
    (if vs = [] then Inr (abs_path (A @ js))
     else if dotdot_head vs then Inl (escape_err (abs_path (A @ js @ vs))) else Inl (escape_err (abs_path A)),
     (fs, w))"
proof -
  let ?J = "A @ js"
  have v: "resolveVirtual p False (fs, w) =
      (if dotdot_head vs then Inl (escape_err (abs_path (A @ js @ vs))) else Inr (abs_path vs), (fs, w))"
    using resolveVirtual_plain [OF assms(7,6,3,8,9)] by simp
  have nA: "names_ok A" using assms(3) by simp
  have h: "hostPath fs (abs_path vs) = abs_path (?J @ vs)"
    using assms(3,6,9) Join_abs_abs [of ?J vs] by (simp add: hostPath_def OsFS_GetJail_def)
  have b: "\<not> blank (abs_path ?J)" by (simp add: blank_abs)
  consider "vs = []" | "vs \<noteq> []" "dotdot_head vs" | r c where "vs = r @ [c]" "\<not> dotdot_head vs"
    by (metis rev_exhaust)
  then show ?thesis
  proof cases
    case 1
    then show ?thesis
      using v h b assms(3,6)
      by (simp add: resolveHostForCreate_def bindE_def Let_def OsFS_GetJail_def dotdot_head_def del: list_all_append)
  next
    case 2
    then show ?thesis using v by (simp add: resolveHostForCreate_def bindE_def)
  next
    case 3
    have n: "names_ok ((?J @ r) @ [c])" using assms(3,9) 3 by simp
    have db: "Dir (abs_path (?J @ r @ [c])) = abs_path (A @ js @ r)" "Base (abs_path (?J @ r @ [c])) = c"
      using Dir_abs_path [OF n] Base_abs_path [OF n] by auto
    have ne: "abs_path (?J @ r @ [c]) \<noteq> abs_path ?J"
      using abs_path_inj [of "?J @ r @ [c]" ?J] n assms(3) by simp
    have cl: "climb w (abs_path (A @ js @ r)) [c] = Inr (abs_path A, (js @ r) @ [c])"
      using climb_missing [OF assms(1,2), of "js @ r" "[c]"] n assms(4,5) by simp
    have ev: "EvalSymlinks w (abs_path A) = Inr (abs_path A)"
      using EvalSymlinks_canonical_path [OF assms(1) dir_canonical [OF assms(1,2) nA]] .
    have out: "\<not> IsInJail (abs_path ?J) (abs_path A)"
      using IsInJail_abs_path [OF assms(3) nA] assms(4) by (auto simp: prefix_def)
    show ?thesis
      using v h b db ne cl missing_jail_canonical [OF assms(1-5)] ev out n assms(3,6) 3
      by (simp add: resolveHostForCreate_def bindE_def Let_def OsFS_GetJail_def del: list_all_append)
  qed
qed

text \<open>
  Every operation that creates an entry at a path refuses it, with this error, and changes nothing;
  the two that resolve another path first may fail there already.
\<close>

definition refuses_create :: "string \<Rightarrow> goerr \<Rightarrow> osfs \<times> world \<Rightarrow> bool" where
  "refuses_create p err s \<longleftrightarrow>
     (\<forall>m al. OsFS_Mkdir p m al s = (Inl err, s)) \<and>
     (\<forall>d m. OsFS_WriteFile p d m s = (Inl err, s)) \<and>
     (\<forall>d m. OsFS_AppendFile p d m s = (Inl err, s)) \<and>
     (\<forall>fl m. OsFS_OpenFile p fl m s = (Inl err, s)) \<and>
     (\<forall>d m. OsFS_AtomicWriteFile p d m s = (Inl err, s)) \<and>
     (\<forall>old. \<exists>e. OsFS_Symlink old p s = (Inl e, s)) \<and>
     (\<forall>src. \<exists>e. OsFS_Rename src p s = (Inl e, s))"

lemma refused_everywhere:
  assumes "resolveHostForCreate p s = (Inl err, s)"
    and "\<And>old. snd (resolveHost old False s) = s" and "\<And>src. snd (resolveHostForCreate src s) = s"
  shows "refuses_create p err s"
proof -
  have "\<exists>e. OsFS_Symlink old p s = (Inl e, s)" for old
    using assms(1) assms(2) [of old]
    by (cases "resolveHost old False s"; cases "fst (resolveHost old False s)") (auto simp: OsFS_Symlink_def bindE_def)
  moreover have "\<exists>e. OsFS_Rename src p s = (Inl e, s)" for src
    using assms(1) assms(3) [of src]
    by (cases "resolveHostForCreate src s"; cases "fst (resolveHostForCreate src s)") (auto simp: OsFS_Rename_def bindE_def)
  moreover have "resolveHostForOpen p s = (Inl err, s)" using assms(1) by (simp add: resolveHostForOpen_def bindE_def)
  ultimately show ?thesis
    using assms(1)
    by (simp add: refuses_create_def OsFS_Mkdir_def OsFS_WriteFile_def OsFS_AppendFile_def OsFS_OpenFile_def
        OsFS_AtomicWriteFile_def bindE_def)
qed

text \<open>
  C10. An initialised \<open>OsFS\<close> whose jail does not exist yet - its path leads from an existing directory \<open>A\<close>, spelled
  without links, to names that are not there - creates nothing below the jail: \<open>Mkdir\<close>, \<open>WriteFile\<close>,
  \<open>AppendFile\<close>, \<open>OpenFile\<close> and \<open>AtomicWriteFile\<close> of a path that is not the root are refused as an escape
  attempt of \<open>A\<close>, the ancestor they climb to (of the path itself, when its first component begins with
  two dots), \<open>Symlink\<close> and \<open>Rename\<close> to it fail as well, and none of them changes anything. The way in is
  \<open>Mkdir "/"\<close> with parents (any spelling of the root will do): it makes the jail's missing directories,
  unless a \<open>mkdir\<close> of the host fails, and nothing else.
\<close>

theorem osfs_missing_jail:
  assumes "tree_ok (nodes w)" and "is_dir_at (nodes w) A" and "names_ok (A @ js)" and "js \<noteq> []"
    and "node (nodes w) (A @ [hd js]) = None" and "fs_jail fs = abs_path (A @ js)" and "wd_ok fs"
    and "virtual_path fs p = abs_path vs" and "names_ok vs"
  shows "(vs \<noteq> [] \<longrightarrow>
      refuses_create p (escape_err (abs_path (if dotdot_head vs then A @ js @ vs else A))) (fs, w)) \<and>
    (vs = [] \<and> (\<forall>q. faults w SysMkdir q = None) \<longrightarrow>
      (\<exists>w'. OsFS_Mkdir p perm True (fs, w) = (Inr (), (fs, w')) \<and> is_dir_at (nodes w') (A @ js) \<and>
         (\<forall>q. \<not> (strict_prefix A q \<and> prefix q (A @ js)) \<longrightarrow> node (nodes w') q = node (nodes w) q)))"
proof (intro conjI impI)
  note mr = missing_jail_resolve [OF assms(1-7)]
  assume "vs \<noteq> []"
  then have "resolveHostForCreate p (fs, w) =
      (Inl (escape_err (abs_path (if dotdot_head vs then A @ js @ vs else A))), (fs, w))"
    using mr [OF assms(8,9)] by simp
  moreover have "snd (resolveHost old False (fs, w)) = (fs, w)" for old
    using resolveVirtual_state [OF assms(7), of old False w]
    by (cases "resolveVirtual old False (fs, w)"; cases "fst (resolveVirtual old False (fs, w))")
      (auto simp: resolveHost_def bindE_def getS_def)
  moreover have "snd (resolveHostForCreate src (fs, w)) = (fs, w)" for src
  proof -
    obtain ss where "virtual_path fs src = abs_path ss" "names_ok ss"
      using virtual_path_clean [OF assms(7)] by (rule clean_absE)
    then show ?thesis using mr by simp
  qed
  ultimately show "refuses_create p (escape_err (abs_path (if dotdot_head vs then A @ js @ vs else A))) (fs, w)"
    by (rule refused_everywhere)
next
  assume a: "vs = [] \<and> (\<forall>q. faults w SysMkdir q = None)"
  then obtain w' where w': "os_MkdirAll (abs_path (A @ js)) perm w = (Inr (), w')"
    using MkdirAll_succeeds [OF assms(1-3), of perm] assms(5) by blast
  then have "OsFS_Mkdir p perm True (fs, w) = (Inr (), (fs, w'))"
    using missing_jail_resolve [OF assms] a by (simp add: OsFS_Mkdir_def bindE_def os_call_def)
  then show "\<exists>w'. OsFS_Mkdir p perm True (fs, w) = (Inr (), (fs, w')) \<and> is_dir_at (nodes w') (A @ js) \<and>
      (\<forall>q. \<not> (strict_prefix A q \<and> prefix q (A @ js)) \<longrightarrow> node (nodes w') q = node (nodes w) q)"
    using MkdirAll_path [OF w' assms(1-3)] assms(5) by blast
qed

definition demo_fs_missing :: osfs where "demo_fs_missing = \<lparr>fs_jail = ''/srv/none/yet'', fs_wd = ''/''\<rparr>"

theorem osfs_missing_jail_witness:
  "OsFS_WriteFile ''/a/b'' ''x'' 0x1A4 (demo_fs_missing, demo_world) =
     (Inl (escape_err ''/srv''), (demo_fs_missing, demo_world)) \<and>
   (\<exists>w'. OsFS_Mkdir ''..'' 0x1ED True (demo_fs_missing, demo_world) = (Inr (), (demo_fs_missing, w')) \<and>
     is_dir_at (nodes w') [''srv'', ''none'', ''yet''])"
proof -
  have ok: "tree_ok (nodes demo_world)" by (simp add: demo_ok)
  have h: "is_dir_at (nodes demo_world) [''srv'']" "names_ok ([''srv''] @ [''none'', ''yet''])" "[''none'', ''yet''] \<noteq> []"
    "node (nodes demo_world) ([''srv''] @ [hd [''none'', ''yet'']]) = None"
    "fs_jail demo_fs_missing = abs_path ([''srv''] @ [''none'', ''yet''])" "wd_ok demo_fs_missing"
    by (code_simp, code_simp, simp, code_simp, code_simp, simp add: wd_ok_def) code_simp
  have v: "virtual_path demo_fs_missing ''/a/b'' = abs_path [''a'', ''b'']" "names_ok [''a'', ''b'']"
    "\<not> dotdot_head [''a'', ''b'']" "virtual_path demo_fs_missing ''..'' = abs_path []" "names_ok []"
    by code_simp+
  have "faults demo_world SysMkdir q = None" for q by (simp add: demo_world_def)
  then show ?thesis
    using osfs_missing_jail [OF ok h v(1,2)] osfs_missing_jail [OF ok h v(4,5), of "0x1ED"] v(3)
    by (auto simp: refuses_create_def abs_path_def)
qed

end
