(* ===== verification/Sandbox_Fixture.thy ===== *)
theory Sandbox_Fixture
  imports Sandbox OsFS_Missing
begin

text \<open>
  \<open>copyEmbedDir\<close> and \<open>WithFixture\<close>: what a fixture leaves on the host. \<open>copies t ds T\<close> says that the
  tree \<open>t\<close> holds exactly the embedded tree \<open>T\<close> at the location \<open>ds\<close>.
\<close>

section \<open>Embedded paths\<close>

text \<open>Entries of an embedded directory have distinct legal names.\<close>

fun wf_efs :: "efs \<Rightarrow> bool" where
  "wf_efs (EFile b) = True"
| "wf_efs (EDir es) = (distinct (map fst es) \<and> (\<forall>e \<in> set es. name_ok (fst e) \<and> wf_efs (snd e)))"

definition rel_path :: "string list \<Rightarrow> string" where
  "rel_path cs = (if cs = [] then ''.'' else join_with CHR ''/'' cs)"

lemma efs_Open_rel:
  assumes "names_ok cs"
  shows "efs_Open fsys (rel_path cs) =
    (case efs_at fsys cs of None \<Rightarrow> Inl (PathErr ''open'' (rel_path cs) ErrNotExist) | Some t \<Rightarrow> Inr t)"
proof (cases "cs = []")
  case True
  then show ?thesis by (simp add: efs_Open_def rel_path_def ValidPath_def)
next
  case False
  have s: "split_on CHR ''/'' (join_with CHR ''/'' cs) = cs"
    using False assms by (intro split_join) (auto simp: list_all_iff name_ok_def)
  have "join_with CHR ''/'' cs \<noteq> ''.''"
  proof
    assume "join_with CHR ''/'' cs = ''.''"
    then have "cs = split_on CHR ''/'' ''.''" using s by simp
    then have "cs = [''.'']" by simp
    then show False using assms by (simp add: name_ok_def)
  qed
  moreover have "list_all (\<lambda>c. c \<noteq> [] \<and> c \<noteq> ''.'' \<and> c \<noteq> ''..'') cs"
    using assms by (auto simp: list_all_iff name_ok_def)
  ultimately show ?thesis
    using False s by (simp add: efs_Open_def rel_path_def ValidPath_def split: option.split)
qed

lemma Clean_rel:
  assumes "names_ok cs" and "cs \<noteq> []"
  shows "Clean (join_with CHR ''/'' cs) = join_with CHR ''/'' cs"
proof -
  have p: "list_all plain_part cs" using assms(1) by (auto simp: list_all_iff name_ok_def plain_part_def)
  then have "\<not> is_abs (join_with CHR ''/'' cs)" by (rule not_abs_join_plain)
  moreover have "split_on CHR ''/'' (join_with CHR ''/'' cs) = cs"
    using assms by (intro split_join) (auto simp: list_all_iff name_ok_def)
  ultimately show ?thesis using assms by (simp add: Clean_def acomps_def)
qed

lemma Join_rel:
  assumes "names_ok (cs @ [c])"
  shows "Join [rel_path cs, c] = rel_path (cs @ [c])"
proof (cases "cs = []")
  case True
  have c: "CHR ''/'' \<notin> set c" "c \<noteq> []" "c \<noteq> ''.''" "c \<noteq> ''..''" using assms by (auto simp: name_ok_def)
  have "split_on CHR ''/'' (''.'' @ CHR ''/'' # c) = [''.'', c]"
    using c(1) by (simp only: split_on_append_sep) simp
  then have "acomps (''.'' @ CHR ''/'' # c) = [c]" using c by (simp add: acomps_def)
  then show ?thesis using True by (simp add: Join_def rel_path_def Clean_def)
next
  case False
  then obtain x xs where "cs = x # xs" "x \<noteq> []" using assms by (cases cs) (auto simp: name_ok_def)
  then have ne: "join_with CHR ''/'' cs \<noteq> []" by (cases xs) auto
  have "join_with CHR ''/'' [join_with CHR ''/'' cs, c] = join_with CHR ''/'' (cs @ [c])"
    using False by (simp add: join_with_append)
  then show ?thesis using ne False Clean_rel [OF assms] by (simp add: Join_def rel_path_def)
qed

lemma efs_at_append: "efs_at t (cs @ ds) = (case efs_at t cs of None \<Rightarrow> None | Some u \<Rightarrow> efs_at u ds)"
  by (induction t cs rule: efs_at.induct) (auto split: option.split)

section \<open>Copying\<close>

definition copies :: "tree \<Rightarrow> string list \<Rightarrow> efs \<Rightarrow> bool" where
  "copies t ds T \<longleftrightarrow>
     (\<forall>p. case efs_at T p of
            None \<Rightarrow> node t (ds @ p) = None
          | Some (EFile b) \<Rightarrow> \<exists>i. node t (ds @ p) = Some i \<and> kind i = KFile b
          | Some (EDir es) \<Rightarrow> is_dir_at t (ds @ p))"

lemma copies_cong:
  assumes "\<And>p. node u (ds @ p) = node t (ds @ p)"
  shows "copies u ds T = copies t ds T"
proof -
  have "is_dir_at u (ds @ p) = is_dir_at t (ds @ p)" for p using assms by (simp add: is_dir_at_def)
  then show ?thesis unfolding copies_def using assms by (simp split: option.split efs.split)
qed

lemma copies_EFile:
  assumes "tree_ok t" and i: "node t ds = Some i" "kind i = KFile b"
  shows "copies t ds (EFile b)"
  unfolding copies_def
proof
  fix p
  show "case efs_at (EFile b) p of None \<Rightarrow> node t (ds @ p) = None
      | Some (EFile b) \<Rightarrow> \<exists>i. node t (ds @ p) = Some i \<and> kind i = KFile b
      | Some (EDir es) \<Rightarrow> is_dir_at t (ds @ p)"
    using i file_no_children [OF i(1) _ assms(1), of p] by (cases p) auto
qed

lemma copies_EDir:
  assumes "tree_ok t" and dir: "is_dir_at t ds"
    and es: "\<And>e. e \<in> set es \<Longrightarrow> copies t (ds @ [fst e]) (snd e)"
    and rest: "\<And>c. c \<notin> fst ` set es \<Longrightarrow> node t (ds @ [c]) = None"
  shows "copies t ds (EDir es)"
  unfolding copies_def
proof
  fix p
  show "case efs_at (EDir es) p of None \<Rightarrow> node t (ds @ p) = None
      | Some (EFile b) \<Rightarrow> \<exists>i. node t (ds @ p) = Some i \<and> kind i = KFile b
      | Some (EDir es) \<Rightarrow> is_dir_at t (ds @ p)"
  proof (cases p)
    case Nil
    then show ?thesis using dir by simp
  next
    case (Cons c p')
    show ?thesis
    proof (cases "map_of es c")
      case None
      then have "node t (ds @ [c]) = None" by (intro rest) (simp add: map_of_eq_None_iff)
      then have "node t ((ds @ [c]) @ p') = None" by (rule tree_ok_below [OF assms(1)])
      then show ?thesis using None Cons by simp
    next
      case (Some T)
      then have "copies t (ds @ [c]) T" using es [of "(c, T)"] by (simp add: map_of_SomeD)
      then show ?thesis
        using Some Cons spec [of _ p'] unfolding copies_def by (fastforce split: option.splits efs.splits)
    qed
  qed
qed

lemma bindE_ok: "bindE m k s = (Inr y, u) \<longleftrightarrow> (\<exists>x t. m s = (Inr x, t) \<and> k x t = (Inr y, u))"
  by (auto simp: bindE_def split: prod.split sum.split)

text \<open>From \<open>w\<close> to \<open>w'\<close> the entries \<open>es\<close> have been copied into \<open>ds\<close>, and nothing else has changed.\<close>

definition grown :: "string list \<Rightarrow> (string \<times> efs) list \<Rightarrow> world \<Rightarrow> world \<Rightarrow> bool" where
  "grown ds es w w' \<longleftrightarrow>
     tree_ok (nodes w') \<and> randoms w' = randoms w \<and> (\<forall>e \<in> set es. copies (nodes w') (ds @ [fst e]) (snd e)) \<and>
     (\<forall>q. (\<forall>e \<in> set es. \<not> prefix (ds @ [fst e]) q) \<longrightarrow> node (nodes w') q = node (nodes w) q)"

lemma grownD:
  assumes "grown ds es w w'"
  shows "tree_ok (nodes w')" "randoms w' = randoms w" "\<And>e. e \<in> set es \<Longrightarrow> copies (nodes w') (ds @ [fst e]) (snd e)"
    "\<And>q. (\<And>e. e \<in> set es \<Longrightarrow> \<not> prefix (ds @ [fst e]) q) \<Longrightarrow> node (nodes w') q = node (nodes w) q"
  using assms by (auto simp: grown_def)

lemma grownI:
  assumes "tree_ok (nodes w')" and "randoms w' = randoms w"
    and "\<And>e. e \<in> set es \<Longrightarrow> copies (nodes w') (ds @ [fst e]) (snd e)"
    and "\<And>q. (\<And>e. e \<in> set es \<Longrightarrow> \<not> prefix (ds @ [fst e]) q) \<Longrightarrow> node (nodes w') q = node (nodes w) q"
  shows "grown ds es w w'"
  unfolding grown_def using assms by blast

lemma grown_dir_at:
  assumes "grown ds es w w'" and "is_dir_at (nodes w) ds"
  shows "is_dir_at (nodes w') ds"
  using grownD(4) [OF assms(1), of ds] assms(2) by (simp add: is_dir_at_def prefix_def)

lemma grown_Nil: "tree_ok (nodes w) \<Longrightarrow> grown ds [] w w"
  by (simp add: grown_def)

lemma grown_Cons:
  assumes g: "grown ds [e] w w1" "grown ds es w1 w2" and e: "fst e \<notin> fst ` set es"
  shows "grown ds (e # es) w w2"
proof -
  have "\<not> prefix (ds @ [fst x]) ((ds @ [fst e]) @ p)" if "x \<in> set es" for x p
    using that e by (auto simp: image_iff)
  then have "node (nodes w2) ((ds @ [fst e]) @ p) = node (nodes w1) ((ds @ [fst e]) @ p)" for p
    using grownD(4) [OF g(2)] by blast
  then have "copies (nodes w2) (ds @ [fst e]) (snd e)"
    using grownD(3) [OF g(1), of e] copies_cong [of "nodes w2" "ds @ [fst e]" "nodes w1" "snd e"] by simp
  then have c: "copies (nodes w2) (ds @ [fst x]) (snd x)" if "x \<in> set (e # es)" for x
    using that grownD(3) [OF g(2), of x] by (cases "x = e") simp_all
  show ?thesis
  proof (rule grownI [OF grownD(1) [OF g(2)] _ c])
    show "randoms w2 = randoms w" using grownD(2) [OF g(1)] grownD(2) [OF g(2)] by simp
    show "node (nodes w2) q = node (nodes w) q" if "\<And>x. x \<in> set (e # es) \<Longrightarrow> \<not> prefix (ds @ [fst x]) q" for q
      using that grownD(4) [OF g(1), of q] grownD(4) [OF g(2), of q] by simp
  qed
qed

text \<open>A directory made on a new path, and filled.\<close>

lemma MkdirAll_fresh:
  assumes m: "os_MkdirAll (abs_path (D @ ms)) 0x1ED w = (Inr (), w1)"
    and w: "tree_ok (nodes w)" "is_dir_at (nodes w) D" "names_ok (D @ ms)"
    and new: "ms \<noteq> []" "node (nodes w) (D @ [hd ms]) = None"
  shows "node (nodes w1) ((D @ ms) @ [x]) = None"
proof -
  have "node (nodes w) ((D @ [hd ms]) @ (tl ms @ [x])) = None" by (rule tree_ok_below [OF w(1) new(2)])
  then have "node (nodes w) ((D @ ms) @ [x]) = None" using new(1) by (cases ms) simp_all
  moreover have "\<not> prefix ((D @ ms) @ [x]) (D @ ms)" by (auto simp: prefix_def)
  ultimately show ?thesis using MkdirAll_path [OF m w] new(2) by simp
qed

lemma strict_below_hd: "strict_prefix D q \<Longrightarrow> prefix q (D @ ms) \<Longrightarrow> prefix (D @ [hd ms]) q"
proof -
  assume a: "strict_prefix D q" "prefix q (D @ ms)"
  then obtain x y where q: "q = D @ x # y" by (metis list.exhaust append_Nil2 prefix_def strict_prefix_def)
  then have "x = hd ms" using a(2) by (cases ms) auto
  then show ?thesis using q by simp
qed

lemma grown_directory:
  assumes m: "os_MkdirAll (abs_path (D @ ms)) 0x1ED w = (Inr (), w1)"
    and w: "tree_ok (nodes w)" "is_dir_at (nodes w) D" "names_ok (D @ ms)"
    and new: "ms \<noteq> []" "node (nodes w) (D @ [hd ms]) = None" and g: "grown (D @ ms) es w1 w2"
  shows "copies (nodes w2) (D @ ms) (EDir es)" "randoms w2 = randoms w"
    "\<not> prefix (D @ [hd ms]) q \<Longrightarrow> node (nodes w2) q = node (nodes w) q"
proof -
  have w1: "randoms w1 = randoms w" "is_dir_at (nodes w1) (D @ ms)"
    "\<And>q. \<not> (strict_prefix D q \<and> prefix q (D @ ms)) \<Longrightarrow> node (nodes w1) q = node (nodes w) q"
    using MkdirAll_path [OF m w] new by auto
  show "copies (nodes w2) (D @ ms) (EDir es)"
  proof (rule copies_EDir [OF grownD(1) [OF g] grown_dir_at [OF g w1(2)] grownD(3) [OF g]])
    fix x assume x: "x \<notin> fst ` set es"
    have "\<not> prefix ((D @ ms) @ [fst e]) ((D @ ms) @ [x])" if "e \<in> set es" for e using x that by auto
    then show "node (nodes w2) ((D @ ms) @ [x]) = None"
      using grownD(4) [OF g] MkdirAll_fresh [OF m w new] by simp
  qed
  show "randoms w2 = randoms w" using grownD(2) [OF g] w1(1) by simp
  assume q: "\<not> prefix (D @ [hd ms]) q"
  have "D @ ms = (D @ [hd ms]) @ tl ms" using new(1) by simp
  then have "\<not> prefix ((D @ ms) @ [x]) q" for x
    using q prefix_order.trans [of "D @ [hd ms]" "(D @ ms) @ [x]" q] by (metis append_assoc prefixI)
  moreover have "\<not> (strict_prefix D q \<and> prefix q (D @ ms))" using q strict_below_hd by blast
  ultimately show "node (nodes w2) q = node (nodes w) q" using grownD(4) [OF g] w1(3) by auto
qed

text \<open>What is to be copied is there, in well-formed form, and its place is free.\<close>

definition can_copy :: "efs \<Rightarrow> string list \<Rightarrow> string list \<Rightarrow> (string \<times> efs) list \<Rightarrow> world \<Rightarrow> bool" where
  "can_copy fsys ss ds es w \<longleftrightarrow>
     names_ok ss \<and> names_ok ds \<and> tree_ok (nodes w) \<and> is_dir_at (nodes w) ds \<and> wf_efs (EDir es) \<and>
     (\<forall>e \<in> set es. efs_at fsys (ss @ [fst e]) = Some (snd e)) \<and>
     (\<forall>e \<in> set es. node (nodes w) (ds @ [fst e]) = None)"

lemma can_copy_rest:
  assumes c: "can_copy fsys ss ds (e # es) w" and g: "grown ds [e] w w1"
  shows "can_copy fsys ss ds es w1" "fst e \<notin> fst ` set es"
proof -
  show e: "fst e \<notin> fst ` set es" using c by (cases e) (auto simp: can_copy_def)
  have "\<not> prefix (ds @ [fst e]) (ds @ [fst x])" if "x \<in> set es" for x
    using that e by (auto simp: image_iff)
  then have "node (nodes w1) (ds @ [fst x]) = node (nodes w) (ds @ [fst x])" if "x \<in> set es" for x
    using grownD(4) [OF g] that by auto
  moreover have "wf_efs (EDir es)" using c by (cases e; cases "snd e") (auto simp: can_copy_def)
  ultimately show "can_copy fsys ss ds es w1"
    using c grownD(1) [OF g] grown_dir_at [OF g] by (auto simp: can_copy_def)
qed

lemma can_copy_inside:
  assumes c: "can_copy fsys ss ds ((name, EDir es) # rest) w"
    and m: "os_MkdirAll (abs_path (ds @ [name])) 0x1ED w = (Inr (), w1)"
  shows "can_copy fsys (ss @ [name]) (ds @ [name]) es w1"
    "grown (ds @ [name]) es w1 w2 \<Longrightarrow> grown ds [(name, EDir es)] w w2"
proof -
  have w: "tree_ok (nodes w)" "is_dir_at (nodes w) ds" "names_ok (ds @ [name])"
    and new: "[name] \<noteq> []" "node (nodes w) (ds @ [hd [name]]) = None"
    using c by (auto simp: can_copy_def)
  have "efs_at fsys ((ss @ [name]) @ [fst e]) = Some (snd e)" if e: "e \<in> set es" for e
  proof -
    have "efs_at fsys (ss @ [name]) = Some (EDir es)" "map_of es (fst e) = Some (snd e)"
      using c e by (auto simp: can_copy_def)
    then show ?thesis by (simp only: efs_at_append) simp
  qed
  then show "can_copy fsys (ss @ [name]) (ds @ [name]) es w1"
    using c MkdirAll_path [OF m w] MkdirAll_fresh [OF m w new] new(2) by (auto simp: can_copy_def)
  show "grown ds [(name, EDir es)] w w2" if g: "grown (ds @ [name]) es w1 w2"
    using grown_directory [OF m w new g] grownD(1) [OF g] by (simp add: grown_def)
qed

lemma grown_file:
  assumes c: "can_copy fsys ss ds ((name, EFile b) # rest) w"
    and f: "os_WriteFile (abs_path (ds @ [name])) b 0x1A4 w = (Inr (), w1)"
  shows "grown ds [(name, EFile b)] w w1"
proof -
  have w: "tree_ok (nodes w)" "is_dir_at (nodes w) ds" "names_ok (ds @ [name])"
    "node (nodes w) (ds @ [name]) = None"
    using c by (auto simp: can_copy_def)
  have w1: "\<exists>i. node (nodes w1) (ds @ [name]) = Some i \<and> kind i = KFile b" "same_but {ds @ [name]} w w1"
    "tree_ok (nodes w1) \<and> randoms w1 = randoms w"
    using WriteFile_entry [OF w(1-3) _ f] w(4) by auto
  then have "copies (nodes w1) (ds @ [name]) (EFile b)" using copies_EFile by blast
  moreover have "node (nodes w1) q = node (nodes w) q" if "\<not> prefix (ds @ [name]) q" for q
    using that w1(2) by (cases "q = ds @ [name]") (auto simp: same_but_def)
  ultimately show ?thesis using w1(3) by (simp add: grown_def)
qed

lemma copy_entries_grown:
  "copy_entries fsys src dst es w = (Inr (), w') \<Longrightarrow> src = rel_path ss \<Longrightarrow> dst = abs_path ds \<Longrightarrow>
   can_copy fsys ss ds es w \<Longrightarrow> grown ds es w w'"
proof (induction fsys src dst es arbitrary: w w' ss ds rule: copy_entries.induct)
  case (1 fsys src dst)
  then show ?case by (simp add: ret_def grown_Nil can_copy_def)
next
  case (2 fsys src dst name es rest)
  have n: "names_ok ds" "name_ok name" "names_ok (ss @ [name])" using "2.prems"(4) by (auto simp: can_copy_def)
  have j: "Join [dst, name] = abs_path (ds @ [name])" "Join [src, name] = rel_path (ss @ [name])"
    using Join_abs_name [OF n(1,2)] Join_rel [OF n(3)] "2.prems"(2,3) by auto
  obtain w1 w2 where m: "os_MkdirAll (abs_path (ds @ [name])) 0x1ED w = (Inr (), w1)"
    and c: "copy_entries fsys (Join [src, name]) (Join [dst, name]) es w1 = (Inr (), w2)"
    and r: "copy_entries fsys src dst rest w2 = (Inr (), w')"
    using "2.prems"(1) j by (auto simp: bindE_ok)
  note inside = can_copy_inside [OF "2.prems"(4) m]
  have g: "grown ds [(name, EDir es)] w w2" using inside(2) "2.IH"(1) [OF c j(2,1) inside(1)] by blast
  note rest = can_copy_rest [OF "2.prems"(4) g]
  show ?case using grown_Cons [OF g "2.IH"(2) [OF r "2.prems"(2,3) rest(1)] rest(2)] .
next
  case (3 fsys src dst name b rest)
  have n: "names_ok ds" "name_ok name" "names_ok (ss @ [name])" using "3.prems"(4) by (auto simp: can_copy_def)
  have j: "Join [dst, name] = abs_path (ds @ [name])" "Join [src, name] = rel_path (ss @ [name])"
    using Join_abs_name [OF n(1,2)] Join_rel [OF n(3)] "3.prems"(2,3) by auto
  have "efs_ReadFile fsys (rel_path (ss @ [name])) = Inr b"
    using efs_Open_rel [OF n(3), of fsys] "3.prems"(4) by (simp add: efs_ReadFile_def can_copy_def)
  then obtain w1 where f: "os_WriteFile (abs_path (ds @ [name])) b 0x1A4 w = (Inr (), w1)"
    and r: "copy_entries fsys src dst rest w1 = (Inr (), w')"
    using "3.prems"(1) j by (auto simp: bindE_ok liftE_def)
  note g = grown_file [OF "3.prems"(4) f]
  note rest = can_copy_rest [OF "3.prems"(4) g]
  show ?case using grown_Cons [OF g "3.IH" [OF r "3.prems"(2,3) rest(1)] rest(2)] .
qed

lemma copyEmbedDir_copies:
  assumes c: "copyEmbedDir fsys (rel_path ss) (abs_path (D @ ms)) w = (Inr (), w')"
    and fs: "efs_at fsys ss = Some T" "wf_efs T" "names_ok ss"
    and w: "tree_ok (nodes w)" "is_dir_at (nodes w) D" "names_ok (D @ ms)"
    and new: "ms \<noteq> []" "node (nodes w) (D @ [hd ms]) = None"
  shows "copies (nodes w') (D @ ms) T \<and> tree_ok (nodes w') \<and> randoms w' = randoms w \<and>
    (\<forall>q. \<not> prefix (D @ [hd ms]) q \<longrightarrow> node (nodes w') q = node (nodes w) q)"
proof -
  have "efs_ReadDir fsys (rel_path ss) = (case T of EDir es \<Rightarrow> Inr es
      | EFile b \<Rightarrow> Inl (PathErr ''read'' (rel_path ss) (ErrMsg ''not a directory'')))"
    by (simp add: efs_ReadDir_def efs_Open_rel [OF fs(3)] fs(1) split: efs.split)
  then obtain es w1 where T: "T = EDir es"
    and m: "os_MkdirAll (abs_path (D @ ms)) 0x1ED w = (Inr (), w1)"
    and ce: "copy_entries fsys (rel_path ss) (abs_path (D @ ms)) es w1 = (Inr (), w')"
    using c by (cases T) (auto simp: copyEmbedDir_def bindE_ok liftE_def)
  have "\<forall>e \<in> set es. efs_at fsys (ss @ [fst e]) = Some (snd e)"
    using fs(1,2) T by (auto simp: efs_at_append)
  then have "can_copy fsys ss (D @ ms) es w1"
    using MkdirAll_path [OF m w] MkdirAll_fresh [OF m w new] new(2) fs(2,3) w(3) T by (auto simp: can_copy_def)
  then have g: "grown (D @ ms) es w1 w'" by (rule copy_entries_grown [OF ce refl refl])
  show ?thesis using grown_directory [OF m w new g] grownD(1) [OF g] T by blast
qed

end
