(* ===== verification/Sandbox_Props.thy ===== *)
theory Sandbox_Props
  imports Sandbox_Facts Sandbox_Fixture
begin

text \<open>The properties of \<open>Sandbox\<close>, with concrete instances.\<close>

section \<open>A sandbox stays well formed\<close>

definition home_ok :: "sbconfig option \<Rightarrow> bool" where
  "home_ok options = (case options of None \<Rightarrow> True | Some cfg \<Rightarrow> opt_Home cfg = [] \<or> is_abs (opt_Home cfg))"

lemma NewSandbox_ready:
  assumes new: "NewSandbox ulower options opts t0 = (Inr sb, t1)"
    and jail: "is_abs (tb_temp t0 (tb_seq t0))" and home: "home_ok options" and opts: "list_all std_option opts"
  shows "\<exists>c. ready c (sb, t1)"
proof -
  obtain jail tt where tmp: "TempDir t0 = (Inr jail, tt)"
    using new by (auto simp: NewSandbox_def split: prod.splits sum.splits)
  then have j: "is_abs jail"
    using jail by (auto simp: TempDir_def Let_def split: prod.splits sum.splits)
  obtain h u data where cfg: "(case options of None \<Rightarrow> ([], [], EDir []) | Some cfg \<Rightarrow> (opt_Home cfg, opt_User cfg, opt_Data cfg)) = (h, u, data)"
    by (metis prod_cases3)
  then have h: "h = [] \<or> is_abs h" using home by (auto simp: home_ok_def split: option.splits)
  obtain lg th ls where lg: "NewTestLogger True (ParseLevel ulower ''debug'') (tb_logs tt) = ((lg, th), ls)"
    by (metis prod_cases3 surj_pair)
  let ?c = "length (s_clks (tb_sys tt))"
  obtain y1 where y1: "new_clk (NewTestClock test_epoch) (tb_sys tt) = (?c, y1)"
    "s_clks y1 = s_clks (tb_sys tt) @ [NewTestClock test_epoch]"
    by (simp add: new_clk_def)
  obtain st y2 where y2: "new_stream (DefaultStream y1) y1 = (st, y2)" "s_clks y2 = s_clks y1"
    by (simp add: new_stream_def)
  let ?opts = "[Some (WithRuntimeClock (Some (TestClockV ?c))), Some (WithRuntimeLogger (Some (LoggerV lg))),
    Some (WithRuntimeStream (Some st)), Some (WithRuntimeHasher (Some MD5Hasher))]"
  obtain r y where rt: "NewTestRuntime jail h u ?opts y2 = (r, y)" by (cases "NewTestRuntime jail h u ?opts y2")
  have e: "NewSandbox ulower options opts t0 =
      (case r of
         Inl err \<Rightarrow> (Inl (Fatal ''NewSandbox: runtime init failed'' (Some err)), tt\<lparr>tb_logs := ls, tb_sys := y\<rparr>)
       | Inr rt \<Rightarrow>
           (case apply_options opts
                   (\<lparr>sb_data = data, sb_ctx = tb_ctx tt, sb_rt = Some rt\<rparr>, tt\<lparr>tb_logs := ls, tb_sys := y\<rparr>) of
              (Inl e, s) \<Rightarrow> (Inl e, snd s)
            | (Inr _, s) \<Rightarrow> (Inr (fst s), snd s)))"
    unfolding NewSandbox_def tmp using cfg lg y1(1) y2(1) rt by (simp add: Let_def split: sum.split)
  then obtain rt0 where r: "r = Inr rt0" using new by (cases r) auto
  have n: "in_step (Some rt0, y)" "rt_clock rt0 = Some (Sched (TestClockV ?c))"
    "s_clks y = s_clks y2 @ [NewTestClock test_epoch]"
    using NewTestRuntime_in_step [OF rt [unfolded r] _ h sandbox_deps] j by auto
  obtain s0 where s0: "s0 = (\<lparr>sb_data = data, sb_ctx = tb_ctx tt, sb_rt = Some rt0\<rparr>, tt\<lparr>tb_logs := ls, tb_sys := y\<rparr>)"
    by blast
  have "ready ?c s0"
    using n y1(2) y2(2) by (simp add: s0 ready_def rt_st_def has_test_clock_def clk_at_def nth_append clk_ok_new)
  moreover obtain q s1 where q: "apply_options opts s0 = (q, s1)" by (cases "apply_options opts s0")
  ultimately have "ready ?c s1" using soundD [OF sound_options [OF opts]] by blast
  moreover have "(sb, t1) = s1" using new q unfolding e r s0 by (cases q) auto
  ultimately show ?thesis by auto
qed

text \<open>
  C25. A sandbox is well formed for its whole life: made with any options of the package (in an
  absolute temporary directory, with an absolute home or none), and used by any sequence of its own
  methods and options and of the methods of its runtime, it keeps the runtime, its environment and its
  file system in step, the test clock and the environment are there to be used, every further step
  returns, and when a step ends the test it does so to report the error of an operation - the messages
  about a missing environment or test clock are never reached. Left out of the methods of the runtime
  are \<open>SetClock\<close>, which may take the test clock away, \<open>Unset("PWD")\<close> and \<open>SetJail\<close> of a relative path.
\<close>

theorem sandbox_type_safe:
  assumes "NewSandbox ulower options opts t0 = (Inr sb, t1)"
    and "is_abs (tb_temp t0 (tb_seq t0))" and "home_ok options" and "list_all std_option opts"
    and "sb_run (sb, t1) s" and "sbop_ok op"
  shows "in_step (rt_st s) \<and> (\<exists>c. testClock s = (Inr c, s)) \<and> runtimeEnv s = (Inr (), s) \<and>
    (\<exists>r s'. run_sb op s = Some (r, s') \<and> in_step (rt_st s') \<and> (\<forall>msg. r \<noteq> Inl (Fatal msg None)))"
proof -
  obtain c where "ready c (sb, t1)" using NewSandbox_ready [OF assms(1-4)] by blast
  then have s: "ready c s" using sb_run_ready [OF assms(5)] by blast
  then obtain r s' where "run_sb op s = Some (r, s')" "ready c s'" "\<forall>msg. r \<noteq> Inl (Fatal msg None)"
    using run_sb_ready [OF s assms(6)] by blast
  then show ?thesis using s testClock_ready [OF s] runtimeEnv_ready [OF s] by (auto simp: ready_def)
qed

definition demo_tstate :: "unit tstate" where
  "demo_tstate = \<lparr>tb_temp = (\<lambda>_. ''/srv/jail''), tb_seq = 0, tb_ctx = 0, tb_log = [],
     tb_logs = \<lparr>s_handlers = [], s_logf = []\<rparr>, tb_sys = demo_sys0\<rparr>"

definition demo_data :: efs where
  "demo_data = EDir [(''data'', EDir [(''ex'', EDir [(''a'', EFile ''A''), (''sub'', EDir [(''b'', EFile ''B'')])])])]"

definition demo_config :: sbconfig where
  "demo_config = \<lparr>opt_Data = demo_data, opt_Home = ''/d'', opt_User = ''ann''\<rparr>"

lemma demo_new_sandbox: "\<exists>sb t1. NewSandbox id (Some demo_config) [] demo_tstate = (Inr sb, t1)"
proof -
  have m: "os_MkdirAll ''/srv/jail'' 0x1FF demo_world = (Inr (), demo_world)"
    using MkdirAll_dir [of demo_world demo_J] demo_jail by (simp add: jailed_host_def demo_J_def abs_path_def)
  let ?t = "demo_tstate\<lparr>tb_seq := 1\<rparr>"
  have tmp: "TempDir demo_tstate = (Inr ''/srv/jail'', ?t)"
    by (simp add: TempDir_def host_call_def demo_tstate_def m set_host_def demo_sys0_def demo_proc_def Let_def)
  let ?y1 = "demo_sys0\<lparr>s_clks := [NewTestClock test_epoch]\<rparr>"
  let ?y2 = "?y1\<lparr>s_streams := [DefaultStream ?y1]\<rparr>"
  have "\<exists>rt y'. NewTestRuntime ''/srv/jail'' ''/d'' ''ann''
      [Some (WithRuntimeClock (Some (TestClockV 0))), Some (WithRuntimeLogger (Some (LoggerV l))),
       Some (WithRuntimeStream (Some 0)), Some (WithRuntimeHasher (Some MD5Hasher))] ?y2 = (Inr rt, y')" for l
  proof (rule NewTestRuntime_ok [OF _ _ _ _ sandbox_deps])
    show "NewOsFS ''/srv/jail'' (map_at (te_data (NewTestEnv ''/srv/jail'' ''/d'' ''ann'')) ''PWD'')
        (p_host (s_proc ?y2)) = Inr demo_fs" by code_simp
    show "fst (OsFS_Setwd (Clean (map_at (te_data (NewTestEnv ''/srv/jail'' ''/d'' ''ann'')) ''PWD''))
        (OsFS_SetJail (CleanJail ''/srv/jail'') demo_fs, p_host (s_proc ?y2))) = Inr ()" by code_simp
  qed simp_all
  moreover obtain lg th ls where lg: "NewTestLogger True (ParseLevel id ''debug'') (tb_logs demo_tstate) = ((lg, th), ls)"
    by (metis prod_cases3 surj_pair)
  ultimately obtain rt y' where "NewTestRuntime ''/srv/jail'' ''/d'' ''ann''
      [Some (WithRuntimeClock (Some (TestClockV 0))), Some (WithRuntimeLogger (Some (LoggerV lg))),
       Some (WithRuntimeStream (Some 0)), Some (WithRuntimeHasher (Some MD5Hasher))] ?y2 = (Inr rt, y')"
    by blast
  moreover have "new_clk (NewTestClock test_epoch) (tb_sys ?t) = (0, ?y1)" "new_stream (DefaultStream ?y1) ?y1 = (0, ?y2)"
    by (simp_all add: new_clk_def new_stream_def demo_tstate_def demo_sys0_def)
  ultimately show ?thesis
    by (simp add: NewSandbox_def tmp lg Let_def demo_config_def ret_def)
qed

theorem sandbox_type_safe_witness:
  "\<exists>sb t1. NewSandbox id (Some demo_config) [] demo_tstate = (Inr sb, t1) \<and>
    (\<exists>r s'. run_sb (SbWithClock 5) (sb, t1) = Some (r, s') \<and> in_step (rt_st s') \<and>
      (\<forall>msg. r \<noteq> Inl (Fatal msg None)))"
proof -
  obtain sb t1 where n: "NewSandbox id (Some demo_config) [] demo_tstate = (Inr sb, t1)"
    using demo_new_sandbox by blast
  have h: "is_abs (tb_temp demo_tstate (tb_seq demo_tstate))" "home_ok (Some demo_config)"
    by (simp_all add: demo_tstate_def home_ok_def demo_config_def)
  have "list_all std_option ([] :: unit sboption list)" "sbop_ok (SbWithClock 5)" by simp_all
  then show ?thesis using sandbox_type_safe [OF n h _ sb_refl] n by blast
qed

section \<open>Fixtures\<close>

lemma on_rt_query:
  "m (rt_st s) = (r, rt_st s) \<Longrightarrow> on_rt m s = (as_serr r, s)"
  by (cases s) (simp add: on_rt_def rt_st_def)

lemma in_step_jail: "in_step s \<Longrightarrow> fs_jail (fs_of s) = Runtime_GetJail s"
  by (cases "fst s") (auto simp: in_step_def same_jail_def Runtime_GetJail_def)

lemma ResolvePath_plain:
  assumes s: "in_step s" and j: "fs_jail (fs_of s) = abs_path J" "names_ok J"
    and r: "fst (Runtime_ResolvePath p False s) = Inr (abs_path q)" and n: "names_ok q"
  shows "\<not> dotdot_head q"
proof -
  obtain r0 where r0: "(if blank p \<or> p = ''.'' then Runtime_Getwd else expand_abs p) s = (Inr r0, s)"
    and o: "fst (OsFS_ResolvePath (Clean r0) False (view s)) = Inr (abs_path q)" and a: "is_abs r0"
  proof -
    have "\<exists>r. (if blank p \<or> p = ''.'' then Runtime_Getwd else expand_abs p) s = (r, s) \<and> (\<forall>q. r = Inr q \<longrightarrow> is_abs q)"
      using expand_abs_in_step [OF s, of p] Runtime_Getwd_in_step [OF s] in_step_wd [OF s]
      by (auto simp: clean_abs_def)
    then obtain r1 where r1: "(if blank p \<or> p = ''.'' then Runtime_Getwd else expand_abs p) s = (r1, s)"
      "\<forall>q. r1 = Inr q \<longrightarrow> is_abs q" by blast
    then obtain x where x: "r1 = Inr x"
      using r by (cases r1) (simp_all add: Runtime_ResolvePath_def validated_in_step s bindE_def)
    have "fst (OsFS_ResolvePath (Clean x) False (view s)) = Inr (abs_path q)"
      using r r1(1) x by (simp add: Runtime_ResolvePath_def validated_in_step s bindE_def on_fs_ResolvePath [OF s])
    then show ?thesis using that r1 x by blast
  qed
  have w: "wd_ok (fs_of s)" "view s = (fs_of s, host_of s)" using in_step_view [OF s] by auto
  have v: "virtual_path (fs_of s) (Clean r0) = abs_path (acomps (Clean r0))" "names_ok (acomps (Clean r0))"
    using a by (simp_all add: virtual_path_abs acomps_names_ok)
  have "fst (if dotdot_head (acomps (Clean r0)) then Inl (escape_err (abs_path (J @ acomps (Clean r0))))
      else Inr (abs_path (acomps (Clean r0))), view s) = Inr (abs_path q)"
    using o resolveVirtual_plain [OF w(1) j v, of "host_of s"] by (simp add: OsFS_ResolvePath_def w(2))
  then have "\<not> dotdot_head (acomps (Clean r0))" "abs_path (acomps (Clean r0)) = abs_path q"
    by (auto split: if_splits)
  then show ?thesis using abs_path_inj [OF v(2) n] by simp
qed

text \<open>Reading a plain file of the jail through the runtime.\<close>

lemma Runtime_ReadFile_plain:
  assumes s: "in_step s" and j: "jailed_host J (view s)"
    and r: "fst (Runtime_ResolvePath p False s) = Inr (abs_path (cs @ [c]))" and n: "names_ok (cs @ [c])"
    and i: "node (nodes (host_of s)) (J @ cs @ [c]) = Some i" "kind i = KFile b"
  shows "Runtime_ReadFile p s = (Inr b, s)"
proof -
  have v: "view s = (fs_of s, host_of s)" "wd_ok (fs_of s)" using in_step_view [OF s] by auto
  have jh: "fs_jail (fs_of s) = abs_path J" "names_ok J" "tree_ok (nodes (host_of s))"
    using j by (simp_all add: jailed_host_def v)
  have "is_dir_at (nodes (host_of s)) (J @ cs)" using tree_ok_parent [OF jh(3), of "J @ cs" c i] i(1) by simp
  then have "plain_entry J (fs_of s) (host_of s) (abs_path (cs @ [c])) cs c"
    using j n v i ResolvePath_plain [OF s jh(1,2) r n] virtual_path_abs [of "abs_path (cs @ [c])"]
    by (simp add: plain_entry_def)
  then have "OsFS_ReadFile (abs_path (cs @ [c])) (view s) = (Inr b, view s)"
    unfolding v(1) using i by (rule plain_read)
  then have f: "on_fs (OsFS_ReadFile (abs_path (cs @ [c]))) s = (Inr b, s)"
    using on_fs_query [OF in_stepD [OF s], of "OsFS_ReadFile (abs_path (cs @ [c]))"] by simp
  have "Runtime_ResolvePath p False s = (Inr (abs_path (cs @ [c])), s)"
    using Runtime_ResolvePath_in_step [OF s, of p False] r by auto
  then show ?thesis
    using f by (simp add: Runtime_ReadFile_def at_path_def validated_in_step [OF s] bindE_def)
qed

lemma WithFixture_copies:
  assumes s: "in_step (rt_st s)" and j: "jailed_host J (view (rt_st s))"
    and src: "Join [''data'', fixture] = rel_path ss"
    and dst: "Sandbox_ResolvePath path s = (Inr (abs_path ps), s)" "names_ok ps"
    and fx: "WithFixture fixture path s = (Inr (), s')"
  obtains w' where "copyEmbedDir (sb_data (fst s)) (rel_path ss) (abs_path (J @ ps)) (host_of (rt_st s)) = (Inr (), w')"
    "s' = (fst s, (snd s)\<lparr>tb_sys := set_host w' (tb_sys (snd s))\<rparr>)"
proof -
  have jail: "fs_jail (fs_of (rt_st s)) = abs_path J" "names_ok J" using j in_step_view [OF s] by (auto simp: jailed_host_def)
  obtain rt where rt: "sb_rt (fst s) = Some rt" using s by (cases "sb_rt (fst s)") (auto simp: rt_st_def in_step_def same_jail_def)
  then have gj: "Sandbox_GetJail s = abs_path J"
    using in_step_jail [OF s] jail(1) by (simp add: Sandbox_GetJail_def rt_st_def)
  have d: "Join [Sandbox_GetJail s, abs_path ps] = abs_path (J @ ps)"
    using gj Join_abs_abs [OF jail(2) dst(2)] by simp
  have "must (''WithFixture: copy '' @ rel_path ss @ '' -> '' @ abs_path (J @ ps) @ '' failed'')
      (on_host (copyEmbedDir (sb_data (fst s)) (rel_path ss) (abs_path (J @ ps)))) s = (Inr (), s')"
    using fx dst(1) src d
    by (auto simp: WithFixture_def Let_def bindE_def must_def liftE_def as_serr_def
        split: prod.splits sum.splits sberr.splits)
  then have o: "on_host (copyEmbedDir (sb_data (fst s)) (rel_path ss) (abs_path (J @ ps))) s = (Inr (), s')"
    by (auto simp: must_def split: prod.splits sum.splits sberr.splits)
  obtain r w' where c: "copyEmbedDir (sb_data (fst s)) (rel_path ss) (abs_path (J @ ps)) (host_of (rt_st s)) = (r, w')"
    by fastforce
  then show ?thesis
    using o that by (cases r) (auto simp: on_host_def host_call_def host_of_def rt_st_def as_serr_def)
qed

text \<open>
  C20. A fixture is copied whole, and reads back, in a sandbox whose runtime is in step, when it is placed beside no link: the destination
  resolves to \<open>ds\<close>, a real directory of the jail (itself a real directory) spelled without links,
  followed by at least one name, at the first of which nothing exists. Then, when \<open>WithFixture\<close> succeeds
  in copying an embedded directory (of distinct legal names) there, every file of it is read with its embedded content through
  any spelling of its path, and the host is changed only where the new path begins. (When \<open>ds\<close> leads
  through a link of the jail, the copy follows the link, out of the jail if it leads there.)
\<close>

theorem sandbox_fixture_reads:
  assumes s: "in_step (rt_st s)" and j: "jailed_host J (view (rt_st s))"
    and src: "Join [''data'', fixture] = rel_path ss" "names_ok ss" "efs_at (sb_data (fst s)) ss = Some T" "wf_efs T"
    and dst: "Sandbox_ResolvePath path s = (Inr (abs_path (ds @ ms)), s)" "names_ok (ds @ ms)"
    and new: "is_dir_at (nodes (host_of (rt_st s))) (J @ ds)" "ms \<noteq> []"
      "node (nodes (host_of (rt_st s))) ((J @ ds) @ [hd ms]) = None"
    and fx: "WithFixture fixture path s = (Inr (), s')"
    and fl: "efs_at T (cs @ [c]) = Some (EFile b)" "names_ok (cs @ [c])"
    and q: "fst (Sandbox_ResolvePath q s') = Inr (abs_path (ds @ ms @ cs @ [c]))"
  shows "MustReadFile q s' = (Inr b, s') \<and>
    (\<forall>loc. \<not> prefix (J @ ds @ [hd ms]) loc \<longrightarrow>
       node (nodes (host_of (rt_st s'))) loc = node (nodes (host_of (rt_st s))) loc)"
proof -
  obtain w' where c: "copyEmbedDir (sb_data (fst s)) (rel_path ss) (abs_path (J @ ds @ ms)) (host_of (rt_st s)) = (Inr (), w')"
    and s': "s' = (fst s, (snd s)\<lparr>tb_sys := set_host w' (tb_sys (snd s))\<rparr>)"
    by (rule WithFixture_copies [OF s j src(1) dst fx])
  have v: "view (rt_st s) = (fs_of (rt_st s), host_of (rt_st s))" using in_step_view [OF s] by auto
  have jh: "names_ok J" "tree_ok (nodes (host_of (rt_st s)))" using j by (simp_all add: jailed_host_def v)
  have n: "names_ok ((J @ ds) @ ms)" using jh(1) dst(2) by simp
  have cp: "copies (nodes w') ((J @ ds) @ ms) T" "tree_ok (nodes w')" "randoms w' = randoms (host_of (rt_st s))"
    "\<And>q. \<not> prefix ((J @ ds) @ [hd ms]) q \<Longrightarrow> node (nodes w') q = node (nodes (host_of (rt_st s))) q"
    using copyEmbedDir_copies [OF _ src(3,4,2) jh(2) new(1) n new(2,3)] c by simp_all
  have st: "fst (rt_st s') = fst (rt_st s)" "snd (rt_st s') = set_host w' (snd (rt_st s))"
    by (simp_all add: s' rt_st_def)
  have s'': "in_step (rt_st s')"
    by (rule in_step_cong [OF s]) (simp_all add: st set_host_def)
  have h: "host_of (rt_st s') = w'" "fs_of (rt_st s') = fs_of (rt_st s)"
    using st by (simp_all add: host_of_def fs_of_def set_host_def)
  have "is_dir_at (nodes w') J"
    using j cp(4) [of J] by (simp add: jailed_host_def v is_dir_at_def prefix_def)
  then have j': "jailed_host J (view (rt_st s'))"
    using j cp(2,3) in_step_view [OF s''] h by (simp add: jailed_host_def v plain_randoms_def)
  obtain i where i: "node (nodes w') (((J @ ds) @ ms) @ cs @ [c]) = Some i" "kind i = KFile b"
    using cp(1) fl(1) unfolding copies_def by (drule_tac spec [of _ "cs @ [c]"]) auto
  have "Runtime_ReadFile q (rt_st s') = (Inr b, rt_st s')"
  proof (rule Runtime_ReadFile_plain [OF s'' j', of q "ds @ ms @ cs" c i])
    show "fst (Runtime_ResolvePath q False (rt_st s')) = Inr (abs_path ((ds @ ms @ cs) @ [c]))"
      using q by (simp add: Sandbox_ResolvePath_def on_rt_state as_serr_def split: sum.splits)
    show "names_ok ((ds @ ms @ cs) @ [c])" using dst(2) fl(2) by simp
  qed (use i h in simp_all)
  then have "MustReadFile q s' = (Inr b, s')"
    using on_rt_query [of "Runtime_ReadFile q" s' "Inr b"]
    by (simp add: as_serr_def MustReadFile_def Sandbox_ReadFile_def must_def)
  then show ?thesis using cp(4) h by simp
qed

text \<open>A sandbox on the small host.\<close>

definition demo_sb :: "sandbox \<times> unit tstate" where
  "demo_sb = (\<lparr>sb_data = demo_data, sb_ctx = 0, sb_rt = Some demo_rt\<rparr>,
     \<lparr>tb_temp = (\<lambda>_. ''/srv/jail''), tb_seq = 1, tb_ctx = 0, tb_log = [],
       tb_logs = \<lparr>s_handlers = [], s_logf = []\<rparr>, tb_sys = snd demo_rts\<rparr>)"

lemma demo_sb_rt: "rt_st demo_sb = demo_rts"
  by (simp add: rt_st_def demo_sb_def demo_rts_def)

theorem sandbox_fixture_reads_witness:
  "MustReadFile ''fix/../fix/one/sub/b'' (snd (WithFixture ''ex'' ''fix/one'' demo_sb)) =
     (Inr ''B'', snd (WithFixture ''ex'' ''fix/one'' demo_sb))"
proof -
  obtain s' where s': "snd (WithFixture ''ex'' ''fix/one'' demo_sb) = s'" by blast
  have "fst (WithFixture ''ex'' ''fix/one'' demo_sb) = Inr ()" by code_simp
  then have fx: "WithFixture ''ex'' ''fix/one'' demo_sb = (Inr (), s')" using s' by (simp add: prod_eq_iff)
  have src: "Join [''data'', ''ex''] = rel_path [''data'', ''ex'']" "names_ok [''data'', ''ex'']"
    "efs_at (sb_data (fst demo_sb)) [''data'', ''ex''] =
       Some (EDir [(''a'', EFile ''A''), (''sub'', EDir [(''b'', EFile ''B'')])])"
    "wf_efs (EDir [(''a'', EFile ''A''), (''sub'', EDir [(''b'', EFile ''B'')])])"
    by code_simp+
  have "fst (Sandbox_ResolvePath ''fix/one'' demo_sb) = Inr (abs_path ([''d''] @ [''fix'', ''one'']))" by code_simp
  moreover have "snd (Sandbox_ResolvePath ''fix/one'' demo_sb) = demo_sb"
  proof -
    obtain r where "Runtime_ResolvePath ''fix/one'' False (rt_st demo_sb) = (r, rt_st demo_sb)"
      unfolding demo_sb_rt using Runtime_ResolvePath_in_step [OF demo_in_step] by blast
    then show ?thesis unfolding Sandbox_ResolvePath_def by (simp add: on_rt_query)
  qed
  ultimately have dst: "Sandbox_ResolvePath ''fix/one'' demo_sb = (Inr (abs_path ([''d''] @ [''fix'', ''one''])), demo_sb)"
    by (simp add: prod_eq_iff)
  have n: "names_ok ([''d''] @ [''fix'', ''one''])" "names_ok ([''sub''] @ [''b''])" by code_simp+
  have new: "is_dir_at (nodes (host_of (rt_st demo_sb))) (demo_J @ [''d''])" "[''fix'', ''one''] \<noteq> []"
    "node (nodes (host_of (rt_st demo_sb))) ((demo_J @ [''d'']) @ [hd [''fix'', ''one'']]) = None"
    unfolding demo_sb_rt by code_simp+
  have fl: "efs_at (EDir [(''a'', EFile ''A''), (''sub'', EDir [(''b'', EFile ''B'')])]) ([''sub''] @ [''b'']) = Some (EFile ''B'')"
    by code_simp
  have "fst (Sandbox_ResolvePath ''fix/../fix/one/sub/b'' (snd (WithFixture ''ex'' ''fix/one'' demo_sb))) =
      Inr (abs_path ([''d''] @ [''fix'', ''one''] @ [''sub''] @ [''b'']))" by code_simp
  then have q: "fst (Sandbox_ResolvePath ''fix/../fix/one/sub/b'' s') =
      Inr (abs_path ([''d''] @ [''fix'', ''one''] @ [''sub''] @ [''b'']))" unfolding s' .
  have "in_step (rt_st demo_sb)" "jailed_host demo_J (view (rt_st demo_sb))"
    unfolding demo_sb_rt using demo_in_step demo_jail demo_view by simp_all
  then show ?thesis
    unfolding s' using sandbox_fixture_reads [OF _ _ src dst n(1) new fx fl n(2) q] by blast
qed

text \<open>
  The copy goes to the host by the spelled path, not through the jailed file system: a link of the
  jail on the way is followed, and the fixture lands outside, where writing the same file through the
  sandbox is refused.
\<close>

lemma fixture_leaves_jail:
  "fst (WithFixture ''ex'' ''/out/x'' demo_sb) = Inr () \<and>
   fst (MustWriteFile ''/out/x/a'' ''A'' 0x1A4 demo_sb) \<noteq> Inr () \<and>
   map_of (nodes (host_of (rt_st (snd (WithFixture ''ex'' ''/out/x'' demo_sb))))) [''srv'', ''x'', ''a''] \<noteq> None"
  by code_simp

end
