(* ===== verification/GoGlob.thy ===== *)
theory GoGlob
  imports HostOS
begin

text \<open>
  \<open>filepath.Match\<close> and \<open>filepath.Glob\<close> of the standard library, on a Unix host: the pattern grammar,
  matching of one name, and the search over the directories of the host.
\<close>

section \<open>Characters\<close>

text \<open>\<open>utf8.DecodeRuneInString\<close>: the code point and the width; an invalid encoding has width 1.\<close>

definition cont :: "int \<Rightarrow> bool" where
  "cont b = (0x80 \<le> b \<and> b \<le> 0xBF)"

definition decode_rune :: "string \<Rightarrow> int \<times> nat" where
  "decode_rune s =
     (let b = map of_char (take 4 s) :: int list; n = length b; bad = (0xFFFD, 1)
      in if n = 0 then (0xFFFD, 0)
         else if b ! 0 < 0x80 then (b ! 0, 1)
         else if b ! 0 < 0xC2 then bad
         else if b ! 0 < 0xE0 then
           (if n \<ge> 2 \<and> cont (b ! 1) then ((b ! 0 mod 0x20) * 0x40 + b ! 1 mod 0x40, 2) else bad)
         else if b ! 0 < 0xF0 then
           (if n \<ge> 3 \<and> cont (b ! 1) \<and> cont (b ! 2) \<and> (b ! 0 = 0xE0 \<longrightarrow> 0xA0 \<le> b ! 1) \<and> (b ! 0 = 0xED \<longrightarrow> b ! 1 \<le> 0x9F)
            then ((b ! 0 mod 0x10) * 0x1000 + (b ! 1 mod 0x40) * 0x40 + b ! 2 mod 0x40, 3) else bad)
         else if b ! 0 < 0xF5 then
           (if n \<ge> 4 \<and> cont (b ! 1) \<and> cont (b ! 2) \<and> cont (b ! 3) \<and> (b ! 0 = 0xF0 \<longrightarrow> 0x90 \<le> b ! 1) \<and>
               (b ! 0 = 0xF4 \<longrightarrow> b ! 1 \<le> 0x8F)
            then ((b ! 0 mod 0x08) * 0x40000 + (b ! 1 mod 0x40) * 0x1000 + (b ! 2 mod 0x40) * 0x40 + b ! 3 mod 0x40, 4)
            else bad)
         else bad)"

definition rune_width :: "string \<Rightarrow> nat" where
  "rune_width s = max 1 (snd (decode_rune s))"

section \<open>Patterns\<close>

datatype patitem = PStar | PAny | PClass bool "(int \<times> int) list" | PByte char

text \<open>A character of a class, possibly escaped; something must follow it.\<close>

definition getEsc :: "string \<Rightarrow> (int \<times> string) option" where
  "getEsc p =
     (case p of
        [] \<Rightarrow> None
      | c # q \<Rightarrow>
          if c = CHR ''-'' \<or> c = CHR '']'' then None
          else
            (let r = (if c = CHR 0x5C then q else p)
             in if r = [] then None
                else if decode_rune r = (0xFFFD, 1) then None
                else (let rest = drop (rune_width r) r
                      in if rest = [] then None else Some (fst (decode_rune r), rest))))"

lemma getEsc_shorter: "getEsc p = Some (r, q) \<Longrightarrow> length q < length p"
  by (auto simp: getEsc_def Let_def rune_width_def split: list.splits if_splits)

text \<open>The ranges of a class up to its bracket; at least one.\<close>

function parse_class :: "bool \<Rightarrow> string \<Rightarrow> ((int \<times> int) list \<times> string) option" where
  "parse_class some p =
     (case p of
        [] \<Rightarrow> None
      | c # q \<Rightarrow>
          if c = CHR '']'' \<and> some then Some ([], q)
          else
            (case getEsc p of
               None \<Rightarrow> None
             | Some (lo, p1) \<Rightarrow>
                 (case (if hd p1 = CHR ''-'' then getEsc (tl p1) else Some (lo, p1)) of
                    None \<Rightarrow> None
                  | Some (hi, p2) \<Rightarrow>
                      (case parse_class True p2 of
                         None \<Rightarrow> None
                       | Some (rs, p3) \<Rightarrow> Some ((lo, hi) # rs, p3)))))"
  by pat_completeness auto
termination
  by (relation "measure (\<lambda>(some, p). length p)")
    (auto dest!: getEsc_shorter split: if_splits)

declare parse_class.simps [simp del]

lemma parse_class_shorter: "parse_class b p = Some (rs, q) \<Longrightarrow> length q < length p"
proof (induction "length p" arbitrary: b p rs q rule: less_induct)
  case less
  obtain c p' where p: "p = c # p'" using less.prems by (cases p) (auto simp: parse_class.simps)
  show ?case
  proof (cases "c = CHR '']'' \<and> b")
    case True
    then show ?thesis using less.prems by (simp add: p parse_class.simps)
  next
    case False
    then have "parse_class b p = (case getEsc p of
               None \<Rightarrow> None
             | Some (lo, p1) \<Rightarrow>
                 (case (if hd p1 = CHR ''-'' then getEsc (tl p1) else Some (lo, p1)) of
                    None \<Rightarrow> None
                  | Some (hi, p2) \<Rightarrow>
                      (case parse_class True p2 of
                         None \<Rightarrow> None
                       | Some (rs, p3) \<Rightarrow> Some ((lo, hi) # rs, p3))))"
      by (subst parse_class.simps) (auto simp: p)
    then obtain lo p1 hi p2 rs' where e: "getEsc p = Some (lo, p1)"
      "(if hd p1 = CHR ''-'' then getEsc (tl p1) else Some (lo, p1)) = Some (hi, p2)"
      "parse_class True p2 = Some (rs', q)"
      using less.prems by (auto split: option.splits)
    have "length p1 < length p" using e(1) by (rule getEsc_shorter)
    moreover have "length p2 \<le> length p1" using e(2) by (auto dest!: getEsc_shorter split: if_splits)
    ultimately show ?thesis using less.hyps [OF _ e(3)] by simp
  qed
qed

function parse_pattern :: "string \<Rightarrow> patitem list option" where
  "parse_pattern [] = Some []"
| "parse_pattern (c # p) =
     (if c = CHR ''*'' then map_option (Cons PStar) (parse_pattern p)
      else if c = CHR ''?'' then map_option (Cons PAny) (parse_pattern p)
      else if c = CHR 0x5C then
        (case p of [] \<Rightarrow> None | d # q \<Rightarrow> map_option (Cons (PByte d)) (parse_pattern q))
      else if c = CHR ''['' then
        (let neg = (p \<noteq> [] \<and> hd p = CHR ''^'')
         in case parse_class False (if neg then tl p else p) of
              None \<Rightarrow> None
            | Some (rs, q) \<Rightarrow> map_option (Cons (PClass neg rs)) (parse_pattern q))
      else map_option (Cons (PByte c)) (parse_pattern p))"
  by pat_completeness auto
termination
  by (relation "measure length") (auto dest!: parse_class_shorter split: if_splits)

function match_items :: "patitem list \<Rightarrow> string \<Rightarrow> bool" where
  "match_items [] s = (s = [])"
| "match_items (PByte c # ps) s = (s \<noteq> [] \<and> hd s = c \<and> match_items ps (tl s))"
| "match_items (PAny # ps) s = (s \<noteq> [] \<and> hd s \<noteq> CHR ''/'' \<and> match_items ps (drop (rune_width s) s))"
| "match_items (PClass neg rs # ps) s =
     (s \<noteq> [] \<and> list_ex (\<lambda>(lo, hi). lo \<le> fst (decode_rune s) \<and> fst (decode_rune s) \<le> hi) rs \<noteq> neg \<and>
      match_items ps (drop (rune_width s) s))"
| "match_items (PStar # ps) s =
     (match_items ps s \<or> (case s of [] \<Rightarrow> False | x # xs \<Rightarrow> x \<noteq> CHR ''/'' \<and> match_items (PStar # ps) xs))"
  by pat_completeness auto
termination
  by (relation "measures [\<lambda>(ps, s). length ps, \<lambda>(ps, s). length s]") auto

definition ErrBadPattern :: goerr where
  "ErrBadPattern = ErrMsg ''syntax error in pattern''"

definition Match :: "string \<Rightarrow> string \<Rightarrow> goerr + bool" where
  "Match pat name =
     (case parse_pattern pat of None \<Rightarrow> Inl ErrBadPattern | Some items \<Rightarrow> Inr (match_items items name))"

section \<open>Glob\<close>

definition meta_char :: "char \<Rightarrow> bool" where
  "meta_char c = (c = CHR ''*'' \<or> c = CHR ''?'' \<or> c = CHR ''['' \<or> c = CHR 0x5C)"

definition hasMeta :: "string \<Rightarrow> bool" where
  "hasMeta p = list_ex meta_char p"

text \<open>The names of one directory that match; a directory that cannot be read has none.\<close>

definition glob_in :: "world \<Rightarrow> string \<Rightarrow> string \<Rightarrow> goerr + string list" where
  "glob_in w dir pat =
     (case os_Stat dir w of
        Inl _ \<Rightarrow> Inr []
      | Inr i \<Rightarrow>
          if kind i \<noteq> KDir then Inr []
          else
            (case os_ReadDir dir w of
               Inl _ \<Rightarrow> Inr []
             | Inr names \<Rightarrow>
                 if names = [] then Inr []
                 else
                   (case parse_pattern pat of
                      None \<Rightarrow> Inl ErrBadPattern
                    | Some items \<Rightarrow> Inr (map (\<lambda>n. Join [dir, n]) (filter (match_items items) names)))))"

fun glob_all :: "world \<Rightarrow> string list \<Rightarrow> string \<Rightarrow> goerr + string list" where
  "glob_all w [] pat = Inr []"
| "glob_all w (d # ds) pat =
     (case glob_in w d pat of
        Inl e \<Rightarrow> Inl e
      | Inr ms \<Rightarrow> (case glob_all w ds pat of Inl e \<Rightarrow> Inl e | Inr ms' \<Rightarrow> Inr (ms @ ms')))"

definition cleanGlobPath :: "string \<Rightarrow> string" where
  "cleanGlobPath path = (if path = [] then ''.'' else if path = ''/'' then path else butlast path)"

text \<open>The search stops at a depth of 10000 separators.\<close>

lemma cleanGlobPath_shorter: "hasMeta (cleanGlobPath (dir_part p)) \<Longrightarrow> length (cleanGlobPath (dir_part p)) < length p"
proof -
  assume m: "hasMeta (cleanGlobPath (dir_part p))"
  have "length (dir_part p) \<le> length p"
    unfolding dir_part_def using length_dropWhile_le [of _ "rev p"] by simp
  then show ?thesis
    using m by (auto simp: cleanGlobPath_def hasMeta_def meta_char_def split: if_splits) (cases "dir_part p"; simp)
qed

function globWithLimit :: "int \<Rightarrow> world \<Rightarrow> string \<Rightarrow> goerr + string list" where
  "globWithLimit depth w pat =
     (if depth = 10000 then Inl ErrBadPattern
      else if parse_pattern pat = None then Inl ErrBadPattern
      else if \<not> hasMeta pat then
        (case os_Lstat pat w of Inl _ \<Rightarrow> Inr [] | Inr _ \<Rightarrow> Inr [pat])
      else
        (let dir = cleanGlobPath (dir_part pat); base = drop (length (dir_part pat)) pat
         in if \<not> hasMeta dir then glob_in w dir base
            else if dir = pat then Inl ErrBadPattern
            else (case globWithLimit (depth + 1) w dir of
                    Inl e \<Rightarrow> Inl e
                  | Inr m \<Rightarrow> glob_all w m base)))"
  by pat_completeness auto
termination
  by (relation "measure (\<lambda>(depth, w, pat). length pat)") (auto simp: cleanGlobPath_shorter)

declare globWithLimit.simps [simp del]

definition filepath_Glob :: "string \<Rightarrow> world \<Rightarrow> goerr + string list" where
  "filepath_Glob pat w = globWithLimit 0 w pat"

end
