(* ===== verification/Glob.thy ===== *)
theory Glob
  imports Runtime GoGlob
begin

text \<open>
  \<open>OsFS.Glob\<close> and \<open>globLiteralPrefix\<close> (\<open>src/toolkit/filesystem/os_fs.go\<close>), and \<open>Runtime.Glob\<close>
  (\<open>src/toolkit/runtime.go\<close>).
\<close>

text \<open>The pattern up to the first meta-character, cut back to before its last separator.\<close>

definition globLiteralPrefix :: "string \<Rightarrow> string" where
  "globLiteralPrefix pattern =
     (let lead = takeWhile (\<lambda>c. \<not> meta_char c) pattern
      in if length lead < length pattern
         then (if CHR ''/'' \<notin> set lead then [] else butlast (dir_part lead))
         else Dir pattern)"

text \<open>The literal prefix must not lead out of the jail; every other failure to resolve it is dropped.\<close>

definition glob_check :: "string \<Rightarrow> unit fsio" where
  "glob_check virtualPattern s =
     (let literalPrefix = globLiteralPrefix virtualPattern
      in if blank (OsFS_GetJail (fst s)) \<or> literalPrefix = [] \<or> literalPrefix = ''/'' then (Inr (), s)
         else attempt (resolveHost literalPrefix True) (\<lambda>r.
                case r of
                  Inr _ \<Rightarrow> ret ()
                | Inl perr \<Rightarrow> if errors_is perr ErrEscapeAttempt then fail perr else ret ()) s)"

text \<open>The matches in the jail as virtual paths, relative to the working directory for a relative pattern.\<close>

definition glob_results :: "string \<Rightarrow> bool \<Rightarrow> string \<Rightarrow> string list \<Rightarrow> string list" where
  "glob_results jailPath isRelative wd matches =
     map (\<lambda>m. let virtual = RemoveJailPrefix jailPath m
               in if isRelative then (case Rel wd virtual of Inr rel \<Rightarrow> rel | Inl _ \<Rightarrow> virtual) else virtual)
       (filter (IsInJail jailPath) matches)"

definition OsFS_Glob :: "string \<Rightarrow> string list fsio" where
  "OsFS_Glob pattern =
     bindE OsFS_Getwd (\<lambda>wd.
       let isRelative = (\<not> is_abs pattern);
           virtualPattern = Clean (if isRelative then Join [wd, pattern] else pattern)
       in bindE (\<lambda>s. (Inr (hostPath (fst s) virtualPattern), s)) (\<lambda>hostPattern.
            bindE (glob_check virtualPattern) (\<lambda>_.
              bindE (os_query (filepath_Glob hostPattern)) (\<lambda>matches s.
                (Inr (if blank (OsFS_GetJail (fst s)) then matches
                      else glob_results (OsFS_GetJail (fst s)) isRelative wd matches), s)))))"

definition Runtime_Glob :: "string \<Rightarrow> string list rtio" where
  "Runtime_Glob pattern =
     validated (bindE (\<lambda>s. rt_ExpandPath (rt_ExpandEnv pattern s) s) (\<lambda>parsed.
       bindE Runtime_Getwd (\<lambda>wd.
         let resolvedPattern = Clean (if \<not> is_abs parsed then Join [wd, parsed] else parsed)
         in bindE (on_fs (OsFS_Glob resolvedPattern)) (\<lambda>matches.
              ret (if is_abs parsed then matches
                   else map (\<lambda>match. case Rel wd match of Inr relPath \<Rightarrow> relPath | Inl _ \<Rightarrow> match) matches)))))"

end
