(* ===== verification/Glob_Props.thy ===== *)
theory Glob_Props
  imports Glob Runtime_Props
begin

text \<open>What \<open>Glob\<close> returns, and where it looks.\<close>

section \<open>Patterns with a literal directory\<close>

lemma parse_literal:
  "\<not> hasMeta s \<Longrightarrow> parse_pattern (s @ p) = map_option ((@) (map PByte s)) (parse_pattern p)"
proof (induction s)
  case Nil
  then show ?case by (cases "parse_pattern p") simp_all
next
  case (Cons c s)
  then have "\<not> meta_char c" "parse_pattern (s @ p) = map_option ((@) (map PByte s)) (parse_pattern p)"
    by (auto simp: hasMeta_def)
  then show ?case by (cases "parse_pattern p") (auto simp: meta_char_def)
qed

text \<open>The directory part of a path, with its slash.\<close>

definition dir_slash :: "string list \<Rightarrow> string" where
  "dir_slash D = abs_path D @ (if D = [] then [] else ''/'')"

lemma abs_path_dir_slash: "abs_path (D @ [c]) = dir_slash D @ c"
  by (cases "D = []") (simp_all add: dir_slash_def abs_path_snoc abs_path_Nil, simp add: abs_path_def)

lemma dir_part_dir_slash: "CHR ''/'' \<notin> set c \<Longrightarrow> dir_part (dir_slash D @ c) = dir_slash D"
  using dir_part_snoc [of c "if D = [] then [] else abs_path D"]
  by (cases "D = []") (simp_all add: dir_slash_def abs_path_Nil)

lemma cleanGlobPath_dir_slash: "cleanGlobPath (dir_slash D) = abs_path D"
  by (cases "D = []") (simp_all add: cleanGlobPath_def dir_slash_def abs_path_Nil)

lemma hasMeta_dir_slash: "hasMeta (dir_slash D) = hasMeta (abs_path D)"
  by (simp add: dir_slash_def hasMeta_def meta_char_def)

lemma hasMeta_abs_append: "hasMeta (abs_path (a @ b)) = (hasMeta (abs_path a) \<or> hasMeta (abs_path b))"
proof (cases "a = [] \<or> b = []")
  case True
  then show ?thesis by (auto simp: hasMeta_def abs_path_def meta_char_def)
next
  case False
  then show ?thesis by (simp add: abs_path_def join_with_append hasMeta_def meta_char_def)
qed

lemma prefix_dir_slash:
  assumes "\<not> hasMeta (abs_path r)" and "hasMeta c" and "CHR ''/'' \<notin> set c"
  shows "globLiteralPrefix (abs_path (r @ [c])) = (if r = [] then [] else abs_path r)"
proof -
  let ?lead = "takeWhile (\<lambda>x. \<not> meta_char x) c"
  have "\<forall>x \<in> set (dir_slash r). \<not> meta_char x"
    using assms(1) hasMeta_dir_slash [of r] by (auto simp: hasMeta_def list_ex_iff)
  then have t: "takeWhile (\<lambda>x. \<not> meta_char x) (dir_slash r @ c) = dir_slash r @ ?lead"
    by (simp add: takeWhile_append2)
  have "?lead \<noteq> c" using assms(2) by (auto simp: hasMeta_def list_ex_iff takeWhile_eq_all_conv)
  then have l: "length ?lead < length c"
    using length_takeWhile_le [of "\<lambda>x. \<not> meta_char x" c] by (metis le_neq_implies_less takeWhile_eq_take take_all)
  have n: "CHR ''/'' \<notin> set ?lead" using assms(3) by (auto dest: set_takeWhileD)
  have m: "CHR ''/'' \<in> set (dir_slash r)" by (simp add: dir_slash_def abs_path_def)
  have "butlast (dir_slash r) = (if r = [] then [] else abs_path r)"
    by (simp add: dir_slash_def) (simp add: abs_path_def)
  then show ?thesis
    unfolding globLiteralPrefix_def abs_path_dir_slash t
    using l n m by (simp add: dir_part_dir_slash)
qed

section \<open>One directory of the host\<close>

lemma glob_dir:
  assumes ok: "tree_ok (nodes w)" and D: "is_dir_at (nodes w) D" and n: "names_ok D"
    and names: "list_all name_ok (children (nodes w) D)"
    and nm: "\<not> hasMeta (abs_path D)" and pat: "hasMeta pat" "CHR ''/'' \<notin> set pat" "parse_pattern pat = Some items"
  shows "filepath_Glob (abs_path (D @ [pat])) w =
    Inr (map (\<lambda>n. abs_path (D @ [n])) (filter (match_items items) (sort_strings (children (nodes w) D))))"
proof -
  let ?p = "dir_slash D @ pat"
  have md: "\<not> hasMeta (dir_slash D)" using nm hasMeta_dir_slash by blast
  obtain its where parse: "parse_pattern ?p = Some its" using parse_literal [OF md, of pat] pat(3) by simp
  have dp: "dir_part ?p = dir_slash D" using dir_part_dir_slash pat(2) by blast
  have hm: "hasMeta ?p" using pat(1) by (simp add: hasMeta_def)
  have g: "filepath_Glob ?p w = glob_in w (abs_path D) pat"
    using parse hm dp nm by (simp add: filepath_Glob_def globWithLimit.simps [of 0] Let_def cleanGlobPath_dir_slash)
  have kl: "klookup w True (abs_path D) = Inr D"
    using resolve_on_dir [of "nodes w" "[]" D max_links True "[]"] ok D n by (simp add: klookup_abs_path)
  obtain i where i: "node (nodes w) D = Some i" "kind i = KDir" using D by (auto simp: is_dir_at_iff)
  have st: "os_Stat (abs_path D) w = Inr i" using kl i by (simp add: os_Stat_def kstat_def patherr_def)
  have rd: "os_ReadDir (abs_path D) w = Inr (sort_strings (children (nodes w) D))"
    using kl i by (simp add: os_ReadDir_def patherr_def)
  have j: "map (\<lambda>n. Join [abs_path D, n]) xs = map (\<lambda>n. abs_path (D @ [n])) xs" if "list_all name_ok xs" for xs
    using that n by (induction xs) (simp_all add: Join_abs_name)
  have "list_all name_ok (filter (match_items items) (sort_strings (children (nodes w) D)))"
    using names by (auto simp: list_all_iff)
  then show ?thesis
    unfolding abs_path_dir_slash [of D pat] g glob_in_def using st i(2) rd pat(3) j by simp
qed

section \<open>Glob in a jail\<close>

lemma resolve_dir:
  assumes j: "jailed_host J (fs, w)" and wd: "wd_ok fs"
    and r: "names_ok r" "\<not> dotdot_head r" "is_dir_at (nodes w) (J @ r)"
  shows "resolveHost (abs_path r) True (fs, w) = (Inr (abs_path (J @ r)), (fs, w))"
proof -
  have d: "tree_ok (nodes w)" "names_ok J" "fs_jail fs = abs_path J" "jail_at J fs w"
    using j jail_at_canonical by (auto simp: jailed_host_def)
  have n: "names_ok (J @ r)" using d(2) r(1) by simp
  have can: "canonical (nodes w) (J @ r)" using dir_canonical [OF d(1) r(3) n] .
  have ne: "fs_jail fs \<noteq> []" using d(3) by simp
  have jn: "Join [abs_path J, abs_path r] = abs_path (J @ r)" using Join_abs_abs [OF d(2) r(1)] .
  have inj: "IsInJail (abs_path J) (abs_path (J @ r))" using IsInJail_abs_path [OF d(2) n] r(2) by simp
  have rm: "RemoveJailPrefix (abs_path J) (abs_path (J @ r)) = abs_path r" using RemoveJailPrefix_below [OF n] .
  have vp: "virtual_path fs (abs_path r) = abs_path r" using r(1) by (simp add: virtual_path_abs)
  have "resolveVirtual (abs_path r) True (fs, w) = (Inr (abs_path r), (fs, w))"
    using resolveVirtual_jailed [OF ne init_done [OF wd], of "abs_path r" True w] vp d(3) jn inj rm n r(1)
      EvalSymlinks_canonical_path [OF d(1) can] canonical_self [OF d(4,3)]
    by (simp add: jail_check_def Let_def del: list_all_append)
  then show ?thesis
    using d(3) jn n by (simp add: resolveHost_def bindE_def getS_def hostPath_def OsFS_GetJail_def del: list_all_append)
qed

lemma OsFS_Getwd_ok: "wd_ok fs \<Longrightarrow> OsFS_Getwd (fs, w) = (Inr (fs_wd fs), (fs, w))"
  by (simp add: OsFS_Getwd_def bindE_def init_done getS_def)

text \<open>
  C35. What \<open>Glob\<close> returns for a wildcard in a plain directory of the jail, exactly: the entries of
  that directory whose names match the pattern, in byte order, as virtual paths (relative to the
  working directory when the pattern was relative) - provided the path of the jail itself has no
  meta-character. An entry of the jail's root whose name begins with two dots is left out. It only reads.
\<close>

theorem osfs_glob_exact:
  assumes j: "jailed_host J (fs, w)" and wd: "wd_ok fs"
    and pat: "Clean (if is_abs p then p else Join [fs_wd fs, p]) = abs_path (r @ [c])" "names_ok (r @ [c])"
    and meta: "hasMeta c" "parse_pattern c = Some items" "\<not> hasMeta (abs_path (J @ r))"
    and dir: "is_dir_at (nodes w) (J @ r)" "\<not> dotdot_head r" "list_all name_ok (children (nodes w) (J @ r))"
  shows "OsFS_Glob p (fs, w) =
    (Inr (map (\<lambda>n. if is_abs p then abs_path (r @ [n])
                   else case Rel (fs_wd fs) (abs_path (r @ [n])) of Inr q \<Rightarrow> q | Inl _ \<Rightarrow> abs_path (r @ [n]))
           (filter (\<lambda>n. match_items items n \<and> \<not> dotdot_head (r @ [n]))
              (sort_strings (children (nodes w) (J @ r))))), (fs, w))"
proof -
  have d: "tree_ok (nodes w)" "names_ok J" "fs_jail fs = abs_path J" using j by (auto simp: jailed_host_def)
  have n: "names_ok (J @ r)" "names_ok r" "CHR ''/'' \<notin> set c" using d(2) pat(2) by (auto simp: name_ok_def)
  have hp: "hostPath fs (abs_path (r @ [c])) = abs_path ((J @ r) @ [c])"
    using Join_abs_abs [OF d(2) pat(2)] d(2,3) pat(2) by (simp add: hostPath_def OsFS_GetJail_def)
  have "globLiteralPrefix (abs_path (r @ [c])) = (if r = [] then [] else abs_path r)"
    using prefix_dir_slash [OF _ meta(1) n(3)] meta(3) hasMeta_abs_append by blast
  then have ck: "glob_check (abs_path (r @ [c])) (fs, w) = (Inr (), (fs, w))"
    using resolve_dir [OF j wd n(2) dir(2,1)] by (simp add: glob_check_def Let_def attempt_def ret_def)
  let ?ns = "filter (match_items items) (sort_strings (children (nodes w) (J @ r)))"
  have g: "filepath_Glob (abs_path ((J @ r) @ [c])) w = Inr (map (\<lambda>n. abs_path ((J @ r) @ [n])) ?ns)"
    using glob_dir [OF d(1) dir(1) n(1) dir(3) meta(3,1) n(3) meta(2)] .
  have "list_all name_ok ?ns" using dir(3) by (auto simp: list_all_iff)
  then have res: "glob_results (abs_path J) rel wd (map (\<lambda>n. abs_path ((J @ r) @ [n])) ns) =
      map (\<lambda>n. if \<not> rel then abs_path (r @ [n])
               else case Rel wd (abs_path (r @ [n])) of Inr q \<Rightarrow> q | Inl _ \<Rightarrow> abs_path (r @ [n]))
        (filter (\<lambda>n. \<not> dotdot_head (r @ [n])) ns)" if "ns = ?ns" for rel wd ns
    unfolding that [symmetric]
  proof (induction ns)
    case (Cons x ns)
    have nx: "names_ok (J @ r @ [x])" using Cons.prems n(1) by simp
    have "IsInJail (abs_path J) (abs_path (J @ r @ [x])) \<longleftrightarrow> \<not> dotdot_head (r @ [x])"
      using IsInJail_abs_path [OF d(2) nx] by simp
    then show ?case
      using Cons RemoveJailPrefix_below [OF nx] by (simp add: glob_results_def Let_def split: sum.split)
  qed (simp add: glob_results_def)
  have f: "filter (\<lambda>n. match_items items n \<and> \<not> dotdot_head (r @ [n])) xs =
      filter (\<lambda>n. \<not> dotdot_head (r @ [n])) (filter (match_items items) xs)" for xs
    by (simp add: conj_commute)
  have e: "(if \<not> is_abs p then Join [fs_wd fs, p] else p) = (if is_abs p then p else Join [fs_wd fs, p])" by simp
  show ?thesis
    using ck g res [OF refl] d(3)
    by (simp add: OsFS_Glob_def bindE_def OsFS_Getwd_ok [OF wd] Let_def e pat(1) hp os_query_def OsFS_GetJail_def f
        del: filter_filter)
qed

theorem osfs_glob_exact_witness:
  "OsFS_Glob ''../[!-e]'' (demo_fs, demo_world) = (Inr [''.''], (demo_fs, demo_world))"
proof -
  have "jailed_host demo_J (demo_fs, demo_world)" "wd_ok demo_fs" by (rule demo_jail, simp add: wd_ok_def, code_simp)
  moreover have "Clean (if is_abs ''../[!-e]'' then ''../[!-e]'' else Join [fs_wd demo_fs, ''../[!-e]'']) = abs_path ([] @ [''[!-e]''])"
    "names_ok ([] @ [''[!-e]''])" "hasMeta ''[!-e]''" "parse_pattern ''[!-e]'' = Some [PClass False [(33, 101)]]"
    "\<not> hasMeta (abs_path (demo_J @ []))" "is_dir_at (nodes demo_world) (demo_J @ [])" "\<not> dotdot_head []"
    "list_all name_ok (children (nodes demo_world) (demo_J @ []))"
    by code_simp+
  ultimately have "OsFS_Glob ''../[!-e]'' (demo_fs, demo_world) =
    (Inr (map (\<lambda>n. if is_abs ''../[!-e]'' then abs_path ([] @ [n])
                   else case Rel (fs_wd demo_fs) (abs_path ([] @ [n])) of Inr q \<Rightarrow> q | Inl _ \<Rightarrow> abs_path ([] @ [n]))
           (filter (\<lambda>n. match_items [PClass False [(33, 101)]] n \<and> \<not> dotdot_head ([] @ [n]))
              (sort_strings (children (nodes demo_world) (demo_J @ []))))), (demo_fs, demo_world))"
    by (rule osfs_glob_exact)
  moreover have "map (\<lambda>n. if is_abs ''../[!-e]'' then abs_path ([] @ [n])
                   else case Rel (fs_wd demo_fs) (abs_path ([] @ [n])) of Inr q \<Rightarrow> q | Inl _ \<Rightarrow> abs_path ([] @ [n]))
           (filter (\<lambda>n. match_items [PClass False [(33, 101)]] n \<and> \<not> dotdot_head ([] @ [n]))
              (sort_strings (children (nodes demo_world) (demo_J @ [])))) = [''.'']" by code_simp
  ultimately show ?thesis by simp
qed

section \<open>Where it fails\<close>

text \<open>
  The matches are filtered by their spelling only: a pattern whose wildcard stands for a link of the
  jail that leads outside lists the names of the directory outside, although the same path written
  out is refused.
\<close>

lemma glob_lists_outside:
  "fst (OsFS_Glob ''/ou?/*'' (demo_fs, demo_world)) = Inr [''/out/jail'', ''/out/secret''] \<and>
   fst (OsFS_Glob ''/out/*'' (demo_fs, demo_world)) = Inl (escape_err ''/srv'')"
  by code_simp

text \<open>The path of the jail goes into the pattern unescaped: a jail with a meta-character has no matches.\<close>

definition meta_fs :: osfs where
  "meta_fs = \<lparr>fs_jail = ''/srv/j[1]'', fs_wd = ''/''\<rparr>"

definition meta_world :: world where
  "meta_world = demo_world\<lparr>nodes := [([], demo_inode KDir), ([''srv''], demo_inode KDir),
     ([''srv'', ''j[1]''], demo_inode KDir), ([''srv'', ''j[1]'', ''f''], demo_inode (KFile ''x''))]\<rparr>"

lemma glob_jail_unescaped:
  "fst (OsFS_ReadDir ''/'' (meta_fs, meta_world)) = Inr [''f''] \<and>
   fst (OsFS_Glob ''/*'' (meta_fs, meta_world)) = Inr []"
  by code_simp

section \<open>Through the runtime\<close>

text \<open>An absolute pattern, without variables or tildes, is handed on as it is.\<close>

lemma Runtime_Glob_abs:
  assumes s: "in_step s" and p: "rt_ExpandPath (rt_ExpandEnv p s) s = (Inr q, s)" and a: "is_abs q"
  shows "Runtime_Glob p s = on_fs (OsFS_Glob (Clean q)) s"
  using Runtime_Getwd_in_step [OF s] p a
  by (simp add: Runtime_Glob_def validated_in_step [OF s] bindE_def Let_def ret_def split: prod.split sum.split)

end
