(* ===== verification/SchedClock.thy ===== *)
theory SchedClock
  imports Clock
begin

text \<open>
  \<open>src/clock/scheduling.go\<close>: the interface \<open>SchedulingClock\<close> as a locale, and the clocks that use the
  \<open>time\<close> package: \<open>OsClock\<close> and the adapter of a plain \<open>Clock\<close>.
\<close>

section \<open>The time package\<close>

text \<open>
  The runtime's timers: when each fires next, its period (0 for one shot), whether it is active, the
  tick its channel holds, and its callback. \<open>time_pass\<close> is real time going by: everything due fires,
  a ticker's later ticks are dropped while its channel is full.
\<close>

record gotimer =
  g_when :: int
  g_period :: duration
  g_active :: bool
  g_chan :: "int option"
  g_fn :: "nat option"

record gotime =
  g_now :: int
  g_timers :: "gotimer list"
  g_launched :: "nat list"

definition new_gotimer :: "duration \<Rightarrow> duration \<Rightarrow> nat option \<Rightarrow> gotime \<Rightarrow> nat \<times> gotime" where
  "new_gotimer d p f g =
     (length (g_timers g),
      g\<lparr>g_timers := g_timers g @ [\<lparr>g_when = g_now g + sint d, g_period = p, g_active = True, g_chan = None, g_fn = f\<rparr>]\<rparr>)"

definition time_NewTicker :: "duration \<Rightarrow> gotime \<Rightarrow> (clock_error + nat) \<times> gotime" where
  "time_NewTicker d g =
     (if sint d \<le> 0 then (Inl PanicNonPositiveInterval, g)
      else case new_gotimer d d None g of (r, g1) \<Rightarrow> (Inr r, g1))"

definition time_After :: "duration \<Rightarrow> gotime \<Rightarrow> nat \<times> gotime" where
  "time_After d g = new_gotimer d 0 None g"

definition time_AfterFunc :: "duration \<Rightarrow> nat \<Rightarrow> gotime \<Rightarrow> nat \<times> gotime" where
  "time_AfterFunc d f g = new_gotimer d 0 (Some f) g"

definition time_Since :: "int \<Rightarrow> gotime \<Rightarrow> duration" where
  "time_Since t g = time_Sub (g_now g) t"

definition time_Stop :: "nat \<Rightarrow> gotime \<Rightarrow> bool \<times> gotime" where
  "time_Stop r g =
     (g_active (g_timers g ! r), g\<lparr>g_timers := (g_timers g)[r := (g_timers g ! r)\<lparr>g_active := False\<rparr>]\<rparr>)"

definition time_Reset :: "nat \<Rightarrow> duration \<Rightarrow> gotime \<Rightarrow> bool \<times> gotime" where
  "time_Reset r d g =
     (g_active (g_timers g ! r),
      g\<lparr>g_timers := (g_timers g)[r := (g_timers g ! r)\<lparr>g_active := True, g_when := g_now g + sint d\<rparr>]\<rparr>)"

definition due :: "int \<Rightarrow> gotimer \<Rightarrow> bool" where
  "due n tm \<longleftrightarrow> g_active tm \<and> g_when tm \<le> n"

definition expire :: "int \<Rightarrow> gotimer \<Rightarrow> gotimer" where
  "expire n tm =
     (if \<not> due n tm then tm
      else if g_fn tm \<noteq> None then tm\<lparr>g_active := False\<rparr>
      else let tm1 = (if g_chan tm = None then tm\<lparr>g_chan := Some (g_when tm)\<rparr> else tm)
           in if g_period tm = 0 then tm1\<lparr>g_active := False\<rparr>
              else tm1\<lparr>g_when := g_when tm + sint (g_period tm) * ((n - g_when tm) div sint (g_period tm) + 1)\<rparr>)"

definition time_pass :: "duration \<Rightarrow> gotime \<Rightarrow> gotime" where
  "time_pass d g =
     (let n = g_now g + sint d
      in g\<lparr>g_now := n, g_timers := map (expire n) (g_timers g),
          g_launched := g_launched g @ concat (map (\<lambda>tm. if due n tm then (case g_fn tm of None \<Rightarrow> [] | Some f \<Rightarrow> [f]) else [])
                                             (g_timers g))\<rparr>)"

section \<open>OsClock\<close>

record osTicker =
  ot_t :: nat

record osTimer =
  om_t :: nat

definition osTicker_C :: "osTicker \<Rightarrow> nat" where
  "osTicker_C w = ot_t w"

definition osTicker_Stop :: "osTicker \<Rightarrow> gotime \<Rightarrow> gotime" where
  "osTicker_Stop w g = snd (time_Stop (ot_t w) g)"

definition osTimer_Stop :: "osTimer \<Rightarrow> gotime \<Rightarrow> bool \<times> gotime" where
  "osTimer_Stop w g = time_Stop (om_t w) g"

definition osTimer_Reset :: "osTimer \<Rightarrow> duration \<Rightarrow> gotime \<Rightarrow> bool \<times> gotime" where
  "osTimer_Reset w d g = time_Reset (om_t w) d g"

definition OsClock_Now :: "gotime \<Rightarrow> int" where
  "OsClock_Now g = g_now g"

definition OsClock_NewTicker :: "duration \<Rightarrow> gotime \<Rightarrow> (clock_error + osTicker) \<times> gotime" where
  "OsClock_NewTicker d g =
     (case time_NewTicker d g of (Inl e, g1) \<Rightarrow> (Inl e, g1) | (Inr r, g1) \<Rightarrow> (Inr \<lparr>ot_t = r\<rparr>, g1))"

definition OsClock_After :: "duration \<Rightarrow> gotime \<Rightarrow> nat \<times> gotime" where
  "OsClock_After d g = time_After d g"

definition OsClock_AfterFunc :: "duration \<Rightarrow> nat \<Rightarrow> gotime \<Rightarrow> osTimer \<times> gotime" where
  "OsClock_AfterFunc d f g = (case time_AfterFunc d f g of (r, g1) \<Rightarrow> (\<lparr>om_t = r\<rparr>, g1))"

definition OsClock_Since :: "int \<Rightarrow> gotime \<Rightarrow> duration" where
  "OsClock_Since t g = time_Since t g"

section \<open>The adapter\<close>

text \<open>\<open>osSchedulingAdapter\<close>: \<open>wrapped_now\<close> is what the wrapped clock's \<open>Now\<close> answers.\<close>

definition Adapter_NewTicker :: "duration \<Rightarrow> gotime \<Rightarrow> (clock_error + osTicker) \<times> gotime" where
  "Adapter_NewTicker d g =
     (case time_NewTicker d g of (Inl e, g1) \<Rightarrow> (Inl e, g1) | (Inr r, g1) \<Rightarrow> (Inr \<lparr>ot_t = r\<rparr>, g1))"

definition Adapter_After :: "duration \<Rightarrow> gotime \<Rightarrow> nat \<times> gotime" where
  "Adapter_After d g = time_After d g"

definition Adapter_AfterFunc :: "duration \<Rightarrow> nat \<Rightarrow> gotime \<Rightarrow> osTimer \<times> gotime" where
  "Adapter_AfterFunc d f g = (case time_AfterFunc d f g of (r, g1) \<Rightarrow> (\<lparr>om_t = r\<rparr>, g1))"

definition Adapter_Since :: "int \<Rightarrow> int \<Rightarrow> duration" where
  "Adapter_Since wrapped_now t = time_Sub wrapped_now t"

section \<open>The interface\<close>

text \<open>
  What a client of \<open>SchedulingClock\<close> relies on: scheduling does not move the clock, time passes by the
  given duration, \<open>NewTicker\<close> panics exactly on a non-positive period, and a callback nobody else
  registered has run once its duration has passed, not before, and not at all after \<open>Stop\<close>.
\<close>

locale scheduling_clock =
  fixes now_of :: "'s \<Rightarrow> int"
    and new_ticker :: "duration \<Rightarrow> 's \<Rightarrow> (clock_error + 'k) \<times> 's"
    and after_func :: "duration \<Rightarrow> nat \<Rightarrow> 's \<Rightarrow> 'm \<times> 's"
    and stop_timer :: "'m \<Rightarrow> 's \<Rightarrow> bool \<times> 's"
    and since :: "int \<Rightarrow> 's \<Rightarrow> duration"
    and pass :: "duration \<Rightarrow> 's \<Rightarrow> 's option"
    and good :: "'s \<Rightarrow> bool"
    and ran :: "nat \<Rightarrow> 's \<Rightarrow> bool"
    and fresh :: "nat \<Rightarrow> 's \<Rightarrow> bool"
  assumes since_now: "since t s = time_Sub (now_of s) t"
    and ticker_panics: "fst (new_ticker d s) = Inl PanicNonPositiveInterval \<longleftrightarrow> sint d \<le> 0"
    and after_good: "good s \<Longrightarrow> after_func d f s = (m, s1) \<Longrightarrow> good s1 \<and> now_of s1 = now_of s"
    and pass_good: "good s \<Longrightarrow> 0 \<le> sint e \<Longrightarrow> \<exists>s1. pass e s = Some s1 \<and> good s1 \<and> now_of s1 = now_of s + sint e"
    and pass_ran: "good s \<Longrightarrow> fresh f s \<Longrightarrow> 0 \<le> sint e \<Longrightarrow> after_func d f s = (m, s1) \<Longrightarrow> pass e s1 = Some s2 \<Longrightarrow>
      ran f s2 \<longleftrightarrow> sint d \<le> sint e"
    and stop_ran: "good s \<Longrightarrow> fresh f s \<Longrightarrow> 0 \<le> sint e \<Longrightarrow> after_func d f s = (m, s1) \<Longrightarrow> stop_timer m s1 = (b, s2) \<Longrightarrow>
      pass e s2 = Some s3 \<Longrightarrow> b \<and> \<not> ran f s3"
begin

text \<open>Measuring with \<open>Since\<close> from the start of a timer: it has run exactly when its duration is over.\<close>

lemma ran_since:
  assumes "good s" and "fresh f s" and "0 \<le> sint e" and "after_func d f s = (m, s1)" and "pass e s1 = Some s2"
  shows "ran f s2 \<longleftrightarrow> sint d \<le> sint (since (now_of s) s2)"
proof -
  have n: "now_of s2 = now_of s + sint e"
    using pass_good [of s1 e] after_good [OF assms(1,4)] assms(3,5) by auto
  have "sint (word_of_int (sint e) :: 64 word) = sint e" by simp
  moreover have "sint e < 2 ^ 63" "- (2 ^ 63) \<le> sint e" using sint_lt [of e] sint_ge [of e] by simp_all
  ultimately have "sint (since (now_of s) s2) = sint e" by (simp add: since_now n time_Sub_def)
  then show ?thesis using pass_ran [OF assms] by simp
qed

end

end
