(* ===== verification/SchedClock_Props.thy ===== *)
theory SchedClock_Props
  imports SchedClock Clock_Props
begin

text \<open>Both clocks keep the contract of \<open>SchedulingClock\<close>, and agree on what has run.\<close>

section \<open>OsClock\<close>

definition os_ran :: "nat \<Rightarrow> gotime \<Rightarrow> bool" where
  "os_ran f g \<longleftrightarrow> f \<in> set (g_launched g)"

definition os_fresh :: "nat \<Rightarrow> gotime \<Rightarrow> bool" where
  "os_fresh f g \<longleftrightarrow> \<not> os_ran f g \<and> (\<forall>tm \<in> set (g_timers g). g_fn tm \<noteq> Some f)"

lemma os_ran_timers [simp]: "os_ran f (g\<lparr>g_timers := ts\<rparr>) = os_ran f g"
  by (simp add: os_ran_def)

lemma os_ran_pass:
  "os_ran f (time_pass e g) \<longleftrightarrow>
     os_ran f g \<or> (\<exists>tm \<in> set (g_timers g). due (g_now g + sint e) tm \<and> g_fn tm = Some f)"
proof -
  define h where "h n tm = (if due n tm then (case g_fn tm of None \<Rightarrow> [] | Some f \<Rightarrow> [f]) else [])" for n tm
  have "f \<in> set (h n tm) \<longleftrightarrow> due n tm \<and> g_fn tm = Some f" for n tm
    by (cases "due n tm"; cases "g_fn tm") (auto simp: h_def)
  moreover have "g_launched (time_pass e g) = g_launched g @ concat (map (h (g_now g + sint e)) (g_timers g))"
    by (simp add: time_pass_def Let_def h_def [abs_def])
  ultimately show ?thesis by (simp add: os_ran_def)
qed

lemma os_AfterFunc:
  "OsClock_AfterFunc d f g =
     (\<lparr>om_t = length (g_timers g)\<rparr>,
      g\<lparr>g_timers := g_timers g @ [\<lparr>g_when = g_now g + sint d, g_period = 0, g_active = True, g_chan = None, g_fn = Some f\<rparr>]\<rparr>)"
  by (simp add: OsClock_AfterFunc_def time_AfterFunc_def new_gotimer_def)

lemma os_callback_runs:
  assumes "os_fresh f g" and "OsClock_AfterFunc d f g = (m, g1)"
  shows "os_ran f (time_pass e g1) \<longleftrightarrow> sint d \<le> sint e"
  using assms by (auto simp: os_AfterFunc os_ran_pass os_fresh_def due_def)

lemma os_callback_stopped:
  assumes "os_fresh f g" and "OsClock_AfterFunc d f g = (m, g1)" and "osTimer_Stop m g1 = (b, g2)"
  shows "b \<and> \<not> os_ran f (time_pass e g2)"
  using assms by (auto simp: os_AfterFunc os_ran_pass os_fresh_def due_def osTimer_Stop_def time_Stop_def)

interpretation os_clock: scheduling_clock OsClock_Now OsClock_NewTicker OsClock_AfterFunc osTimer_Stop OsClock_Since
  "\<lambda>e g. Some (time_pass e g)" "\<lambda>g. True" os_ran os_fresh
proof unfold_locales
  fix s s1 s2 s3 :: gotime and d e :: duration and f :: nat and m :: osTimer and b :: bool
  show "fst (OsClock_NewTicker d s) = Inl PanicNonPositiveInterval \<longleftrightarrow> sint d \<le> 0"
    by (simp add: OsClock_NewTicker_def time_NewTicker_def new_gotimer_def)
  show "OsClock_AfterFunc d f s = (m, s1) \<Longrightarrow> True \<and> OsClock_Now s1 = OsClock_Now s"
    by (auto simp: os_AfterFunc OsClock_Now_def)
  show "\<exists>s1. Some (time_pass e s) = Some s1 \<and> True \<and> OsClock_Now s1 = OsClock_Now s + sint e"
    by (simp add: time_pass_def OsClock_Now_def Let_def)
  show "os_fresh f s \<Longrightarrow> OsClock_AfterFunc d f s = (m, s1) \<Longrightarrow> Some (time_pass e s1) = Some s2 \<Longrightarrow>
      os_ran f s2 \<longleftrightarrow> sint d \<le> sint e"
    using os_callback_runs by blast
  show "os_fresh f s \<Longrightarrow> OsClock_AfterFunc d f s = (m, s1) \<Longrightarrow> osTimer_Stop m s1 = (b, s2) \<Longrightarrow>
      Some (time_pass e s2) = Some s3 \<Longrightarrow> b \<and> \<not> os_ran f s3"
    using os_callback_stopped by blast
qed (simp add: OsClock_Since_def time_Since_def OsClock_Now_def)

section \<open>TestClock\<close>

definition test_ran :: "nat \<Rightarrow> clk \<Rightarrow> bool" where
  "test_ran f s \<longleftrightarrow> f \<in> set (launched s)"

definition test_fresh :: "nat \<Rightarrow> clk \<Rightarrow> bool" where
  "test_fresh f s \<longleftrightarrow> \<not> test_ran f s \<and> (\<forall>r < length (store s). fn (store s ! r) \<noteq> Some f)"

text \<open>The entries that the loop adds are those of tickers.\<close>

lemma after_fire_new:
  assumes ok: "clk_ok s" and ne: "entries s \<noteq> []"
    and r: "length (store s) \<le> r" "r < length (store (after_fire s))"
  shows "ent_kind (store (after_fire s) ! r) = kindTicker"
proof -
  let ?r = "entries s ! 0" and ?p = "after_pop s"
  note ap = after_pop_spec [OF ok ne]
  have l: "length (store ?p) = length (store s)" using same_asD [OF ap(2)] by simp
  have r0: "?r < length (store s)" using ref_lt [OF ok] ne by simp
  show ?thesis
  proof (cases "ent_kind (store s ! ?r) = kindTicker")
    case True
    have "reinsert (store s ! ?r) ?p = reinsert (store ?p ! ?r) ?p"
      using same_entry [OF ap(2) r0] by (simp add: reinsert_def)
    then have "length (store (after_fire s)) = Suc (length (store s))"
      using reinsert_spec(3) [OF ap(1), of ?r] same_entry(3) [OF ap(2) r0] r0 l True
      by (simp add: after_fire_def Let_def)
    then show ?thesis using after_fire_spec(4) [OF ok ne True] r by (auto simp: less_Suc_eq)
  next
    case False
    then show ?thesis using r l by (simp add: after_fire_def Let_def)
  qed
qed

lemma drains_new_tickers:
  "drains n s fs s' \<Longrightarrow> clk_ok s \<Longrightarrow> length (store s) \<le> r \<Longrightarrow> r < length (store s') \<Longrightarrow>
   ent_kind (store s' ! r) = kindTicker"
proof (induction rule: drains.induct)
  case (drains_skip s fs s')
  then have ne: "entries s \<noteq> []" by (auto simp: drained_def)
  note ap = after_pop_spec [OF drains_skip.prems(1) ne]
  show ?case using drains_skip.IH [OF ap(1)] drains_skip.prems same_asD(6) [OF ap(2)] by simp
next
  case (drains_fire s fs s')
  then have ne: "entries s \<noteq> []" by (auto simp: drained_def)
  note af = after_fire_spec [OF drains_fire.prems(1) ne]
  show ?case
  proof (cases "r < length (store (after_fire s))")
    case True
    have "extends (after_fire s) s'" using drains_ok [OF drains_fire.hyps(3) af(1)] by simp
    note ee = extends_entry(3) [OF this True]
    show ?thesis unfolding ee by (rule after_fire_new [OF drains_fire.prems(1) ne drains_fire.prems(2) True])
  next
    case False
    then show ?thesis using drains_fire.IH [OF af(1)] drains_fire.prems(3) by simp
  qed
qed simp

text \<open>What a fire launches, and all of them.\<close>

lemma launched_fires:
  "f \<in> set (launched (fold fire fs s)) \<Longrightarrow>
   f \<in> set (launched s) \<or>
   (\<exists>r u. (r, u) \<in> set fs \<and> ent_kind (store s ! r) = kindAfterFunc \<and> the (fn (store s ! r)) = f)"
proof (induction fs arbitrary: s)
  case (Cons x fs)
  have st: "store (fire x s) = store s" using store_fires(1) [of "[x]" s] by simp
  have "f \<in> set (launched (fire x s)) \<Longrightarrow> f \<in> set (launched s) \<or>
      ent_kind (store s ! fst x) = kindAfterFunc \<and> the (fn (store s ! fst x)) = f"
    by (auto simp: fire_def try_send_def Let_def split: entryKind.splits if_splits)
  then show ?case using Cons.IH [of "fire x s"] Cons.prems st by (cases x) auto
qed simp

lemma advance_launched:
  assumes ok: "clk_ok s" and ad: "TestClock_Advance e s = Some s'" and f: "f \<in> set (launched s')"
  shows "f \<in> set (launched s) \<or>
    (\<exists>r < length (store s). live s r \<and> fn (store s ! r) = Some f \<and> deadline (store s ! r) \<le> now s + sint e)"
proof -
  obtain fs u where d: "drains (now s + sint e) s fs u"
      "TestClock_Advance e s = Some (fold fire fs (aside (now s + sint e) (chans s) (launched s) u))"
    using advance_total [OF ok] by blast
  note du = drains_ok [OF d(1) ok]
  have "f \<in> set (launched s) \<or> (\<exists>r t. (r, t) \<in> set fs \<and> ent_kind (store u ! r) = kindAfterFunc \<and> the (fn (store u ! r)) = f)"
    using launched_fires [of f fs "aside (now s + sint e) (chans s) (launched s) u"] f d(2) ad by auto
  then show ?thesis
  proof
    assume "\<exists>r t. (r, t) \<in> set fs \<and> ent_kind (store u ! r) = kindAfterFunc \<and> the (fn (store u ! r)) = f"
    then obtain r t where r: "(r, t) \<in> set fs" "ent_kind (store u ! r) = kindAfterFunc" "the (fn (store u ! r)) = f"
      by blast
    note snd = fires_sound [OF d(1) ok r(1)]
    have rl: "r < length (store s)"
      using drains_new_tickers [OF d(1) ok, of r] snd r(2) by (cases "r < length (store s)") auto
    have "entry_ok u (store u ! r)" using du snd by (simp add: clk_ok_def data_ok_def)
    then have "fn (store u ! r) = Some f" using r(2,3) by (auto simp: entry_ok_def)
    then show ?thesis
      using extends_entry(1,6) [of s u r] extends_live [of s u r] du rl snd by auto
  qed simp
qed

lemma test_callback_runs:
  assumes ok: "clk_ok s" and fr: "test_fresh f s" and new: "TestClock_AfterFunc d f s = (tm, s1)"
    and ad: "TestClock_Advance e s1 = Some s2"
  shows "test_ran f s2 \<longleftrightarrow> sint d \<le> sint e"
proof
  note nc = new_callback_state [OF ok new]
  let ?r = "length (store s)"
  assume "test_ran f s2"
  then obtain r where r: "r < length (store s1)" "fn (store s1 ! r) = Some f" "deadline (store s1 ! r) \<le> now s1 + sint e"
    using advance_launched [OF nc(1) ad] fr nc(3) by (auto simp: test_ran_def test_fresh_def)
  then have "r = ?r" using nc(5,11) fr by (auto simp: test_fresh_def less_Suc_eq)
  then show "sint d \<le> sint e" using r(3) nc(2,10) by simp
next
  note nc = new_callback_state [OF ok new]
  let ?r = "length (store s)"
  assume le: "sint d \<le> sint e"
  obtain fs s' where d: "drains (now s1 + sint e) s1 fs s'"
      "TestClock_Advance e s1 = Some (fold fire fs (aside (now s1 + sint e) (chans s1) (launched s1) s'))"
    using advance_total [OF nc(1)] by blast
  have ext: "extends s1 s'" using drains_ok [OF d(1) nc(1)] by simp
  have "?r < length (store s1)" using nc(5) by simp
  note ee = extends_entry [OF ext this]
  have "deadline (store s1 ! ?r) \<le> now s1 + sint e" using nc(2,10) le by simp
  then have "(?r, deadline (store s1 ! ?r)) \<in> set fs" by (rule fires_complete [OF d(1) nc(1,6,7)])
  moreover have "ent_kind (store s' ! ?r) = kindAfterFunc" "fn (store s' ! ?r) = Some f"
    using nc(8,9) unfolding ee by simp_all
  ultimately show "test_ran f s2"
    using launched_fire [of ?r _ fs "aside (now s1 + sint e) (chans s1) (launched s1) s'"] d(2) ad
    by (auto simp: test_ran_def)
qed

lemma test_callback_stopped:
  assumes ok: "clk_ok s" and fr: "test_fresh f s" and new: "TestClock_AfterFunc d f s = (tm, s1)"
    and st: "Timer_Stop tm s1 = (b, s2)" and ad: "TestClock_Advance e s2 = Some s3"
  shows "b \<and> \<not> test_ran f s3"
proof -
  note nc = new_callback_state [OF ok new]
  let ?r = "length (store s)"
  have b: "b" and s2: "store s2 = (store s1)[?r := (store s1 ! ?r)\<lparr>dead := True\<rparr>]" "launched s2 = launched s1"
    using st nc(4,7) by (auto simp: Timer_Stop_def sched_cancel_def live_def upd_entry_def)
  have ok2: "clk_ok s2" using clk_ok_Stop [OF nc(1), of tm] st by simp
  have "\<not> test_ran f s3"
  proof
    assume "test_ran f s3"
    then obtain r where r: "r < length (store s2)" "live s2 r" "fn (store s2 ! r) = Some f"
      using advance_launched [OF ok2 ad] fr nc(3) s2(2) by (auto simp: test_ran_def test_fresh_def)
    have "r = ?r"
      using r(1,3) nc(5,11) fr unfolding s2(1) by (auto simp: test_fresh_def less_Suc_eq nth_list_update split: if_splits)
    then show False using r(1,2) by (simp add: live_def s2(1))
  qed
  then show ?thesis using b by simp
qed

interpretation test_clock: scheduling_clock TestClock_Now TestClock_NewTicker TestClock_AfterFunc Timer_Stop TestClock_Since
  TestClock_Advance clk_ok test_ran test_fresh
proof unfold_locales
  fix s s1 s2 s3 :: clk and d e :: duration and f :: nat and m :: testTimer and b :: bool and t :: int
  show "TestClock_Since t s = time_Sub (TestClock_Now s) t" by (simp add: TestClock_Since_def)
  show "fst (TestClock_NewTicker d s) = Inl PanicNonPositiveInterval \<longleftrightarrow> sint d \<le> 0"
    by (simp add: TestClock_NewTicker_def split: prod.split)
  show "clk_ok s \<Longrightarrow> TestClock_AfterFunc d f s = (m, s1) \<Longrightarrow> clk_ok s1 \<and> TestClock_Now s1 = TestClock_Now s"
    using new_callback_state(1,2) by (simp add: TestClock_Now_def)
  show "\<exists>s1. TestClock_Advance e s = Some s1 \<and> clk_ok s1 \<and> TestClock_Now s1 = TestClock_Now s + sint e" if ok: "clk_ok s"
  proof -
    obtain fs u where "TestClock_Advance e s = Some (fold fire fs (aside (now s + sint e) (chans s) (launched s) u))"
      using advance_total [OF ok] by blast
    then show ?thesis using clk_ok_advance [OF ok] by (simp add: TestClock_Now_def)
  qed
  show "clk_ok s \<Longrightarrow> test_fresh f s \<Longrightarrow> TestClock_AfterFunc d f s = (m, s1) \<Longrightarrow> TestClock_Advance e s1 = Some s2 \<Longrightarrow>
      test_ran f s2 \<longleftrightarrow> sint d \<le> sint e"
    by (rule test_callback_runs)
  show "clk_ok s \<Longrightarrow> test_fresh f s \<Longrightarrow> TestClock_AfterFunc d f s = (m, s1) \<Longrightarrow> Timer_Stop m s1 = (b, s2) \<Longrightarrow>
      TestClock_Advance e s2 = Some s3 \<Longrightarrow> b \<and> \<not> test_ran f s3"
    by (rule test_callback_stopped)
qed

section \<open>Agreement\<close>

text \<open>
  C17. Tests on a \<open>TestClock\<close> see what production code sees on \<open>OsClock\<close>: a callback registered with
  \<open>AfterFunc(d, f)\<close> on both has run after the same duration \<open>e\<close> on both or on neither, which is when
  \<open>d \<le> e\<close>, whatever else is scheduled. They part only in what \<open>Stop\<close> answers then: the \<open>time\<close> package
  says whether the timer was still active, as the interface documents, while a \<open>TestClock\<close> always says
  it was, since nothing marks a fired entry.
\<close>

theorem clocks_agree:
  assumes "clk_reach t s" and "test_fresh f s" and "os_fresh f g" and "0 \<le> sint e"
    and test: "TestClock_AfterFunc d f s = (tm, s1)" "TestClock_Advance e s1 = Some s2"
    and os: "OsClock_AfterFunc d f g = (om, g1)"
  shows "(test_ran f s2 \<longleftrightarrow> os_ran f (time_pass e g1)) \<and> (test_ran f s2 \<longleftrightarrow> sint d \<le> sint e) \<and>
    (fst (osTimer_Stop om (time_pass e g1)) \<longleftrightarrow> \<not> os_ran f (time_pass e g1)) \<and> fst (Timer_Stop tm s2)"
proof -
  note ok = clk_reach_ok [OF assms(1)]
  have t: "test_ran f s2 \<longleftrightarrow> sint d \<le> sint e" by (rule test_clock.pass_ran [OF ok assms(2,4) test])
  have o: "os_ran f (time_pass e g1) \<longleftrightarrow> sint d \<le> sint e"
    using os_clock.pass_ran [OF _ assms(3,4) os] by simp
  have a: "fst (osTimer_Stop om (time_pass e g1)) \<longleftrightarrow> \<not> sint d \<le> sint e"
    using os by (auto simp: os_AfterFunc osTimer_Stop_def time_Stop_def time_pass_def Let_def nth_append expire_def due_def)
  note nc = new_callback_state [OF ok test(1)]
  obtain fs u where u: "drains (now s1 + sint e) s1 fs u"
      "TestClock_Advance e s1 = Some (fold fire fs (aside (now s1 + sint e) (chans s1) (launched s1) u))"
    using advance_total [OF nc(1)] by blast
  have "extends s1 u" using drains_ok [OF u(1) nc(1)] by simp
  then have "\<not> dead (store u ! length (store s))" using extends_entry(4) [of s1 u] nc(5,7) by (simp add: live_def)
  then have "fst (Timer_Stop tm s2)" using u(2) test(2) nc(4) by (auto simp: Timer_Stop_def sched_cancel_def)
  then show ?thesis using t o a by blast
qed

definition demo_time :: gotime where
  "demo_time = \<lparr>g_now = 0, g_timers = [], g_launched = []\<rparr>"

theorem clocks_agree_witness:
  "\<exists>s2. TestClock_Advance 5 (snd (TestClock_AfterFunc 4 7 (NewTestClock 100))) = Some s2 \<and>
     test_ran 7 s2 \<and> os_ran 7 (time_pass 5 (snd (OsClock_AfterFunc 4 7 demo_time)))"
proof -
  define s1 where "s1 = snd (TestClock_AfterFunc 4 7 (NewTestClock 100))"
  define g1 where "g1 = snd (OsClock_AfterFunc 4 7 demo_time)"
  have r: "clk_reach 100 (NewTestClock 100)" "clk_reach 100 s1" unfolding s1_def by (intro reach_intros)+
  obtain fs u where "TestClock_Advance 5 s1 = Some (fold fire fs u)"
    using advance_total [OF clk_reach_ok [OF r(2)], of 5] by blast
  then obtain s2 where s2: "TestClock_Advance 5 s1 = Some s2" by blast
  have f: "test_fresh 7 (NewTestClock 100)" "os_fresh 7 demo_time"
    by (simp_all add: test_fresh_def test_ran_def NewTestClock_def newScheduler_def os_fresh_def os_ran_def demo_time_def)
  have d: "0 \<le> sint (5 :: duration)" "sint (4 :: duration) \<le> sint (5 :: duration)" by code_simp+
  obtain tm om where t: "TestClock_AfterFunc 4 7 (NewTestClock 100) = (tm, s1)" "OsClock_AfterFunc 4 7 demo_time = (om, g1)"
    unfolding s1_def g1_def by (metis prod.collapse)
  show ?thesis
    using clocks_agree [OF r(1) f d(1) t(1) s2 t(2)] s2 d(2) by (auto simp: s1_def g1_def)
qed

end
