(* ===== verification/Hash.thy ===== *)
theory Hash
  imports GoStrings "HOL-Library.Word"
begin

unbundle bit_operations_syntax

text \<open>
  \<open>src/toolkit/hash.go\<close>: \<open>MD5Hasher.Hash\<close>, with \<open>crypto/md5\<close> (RFC 1321) on 32-bit words and \<open>%x\<close> on
  bytes.
\<close>

section \<open>MD5\<close>

definition md5_shifts :: "nat list" where
  "md5_shifts =
     concat (replicate 4 [7, 12, 17, 22]) @ concat (replicate 4 [5, 9, 14, 20]) @
     concat (replicate 4 [4, 11, 16, 23]) @ concat (replicate 4 [6, 10, 15, 21])"

text \<open>The integer parts of \<open>2 ^ 32 * \<bar>sin i\<bar>\<close>, for i from 1 to 64.\<close>

definition md5_table :: "32 word list" where
  "md5_table =
     [0xd76aa478, 0xe8c7b756, 0x242070db, 0xc1bdceee, 0xf57c0faf, 0x4787c62a, 0xa8304613, 0xfd469501,
      0x698098d8, 0x8b44f7af, 0xffff5bb1, 0x895cd7be, 0x6b901122, 0xfd987193, 0xa679438e, 0x49b40821,
      0xf61e2562, 0xc040b340, 0x265e5a51, 0xe9b6c7aa, 0xd62f105d, 0x02441453, 0xd8a1e681, 0xe7d3fbc8,
      0x21e1cde6, 0xc33707d6, 0xf4d50d87, 0x455a14ed, 0xa9e3e905, 0xfcefa3f8, 0x676f02d9, 0x8d2a4c8a,
      0xfffa3942, 0x8771f681, 0x6d9d6122, 0xfde5380c, 0xa4beea44, 0x4bdecfa9, 0xf6bb4b60, 0xbebfbc70,
      0x289b7ec6, 0xeaa127fa, 0xd4ef3085, 0x04881d05, 0xd9d4d039, 0xe6db99e5, 0x1fa27cf8, 0xc4ac5665,
      0xf4292244, 0x432aff97, 0xab9423a7, 0xfc93a039, 0x655b59c3, 0x8f0ccc92, 0xffeff47d, 0x85845dd1,
      0x6fa87e4f, 0xfe2ce6e0, 0xa3014314, 0x4e0811a1, 0xf7537e82, 0xbd3af235, 0x2ad7d2bb, 0xeb86d391]"

type_synonym md5_state = "32 word \<times> 32 word \<times> 32 word \<times> 32 word"

definition rotl32 :: "nat \<Rightarrow> 32 word \<Rightarrow> 32 word" where
  "rotl32 s x = push_bit s x OR drop_bit (32 - s) x"

text \<open>One of the 64 steps on a block: its round function, the index of the word it reads, the rotation.\<close>

definition md5_step :: "32 word list \<Rightarrow> nat \<times> nat \<times> 32 word \<Rightarrow> md5_state \<Rightarrow> md5_state" where
  "md5_step block = (\<lambda>(i, s, k) (a, b, c, d).
     let (f, g) =
           (if i < 16 then ((b AND c) OR (NOT b AND d), i)
            else if i < 32 then ((d AND b) OR (NOT d AND c), (5 * i + 1) mod 16)
            else if i < 48 then (b XOR c XOR d, (3 * i + 5) mod 16)
            else (c XOR (b OR NOT d), (7 * i) mod 16))
     in (d, b + rotl32 s (a + f + k + block ! g), b, c))"

definition md5_block :: "md5_state \<Rightarrow> 32 word list \<Rightarrow> md5_state" where
  "md5_block = (\<lambda>(a0, b0, c0, d0) block.
     let (a, b, c, d) = fold (md5_step block) (zip [0..<64] (zip md5_shifts md5_table)) (a0, b0, c0, d0)
     in (a0 + a, b0 + b, c0 + c, d0 + d))"

text \<open>Little-endian: the bytes of a word, the words of bytes, four bytes at a time.\<close>

fun le_bytes :: "nat \<Rightarrow> int \<Rightarrow> int list" where
  "le_bytes 0 x = []"
| "le_bytes (Suc n) x = x mod 256 # le_bytes n (x div 256)"

fun le_words :: "int list \<Rightarrow> 32 word list" where
  "le_words (a # b # c # d # xs) =
     word_of_int (a + 256 * (b + 256 * (c + 256 * d))) # le_words xs"
| "le_words xs = []"

text \<open>A 1 bit, zeros up to 56 bytes modulo 64, and the length in bits as 8 bytes (modulo \<open>2 ^ 64\<close>).\<close>

definition md5_pad :: "int list \<Rightarrow> int list" where
  "md5_pad m =
     m @ [0x80] @ replicate (nat ((119 - int (length m) mod 64) mod 64)) 0 @ le_bytes 8 ((8 * int (length m)) mod 2 ^ 64)"

fun md5_blocks :: "nat \<Rightarrow> md5_state \<Rightarrow> 32 word list \<Rightarrow> md5_state" where
  "md5_blocks 0 st ws = st"
| "md5_blocks (Suc n) st ws = md5_blocks n (md5_block st (take 16 ws)) (drop 16 ws)"

definition md5_Sum :: "string \<Rightarrow> int list" where
  "md5_Sum data =
     (let ws = le_words (md5_pad (map of_char data));
          (a, b, c, d) = md5_blocks (length ws div 16) (0x67452301, 0xefcdab89, 0x98badcfe, 0x10325476) ws
      in concat (map (\<lambda>w. le_bytes 4 (uint w)) [a, b, c, d]))"

section \<open>Hash\<close>

definition hex_digit :: "int \<Rightarrow> char" where
  "hex_digit n = (if n < 10 then char_of (48 + n) else char_of (87 + n))"

definition hex_bytes :: "int list \<Rightarrow> string" where
  "hex_bytes bs = concat (map (\<lambda>b. [hex_digit (b div 16), hex_digit (b mod 16)]) bs)"

definition MD5Hasher_Hash :: "string \<Rightarrow> string" where
  "MD5Hasher_Hash data = hex_bytes (md5_Sum (TrimSpace data))"

end
