(* ===== verification/ProcInfo.thy ===== *)
theory ProcInfo
  imports Runtime Hash
begin

text \<open>
  \<open>src/toolkit/process.go\<close>: the identity of the process, with its random UUID. The bytes that
  \<open>crypto/rand\<close> delivers, the host name and the process number are arguments.
\<close>

definition set_version :: "8 word list \<Rightarrow> 8 word list" where
  "set_version buf = buf[6 := (buf ! 6 AND 0x0f) OR 0x40]"

definition set_variant :: "8 word list \<Rightarrow> 8 word list" where
  "set_variant buf = buf[8 := (buf ! 8 AND 0x3f) OR 0x80]"

text \<open>\<open>buf[a:b]\<close> under \<open>%x\<close>; the widths of the format are those of the slices.\<close>

definition hex_slice :: "nat \<Rightarrow> nat \<Rightarrow> 8 word list \<Rightarrow> string" where
  "hex_slice a b buf = hex_bytes (map uint (take (b - a) (drop a buf)))"

definition generateUID :: "8 word list \<Rightarrow> string" where
  "generateUID random =
     (let buf = set_variant (set_version random)
      in hex_slice 0 4 buf @ ''-'' @ hex_slice 4 6 buf @ ''-'' @ hex_slice 6 8 buf @ ''-'' @
         hex_slice 8 10 buf @ ''-'' @ hex_slice 10 16 buf)"

text \<open>\<open>c.Now()\<close>: the time of a test clock, the real time, or what another clock answers.\<close>

definition Clock_Now :: "int \<Rightarrow> (nat \<Rightarrow> int) \<Rightarrow> sys \<Rightarrow> gclock \<Rightarrow> int" where
  "Clock_Now real_now other_now y c =
     (case c of
        OsClockV \<Rightarrow> real_now
      | TestClockV n \<Rightarrow> TestClock_Now (s_clks y ! n)
      | OtherSchedV n \<Rightarrow> other_now n
      | PlainClockV n \<Rightarrow> other_now n)"

definition NewProcessInfo ::
  "int \<Rightarrow> (goerr + string) \<Rightarrow> 8 word list \<Rightarrow> int \<Rightarrow> (nat \<Rightarrow> int) \<Rightarrow> sys \<Rightarrow> gclock \<Rightarrow> process_info" where
  "NewProcessInfo os_Getpid os_Hostname random real_now other_now y c =
     \<lparr>PID = os_Getpid, Hostname = (case os_Hostname of Inl _ \<Rightarrow> [] | Inr h \<Rightarrow> h),
      StartedAt = Clock_Now real_now other_now y c, UID = generateUID random\<rparr>"

end
