(* ===== verification/Identity_Props.thy ===== *)
theory Identity_Props
  imports ProcInfo
begin

text \<open>Hashes and process identities: what their hexadecimal text determines.\<close>

section \<open>Trimming\<close>

text \<open>No encoding is a prefix of another, and none begins inside another.\<close>

definition prefix_free :: "string list \<Rightarrow> bool" where
  "prefix_free encs = list_all (\<lambda>a. a \<noteq> [] \<and> list_all (\<lambda>b. prefix a b \<longrightarrow> a = b) encs) encs"

definition no_overlap :: "string list \<Rightarrow> bool" where
  "no_overlap encs = list_all (\<lambda>a. list_all (\<lambda>b. hd b \<notin> set (tl a)) encs) encs"

lemma spaces_prefix_free: "prefix_free space_encodings" "prefix_free (map rev space_encodings)"
  "no_overlap space_encodings"
  by code_simp+

lemma strip_front_enc:
  assumes "prefix_free encs" and "e \<in> set encs"
  shows "strip_front encs (e @ s) = strip_front encs s"
proof -
  have "find (\<lambda>a. a \<noteq> [] \<and> prefix a (e @ s)) encs \<noteq> None"
    using assms by (auto simp: find_None_iff prefix_free_def list_all_iff)
  then obtain a where a: "find (\<lambda>a. a \<noteq> [] \<and> prefix a (e @ s)) encs = Some a" by blast
  then have p: "a \<in> set encs" "prefix a (e @ s)" by (auto simp: find_Some_iff)
  then have "prefix a e \<or> prefix e a" using prefix_same_cases [of a "e @ s" e] by simp
  then have "a = e" using assms p(1) by (auto simp: prefix_free_def list_all_iff)
  then show ?thesis using a by (simp add: strip_front.simps [of encs "e @ s"])
qed

lemma strip_front_concat:
  "prefix_free encs \<Longrightarrow> set es \<subseteq> set encs \<Longrightarrow> strip_front encs (concat es @ s) = strip_front encs s"
  by (induction es) (simp_all add: strip_front_enc)

lemma strip_front_Nil [simp]:
  assumes "prefix_free encs"
  shows "strip_front encs [] = []"
proof -
  have "find (\<lambda>e. e \<noteq> [] \<and> prefix e []) encs = None" by (auto simp: find_None_iff)
  then show ?thesis by (subst strip_front.simps) simp
qed

text \<open>Spaces at the far end do not disturb the stripping of the front.\<close>

lemma prefix_before_spaces:
  assumes ov: "no_overlap encs" and pf: "prefix_free encs" and es: "set es \<subseteq> set encs"
    and e: "e \<in> set encs" and s: "s \<noteq> []"
  shows "prefix e (s @ concat es) \<longleftrightarrow> prefix e s"
proof
  assume "prefix e (s @ concat es)"
  then show "prefix e s" unfolding prefix_append
  proof
    assume "\<exists>r. e = s @ r \<and> prefix r (concat es)"
    then obtain r where r: "e = s @ r" "prefix r (concat es)" by blast
    show ?thesis
    proof (cases "r = []")
      case False
      then obtain b bs where b: "es = b # bs" using r(2) by (cases es) auto
      then have be: "b \<in> set encs" "b \<noteq> []" using es pf by (auto simp: prefix_free_def list_all_iff)
      obtain x xs y ys where xy: "b = x # xs" "r = y # ys" using be(2) False by (cases b; cases r) auto
      then have "x = y" using r(2) b by simp
      then have "hd b \<in> set (tl e)" using r(1) s xy by (cases s) auto
      then show ?thesis using ov e be(1) by (auto simp: no_overlap_def list_all_iff)
    qed (use r in simp)
  qed
qed (auto simp: prefix_append)

lemma strip_front_before:
  assumes ov: "no_overlap encs" and pf: "prefix_free encs" and es: "set es \<subseteq> set encs"
  shows "strip_front encs (s @ concat es) =
    (if strip_front encs s = [] then [] else strip_front encs s @ concat es)"
  using assms
proof (induction encs s rule: strip_front.induct)
  case (1 encs s)
  show ?case
  proof (cases "s = []")
    case True
    then show ?thesis using strip_front_concat [OF "1.prems"(2,3), of "[]"] "1.prems"(2) by simp
  next
    case False
    have f: "find (\<lambda>e. e \<noteq> [] \<and> prefix e (s @ concat es)) encs = find (\<lambda>e. e \<noteq> [] \<and> prefix e s) encs"
      by (rule find_cong) (use prefix_before_spaces [OF "1.prems" _ False] in auto)
    show ?thesis
    proof (cases "find (\<lambda>e. e \<noteq> [] \<and> prefix e s) encs")
      case None
      then show ?thesis
        using f False by (simp add: strip_front.simps [of encs "s @ concat es"] strip_front.simps [of encs s])
    next
      case (Some e)
      then have "prefix e s" by (auto simp: find_Some_iff)
      then have "length e \<le> length s" by (rule prefix_length_le)
      then show ?thesis
        using "1.IH" [OF Some "1.prems"] f Some
        by (simp add: strip_front.simps [of encs "s @ concat es"] strip_front.simps [of encs s])
    qed
  qed
qed

lemma TrimSpace_spaces:
  assumes "set ws \<subseteq> set space_encodings" and "set ws' \<subseteq> set space_encodings"
  shows "TrimSpace (concat ws @ d @ concat ws') = TrimSpace d"
proof -
  have "TrimLeftSpace (concat ws @ d @ concat ws') =
      (if TrimLeftSpace d = [] then [] else TrimLeftSpace d @ concat ws')"
    using strip_front_concat [OF spaces_prefix_free(1) assms(1)]
      strip_front_before [OF spaces_prefix_free(3,1) assms(2)]
    by (simp add: TrimLeftSpace_def)
  moreover have "TrimRightSpace (x @ concat ws') = TrimRightSpace x" for x
  proof -
    have "set (map rev (rev ws')) \<subseteq> set (map rev space_encodings)" using assms(2) by auto
    from strip_front_concat [OF spaces_prefix_free(2) this, of "rev x"] show ?thesis
      by (simp add: TrimRightSpace_def rev_concat rev_map)
  qed
  ultimately show ?thesis by (simp add: TrimSpace_def)
qed

section \<open>Hexadecimal text\<close>

definition hex_chars :: string where
  "hex_chars = ''0123456789abcdef''"

lemma hex_digit_nth: "0 \<le> n \<Longrightarrow> n < 16 \<Longrightarrow> hex_digit n = hex_chars ! nat n"
proof -
  assume "0 \<le> n" "n < 16"
  then have "n \<in> set [0..15]" by simp
  moreover have "list_all (\<lambda>n. hex_digit n = hex_chars ! nat n) [0..15]" by code_simp
  ultimately show ?thesis by (simp add: list_all_iff)
qed

lemma hex_digit_inj: "0 \<le> m \<Longrightarrow> m < 16 \<Longrightarrow> 0 \<le> n \<Longrightarrow> n < 16 \<Longrightarrow> hex_digit m = hex_digit n \<longleftrightarrow> m = n"
proof -
  assume a: "0 \<le> m" "m < 16" "0 \<le> n" "n < 16"
  have "distinct hex_chars" "length hex_chars = 16" by code_simp+
  then show ?thesis using a by (simp add: hex_digit_nth nth_eq_iff_index_eq eq_nat_nat_iff)
qed

definition byte_ok :: "int \<Rightarrow> bool" where
  "byte_ok b \<longleftrightarrow> 0 \<le> b \<and> b < 256"

lemma length_hex_bytes [simp]: "length (hex_bytes bs) = 2 * length bs"
  by (induction bs) (simp_all add: hex_bytes_def)

lemma hex_bytes_chars: "list_all byte_ok bs \<Longrightarrow> set (hex_bytes bs) \<subseteq> set hex_chars"
proof (induction bs)
  case (Cons b bs)
  then have "0 \<le> b div 16" "b div 16 < 16" "0 \<le> b mod 16" "b mod 16 < 16" by (auto simp: byte_ok_def)
  moreover have "length hex_chars = 16" by code_simp
  ultimately have "hex_digit (b div 16) \<in> set hex_chars" "hex_digit (b mod 16) \<in> set hex_chars"
    unfolding hex_digit_nth [OF \<open>0 \<le> b div 16\<close> \<open>b div 16 < 16\<close>] hex_digit_nth [OF \<open>0 \<le> b mod 16\<close> \<open>b mod 16 < 16\<close>]
    by (intro nth_mem; linarith)+
  then show ?case using Cons by (simp add: hex_bytes_def)
qed (simp add: hex_bytes_def)

lemma hex_bytes_inj:
  "list_all byte_ok bs \<Longrightarrow> list_all byte_ok cs \<Longrightarrow> length bs = length cs \<Longrightarrow>
   hex_bytes bs = hex_bytes cs \<longleftrightarrow> bs = cs"
proof (induction bs cs rule: list_induct2')
  case (4 b bs c cs)
  then have r: "0 \<le> b div 16" "b div 16 < 16" "0 \<le> b mod 16" "b mod 16 < 16"
      "0 \<le> c div 16" "c div 16 < 16" "0 \<le> c mod 16" "c mod 16 < 16" by (auto simp: byte_ok_def)
  have "b = c \<longleftrightarrow> b div 16 = c div 16 \<and> b mod 16 = c mod 16"
    by (metis div_mult_mod_eq)
  then show ?case
    using 4 hex_digit_inj [OF r(1,2,5,6)] hex_digit_inj [OF r(3,4,7,8)] by (simp add: hex_bytes_def conj_assoc)
qed simp_all

lemma le_bytes_ok: "length (le_bytes n x) = n" "list_all byte_ok (le_bytes n x)"
  by (induction n arbitrary: x) (simp_all add: byte_ok_def)

lemma md5_Sum_ok: "length (md5_Sum d) = 16" "list_all byte_ok (md5_Sum d)"
  by (simp_all add: md5_Sum_def Let_def le_bytes_ok split: prod.split)

text \<open>
  White space around the data, of any kind \<open>unicode.IsSpace\<close> knows, does not change the hash, and
  the hash is always 32 lower-case hexadecimal digits, whatever the data.
\<close>

theorem hash_ignores_space:
  assumes "set ws \<subseteq> set space_encodings" and "set ws' \<subseteq> set space_encodings"
  shows "MD5Hasher_Hash (concat ws @ d @ concat ws') = MD5Hasher_Hash d \<and>
    length (MD5Hasher_Hash d) = 32 \<and> set (MD5Hasher_Hash d) \<subseteq> set ''0123456789abcdef''"
  using TrimSpace_spaces [OF assms] md5_Sum_ok [of "TrimSpace d"] hex_bytes_chars [of "md5_Sum (TrimSpace d)"]
  by (simp add: MD5Hasher_Hash_def hex_chars_def)

theorem hash_ignores_space_witness:
  "MD5Hasher_Hash (concat [[CHR 0xE2, CHR 0x80, CHR 0x83], '' ''] @ ''a b'' @ concat [[CHR 0x0A]]) = MD5Hasher_Hash ''a b''"
  by (rule hash_ignores_space [THEN conjunct1]) code_simp+

section \<open>Process identities\<close>

text \<open>The bytes of a UUID: the given ones but for the version and the variant.\<close>

definition uid_bytes :: "8 word list \<Rightarrow> 8 word list" where
  "uid_bytes random = set_variant (set_version random)"

lemma uid_bytes_nth:
  "length random = 16 \<Longrightarrow> i < 16 \<Longrightarrow> uid_bytes random ! i =
     (if i = 6 then (random ! 6 AND 0x0f) OR 0x40 else if i = 8 then (random ! 8 AND 0x3f) OR 0x80
      else random ! i)"
  by (simp add: uid_bytes_def set_variant_def set_version_def nth_list_update)

lemma byte_ok_uint: "list_all byte_ok (map uint (bs :: 8 word list))"
  using uint_lt2p [where 'a = 8] by (auto simp: list_all_iff byte_ok_def)

lemma map_uint_inj: "map uint u = map uint v \<longleftrightarrow> u = (v :: 'a::len word list)"
  by (rule inj_map_eq_map) (rule injI, rule word_uint_eqI)

lemma hex_slice_inj:
  assumes "length u = length v"
  shows "hex_slice a b u = hex_slice a b v \<longleftrightarrow> take (b - a) (drop a u) = take (b - a) (drop a v)"
  using assms hex_bytes_inj [OF byte_ok_uint byte_ok_uint] by (simp add: hex_slice_def map_uint_inj)

lemma length_hex_slice: "length (hex_slice a b u) = 2 * min (b - a) (length u - a)"
  by (simp add: hex_slice_def min.commute)

lemma generateUID_inj:
  assumes "length u = 16" and "length v = 16"
  shows "generateUID u = generateUID v \<longleftrightarrow> uid_bytes u = uid_bytes v"
proof
  assume e: "generateUID u = generateUID v"
  let ?u = "uid_bytes u" and ?v = "uid_bytes v"
  have l: "length ?u = 16" "length ?v = 16" using assms by (simp_all add: uid_bytes_def set_variant_def set_version_def)
  have "hex_slice 0 4 ?u = hex_slice 0 4 ?v \<and> hex_slice 4 6 ?u = hex_slice 4 6 ?v \<and>
      hex_slice 6 8 ?u = hex_slice 6 8 ?v \<and> hex_slice 8 10 ?u = hex_slice 8 10 ?v \<and>
      hex_slice 10 16 ?u = hex_slice 10 16 ?v"
    using e l by (simp add: generateUID_def Let_def uid_bytes_def [symmetric] length_hex_slice)
  then have t: "take 4 ?u = take 4 ?v" "take 2 (drop 4 ?u) = take 2 (drop 4 ?v)" "take 2 (drop 6 ?u) = take 2 (drop 6 ?v)"
      "take 2 (drop 8 ?u) = take 2 (drop 8 ?v)" "drop 10 ?u = drop 10 ?v"
    using l by (simp_all add: hex_slice_inj)
  have "w = take 4 w @ take 2 (drop 4 w) @ take 2 (drop 6 w) @ take 2 (drop 8 w) @ drop 10 w" for w :: "8 word list"
    using append_take_drop_id [of 2 "drop 8 w"] append_take_drop_id [of 2 "drop 6 w"]
      append_take_drop_id [of 2 "drop 4 w"] append_take_drop_id [of 4 w] by simp
  from this [of ?u] this [of ?v] t show "?u = ?v" by simp
qed (simp add: generateUID_def uid_bytes_def)

text \<open>The upper half of a byte.\<close>

lemma upper_half: "uint (w :: 8 word) div 16 = uint (drop_bit 4 w)"
  by (simp add: drop_bit_eq_div uint_div)

lemma low_bits: "drop_bit 4 ((x :: 8 word) AND 0x0f) = 0"
  using drop_bit_take_bit [of 4 4 x] by (simp add: take_bit_eq_mask mask_numeral)

lemma version_nibble: "uint (((x :: 8 word) AND 0x0f) OR 0x40) div 16 = 4"
  unfolding upper_half by (simp add: drop_bit_or low_bits)

lemma variant_nibble: "uint (((x :: 8 word) AND 0x3f) OR 0x80) div 16 \<in> {8, 9, 10, 11}"
proof -
  let ?y = "take_bit 2 (drop_bit 4 x)"
  have "drop_bit 4 (x AND 0x3f) = ?y"
    using drop_bit_take_bit [of 4 6 x] by (simp add: take_bit_eq_mask mask_numeral)
  then have e: "drop_bit 4 ((x AND 0x3f) OR 0x80) = ?y OR 8" by (simp add: drop_bit_or)
  have "0 \<le> uint ?y" "uint ?y < 4"
    using take_bit_int_less_exp [of 2 "uint (drop_bit 4 x)"] by (simp_all add: unsigned_take_bit_eq)
  then have "uint ?y = 0 \<or> uint ?y = 1 \<or> uint ?y = 2 \<or> uint ?y = 3" by presburger
  moreover have "uint (?y OR 8) = uint ?y OR 8" by (simp add: unsigned_or_eq)
  ultimately show ?thesis unfolding upper_half e by auto
qed

text \<open>
  C40. A process identity is a version 4 UUID: 36 characters with the version digit 4 and a variant
  digit between 8 and b, and the other 122 random bits all count: two identities are equal exactly
  when their random bytes agree outside the four bits of the version and the two of the variant.
\<close>

theorem uid_v4:
  assumes "length r = 16" and "length r' = 16"
  shows "length (generateUID r) = 36 \<and> generateUID r ! 14 = CHR ''4'' \<and>
    generateUID r ! 19 \<in> set ''89ab'' \<and>
    (generateUID r = generateUID r' \<longleftrightarrow>
       (\<forall>i. i < 16 \<longrightarrow> (if i = 6 then r ! i AND 0x0f = r' ! i AND 0x0f
                        else if i = 8 then r ! i AND 0x3f = r' ! i AND 0x3f else r ! i = r' ! i)))"
proof (intro conjI)
  let ?u = "uid_bytes r"
  have l: "length ?u = 16" "length (uid_bytes r') = 16"
    using assms by (simp_all add: uid_bytes_def set_variant_def set_version_def)
  have g: "generateUID r = hex_slice 0 4 ?u @ ''-'' @ hex_slice 4 6 ?u @ ''-'' @ hex_slice 6 8 ?u @ ''-'' @
      hex_slice 8 10 ?u @ ''-'' @ hex_slice 10 16 ?u"
    by (simp add: generateUID_def Let_def uid_bytes_def)
  show "length (generateUID r) = 36" unfolding g using l(1) by (simp add: length_hex_slice)
  have h: "hex_slice a b ?u ! 0 = hex_digit (uint (?u ! a) div 16)" if "a < b" "b \<le> 16" for a b
    using that l(1) by (cases "drop a ?u") (auto simp: hex_slice_def hex_bytes_def take_Cons' nth_via_drop)
  have "generateUID r ! 14 = hex_slice 6 8 ?u ! 0" "generateUID r ! 19 = hex_slice 8 10 ?u ! 0"
    unfolding g using l(1) by (simp_all add: nth_append length_hex_slice)
  then have d: "generateUID r ! 14 = hex_digit (uint (?u ! 6) div 16)"
      "generateUID r ! 19 = hex_digit (uint (?u ! 8) div 16)" using h by simp_all
  have "hex_digit 4 = CHR ''4''" "hex_digit 8 = CHR ''8''" "hex_digit 9 = CHR ''9''" "hex_digit 10 = CHR ''a''"
      "hex_digit 11 = CHR ''b''" by code_simp+
  then show "generateUID r ! 14 = CHR ''4''" "generateUID r ! 19 \<in> set ''89ab''"
    using version_nibble [of "r ! 6"] variant_nibble [of "r ! 8"] assms(1) unfolding d by (auto simp: uid_bytes_nth)
  have or_cancel: "(x AND m) OR k = (y AND m) OR k \<longleftrightarrow> x AND m = y AND m" if "m AND k = 0" for x y m k :: "8 word"
  proof
    assume "(x AND m) OR k = (y AND m) OR k"
    then have "((x AND m) OR k) AND m = ((y AND m) OR k) AND m" by simp
    then show "x AND m = y AND m" using that
      by (simp add: bit.conj_disj_distrib2 and.assoc and.commute [of k m])
  qed simp
  have "uid_bytes r = uid_bytes r' \<longleftrightarrow> (\<forall>i. i < 16 \<longrightarrow> uid_bytes r ! i = uid_bytes r' ! i)"
    using l by (simp add: list_eq_iff_nth_eq)
  then show "generateUID r = generateUID r' \<longleftrightarrow>
       (\<forall>i. i < 16 \<longrightarrow> (if i = 6 then r ! i AND 0x0f = r' ! i AND 0x0f
                        else if i = 8 then r ! i AND 0x3f = r' ! i AND 0x3f else r ! i = r' ! i))"
    unfolding generateUID_inj [OF assms]
    by (auto simp: uid_bytes_nth assms or_cancel split: if_splits)
qed

theorem uid_v4_witness:
  "generateUID (map word_of_int [0..15]) ! 14 = CHR ''4'' \<and>
   generateUID (map word_of_int [0..15]) = generateUID ((map word_of_int [0..15]) [6 := 0xa6])"
proof -
  let ?r = "map word_of_int [0..15] :: 8 word list"
  have l: "length ?r = 16" "length (?r [6 := 0xa6]) = 16" by simp_all
  have "?r ! 6 AND 0x0f = ?r [6 := 0xa6] ! 6 AND 0x0f" by code_simp
  then show ?thesis using uid_v4 [OF l] by (auto simp: nth_list_update split: if_splits)
qed

end
