(* ===== verification/Tty.thy ===== *)
theory Tty
  imports OsFS
begin

text \<open>
  \<open>src/toolkit/tty.go\<close>: the terminal test, and \<open>CreateTestStdio\<close>, a temporary file that stands in for a standard stream.
  (\<open>StdinHasData\<close> is with the streams of the runtime.) A panic with an error is the error outcome.
\<close>

text \<open>\<open>isatty\<close> is \<open>term.IsTerminal\<close> of \<open>golang.org/x/term\<close>, of a file descriptor.\<close>

definition IsInteractiveTerminal :: "(int \<Rightarrow> bool) \<Rightarrow> int \<Rightarrow> bool" where
  "IsInteractiveTerminal isatty fd = isatty fd"

text \<open>\<open>(*File).Seek\<close> from the start of a regular file.\<close>

definition os_Seek :: "handle \<Rightarrow> int \<Rightarrow> handle os" where
  "os_Seek h off w =
     (if off < 0 then (Inl (PathErr ''seek'' (h_name h) (Errno EINVAL)), w)
      else case faulty SysSeek (h_name h) w of
        Some e \<Rightarrow> (Inl (PathErr ''seek'' (h_name h) (Errno e)), w)
      | None \<Rightarrow> (Inr (h\<lparr>h_off := nat off\<rparr>), w))"

text \<open>Close and remove the file, whatever these answer.\<close>

definition discard :: "handle \<Rightarrow> unit os" where
  "discard f = attempt (os_Close f) (\<lambda>_. attempt (os_Remove (h_name f)) (\<lambda>_. ret ()))"

text \<open>\<open>tmp\<close> is \<open>os.TempDir()\<close>; the cleanup function of the file it returns is \<open>discard\<close>.\<close>

definition CreateTestStdio :: "string \<Rightarrow> string \<Rightarrow> handle os" where
  "CreateTestStdio tmp content =
     bindE (os_CreateTemp tmp ''test-stdio-'') (\<lambda>f.
       attempt (os_Write f content) (\<lambda>r.
         case r of
           Inl err \<Rightarrow> bindE (discard f) (\<lambda>_. fail err)
         | Inr n \<Rightarrow>
             attempt (os_Seek (f\<lparr>h_off := h_off f + n\<rparr>) 0) (\<lambda>r1.
               case r1 of
                 Inl err \<Rightarrow> bindE (discard f) (\<lambda>_. fail err)
               | Inr f1 \<Rightarrow> ret f1)))"

end
