(* ===== verification/Tty_Props.thy ===== *)
theory Tty_Props
  imports Tty OsFS_Props
begin

text \<open>\<open>CreateTestStdio\<close> gives a file to read from its start, and leaves nothing behind.\<close>

lemma discard_temp:
  assumes "discard f w1 = (r, w2)" and ts: "temp_state w (D @ [t]) i w1" and n: "names_ok (D @ [t])"
    and new: "node (nodes w) (D @ [t]) = None" and nm: "h_name f = abs_path (D @ [t])"
  shows "r = Inr () \<and> same_but {D @ [t]} w w2 \<and>
    (faults w SysUnlink (abs_path (D @ [t])) = None \<longrightarrow> same_but {} w w2)"
proof -
  obtain r1 wa where cl: "os_Close f w1 = (r1, wa)" by (metis prod.exhaust)
  have wa: "wa = w1" by (rule Close_same [OF cl])
  obtain r2 wb where rm: "os_Remove (abs_path (D @ [t])) w1 = (r2, wb)" by (metis prod.exhaust)
  have "r = Inr ()" "w2 = wb" using assms(1) cl rm wa nm by (simp_all add: discard_def attempt_def ret_def)
  then show ?thesis using temp_remove [OF rm ts n new] by simp
qed

lemma fresh_name: "\<exists>t :: string. map_of tr (D @ [t]) = None"
proof -
  have "finite {t :: string. map_of tr (D @ [t]) \<noteq> None}"
    by (rule finite_subset [of _ "last ` fst ` set tr"]) (force dest: map_of_SomeD)+
  then obtain t :: string where "t \<notin> {t. map_of tr (D @ [t]) \<noteq> None}"
    using ex_new_if_finite [OF infinite_UNIV_listI] by blast
  then show ?thesis by (intro exI [of _ t]) simp
qed

text \<open>What the call does once the file has been created.\<close>

definition stdio_outcome :: "string list \<Rightarrow> string \<Rightarrow> string \<Rightarrow> world \<Rightarrow> goerr + handle \<Rightarrow> world \<Rightarrow> bool" where
  "stdio_outcome D t content w r w1 \<longleftrightarrow>
     node (nodes w) (D @ [t]) = None \<and>
     (case r of
        Inl err \<Rightarrow> same_but {D @ [t]} w w1 \<and>
          (faults w SysUnlink (abs_path (D @ [t])) = None \<longrightarrow> same_but {} w w1)
      | Inr f \<Rightarrow> h_name f = abs_path (D @ [t]) \<and> h_loc f = D @ [t] \<and> h_off f = 0 \<and>
          (\<exists>i. node (nodes w1) (D @ [t]) = Some i \<and> kind i = KFile content) \<and> same_but {D @ [t]} w w1 \<and>
          (faults w SysUnlink (abs_path (D @ [t])) = None \<longrightarrow> same_but {} w (snd (discard f w1))))"

lemma stdio_after_create:
  assumes c: "CreateTestStdio (abs_path D) content w = (r, w1)"
    and ct: "os_CreateTemp (abs_path D) ''test-stdio-'' w = (Inr h, wt)" and nt: "names_ok (D @ [t])"
    and nm: "h_name h = abs_path (D @ [t])" "h_loc h = D @ [t]" "h_off h = 0" "\<not> h_append h"
    and new: "node (nodes w) (D @ [t]) = None" and ts: "temp_state w (D @ [t]) i wt" "kind i = KFile []"
  shows "stdio_outcome D t content w r w1"
proof -
  obtain rw ww where wr: "os_Write h content wt = (rw, ww)" by (metis prod.exhaust)
  obtain j where j: "temp_state w (D @ [t]) j ww" "\<forall>n. rw = Inr n \<longrightarrow> kind j = KFile content"
    using temp_write [OF wr ts nm(2-4) nt] by blast
  have gone: "stdio_outcome D t content w r w1"
    if "r = Inl e" and "snd (discard h' ww) = w1" and "h_name h' = h_name h" for e h'
    using discard_temp [OF prod.collapse [symmetric] j(1) nt new, of h'] that nm(1) new
    by (simp add: stdio_outcome_def)
  show ?thesis
  proof (cases rw)
    case (Inl e)
    have "r = Inl e" "snd (discard h ww) = w1"
      using c ct wr Inl by (auto simp: CreateTestStdio_def bindE_def attempt_def fail_def discard_def ret_def split: prod.splits)
    then show ?thesis by (rule gone) simp
  next
    case (Inr n)
    show ?thesis
    proof (cases "faulty SysSeek (h_name h) ww")
      case (Some e)
      have "discard (h\<lparr>h_off := x\<rparr>) = discard h" for x
        by (simp add: discard_def os_Close_def [abs_def] cong: option.case_cong)
      then have "r = Inl (PathErr ''seek'' (h_name h) (Errno e))" "snd (discard h ww) = w1"
        using c ct wr Inr Some
        by (auto simp: CreateTestStdio_def bindE_def attempt_def fail_def discard_def ret_def os_Seek_def split: prod.splits)
      then show ?thesis by (rule gone) simp
    next
      case None
      have f: "r = Inr (h\<lparr>h_off := 0\<rparr>)" "w1 = ww"
        using c ct wr Inr None by (simp_all add: CreateTestStdio_def bindE_def attempt_def ret_def os_Seek_def)
      have "h_name (h\<lparr>h_off := 0\<rparr>) = abs_path (D @ [t])" using nm by simp
      note dt = discard_temp [OF prod.collapse [symmetric] j(1) nt new this]
      show ?thesis using f new nm j Inr dt by (auto simp: stdio_outcome_def temp_state_def)
    qed
  qed
qed

text \<open>
  C36. \<open>CreateTestStdio\<close> is all or nothing, for a temporary directory that is a real directory (given
  by a clean absolute path without links). Whichever of its calls fails - opening, writing (also after
  a part of the bytes), seeking, closing, removing: when it returns, the file is a new one in the
  temporary directory that holds exactly the content, the offset is back at the start, nothing else on
  the host has changed, and the cleanup function removes it again; when it panics, no file is left,
  unless the removal itself failed, and then nothing but that file.
\<close>

theorem test_stdio_all_or_nothing:
  assumes c: "CreateTestStdio (abs_path D) content w = (r, w1)"
    and ok: "tree_ok (nodes w)" and dir: "is_dir_at (nodes w) D" and nD: "names_ok D" and pr: "plain_randoms w"
  shows "\<exists>t. node (nodes w) (D @ [t]) = None \<and>
    (case r of
       Inl err \<Rightarrow> same_but {D @ [t]} w w1 \<and>
         (faults w SysUnlink (abs_path (D @ [t])) = None \<longrightarrow> same_but {} w w1)
     | Inr f \<Rightarrow> h_name f = abs_path (D @ [t]) \<and> h_loc f = D @ [t] \<and> h_off f = 0 \<and>
         (\<exists>i. node (nodes w1) (D @ [t]) = Some i \<and> kind i = KFile content) \<and> same_but {D @ [t]} w w1 \<and>
         (faults w SysUnlink (abs_path (D @ [t])) = None \<longrightarrow> same_but {} w (snd (discard f w1))))"
proof -
  have pre: "CHR ''/'' \<notin> set x \<Longrightarrow> name_ok (''test-stdio-'' @ x)" for x by (simp add: name_ok_def)
  obtain rt wt where ct: "os_CreateTemp (abs_path D) ''test-stdio-'' w = (rt, wt)" by (metis prod.exhaust)
  have "create_temp 10000 (joinPath (abs_path D) ''test-stdio-'') w = (rt, wt)"
    using ct by (simp add: os_CreateTemp_def)
  note cs = create_temp_state [OF this ok dir nD pr pre]
  have "\<exists>t. stdio_outcome D t content w r w1"
  proof (cases rt)
    case (Inl e)
    have "r = Inl e" "w1 = wt" using c ct Inl by (simp_all add: CreateTestStdio_def bindE_def)
    moreover obtain t where "node (nodes w) (D @ [t]) = None" using fresh_name [of "nodes w" D] by blast
    ultimately show ?thesis using cs Inl by (auto simp: stdio_outcome_def same_but_def)
  next
    case (Inr h)
    then obtain x i where h: "h_loc h = D @ [''test-stdio-'' @ x]" "h_name h = abs_path (h_loc h)"
        "name_ok (''test-stdio-'' @ x)" "node (nodes w) (h_loc h) = None" "temp_state w (h_loc h) i wt"
        "kind i = KFile []" "h_off h = 0" "\<not> h_append h"
      using cs by auto
    then have "names_ok (D @ [''test-stdio-'' @ x])" using nD by simp
    then show ?thesis using stdio_after_create [OF c ct [unfolded Inr]] h by metis
  qed
  then show ?thesis by (simp only: stdio_outcome_def)
qed

definition no_seek_world :: world where
  "no_seek_world = demo_world\<lparr>faults := (\<lambda>c p. if c = SysSeek then Some (EIO, 0) else None)\<rparr>"

theorem test_stdio_all_or_nothing_witness:
  "(\<exists>f w1. CreateTestStdio ''/srv/jail'' ''input'' demo_world = (Inr f, w1) \<and> h_off f = 0 \<and>
     same_but {} demo_world (snd (discard f w1))) \<and>
   (\<exists>e w1. CreateTestStdio ''/srv/jail'' ''input'' no_seek_world = (Inl e, w1) \<and> same_but {} no_seek_world w1)"
proof
  have J: "abs_path demo_J = ''/srv/jail''" by code_simp
  have nl: "faults demo_world SysUnlink p = None" "faults no_seek_world SysUnlink p = None" for p
    by (simp_all add: demo_world_def no_seek_world_def)
  have ok: "tree_ok (nodes demo_world)" "is_dir_at (nodes demo_world) demo_J" "names_ok demo_J"
      "plain_randoms demo_world" using demo_jail by (simp_all add: jailed_host_def)
  have ok1: "tree_ok (nodes no_seek_world)" "is_dir_at (nodes no_seek_world) demo_J"
      "plain_randoms no_seek_world" using ok by (simp_all add: no_seek_world_def plain_randoms_def)
  obtain r w1 where c: "CreateTestStdio (abs_path demo_J) ''input'' demo_world = (r, w1)" by fastforce
  have "case fst (CreateTestStdio (abs_path demo_J) ''input'' demo_world) of Inl _ \<Rightarrow> False | Inr _ \<Rightarrow> True"
    by code_simp
  then obtain f where f: "r = Inr f" using c by (auto split: sum.splits)
  show "\<exists>f w1. CreateTestStdio ''/srv/jail'' ''input'' demo_world = (Inr f, w1) \<and> h_off f = 0 \<and>
      same_but {} demo_world (snd (discard f w1))"
    using test_stdio_all_or_nothing [OF c ok] nl c J unfolding f by auto
  obtain r2 w2 where c2: "CreateTestStdio (abs_path demo_J) ''input'' no_seek_world = (r2, w2)" by fastforce
  have "case fst (CreateTestStdio (abs_path demo_J) ''input'' no_seek_world) of Inl _ \<Rightarrow> True | Inr _ \<Rightarrow> False"
    by code_simp
  then obtain e where e: "r2 = Inl e" using c2 by (auto split: sum.splits)
  show "\<exists>e w1. CreateTestStdio ''/srv/jail'' ''input'' no_seek_world = (Inl e, w1) \<and> same_but {} no_seek_world w1"
    using test_stdio_all_or_nothing [OF c2 ok1(1,2) ok(3) ok1(3)] nl c2 J unfolding e by auto
qed

end
