(* ===== verification/Editor.thy ===== *)
theory Editor
  imports Runtime
begin

text \<open>
  \<open>Edit\<close> (\<open>src/toolkit/user.go\<close>): the user's editor on a file of the runtime. The program run is the
  parameter \<open>exec\<close>: its name, its arguments, the three streams and the environment it is given, on the
  host. \<open>None\<close> is a panic (an index out of range, a nil stream).
\<close>

section \<open>strings.Fields\<close>

definition space_at :: "string \<Rightarrow> string option" where
  "space_at s = find (\<lambda>e. e \<noteq> [] \<and> prefix e s) space_encodings"

text \<open>One pass over the bytes: how many of a space are left to skip, and the field so far, reversed.\<close>

fun fields_loop :: "nat \<Rightarrow> string \<Rightarrow> string \<Rightarrow> string list" where
  "fields_loop skip acc [] = (if acc = [] then [] else [rev acc])"
| "fields_loop (Suc k) acc (c # cs) = fields_loop k acc cs"
| "fields_loop 0 acc (c # cs) =
     (case space_at (c # cs) of
        Some e \<Rightarrow> (if acc = [] then [] else [rev acc]) @ fields_loop (length e - 1) [] cs
      | None \<Rightarrow> fields_loop 0 (c # acc) cs)"

definition Fields :: "string \<Rightarrow> string list" where
  "Fields s = fields_loop 0 [] s"

section \<open>Edit\<close>

type_synonym program = "string \<Rightarrow> string list \<Rightarrow> nat \<times> nat \<times> nat \<Rightarrow> string list \<Rightarrow> unit os"

definition on_host_rt :: "'a os \<Rightarrow> 'a rtio" where
  "on_host_rt m s = (case m (host_of s) of (r, w) \<Rightarrow> (r, (fst s, set_host w (snd s))))"

definition editor_path :: "string \<Rightarrow> string \<Rightarrow> string" where
  "editor_path jail resolvedPath =
     (if TrimSpace jail \<noteq> [] then Join [TrimSpace jail, TrimPrefix resolvedPath ''/''] else resolvedPath)"

definition editor_command :: "rts \<Rightarrow> string" where
  "editor_command s =
     (let visual = Runtime_Get ''VISUAL'' s;
          editor = (if blank visual then Runtime_Get ''EDITOR'' s else visual)
      in if blank editor then DefaultEditor else editor)"

definition stream_of :: "rts \<Rightarrow> stream option" where
  "stream_of s =
     (case fst s of None \<Rightarrow> None | Some rt \<Rightarrow> map_option (\<lambda>i. s_streams (snd s) ! i) (Runtime_Stream rt))"

definition Edit :: "program \<Rightarrow> string \<Rightarrow> rts \<Rightarrow> ((goerr + unit) \<times> rts) option" where
  "Edit exec path s0 =
     (if path = [] then Some (Inl (ErrMsg ''empty filepath''), s0)
      else case Runtime_ResolvePath path True s0 of
             (Inl err, s) \<Rightarrow> Some (Inl (Wrapped ''resolve edit path'' err), s)
           | (Inr resolvedPath, s) \<Rightarrow>
               (let editorPath = editor_path (Runtime_GetJail s) resolvedPath;
                    editor = editor_command s
                in case (Fields editor, stream_of s) of
                     (name # args, Some st) \<Rightarrow>
                       Some (attempt (on_host_rt (exec name (args @ [editorPath])
                                 (st_In st, st_Out st, st_Err st) (Runtime_Environ s)))
                               (\<lambda>r. case r of
                                      Inl err \<Rightarrow> fail (Wrapped (''running editor '' @ quoted editor) err)
                                    | Inr _ \<Rightarrow> ret ()) s)
                   | _ \<Rightarrow> None))"

end
