(* ===== verification/Editor_Props.thy ===== *)
theory Editor_Props
  imports Editor Runtime_Props
begin

text \<open>\<open>Edit\<close> opens the file that the runtime reads, and always has an editor to run.\<close>

section \<open>A command that is not blank has a field\<close>

lemma fields_acc: "acc \<noteq> [] \<Longrightarrow> fields_loop k acc s \<noteq> []"
  by (induction k acc s rule: fields_loop.induct) (auto split: option.splits)

lemma fields_blank: "fields_loop k [] s = [] \<Longrightarrow> strip_front space_encodings (drop k s) = []"
proof (induction s arbitrary: k)
  case Nil
  have "find (\<lambda>e. e \<noteq> [] \<and> prefix e []) space_encodings = None" by (auto simp: find_None_iff)
  then show ?case by (subst strip_front.simps) simp
next
  case (Cons c cs)
  show ?case
  proof (cases k)
    case (Suc k')
    then show ?thesis using Cons by simp
  next
    case 0
    then obtain e where e: "space_at (c # cs) = Some e" "fields_loop (length e - 1) [] cs = []"
      using Cons.prems fields_acc by (auto split: option.splits)
    then have f: "find (\<lambda>e. e \<noteq> [] \<and> prefix e (c # cs)) space_encodings = Some e" "e \<noteq> []"
      by (auto simp: space_at_def find_Some_iff)
    then have "drop (length e) (c # cs) = drop (length e - 1) cs" by (cases e) auto
    then show ?thesis
      unfolding 0 using Cons.IH [OF e(2)] f(1) by (subst strip_front.simps) simp
  qed
qed

lemma Fields_not_blank: "\<not> blank s \<Longrightarrow> \<exists>name args. Fields s = name # args"
proof (rule ccontr)
  assume b: "\<not> blank s" "\<nexists>name args. Fields s = name # args"
  then have "Fields s = []" by (cases "Fields s") auto
  then have "TrimLeftSpace s = []" using fields_blank [of 0 s] by (simp add: Fields_def TrimLeftSpace_def)
  moreover have "TrimLeftSpace [] = []" by (simp add: TrimLeftSpace_def strip_front.simps [of _ "[]"] space_encodings_def)
  ultimately have "TrimSpace s = TrimSpace []" by (simp add: TrimSpace_def)
  then show False using b(1) blank_Nil by simp
qed

lemma editor_command_runs: "\<exists>name args. Fields (editor_command s) = name # args"
proof (rule Fields_not_blank)
  have "CHR ''n'' \<in> set DefaultEditor" "\<forall>e \<in> set space_encodings. CHR ''n'' \<notin> set e"
    by (simp add: DefaultEditor_def) (simp add: space_encodings_def)
  then have "\<not> blank DefaultEditor" using TrimSpace_keeps by fastforce
  then show "\<not> blank (editor_command s)" by (simp add: editor_command_def Let_def)
qed

section \<open>The path handed to the editor\<close>

text \<open>A path checked lexically and then followed is followed as it was.\<close>

lemma resolveVirtual_twice:
  assumes wd: "wd_ok fs" and j: "clean_abs (fs_jail fs)"
    and p: "fst (resolveVirtual p False (fs, w)) = Inr q"
  shows "resolveVirtual q True (fs, w) = resolveVirtual p True (fs, w)"
proof -
  have ne: "fs_jail fs \<noteq> []" using j by (auto simp: clean_abs_def)
  note r = resolveVirtual_jailed [OF ne init_done [OF wd]]
  have q: "q = virtual_path fs p"
    using p by (auto simp: r jail_check_def Let_def split: if_splits)
  have "virtual_path fs q = q"
    unfolding q by (rule clean_absE [OF virtual_path_clean [OF wd, of p]]) (metis acomps_abs_path is_abs_abs_path virtual_path_abs)
  then show ?thesis by (simp add: r q)
qed

lemma resolveVirtual_refused:
  assumes wd: "wd_ok fs" and j: "clean_abs (fs_jail fs)"
    and p: "fst (resolveVirtual p False (fs, w)) = Inl e"
  shows "fst (resolveVirtual p True (fs, w)) = Inl e"
proof -
  have ne: "fs_jail fs \<noteq> []" using j by (auto simp: clean_abs_def)
  show ?thesis
    using p by (auto simp: resolveVirtual_jailed [OF ne init_done [OF wd]] jail_check_def Let_def split: if_splits)
qed

lemma editor_path_host:
  assumes "names_ok jc" and "names_ok r" and "TrimSpace (abs_path jc) = abs_path jc"
  shows "editor_path (abs_path jc) (abs_path r) = abs_path (jc @ r)"
proof -
  have e: "TrimPrefix (abs_path r) ''/'' = join_with CHR ''/'' r"
    by (simp add: abs_path_def TrimPrefix_def)
  have "Join [abs_path jc, join_with CHR ''/'' r] = abs_path (jc @ r)"
    using Join_abs_abs [OF assms(1,2)] assms by (simp add: Join_pair abs_path_def)
  then show ?thesis using assms(3) by (simp add: editor_path_def e)
qed

text \<open>The expansion of a path, and what the two resolutions make of it.\<close>

lemma ResolvePath_expand:
  assumes "in_step s"
  obtains (err) e where "\<And>f. Runtime_ResolvePath p f s = (Inl e, s)"
  | (path) c where "\<And>f. Runtime_ResolvePath p f s = (fst (resolveVirtual c f (view s)), s)"
proof -
  have "\<exists>r. (if blank p \<or> p = ''.'' then Runtime_Getwd else expand_abs p) s = (r, s)"
    using expand_abs_in_step [OF assms, of p] Runtime_Getwd_in_step [OF assms] by auto
  then obtain r where r: "(if blank p \<or> p = ''.'' then Runtime_Getwd else expand_abs p) s = (r, s)" by blast
  show ?thesis
  proof (cases r)
    case (Inl e)
    then have "Runtime_ResolvePath p f s = (Inl e, s)" for f
      using r by (simp add: Runtime_ResolvePath_def validated_in_step [OF assms] bindE_def)
    then show ?thesis by (rule err)
  next
    case (Inr c)
    then have "Runtime_ResolvePath p f s = (fst (resolveVirtual (Clean c) f (view s)), s)" for f
      using r on_fs_ResolvePath [OF assms]
      by (simp add: Runtime_ResolvePath_def validated_in_step [OF assms] bindE_def OsFS_ResolvePath_def)
    then show ?thesis by (rule path)
  qed
qed

lemma ReadFile_path:
  assumes "in_step s" and "Runtime_ResolvePath p False s = (Inr q, s)"
  shows "fst (Runtime_ReadFile p s) = fst (OsFS_ReadFile q (view s))"
  using assms by (simp add: Runtime_ReadFile_def at_path_def validated_in_step bindE_def on_fs_result)

text \<open>A resolved path: the file read, and the path handed to the editor.\<close>

lemma followed_host:
  assumes jail: "jail_at J fs w" and wd: "wd_ok fs" and p: "fst (resolveVirtual c False (fs, w)) = Inr q"
    and x: "fst (resolveVirtual c True (fs, w)) = Inr x" and trim: "TrimSpace (fs_jail fs) = fs_jail fs"
  shows "fst (OsFS_ReadFile q (fs, w)) = os_ReadFile (editor_path (fs_jail fs) x) w"
proof -
  obtain jc where jc: "names_ok jc" "fs_jail fs = abs_path jc" using jail by (elim jail_atE)
  then have cj: "clean_abs (fs_jail fs)" by simp
  have tw: "resolveVirtual q True (fs, w) = resolveVirtual c True (fs, w)"
    by (rule resolveVirtual_twice [OF wd cj p])
  have rv: "resolveVirtual c True (fs, w) = (Inr x, (fs, w))"
    using x resolveVirtual_state [OF wd, of c True w] by (simp add: prod_eq_iff)
  obtain r where r: "names_ok r" "x = abs_path r" "hostPath fs x = abs_path (jc @ r)"
    by (rule resolveVirtual_follow [OF jail rv]) (use jc abs_path_inj in metis)
  have "fst (OsFS_ReadFile q (fs, w)) = os_ReadFile (abs_path (jc @ r)) w"
    using tw rv r(3) by (simp add: OsFS_ReadFile_def resolveHost_def bindE_def getS_def os_query_def)
  then show ?thesis using editor_path_host [OF jc(1) r(1)] trim jc(2) r(2) by simp
qed

lemma unfollowed_read:
  assumes wd: "wd_ok fs" and j: "clean_abs (fs_jail fs)" and p: "fst (resolveVirtual c False (fs, w)) = Inr q"
    and x: "fst (resolveVirtual c True (fs, w)) = Inl e"
  shows "fst (OsFS_ReadFile q (fs, w)) = Inl e"
  using resolveVirtual_twice [OF wd j p] x resolveVirtual_state [OF wd, of c True w]
  by (cases "resolveVirtual c True (fs, w)") (simp add: OsFS_ReadFile_def resolveHost_def bindE_def)

lemma in_step_parts:
  assumes "in_step s"
  shows "Runtime_GetJail s = fs_jail (fs_of s)" "\<exists>st. stream_of s = Some st"
  using assms
  by (cases "fst s"; auto simp: in_step_def same_jail_def Runtime_GetJail_def complete_def stream_of_def
      Runtime_Stream_def)+

lemma Edit_resolved:
  assumes s: "in_step s" and p: "p \<noteq> []" and x: "Runtime_ResolvePath p True s = (Inr x, s)"
  shows "\<exists>name args st. \<forall>r s'.
    on_host_rt (exec name (args @ [editor_path (Runtime_GetJail s) x]) st (Runtime_Environ s)) s = (r, s') \<longrightarrow>
    Edit exec p s = Some (case r of Inl err \<Rightarrow> Inl (Wrapped (''running editor '' @ quoted (editor_command s)) err)
                          | Inr _ \<Rightarrow> Inr (), s')"
proof -
  obtain name args where ed: "Fields (editor_command s) = name # args" using editor_command_runs by blast
  obtain st where st: "stream_of s = Some st" using in_step_parts(2) [OF s] by blast
  show ?thesis
    by (rule exI [of _ name], rule exI [of _ args], rule exI [of _ "(st_In st, st_Out st, st_Err st)"])
      (use x p ed st in \<open>simp add: Edit_def Let_def attempt_def fail_def ret_def split: sum.split\<close>)
qed

text \<open>In a jail whose path ends in a blank the editor gets the path of a file of another directory.\<close>

lemma editor_trims_jail:
  "editor_path ''/srv/jail '' ''/f'' = ''/srv/jail/f'' \<and>
   hostPath \<lparr>fs_jail = ''/srv/jail '', fs_wd = ''/''\<rparr> ''/f'' = ''/srv/jail /f''"
  by code_simp

text \<open>
  C23. \<open>Edit\<close> and \<open>ReadFile\<close> mean the same file, for every path but the empty one, which \<open>Edit\<close> refuses
  (\<open>ReadFile\<close> takes it for the working directory), on a runtime in step on a test environment whose jail
  exists, possibly through links. When the path does not resolve, both fail with the same error and no
  editor is run. Otherwise the editor is run (there always is one, whatever \<open>VISUAL\<close> and \<open>EDITOR\<close> hold;
  \<open>Edit\<close> does not panic), with the runtime's environment, and its last argument is the host path that
  \<open>ReadFile\<close> reads, also when links lead there - provided that the jail's path has no white space at
  its ends, which \<open>Edit\<close> trims and \<open>ReadFile\<close> does not.
\<close>

theorem edit_opens_what_is_read:
  assumes s: "in_step s" and jail: "jail_at J (fs_of s) (host_of s)"
    and trim: "TrimSpace (Runtime_GetJail s) = Runtime_GetJail s"
  shows "if p = [] then Edit exec p s = Some (Inl (ErrMsg ''empty filepath''), s) else case fst (Runtime_ResolvePath p True s) of
      Inl err \<Rightarrow> Edit exec p s = Some (Inl (Wrapped ''resolve edit path'' err), s) \<and> fst (Runtime_ReadFile p s) = Inl err
    | Inr q \<Rightarrow> \<exists>name args st host.
        fst (Runtime_ReadFile p s) = os_ReadFile host (host_of s) \<and>
        (\<forall>r s'. on_host_rt (exec name (args @ [host]) st (Runtime_Environ s)) s = (r, s') \<longrightarrow>
           Edit exec p s = Some (case r of Inl err \<Rightarrow> Inl (Wrapped (''running editor '' @ quoted (editor_command s)) err)
                                 | Inr _ \<Rightarrow> Inr (), s'))"
proof (cases "p = []")
  case True
  then show ?thesis by (simp add: Edit_def fail_def)
next
  case p: False
  from s show ?thesis
  proof (cases rule: ResolvePath_expand [of s p])
    case (err e)
    then show ?thesis
      using p by (simp add: Edit_def Runtime_ReadFile_def at_path_def validated_in_step [OF s] bindE_def)
  next
    case (path c)
    let ?fs = "fs_of s" and ?w = "host_of s"
    have v: "view s = (?fs, ?w)" and wd: "wd_ok ?fs" using in_step_view [OF s] by auto
    have cj: "clean_abs (fs_jail ?fs)" using jail by (elim jail_atE) simp
    show ?thesis
    proof (cases "fst (resolveVirtual c False (?fs, ?w))")
      case (Inl e)
      then show ?thesis
        using resolveVirtual_refused [OF wd cj Inl] path p v
        by (simp add: Edit_def Runtime_ReadFile_def at_path_def validated_in_step [OF s] bindE_def)
    next
      case (Inr q)
      have rd: "fst (Runtime_ReadFile p s) = fst (OsFS_ReadFile q (?fs, ?w))"
        using ReadFile_path [OF s] path [of False] Inr v by simp
      show ?thesis
      proof (cases "fst (resolveVirtual c True (?fs, ?w))")
        case (Inl e)
        then show ?thesis using unfollowed_read [OF wd cj Inr Inl] rd path [of True] p v by (simp add: Edit_def)
      next
        case x: (Inr x)
        have rx: "Runtime_ResolvePath p True s = (Inr x, s)" using path [of True] x v by simp
        have host: "fst (Runtime_ReadFile p s) = os_ReadFile (editor_path (Runtime_GetJail s) x) ?w"
          using followed_host [OF jail wd Inr x] trim rd in_step_parts(1) [OF s] by simp
        show ?thesis unfolding rx fst_conv sum.case(2) host if_not_P [OF p] using Edit_resolved [OF s p rx, of exec] by blast
      qed
    qed
  qed
qed

theorem edit_opens_what_is_read_witness:
  "\<exists>host. os_ReadFile host demo_world = Inr ''old'' \<and>
     Edit (\<lambda>name args st env. fail (ErrMsg (last args))) ''~/../../f'' demo_rts =
       Some (Inl (Wrapped (''running editor '' @ quoted ''nano'') (ErrMsg host)), demo_rts)"
proof -
  let ?exec = "\<lambda>name args st env. fail (ErrMsg (last args)) :: unit os"
  have J: "jail_at demo_J (fs_of demo_rts) (host_of demo_rts)"
    using demo_jail demo_view jail_at_canonical by (auto simp: view_def jailed_host_def)
  have g: "Runtime_GetJail demo_rts = ''/srv/jail''" "TrimSpace ''/srv/jail'' = ''/srv/jail''"
    "fst (Runtime_ResolvePath ''~/../../f'' True demo_rts) = Inr ''/f''" "editor_command demo_rts = ''nano''"
    "fst (Runtime_ReadFile ''~/../../f'' demo_rts) = Inr ''old''"
    by code_simp+
  obtain name args st host where h: "fst (Runtime_ReadFile ''~/../../f'' demo_rts) = os_ReadFile host (host_of demo_rts)"
    "\<forall>r s'. on_host_rt (?exec name (args @ [host]) st (Runtime_Environ demo_rts)) demo_rts = (r, s') \<longrightarrow>
       Edit ?exec ''~/../../f'' demo_rts =
         Some (case r of Inl err \<Rightarrow> Inl (Wrapped (''running editor '' @ quoted (editor_command demo_rts)) err)
               | Inr _ \<Rightarrow> Inr (), s')"
    using edit_opens_what_is_read [OF demo_in_step J, of "''~/../../f''" ?exec] g by auto
  have "on_host_rt (?exec name (args @ [host]) st (Runtime_Environ demo_rts)) demo_rts = (Inl (ErrMsg host), demo_rts)"
    by (simp add: on_host_rt_def fail_def host_of_def set_host_def)
  then show ?thesis using h g demo_host by auto
qed

end
