(* ===== verification/Toolkit.thy ===== *)
theory Toolkit
  imports Runtime Mylog
begin

text \<open>
  The rest of \<open>src/toolkit\<close>: the functions that forward to the packages \<open>jail\<close>, \<open>env\<close> and
  \<open>filesystem\<close>, the defaults of \<open>clock\<close> and \<open>mylog\<close>, and the logger with a stack trace of \<open>log.go\<close>.
\<close>

section \<open>Forwarding\<close>

text \<open>\<open>filepath_jail.go\<close> and \<open>jail.go\<close>\<close>

definition toolkit_RemoveJailPrefix :: "string \<Rightarrow> string \<Rightarrow> string" where
  "toolkit_RemoveJailPrefix jailPath path = RemoveJailPrefix jailPath path"

definition toolkit_IsInJail :: "string \<Rightarrow> string \<Rightarrow> bool" where
  "toolkit_IsInJail jailPath rel = IsInJail jailPath rel"

definition toolkit_EnsureInJail :: "string \<Rightarrow> string \<Rightarrow> string" where
  "toolkit_EnsureInJail jailPath p = EnsureInJail jailPath p"

definition toolkit_EnsureInJailFor :: "string \<Rightarrow> string \<Rightarrow> string" where
  "toolkit_EnsureInJailFor jailPath p = EnsureInJailFor jailPath p"

definition toolkit_IsJailed :: "('j \<Rightarrow> string) \<Rightarrow> 'j option \<Rightarrow> bool" where
  "toolkit_IsJailed get j = IsJailed get j"

text \<open>\<open>env.go\<close>, \<open>env_testenv.go\<close> and \<open>filesystem_os.go\<close>\<close>

definition toolkit_GetDefault :: "(string \<Rightarrow> string) option \<Rightarrow> string \<Rightarrow> string \<Rightarrow> string" where
  "toolkit_GetDefault get key other = GetDefault get key other"

definition toolkit_ExpandEnv :: "(string \<Rightarrow> string) option \<Rightarrow> proc \<Rightarrow> string \<Rightarrow> string" where
  "toolkit_ExpandEnv get p s = ExpandEnv get p s"

definition toolkit_DumpEnv :: "dump_arg \<Rightarrow> proc \<Rightarrow> string" where
  "toolkit_DumpEnv a p = DumpEnv a p"

definition toolkit_NewTestEnv :: "string \<Rightarrow> string \<Rightarrow> string \<Rightarrow> testenv" where
  "toolkit_NewTestEnv jailPath home username = NewTestEnv jailPath home username"

definition toolkit_NewOsFS :: "string \<Rightarrow> string \<Rightarrow> world \<Rightarrow> goerr + osfs" where
  "toolkit_NewOsFS jailPath wd w = NewOsFS jailPath wd w"

section \<open>Defaults\<close>

definition NewDiscardLogger :: logger where
  "NewDiscardLogger = DiscardLogger"

definition Default_logger :: logger where
  "Default_logger = NewDiscardLogger"

definition Default_clock :: gclock where
  "Default_clock = OsClockV"

lemma defaults: "LoggerOrDefault None = Default_logger" "ClockOrDefault None = Default_clock"
  by (simp_all add: LoggerOrDefault_def Default_logger_def NewDiscardLogger_def ClockOrDefault_def Default_clock_def)

section \<open>Stack traces\<close>

text \<open>
  A frame of the call stack, and the decimal numeral of its line. The zero frame is what \<open>Next\<close> gives
  when there is none.
\<close>

record frame =
  fr_Function :: string
  fr_File :: string
  fr_Line :: nat

definition no_frame :: frame where
  "no_frame = \<lparr>fr_Function = [], fr_File = [], fr_Line = 0\<rparr>"

fun decimal :: "nat \<Rightarrow> string" where
  "decimal n = (if n < 10 then [char_of (48 + n)] else decimal (n div 10) @ [char_of (48 + n mod 10)])"

declare decimal.simps [simp del]

definition frame_text :: "frame \<Rightarrow> string" where
  "frame_text f =
     fr_Function f @ [CHR 0x0A, CHR 0x09] @ fr_File f @ '':'' @ decimal (fr_Line f) @ [CHR 0x0A]"

text \<open>The loop over the frames: it writes one even when there is none.\<close>

fun trace_loop :: "frame list \<Rightarrow> string" where
  "trace_loop [] = frame_text no_frame"
| "trace_loop [f] = frame_text f"
| "trace_loop (f # g # fs) = frame_text f @ trace_loop (g # fs)"

text \<open>\<open>stack\<close>: what \<open>runtime.Callers(0, ...)\<close> would return, \<open>runtime.Callers\<close> itself and \<open>getStackTrace\<close> first.\<close>

definition getStackTrace :: "frame list \<Rightarrow> nat \<Rightarrow> string" where
  "getStackTrace stack skip = trace_loop (take 10 (drop (skip + 1) stack))"

definition getTookitLogger :: "frame list \<Rightarrow> runtime option \<Rightarrow> logger \<times> 'v attr list" where
  "getTookitLogger stack rt =
     (LoggerOrDefault (case rt of None \<Rightarrow> None | Some r \<Rightarrow> Some (Runtime_Logger r)),
      [(''package'', StringVal ''toolkit''), (''stackTrace'', StringVal (getStackTrace stack 2))])"

text \<open>A trace has two lines for each of at most ten frames, and two when it has none.\<close>

lemma trace_loop_frames: "fs \<noteq> [] \<Longrightarrow> trace_loop fs = concat (map frame_text fs)"
  by (induction fs rule: trace_loop.induct) simp_all

lemma getStackTrace_frames:
  "getStackTrace stack skip =
     concat (map frame_text (if length stack \<le> skip + 1 then [no_frame] else take 10 (drop (skip + 1) stack)))"
  by (simp add: getStackTrace_def trace_loop_frames)

end
