(* ===== verification/Spec2Isabelle.thy ===== *)
theory Spec2Isabelle
  imports OsFS_Props Clock_Props Env_Props Runtime_Props Cascade_Props Mylog_Props AppCtx_Props Pipeline_Props
    Sandbox_Props Glob_Props SchedClock_Props Identity_Props Tty_Props Editor_Props Toolkit
begin

text \<open>
  A verification development of cli-toolkit, a Go library for command-line programs: a \<open>Runtime\<close> that
  carries the environment, the file system, the clock, the logger and the standard streams of a program,
  real or under test, and the tools to test with it.

  \<^bold>\<open>The parts and how they interact.\<close> A \<open>Runtime\<close> (\<open>src/toolkit/runtime.go\<close>) holds an \<open>Env\<close>
  (\<open>src/toolkit/env\<close>: \<open>TestEnv\<close> in memory, \<open>OsEnv\<close> on the process), a \<open>FileSystem\<close>
  (\<open>src/toolkit/filesystem\<close>: \<open>OsFS\<close>), a clock (\<open>src/clock\<close>: \<open>OsClock\<close>, \<open>TestClock\<close>), a logger
  (\<open>src/mylog\<close>), streams and a hasher. It keeps a jail (a directory no path may leave, \<open>src/toolkit/jail\<close>)
  and a working directory, which it pushes into the environment and the file system; paths go through
  variables, tildes and the working directory to the file system, which checks them against the jail and
  turns them into host paths. \<open>Sandbox\<close> (\<open>src/sandbox\<close>) builds such a runtime for a test in a temporary
  directory; its processes and pipelines run application code on clones of it. \<open>src/cfgcascade\<close> merges
  configuration layers and \<open>src/appctx\<close> finds an application's directories, both on top of the runtime.

  \<^bold>\<open>How code becomes definitions.\<close> A Go struct is a record, a pointer an index into a store of such records
  (so that aliases share state), a nil pointer \<open>None\<close>. A function that returns an error is a function of
  the state into an error or a value, and the new state (theory \<open>Prelude\<close>: \<open>bindE\<close> is \<open>if err != nil
  { return err }\<close>, \<open>attempt\<close> hands both outcomes on); an error does not undo what was done. A panic is an
  outcome, or \<open>None\<close>. Integers whose width matters are words: \<open>time.Duration\<close> and the ids of the scheduler
  64 bits, file modes and MD5 32, the bytes of a UUID 8. A string is its list of bytes. Definitions keep
  the names of the code, prefixed by the receiver's type (\<open>OsFS_Mkdir\<close> is \<open>(*OsFS).Mkdir\<close>); a loop or
  closure that became a definition of its own says so where it stands.

  \<^bold>\<open>The standard library.\<close> \<open>GoStrings\<close> (strings, white space), \<open>GoErrors\<close> (error chains), \<open>GoFilepath\<close>
  (\<open>Clean\<close>, \<open>Join\<close>, \<open>Rel\<close> ... by components), \<open>GoGlob\<close> (\<open>filepath.Match\<close> and \<open>Glob\<close>), \<open>GoExpand\<close>
  (\<open>os.Expand\<close>), \<open>GoHeap\<close> (\<open>container/heap\<close> over the locale \<open>heap_client\<close> of its three callbacks) and
  \<open>HostOS\<close>: a host file tree with links, permissions' bits, an umask and injected faults (of opening,
  writing, seeking, closing, removing, renaming, making directories and changing modes), the kernel's path walk, \<open>EvalSymlinks\<close>, and the calls of \<open>os\<close> the program makes. \<open>HostFacts\<close>
  relates the two walks; \<open>HostChange\<close> says of every call which locations it may change.

  \<^bold>\<open>The components.\<close>

  \<^item> \<open>Jail\<close>: \<open>jail/path.go\<close> and \<open>jail.go\<close>, on strings and on rendered components; the locale \<open>jailed\<close> is the
    interface \<open>Jailed\<close>, interpreted on \<open>OsFS\<close>, \<open>TestEnv\<close> and \<open>OsEnv\<close>.
  \<^item> \<open>OsFS\<close>: \<open>filesystem/os_fs.go\<close>, \<open>filesystem.go\<close> (\<open>Glob\<close> is in theory \<open>Glob\<close>). \<open>OsFS_Lookup\<close> and
    \<open>OsFS_Create\<close>: what the three resolvers return; \<open>OsFS_Confined\<close>, \<open>OsFS_Ops\<close>: every operation, alone and
    in runs, changes the host below the jail only (C1, C2) and reads below it only (C3); \<open>OsFS_Paths\<close>,
    \<open>OsFS_State\<close>: exact resolution (C4, C5, C9), reading back what was written (C6), the working directory
    (C8); \<open>OsFS_Missing\<close>: a jail that does not exist (C10); \<open>OsFS_Atomic\<close>: \<open>atomicWriteFile\<close> under faults of any call (C7).
    \<open>Glob_Props\<close>: the results of \<open>Glob\<close>, exactly (C35), and two ways in which it escapes that.
  \<^item> \<open>Clock\<close>: \<open>clock/clock.go\<close>, \<open>scheduler.go\<close>. \<open>Clock_Heap\<close>: the scheduler as a client of \<open>container/heap\<close>;
    \<open>Clock_Drain\<close>: its invariant (C11) and that the loop of \<open>advance\<close> ends (C12), as a relation \<open>drains\<close> that
    the loop computes; \<open>Clock_Fires\<close>, \<open>Clock_Props\<close>: what fires and in which order (C13, C15), additivity
    (C14), and what \<open>Stop\<close> means for all later uses of the clock (C16). \<open>SchedClock\<close>: \<open>scheduling.go\<close> with the locale \<open>scheduling_clock\<close> for the
    interface, interpreted on both clocks, and their agreement (C17).
  \<^item> \<open>Env\<close>: \<open>env/test_env.go\<close>, \<open>os_env.go\<close>, \<open>env.go\<close>. \<open>Env_Facts\<close>: the environments as stores of variables
    (locale \<open>env_vars\<close>); \<open>Env_Props\<close>: \<open>Environ\<close> (C19), moves between jails (C21). \<open>User\<close>: tildes and the
    per-user directories of \<open>user.go\<close>; \<open>Editor\<close>: its \<open>Edit\<close>, which opens the file the runtime reads (C23).
  \<^item> \<open>Runtime\<close>: \<open>runtime.go\<close>, \<open>runtime_impl.go\<close>, \<open>stdio.go\<close>. \<open>Runtime_Facts\<close>, \<open>Runtime_Ops\<close>, \<open>Runtime_New\<close>: the
    invariant \<open>in_step\<close> (runtime, environment and file system agree on jail and working directory) for
    every method and for construction (C26); \<open>Runtime_Props\<close>: confinement through the runtime (C27), what
    clones share (C28, C29), paths (C30, C31).
  \<^item> \<open>Sandbox\<close>: \<open>sandbox/sandbox.go\<close>. \<open>Sandbox_Facts\<close>: every method and option keeps a sandbox well formed
    (C25), with an introduction rule for each (collection \<open>sound_intros\<close>); \<open>Sandbox_Fixture\<close>: fixtures are
    copied whole (C20).
  \<^item> \<open>Process\<close>, \<open>Pipeline\<close>: \<open>sandbox/process.go\<close>, \<open>pipeline.go\<close>. A runner is a coinductive tree of reads,
    writes and runtime calls; goroutines interleave by a step relation, pipes are unbuffered;
    what every step keeps holds in every interleaving (locale \<open>schedule_invariant\<close>, three interpretations).
    \<open>Pipeline_Facts\<close>, \<open>Pipeline_Steps\<close>, \<open>Pipeline_Setup\<close>: an invariant of every reachable state;
    \<open>Pipeline_Props\<close>: data reaches the next stage unchanged (C38), and which pipelines never return (C24, C18).
    \<open>Pipeline_Confined\<close>: the goroutines on clones of one runtime, for runners that use it politely
    (coinductive \<open>polite\<close>): runtime, file system and environments stay in step, the jail holds (C39).
  \<^item> \<open>Cascade\<close>: \<open>src/cfgcascade\<close>. \<open>Cascade_Facts\<close>: the loop of \<open>Resolve\<close> as a fold over the loads, for any
    sorting routine with the promise of \<open>sort.Slice\<close> (locale \<open>slice_sort\<close>); C32, C33.
  \<^item> \<open>Mylog\<close>: \<open>src/mylog\<close>; the tree of test handlers refines one list of records
    with the attributes of their loggers (C34). \<open>AppCtx\<close>: \<open>src/appctx\<close>,
    with the git program as a parameter; the walk ends in the nearest work tree (C22, C37).
  \<^item> \<open>Hash\<close>, \<open>ProcInfo\<close>: \<open>hash.go\<close> with MD5, and \<open>process.go\<close> (C40). \<open>Tty\<close>: \<open>tty.go\<close> (C36). \<open>Toolkit\<close>:
    the forwarding functions of \<open>src/toolkit\<close> and the stack trace of \<open>log.go\<close>.

  \<^bold>\<open>Bounds.\<close> The kernel follows at most 40 links in a path and \<open>EvalSymlinks\<close> 255, as they do; results that
  need a path to resolve say so. \<open>os.CreateTemp\<close> tries 10000 names, \<open>filepath.Glob\<close> descends 10000 levels.
  The collecting loop of the scheduler and the climb of a handler to its root are partial functions,
  proved total on reachable states. The polls of \<open>RequireEntry\<close> are a list. No model takes fuel besides.

  \<^bold>\<open>Not modelled.\<close> Mutexes: every method runs to completion before the next, except the goroutines of a
  pipeline, which interleave. Hard links, permission checks and quotas of the host (an error of a system
  call is an injected fault), Windows paths, Unicode case tables (a parameter), the text and JSON encodings
  of \<open>log/slog\<close>, the bytes a closed file handle loses. Programs outside the repository (git, the user's
  editor, the application's runners, providers and merge functions) are parameters. Type aliases and the
  interface declarations have no behaviour and no definition of their own, but for the interfaces that
  became locales.
\<close>

end
